(* ===== verification/Prelude.thy ===== *)
theory Prelude
  imports Main "HOL-Library.AList" "HOL-Library.FSet" "HOL-Library.Sublist"
begin

text \<open>
  What the components share.

  \<^item> Results: every Python operation that can raise is a value of \<open>py_error + 'a\<close>,
    and \<open>and_then\<close> sequences two of them (the second runs only when the first returned).
  \<^item> Tables: a SQLite table with a primary key is an association list in \<open>rowid\<close> order;
    \<open>INSERT .. ON CONFLICT DO UPDATE\<close> is \<open>AList.update\<close>, \<open>DELETE .. WHERE key\<close> is
    \<open>AList.delete\<close>.  An \<open>UPDATE\<close> of chosen rows is \<open>update_where\<close>.
  \<^item> Generic invariant reasoning: the locales \<open>preserved\<close> and \<open>monotone_run\<close> lift a fact
    about one step to every run; each state machine of the development interprets them.
\<close>

section \<open>Results\<close>

text \<open>
  The exception classes that the modelled code raises or lets escape.  The message is kept as a
  tag where the code distinguishes several failures of one class.
\<close>

datatype py_error =
    ValueError string
  | RuntimeError string
  | TypeError
  | KeyError string
  | IntegrityError string

definition and_then :: "'e + 'a \<Rightarrow> ('a \<Rightarrow> 'e + 'b) \<Rightarrow> 'e + 'b" where
  "and_then r f = (case r of Inl e \<Rightarrow> Inl e | Inr x \<Rightarrow> f x)"

lemma and_then_simps [simp]:
  "and_then (Inl e) f = Inl e"
  "and_then (Inr x) f = f x"
  by (simp_all add: and_then_def)

lemma and_then_eq_Inr:
  "and_then r f = Inr y \<longleftrightarrow> (\<exists>x. r = Inr x \<and> f x = Inr y)"
  by (cases r) auto

lemma and_then_eq_Inl:
  "and_then r f = Inl e \<longleftrightarrow> r = Inl e \<or> (\<exists>x. r = Inr x \<and> f x = Inl e)"
  by (cases r) auto

lemma and_then_cong [fundef_cong]:
  "r = r' \<Longrightarrow> (\<And>x. r' = Inr x \<Longrightarrow> f x = g x) \<Longrightarrow> and_then r f = and_then r' g"
  by (cases r') auto

text \<open>A loop that may raise: left to right, stopping at the first failure.\<close>

fun fold_res :: "('a \<Rightarrow> 's \<Rightarrow> 'e + 's) \<Rightarrow> 'a list \<Rightarrow> 's \<Rightarrow> 'e + 's" where
  "fold_res f [] s = Inr s"
| "fold_res f (x # xs) s = and_then (f x s) (fold_res f xs)"

lemma fold_res_append:
  "fold_res f (xs @ ys) s = and_then (fold_res f xs s) (fold_res f ys)"
proof (induction xs arbitrary: s)
  case (Cons x xs)
  then show ?case by (cases "f x s") auto
qed simp

lemma fold_res_invariant:
  assumes "fold_res f xs s = Inr t" and "P s"
    and "\<And>x s t. x \<in> set xs \<Longrightarrow> P s \<Longrightarrow> f x s = Inr t \<Longrightarrow> P t"
  shows "P t"
  using assms
proof (induction xs arbitrary: s)
  case (Cons x xs)
  from Cons.prems(1) obtain u where "f x s = Inr u" and u: "fold_res f xs u = Inr t"
    by (auto simp: and_then_eq_Inr)
  with Cons.prems(2,3) have "P u" by auto
  with u show ?case using Cons.prems(3) by (auto intro: Cons.IH)
qed simp

section \<open>Tables\<close>

definition update_where :: "('a \<Rightarrow> bool) \<Rightarrow> ('a \<Rightarrow> 'a) \<Rightarrow> 'a list \<Rightarrow> 'a list" where
  "update_where p f rows = map (\<lambda>r. if p r then f r else r) rows"

lemma length_update_where [simp]: "length (update_where p f rows) = length rows"
  by (simp add: update_where_def)

lemma set_update_where:
  "set (update_where p f rows) = f ` {r \<in> set rows. p r} \<union> {r \<in> set rows. \<not> p r}"
  by (auto simp: update_where_def)

lemma map_update_where:
  "(\<And>r. p r \<Longrightarrow> g (f r) = g r) \<Longrightarrow> map g (update_where p f rows) = map g rows"
  by (auto simp: update_where_def)

lemma update_where_Nil [simp]: "update_where p f [] = []"
  by (simp add: update_where_def)

lemma update_where_Cons [simp]:
  "update_where p f (r # rows) = (if p r then f r else r) # update_where p f rows"
  by (simp add: update_where_def)

abbreviation keys :: "('k \<times> 'v) list \<Rightarrow> 'k list" where
  "keys tbl \<equiv> map fst tbl"

text \<open>\<open>UPDATE tbl SET .. WHERE pk = k\<close>: the row with that key, if there is one.\<close>

definition update_key :: "'k \<Rightarrow> ('v \<Rightarrow> 'v) \<Rightarrow> ('k \<times> 'v) list \<Rightarrow> ('k \<times> 'v) list" where
  "update_key k f tbl = map (\<lambda>(k', v). (k', if k' = k then f v else v)) tbl"

lemma keys_update_key [simp]: "keys (update_key k f tbl) = keys tbl"
  by (auto simp: update_key_def)

lemma map_of_update_key:
  "map_of (update_key k f tbl) k' = (if k' = k then map_option f (map_of tbl k) else map_of tbl k')"
  by (induction tbl) (auto simp: update_key_def)

lemma length_update_key [simp]: "length (update_key k f tbl) = length tbl"
  by (simp add: update_key_def)

text \<open>\<open>UPDATE tbl SET ..\<close> without a \<open>WHERE\<close>.\<close>

definition update_all :: "('v \<Rightarrow> 'v) \<Rightarrow> ('k \<times> 'v) list \<Rightarrow> ('k \<times> 'v) list" where
  "update_all f tbl = map (\<lambda>(k, v). (k, f v)) tbl"

lemma keys_update_all [simp]: "keys (update_all f tbl) = keys tbl"
  by (auto simp: update_all_def)

lemma map_of_update_all: "map_of (update_all f tbl) k = map_option f (map_of tbl k)"
  by (induction tbl) (auto simp: update_all_def)

lemma map_of_snoc:
  "k \<notin> set (keys tbl) \<Longrightarrow> map_of (tbl @ [(k, v)]) = (map_of tbl)(k \<mapsto> v)"
  by (induction tbl) auto

lemma not_key_iff: "k \<notin> set (keys tbl) \<longleftrightarrow> map_of tbl k = None"
  by (simp add: map_of_eq_None_iff)

lemma find_append_Some: "find P xs = Some x \<Longrightarrow> find P (xs @ ys) = Some x"
  by (induction xs) (auto split: if_splits)

lemma find_append_None: "find P ys = None \<Longrightarrow> find P (xs @ ys) = find P xs"
  by (induction xs) auto

lemma find_snoc: "find P xs = None \<Longrightarrow> P y \<Longrightarrow> find P (xs @ [y]) = Some y"
  by (induction xs) (auto split: if_splits)

lemma alist_update_values:
  assumes "(k, v) \<in> set (AList.update a b tbl)"
  shows "(k, v) = (a, b) \<or> (k, v) \<in> set tbl"
  using assms by (induction tbl) (auto split: if_splits)

section \<open>Runs of a state machine\<close>

text \<open>
  An invariant that every step keeps holds along every run.  The step relation is the
  component's; the lemmas are used through the interpretations in the component's theory.
\<close>

locale preserved =
  fixes step :: "'s \<Rightarrow> 's \<Rightarrow> bool" and inv :: "'s \<Rightarrow> bool"
  assumes step_inv: "inv s \<Longrightarrow> step s t \<Longrightarrow> inv t"
begin

lemma run_inv: "step\<^sup>*\<^sup>* s t \<Longrightarrow> inv s \<Longrightarrow> inv t"
  by (induction rule: rtranclp_induct) (blast intro: step_inv)+

end

text \<open>
  A quantity that every step from an invariant state moves in one direction of a preorder
  moves in that direction along every run.
\<close>

locale monotone_run = preserved +
  fixes obs :: "'s \<Rightarrow> 'o" and le :: "'o \<Rightarrow> 'o \<Rightarrow> bool"
  assumes le_refl: "le x x"
    and le_trans: "le x y \<Longrightarrow> le y z \<Longrightarrow> le x z"
    and step_le: "inv s \<Longrightarrow> step s t \<Longrightarrow> le (obs s) (obs t)"
begin

lemma run_le: "step\<^sup>*\<^sup>* s t \<Longrightarrow> inv s \<Longrightarrow> le (obs s) (obs t)"
proof (induction rule: rtranclp_induct)
  case base
  show ?case by (rule le_refl)
next
  case (step t u)
  then have "inv t" by (blast intro: run_inv)
  with step show ?case by (blast intro: le_trans step_le)
qed

end

end
