(* ===== verification/Reducer.thy ===== *)
theory Reducer
  imports Prelude
begin

text \<open>
  \<open>lib/rozoro_monitor/reducer.py\<close>: the pure lifecycle reducer.  A session's producer sends
  numbered events; the reducer applies them strictly in the order of their numbers, buffers the
  ones that arrive early, drops the ones that arrive late, and derives an availability from two
  independent axes (foreground turn, background jobs).

  An event is the validated protocol message as a record (\<open>Protocol.thy\<close> shows that every
  validated lifecycle message is one).  \<open>OtherKind\<close> stands for the types that the last
  \<open>else\<close> of \<open>_apply_contiguous\<close> refuses.
\<close>

section \<open>Data\<close>

datatype foreground = FgRunning | FgStopped | FgUnknown

datatype background = BgActive | BgClear | BgUnknown

datatype availability = Busy | WaitingBackground | Quiescent | AvBlocked | Gone | AvUnknown

datatype harness = Claude | Pi | Codex | Copilot

datatype role = Crew | Watchtower

type_synonym ident = string

datatype event_kind =
    SessionRegister
  | TurnStart ident
  | BackgroundStart ident string
  | BackgroundStop ident string
  | BackgroundSnapshot int
  | TurnStop "bool option" "ident option"
  | SessionEnd
  | OtherKind string

record event =
  ev_id :: ident
  ev_session :: ident
  ev_harness :: harness
  ev_role :: role
  ev_task :: "ident option"
  ev_driver :: "ident option"
  producer_no :: int
  ev_kind :: event_kind

record report_facts =
  rf_verdict :: "string option"
  rf_status :: string
  rf_accepted :: bool

definition unobserved_report :: report_facts where
  "unobserved_report = \<lparr>rf_verdict = None, rf_status = ''unobserved'', rf_accepted = False\<rparr>"

record pending_event =
  pe_seq :: int
  pe_fields :: event

definition thaw :: "pending_event \<Rightarrow> event" where
  "thaw p = pe_fields p"

record lifecycle =
  foreground :: foreground
  background :: background
  availability :: availability
  background_certified :: bool
  active_jobs :: "ident fset"
  anonymous_active :: int
  active_presence_only :: bool
  producer_seq :: int
  pending_events :: "pending_event list"
  sequence_gap :: bool
  session_ended :: bool
  session_gone :: bool
  adapter_connected :: bool
  foreground_fresh :: bool
  background_fresh :: bool
  blocked :: bool
  report :: report_facts

text \<open>The defaults of the dataclass: \<open>LifecycleState()\<close>.\<close>

definition init_lifecycle :: lifecycle where
  "init_lifecycle = \<lparr>foreground = FgUnknown, background = BgUnknown, availability = AvUnknown,
     background_certified = False, active_jobs = {||}, anonymous_active = 0,
     active_presence_only = False, producer_seq = 0, pending_events = [], sequence_gap = False,
     session_ended = False, session_gone = False, adapter_connected = True,
     foreground_fresh = True, background_fresh = True, blocked = False,
     report = unobserved_report\<rparr>"

definition active_count :: "lifecycle \<Rightarrow> int option" where
  "active_count st =
     (if background st = BgUnknown \<or> \<not> background_certified st then None
      else Some (int (fcard (active_jobs st)) + anonymous_active st))"

record reduction =
  rd_state :: lifecycle
  rd_applied :: bool
  rd_reason :: "string option"

section \<open>Derivation of availability\<close>

definition derive_availability ::
  "foreground \<Rightarrow> background \<Rightarrow> bool \<Rightarrow> bool \<Rightarrow> bool \<Rightarrow> availability" where
  "derive_availability fg bg is_blocked is_gone connected =
     (if is_gone then Gone
      else if \<not> connected then AvUnknown
      else if is_blocked then AvBlocked
      else if fg = FgRunning then Busy
      else if fg = FgStopped \<and> bg = BgActive then WaitingBackground
      else if fg = FgStopped \<and> bg = BgClear then Quiescent
      else AvUnknown)"

definition derived :: "lifecycle \<Rightarrow> availability" where
  "derived c = derive_availability
     (if foreground_fresh c then foreground c else FgUnknown)
     (if background_fresh c then background c else BgUnknown)
     (blocked c \<and> foreground_fresh c)
     (session_ended c \<or> session_gone c)
     (adapter_connected c \<and> \<not> sequence_gap c)"

text \<open>\<open>_finish(state, **changes)\<close>, applied to the state with the changes already made.\<close>

definition finish :: "lifecycle \<Rightarrow> lifecycle" where
  "finish c = c\<lparr>availability := derived c\<rparr>"

section \<open>One event in order\<close>

text \<open>\<open>background.stop\<close>: which positive fact the stop retires, in the code's order.\<close>

definition stop_job :: "ident \<Rightarrow> lifecycle \<Rightarrow> lifecycle" where
  "stop_job j st =
     (if j |\<in>| active_jobs st then st\<lparr>active_jobs := active_jobs st |-| {|j|}\<rparr>
      else if anonymous_active st \<noteq> 0 then st\<lparr>anonymous_active := anonymous_active st - 1\<rparr>
      else if active_presence_only st then st\<lparr>active_presence_only := False\<rparr>
      else st)"

definition any_active :: "lifecycle \<Rightarrow> bool" where
  "any_active st \<longleftrightarrow>
     active_jobs st \<noteq> {||} \<or> anonymous_active st \<noteq> 0 \<or> active_presence_only st"

text \<open>
  The branches of \<open>_apply_contiguous\<close> for a live session, as the state with that branch's
  changes; \<open>st\<close> already carries the new producer sequence and the adapter mark.
\<close>

fun kind_changes :: "event_kind \<Rightarrow> lifecycle \<Rightarrow> py_error + lifecycle" where
  "kind_changes SessionRegister st = Inr st"
| "kind_changes (TurnStart _) st =
     Inr (st\<lparr>foreground := FgRunning, foreground_fresh := True, blocked := False\<rparr>)"
| "kind_changes (TurnStop certified _) st =
     (let st = st\<lparr>foreground := FgStopped, foreground_fresh := True, blocked := False\<rparr> in
      case certified of
        Some False \<Rightarrow>
          Inr (st\<lparr>active_jobs := {||}, anonymous_active := 0, active_presence_only := False,
                  background := BgClear, background_certified := True, background_fresh := True\<rparr>)
      | Some True \<Rightarrow>
          Inr (st\<lparr>active_presence_only :=
                    (if active_jobs st = {||} \<and> anonymous_active st = 0 then True
                     else active_presence_only st),
                  background := BgActive, background_fresh := True,
                  background_certified := False\<rparr>)
      | None \<Rightarrow>
          Inr (st\<lparr>background_certified := False,
                  background := (if any_active st then BgActive else BgUnknown)\<rparr>))"
| "kind_changes (BackgroundStart j _) st =
     Inr (st\<lparr>background_fresh := True, active_jobs := finsert j (active_jobs st),
             background := BgActive\<rparr>)"
| "kind_changes (BackgroundStop j _) st =
     (let st = stop_job j (st\<lparr>background_fresh := True\<rparr>) in
      Inr (st\<lparr>background :=
                (if \<not> any_active st \<and> background_certified st then BgClear
                 else if any_active st then BgActive else BgUnknown)\<rparr>))"
| "kind_changes (BackgroundSnapshot n) st =
     Inr (st\<lparr>background_fresh := True, active_jobs := {||}, anonymous_active := n,
             active_presence_only := False,
             background := (if n \<noteq> 0 then BgActive else BgClear),
             background_certified := True\<rparr>)"
| "kind_changes SessionEnd st =
     Inr (st\<lparr>foreground := FgStopped, foreground_fresh := True, background_fresh := True,
             session_ended := True, session_gone := True, active_jobs := {||},
             anonymous_active := 0, active_presence_only := False, background := BgClear,
             background_certified := True\<rparr>)"
| "kind_changes (OtherKind _) st = Inl (ValueError ''unsupported lifecycle event type'')"

definition contiguous_changes :: "lifecycle \<Rightarrow> event \<Rightarrow> py_error + lifecycle" where
  "contiguous_changes st ev =
     (let st1 = st\<lparr>producer_seq := producer_no ev, adapter_connected := True\<rparr> in
      if session_ended st then Inr st1 else kind_changes (ev_kind ev) st1)"

definition apply_contiguous :: "lifecycle \<Rightarrow> event \<Rightarrow> py_error + lifecycle" where
  "apply_contiguous st ev = and_then (contiguous_changes st ev) (\<lambda>c. Inr (finish c))"

lemma finish_fields [simp]:
  "pending_events (finish c) = pending_events c"
  "producer_seq (finish c) = producer_seq c"
  "sequence_gap (finish c) = sequence_gap c"
  "session_ended (finish c) = session_ended c"
  "session_gone (finish c) = session_gone c"
  "foreground (finish c) = foreground c"
  "background (finish c) = background c"
  "background_certified (finish c) = background_certified c"
  "active_jobs (finish c) = active_jobs c"
  "anonymous_active (finish c) = anonymous_active c"
  "active_presence_only (finish c) = active_presence_only c"
  "adapter_connected (finish c) = adapter_connected c"
  "foreground_fresh (finish c) = foreground_fresh c"
  "background_fresh (finish c) = background_fresh c"
  "blocked (finish c) = blocked c"
  "report (finish c) = report c"
  "availability (finish c) = derived c"
  by (simp_all add: finish_def)

lemma stop_job_frame [simp]:
  "pending_events (stop_job j st) = pending_events st"
  "producer_seq (stop_job j st) = producer_seq st"
  "session_ended (stop_job j st) = session_ended st"
  "session_gone (stop_job j st) = session_gone st"
  "background_certified (stop_job j st) = background_certified st"
  by (simp_all add: stop_job_def)

lemma kind_changes_frame:
  "kind_changes k st = Inr c \<Longrightarrow>
     pending_events c = pending_events st \<and> producer_seq c = producer_seq st"
  by (cases k) (auto simp: Let_def split: option.splits bool.splits)

lemma contiguous_changes_frame:
  "contiguous_changes st ev = Inr c \<Longrightarrow>
     pending_events c = pending_events st \<and> producer_seq c = producer_no ev"
  by (auto simp: contiguous_changes_def Let_def dest: kind_changes_frame split: if_splits)

lemma apply_contiguous_frame:
  "apply_contiguous st ev = Inr c \<Longrightarrow>
     pending_events c = pending_events st \<and> producer_seq c = producer_no ev"
  by (auto simp: apply_contiguous_def and_then_eq_Inr dest: contiguous_changes_frame)

section \<open>The reducer\<close>

text \<open>
  The loop over buffered events that have become next in line.  It ends because every turn
  takes one event off the buffer and applying an event never adds one.
\<close>

function drain_pending :: "lifecycle \<Rightarrow> py_error + lifecycle" where
  "drain_pending st =
     (case pending_events st of
        [] \<Rightarrow> Inr st
      | p # ps \<Rightarrow>
          if pe_seq p = producer_seq st + 1
          then and_then (apply_contiguous (st\<lparr>pending_events := ps\<rparr>) (thaw p)) drain_pending
          else Inr st)"
  by pat_completeness auto
termination
  by (relation "measure (\<lambda>st. length (pending_events st))") (auto dest: apply_contiguous_frame)

declare drain_pending.simps [simp del]

definition reduce_event :: "lifecycle \<Rightarrow> event \<Rightarrow> py_error + reduction" where
  "reduce_event st ev =
     (let seq = producer_no ev in
      if seq \<le> 0 then Inl (ValueError ''producer_seq must be a positive integer'')
      else if seq \<le> producer_seq st \<or> (\<exists>item \<in> set (pending_events st). pe_seq item = seq)
      then Inr \<lparr>rd_state = st, rd_applied = False, rd_reason = Some ''stale-producer-seq''\<rparr>
      else if seq > producer_seq st + 1 then
        (let queued = sort_key pe_seq (pending_events st @ [\<lparr>pe_seq = seq, pe_fields = ev\<rparr>]);
             buffered = finish (st\<lparr>pending_events := queued, sequence_gap := True\<rparr>)
         in Inr \<lparr>rd_state = buffered, rd_applied = False, rd_reason = Some ''producer-seq-gap''\<rparr>)
      else
        and_then (and_then (apply_contiguous st ev) drain_pending) (\<lambda>current.
          Inr \<lparr>rd_state = finish (current\<lparr>sequence_gap := (pending_events current \<noteq> [])\<rparr>),
               rd_applied = True, rd_reason = None\<rparr>))"

definition observe_gone :: "lifecycle \<Rightarrow> bool \<Rightarrow> lifecycle" where
  "observe_gone st gone = finish (st\<lparr>session_gone := (session_ended st \<or> gone)\<rparr>)"

definition set_adapter_connected :: "lifecycle \<Rightarrow> bool \<Rightarrow> lifecycle" where
  "set_adapter_connected st connected =
     finish (st\<lparr>adapter_connected := connected, foreground_fresh := False,
                background_fresh := False, background_certified := False\<rparr>)"

definition with_report :: "lifecycle \<Rightarrow> string option \<Rightarrow> string \<Rightarrow> bool \<Rightarrow> lifecycle" where
  "with_report st v status accepted =
     st\<lparr>report := \<lparr>rf_verdict = v, rf_status = status, rf_accepted = accepted\<rparr>\<rparr>"

text \<open>A whole producer stream, as the store feeds it: one \<open>reduce_event\<close> after the other.\<close>

definition reduce_step :: "event \<Rightarrow> lifecycle \<Rightarrow> py_error + lifecycle" where
  "reduce_step ev st = and_then (reduce_event st ev) (\<lambda>r. Inr (rd_state r))"

definition reduce_all :: "event list \<Rightarrow> lifecycle \<Rightarrow> py_error + lifecycle" where
  "reduce_all evs st = fold_res reduce_step evs st"

end
