(* ===== verification/Reducer_Facts.thy ===== *)
theory Reducer_Facts
  imports Reducer
begin

text \<open>
  What the lifecycle reducer guarantees: its invariant, that the arrival order and the
  multiplicity of a producer's events do not matter, that a session's end is final, and that
  \<open>quiescent\<close> is only ever derived from two fresh, certified axes with no job left.
\<close>

section \<open>The invariant\<close>

definition event_ok :: "event \<Rightarrow> bool" where
  "event_ok ev \<longleftrightarrow> (case ev_kind ev of BackgroundSnapshot n \<Rightarrow> 0 \<le> n | _ \<Rightarrow> True)"

definition axes_ok :: "lifecycle \<Rightarrow> bool" where
  "axes_ok st \<longleftrightarrow> 0 \<le> anonymous_active st \<and> (background st = BgActive \<longleftrightarrow> any_active st)
     \<and> (background_certified st \<longrightarrow> background st \<noteq> BgUnknown)
     \<and> (session_ended st \<longrightarrow> session_gone st)"

definition buffered_after :: "int \<Rightarrow> pending_event list \<Rightarrow> bool" where
  "buffered_after n ps \<longleftrightarrow> sorted_wrt (\<lambda>p q. pe_seq p < pe_seq q) ps \<and>
     (\<forall>p \<in> set ps. n < pe_seq p \<and> pe_seq p = producer_no (pe_fields p) \<and> event_ok (pe_fields p))"

definition lifecycle_wf :: "lifecycle \<Rightarrow> bool" where
  "lifecycle_wf st \<longleftrightarrow> 0 \<le> producer_seq st \<and> axes_ok st
     \<and> buffered_after (producer_seq st + 1) (pending_events st)
     \<and> (sequence_gap st \<longleftrightarrow> pending_events st \<noteq> [])
     \<and> availability st = derived st"

lemma any_active_simps [simp]:
  "any_active (finish c) = any_active c"
  "any_active (st\<lparr>producer_seq := n\<rparr>) = any_active st"
  "any_active (st\<lparr>adapter_connected := b\<rparr>) = any_active st"
  "any_active (st\<lparr>foreground := f\<rparr>) = any_active st"
  "any_active (st\<lparr>foreground_fresh := b\<rparr>) = any_active st"
  "any_active (st\<lparr>blocked := b\<rparr>) = any_active st"
  "any_active (st\<lparr>background_certified := b\<rparr>) = any_active st"
  "any_active (st\<lparr>pending_events := ps\<rparr>) = any_active st"
  "any_active (st\<lparr>sequence_gap := b\<rparr>) = any_active st"
  "any_active (st\<lparr>background := x\<rparr>) = any_active st"
  "any_active (st\<lparr>background_fresh := b\<rparr>) = any_active st"
  by (simp_all add: any_active_def)

lemma axes_ok_simps [simp]:
  "axes_ok (finish c) = axes_ok c"
  "axes_ok (st\<lparr>producer_seq := n\<rparr>) = axes_ok st"
  "axes_ok (st\<lparr>adapter_connected := b\<rparr>) = axes_ok st"
  "axes_ok (st\<lparr>foreground := f\<rparr>) = axes_ok st"
  "axes_ok (st\<lparr>foreground_fresh := b\<rparr>) = axes_ok st"
  "axes_ok (st\<lparr>blocked := b\<rparr>) = axes_ok st"
  "axes_ok (st\<lparr>background_fresh := b\<rparr>) = axes_ok st"
  "axes_ok (st\<lparr>pending_events := ps\<rparr>) = axes_ok st"
  "axes_ok (st\<lparr>sequence_gap := b\<rparr>) = axes_ok st"
  by (simp_all add: axes_ok_def)

lemma axes_ok_stop_job: "axes_ok st \<Longrightarrow> 0 \<le> anonymous_active (stop_job j st)"
  by (auto simp: axes_ok_def stop_job_def)

lemma kind_changes_axes:
  assumes "axes_ok st" and "kind_changes k st = Inr c"
    and "case k of BackgroundSnapshot n \<Rightarrow> 0 \<le> n | _ \<Rightarrow> True"
  shows "axes_ok c"
proof (cases k)
  case (BackgroundStop j r)
  define t where "t = stop_job j (st\<lparr>background_fresh := True\<rparr>)"
  from assms(1) have "axes_ok (st\<lparr>background_fresh := True\<rparr>)"
    by (simp add: axes_ok_def)
  then have "0 \<le> anonymous_active t" "session_ended t \<longrightarrow> session_gone t"
    unfolding t_def by (rule axes_ok_stop_job) (use assms(1) in \<open>simp add: axes_ok_def\<close>)
  then have "axes_ok (t\<lparr>background :=
      (if \<not> any_active t \<and> background_certified t then BgClear
       else if any_active t then BgActive else BgUnknown)\<rparr>)"
    by (simp add: axes_ok_def)
  with assms(2) show ?thesis
    by (simp only: BackgroundStop kind_changes.simps Let_def t_def sum.inject)
next
  case (TurnStop b t)
  consider (none) "b = None" | (active) "b = Some True" | (clear) "b = Some False"
    by (cases b) auto
  then show ?thesis
  proof cases
    case none
    with assms(1,2) show ?thesis by (auto simp: TurnStop axes_ok_def Let_def)
  next
    case active
    with assms(1,2) show ?thesis
      by (simp add: TurnStop axes_ok_def Let_def) (auto simp: any_active_def)
  next
    case clear
    with assms(1,2) show ?thesis by (auto simp: TurnStop axes_ok_def any_active_def Let_def)
  qed
next
  case (BackgroundSnapshot n)
  with assms show ?thesis by (auto simp: axes_ok_def any_active_def split: if_splits)
next
  case SessionRegister
  with assms(1,2) show ?thesis by simp
next
  case (TurnStart t)
  with assms(1,2) show ?thesis by auto
next
  case (BackgroundStart j w)
  with assms(1,2) have "c = st\<lparr>background_fresh := True, active_jobs := finsert j (active_jobs st),
      background := BgActive\<rparr>"
    by simp
  with assms(1) show ?thesis by (simp add: axes_ok_def any_active_def)
next
  case SessionEnd
  with assms(2) show ?thesis by (auto simp: axes_ok_def any_active_def)
next
  case (OtherKind t)
  with assms(2) show ?thesis by simp
qed

lemma contiguous_changes_axes:
  "axes_ok st \<Longrightarrow> event_ok ev \<Longrightarrow> contiguous_changes st ev = Inr c \<Longrightarrow> axes_ok c"
  using kind_changes_axes [of "st\<lparr>producer_seq := producer_no ev, adapter_connected := True\<rparr>"
      "ev_kind ev" c]
  by (auto simp: contiguous_changes_def Let_def event_ok_def split: if_splits)

section \<open>Independence of the arrival order\<close>

text \<open>
  The events an implementation of the protocol can send: all but \<open>OtherKind\<close>.  For them no
  step raises, so a step is a plain function \<open>step_core\<close>.
\<close>

definition supported :: "event \<Rightarrow> bool" where
  "supported ev \<longleftrightarrow> (\<forall>t. ev_kind ev \<noteq> OtherKind t)"

definition step_core :: "lifecycle \<Rightarrow> event \<Rightarrow> lifecycle" where
  "step_core st ev = (case contiguous_changes st ev of Inr c \<Rightarrow> c | Inl _ \<Rightarrow> st)"

definition core :: "lifecycle \<Rightarrow> lifecycle" where
  "core st = st\<lparr>availability := AvUnknown, sequence_gap := False, pending_events := []\<rparr>"

lemma kind_changes_core:
  "(\<forall>t. k \<noteq> OtherKind t) \<Longrightarrow>
     (\<exists>c. kind_changes k st = Inr c \<and> kind_changes k (core st) = Inr (core c))"
  by (cases k)
    (auto simp: core_def Let_def any_active_def stop_job_def split: option.splits bool.splits)

lemma contiguous_changes_core:
  assumes "supported ev"
  shows "\<exists>c. contiguous_changes st ev = Inr c \<and> contiguous_changes (core st) ev = Inr (core c)"
proof -
  let ?st = "st\<lparr>producer_seq := producer_no ev, adapter_connected := True\<rparr>"
  have "core ?st = (core st)\<lparr>producer_seq := producer_no ev, adapter_connected := True\<rparr>"
    by (simp add: core_def)
  moreover have "session_ended (core st) = session_ended st"
    by (simp add: core_def)
  ultimately show ?thesis
    using kind_changes_core [of "ev_kind ev" ?st] assms
    by (auto simp: contiguous_changes_def Let_def supported_def)
qed

lemma step_core_core: "supported ev \<Longrightarrow> core (step_core st ev) = step_core (core st) ev"
  using contiguous_changes_core [of ev st] by (auto simp: step_core_def)

lemma contiguous_changes_supported:
  "supported ev \<Longrightarrow> contiguous_changes st ev = Inr (step_core st ev)"
  using contiguous_changes_core [of ev st] by (auto simp: step_core_def)

lemma apply_contiguous_supported:
  "supported ev \<Longrightarrow> apply_contiguous st ev = Inr (finish (step_core st ev))"
  by (simp add: apply_contiguous_def contiguous_changes_supported)

lemma step_core_frame [simp]:
  "supported ev \<Longrightarrow> producer_seq (step_core st ev) = producer_no ev"
  "supported ev \<Longrightarrow> pending_events (step_core st ev) = pending_events st"
  using contiguous_changes_frame [OF contiguous_changes_supported] by simp_all

lemma core_simps [simp]:
  "core (finish c) = core c"
  "core (core c) = core c"
  "core (c\<lparr>sequence_gap := b\<rparr>) = core c"
  "core (c\<lparr>pending_events := ps\<rparr>) = core c"
  "producer_seq (core c) = producer_seq c"
  by (simp_all add: core_def finish_def)

lemma finish_core:
  "core s = core t \<Longrightarrow> finish (s\<lparr>pending_events := ps, sequence_gap := g\<rparr>)
     = finish (t\<lparr>pending_events := ps, sequence_gap := g\<rparr>)"
proof -
  assume "core s = core t"
  then have "s\<lparr>pending_events := ps, sequence_gap := g, availability := a\<rparr> =
    t\<lparr>pending_events := ps, sequence_gap := g, availability := a\<rparr>" for a
    by (cases s, cases t) (simp add: core_def)
  from this [of AvUnknown] this show ?thesis
    by (cases s, cases t) (simp add: finish_def derived_def)
qed

text \<open>
  The buffer seen as a sorted list beside a core state: take what is next in line.
\<close>

fun consume :: "lifecycle \<Rightarrow> pending_event list \<Rightarrow> lifecycle \<times> pending_event list" where
  "consume c [] = (c, [])"
| "consume c (p # ps) =
     (if pe_seq p = producer_seq c + 1 then consume (step_core c (pe_fields p)) ps
      else (c, p # ps))"

definition assemble :: "lifecycle \<times> pending_event list \<Rightarrow> lifecycle" where
  "assemble cr = finish ((fst cr)\<lparr>pending_events := snd cr, sequence_gap := (snd cr \<noteq> [])\<rparr>)"

text \<open>A buffer entry carries the number of its event, and that event's type is known.\<close>

definition numbered :: "pending_event \<Rightarrow> bool" where
  "numbered p \<longleftrightarrow> pe_seq p = producer_no (pe_fields p) \<and> supported (pe_fields p)"

lemma numbered_step [simp]:
  "numbered p \<Longrightarrow> producer_seq (step_core c (pe_fields p)) = pe_seq p"
  by (simp add: numbered_def)

definition buffer_ok :: "int \<Rightarrow> pending_event list \<Rightarrow> bool" where
  "buffer_ok n ps \<longleftrightarrow> sorted_wrt (\<lambda>p q. pe_seq p < pe_seq q) ps \<and>
     (\<forall>p \<in> set ps. n < pe_seq p \<and> numbered p)"

lemma buffer_ok_Nil [simp]: "buffer_ok n []"
  by (simp add: buffer_ok_def)

lemma buffer_ok_Cons:
  "buffer_ok n (p # ps) \<longleftrightarrow> n < pe_seq p \<and> numbered p \<and> buffer_ok (pe_seq p) ps"
  by (fastforce simp: buffer_ok_def)

lemma buffer_ok_mono: "buffer_ok n ps \<Longrightarrow> m \<le> n \<Longrightarrow> buffer_ok m ps"
  by (fastforce simp: buffer_ok_def)

lemma drain_consume:
  assumes "buffer_ok n (pending_events s)"
  shows "\<exists>t. drain_pending s = Inr t \<and> (core t, pending_events t) = consume (core s) (pending_events s)"
  using assms
proof (induction "pending_events s" arbitrary: s n)
  case Nil
  then show ?case by (simp add: drain_pending.simps)
next
  case (Cons p ps)
  note ps = Cons.hyps(2) [symmetric]
  show ?case
  proof (cases "pe_seq p = producer_seq s + 1")
    case False
    then show ?thesis by (simp add: drain_pending.simps ps)
  next
    case True
    from Cons.prems have p: "supported (pe_fields p)" "buffer_ok (pe_seq p) ps"
      by (auto simp: ps buffer_ok_Cons numbered_def)
    define s' where "s' = finish (step_core (s\<lparr>pending_events := ps\<rparr>) (pe_fields p))"
    have s': "pending_events s' = ps" "core s' = step_core (core s) (pe_fields p)"
      using p(1) by (simp_all add: s'_def step_core_core)
    have "drain_pending s = drain_pending s'"
      using True p(1) by (subst drain_pending.simps) (simp add: ps thaw_def s'_def apply_contiguous_supported)
    moreover have "\<exists>t. drain_pending s' = Inr t
        \<and> (core t, pending_events t) = consume (core s') (pending_events s')"
      using Cons.hyps(1) [of s' "pe_seq p"] p(2) s'(1) by simp
    ultimately show ?thesis using True by (simp add: ps s')
  qed
qed

lemma insort_snoc:
  fixes f :: "'a \<Rightarrow> int"
  assumes "sorted_wrt (\<lambda>p q. f p < f q) R" and "f e \<notin> f ` set R"
  shows "sort_key f (R @ [e]) = insort_key f e R"
  using assms
proof (induction R)
  case (Cons p R)
  have "sort_key f ((p # R) @ [e]) = insort_key f p (insort_key f e R)"
    using Cons by simp
  also have "\<dots> = insort_key f e (insort_key f p R)"
    using Cons.prems by (intro insort_key_left_comm) auto
  also have "insort_key f p R = p # R"
    using Cons.prems by (intro insort_is_Cons) auto
  finally show ?case .
qed simp

lemma buffer_ok_insort:
  assumes "buffer_ok n R" and "n < pe_seq e" and "pe_seq e \<notin> pe_seq ` set R" and "numbered e"
  shows "buffer_ok n (insort_key pe_seq e R)"
  using assms
proof (induction R arbitrary: n)
  case (Cons p R)
  show ?case
  proof (cases "pe_seq e \<le> pe_seq p")
    case True
    with Cons.prems show ?thesis by (auto simp: buffer_ok_Cons)
  next
    case False
    with Cons.prems Cons.IH [of "pe_seq p"] show ?thesis by (auto simp: buffer_ok_Cons)
  qed
qed (simp add: buffer_ok_Cons)

lemma consume_bounds:
  assumes "buffer_ok (producer_seq c) L" and "consume c L = (c', R)"
  shows "producer_seq c \<le> producer_seq c' \<and> buffer_ok (producer_seq c' + 1) R
    \<and> set R \<subseteq> set L \<and> (\<forall>p \<in> set L. pe_seq p \<le> producer_seq c' \<or> p \<in> set R)"
  using assms
proof (induction c L rule: consume.induct)
  case (2 c p ps)
  from "2.prems"(1) have p: "producer_seq c < pe_seq p" "numbered p" "buffer_ok (pe_seq p) ps"
    by (simp_all add: buffer_ok_Cons)
  show ?case
  proof (cases "pe_seq p = producer_seq c + 1")
    case True
    have "consume (step_core c (pe_fields p)) ps = (c', R)"
      using "2.prems"(2) True by simp
    from "2.IH" [OF True _ this] p have
      "pe_seq p \<le> producer_seq c' \<and> buffer_ok (producer_seq c' + 1) R
        \<and> set R \<subseteq> set ps \<and> (\<forall>q \<in> set ps. pe_seq q \<le> producer_seq c' \<or> q \<in> set R)"
      by simp
    with p(1) show ?thesis by auto
  next
    case False
    with "2.prems"(2) have "c' = c" "R = p # ps" by auto
    with False p show ?thesis by (simp add: buffer_ok_Cons)
  qed
qed simp

lemma consume_insort:
  assumes "buffer_ok (producer_seq c) L" and "producer_seq c < pe_seq e"
    and "pe_seq e \<notin> pe_seq ` set L" and "consume c L = (c', R)"
  shows "consume c (insort_key pe_seq e L) =
    (if producer_seq c' + 1 < pe_seq e then (c', insort_key pe_seq e R)
     else consume (step_core c' (pe_fields e)) R)"
  using assms
proof (induction c L rule: consume.induct)
  case (1 c)
  then show ?case by auto
next
  case (2 c p ps)
  from "2.prems"(1) have p: "producer_seq c < pe_seq p" "numbered p" "buffer_ok (pe_seq p) ps"
    by (simp_all add: buffer_ok_Cons)
  from "2.prems"(3) have ne: "pe_seq e \<noteq> pe_seq p" "pe_seq e \<notin> pe_seq ` set ps" by auto
  show ?case
  proof (cases "pe_seq p = producer_seq c + 1")
    case True
    with "2.prems"(2) ne have lt: "pe_seq p < pe_seq e" by simp
    have c: "consume (step_core c (pe_fields p)) ps = (c', R)"
      using "2.prems"(4) True by simp
    from "2.IH" [OF True _ _ ne(2) c] p lt have
      "consume (step_core c (pe_fields p)) (insort_key pe_seq e ps) =
        (if producer_seq c' + 1 < pe_seq e then (c', insort_key pe_seq e R)
         else consume (step_core c' (pe_fields e)) R)"
      by simp
    with True lt show ?thesis by simp
  next
    case False
    with "2.prems"(4) have c': "c' = c" "R = p # ps" by auto
    from False p(1) have gt: "producer_seq c + 1 < pe_seq p" by simp
    with False ne "2.prems"(2) show ?thesis by (auto simp: c')
  qed
qed

lemma consume_covers:
  assumes "buffer_ok (producer_seq c) L" and "consume c L = (c', R)"
    and "producer_seq c < k" and "k \<le> producer_seq c'"
  shows "k \<in> pe_seq ` set L"
  using assms
proof (induction c L rule: consume.induct)
  case (2 c p ps)
  from "2.prems"(1) have p: "producer_seq c < pe_seq p" "numbered p" "buffer_ok (pe_seq p) ps"
    by (simp_all add: buffer_ok_Cons)
  show ?case
  proof (cases "pe_seq p = producer_seq c + 1")
    case True
    have "consume (step_core c (pe_fields p)) ps = (c', R)"
      using "2.prems"(2) True by simp
    from "2.IH" [OF True _ this] p "2.prems"(3,4) True show ?thesis
      by (cases "k = pe_seq p") auto
  next
    case False
    with "2.prems" show ?thesis by simp
  qed
qed simp

definition as_pending :: "event \<Rightarrow> pending_event" where
  "as_pending ev = \<lparr>pe_seq = producer_no ev, pe_fields = ev\<rparr>"

lemma as_pending_simps [simp]:
  "pe_seq (as_pending ev) = producer_no ev" "pe_fields (as_pending ev) = ev"
  by (simp_all add: as_pending_def)

lemma reduce_step_assemble:
  assumes "buffer_ok (producer_seq c + 1) R" and "0 \<le> producer_seq c" and "supported ev"
    and "core c = c"
  shows "reduce_step ev (assemble (c, R)) =
    (if producer_no ev \<le> 0 then Inl (ValueError ''producer_seq must be a positive integer'')
     else if producer_no ev \<le> producer_seq c \<or> producer_no ev \<in> pe_seq ` set R
     then Inr (assemble (c, R))
     else if producer_seq c + 1 < producer_no ev
     then Inr (assemble (c, insort_key pe_seq (as_pending ev) R))
     else Inr (assemble (consume (step_core c ev) R)))"
proof -
  let ?s = "assemble (c, R)"
  have s: "producer_seq ?s = producer_seq c" "pending_events ?s = R" "core ?s = c"
    using assms(4) by (simp_all add: assemble_def)
  have mem: "(\<exists>item \<in> set R. pe_seq item = producer_no ev) \<longleftrightarrow> producer_no ev \<in> pe_seq ` set R"
    by (metis (no_types, lifting) image_iff)
  consider (stale) "producer_no ev \<le> producer_seq c \<or> producer_no ev \<in> pe_seq ` set R"
    | (gap) "producer_no ev \<notin> pe_seq ` set R" "producer_seq c + 1 < producer_no ev"
    | (next_one) "producer_no ev \<notin> pe_seq ` set R" "producer_no ev = producer_seq c + 1"
    by linarith
  then show ?thesis
  proof cases
    case stale
    then show ?thesis by (simp add: reduce_step_def reduce_event_def Let_def s mem)
  next
    case gap
    have ins: "sort_key pe_seq (R @ [as_pending ev]) = insort_key pe_seq (as_pending ev) R"
      using assms(1) gap(1) by (intro insort_snoc) (auto simp: buffer_ok_def)
    have ne: "insort_key pe_seq (as_pending ev) R \<noteq> []"
      by (metis insort_not_Nil)
    have "finish (?s\<lparr>pending_events := insort_key pe_seq (as_pending ev) R, sequence_gap := True\<rparr>)
        = finish (c\<lparr>pending_events := insort_key pe_seq (as_pending ev) R, sequence_gap := True\<rparr>)"
      by (rule finish_core) (simp add: s assms)
    with gap ins ne show ?thesis
      using assms(2)
      by (auto simp: reduce_step_def reduce_event_def Let_def s mem assemble_def
          as_pending_def [symmetric])
  next
    case next_one
    have none: "\<forall>item \<in> set R. pe_seq item \<noteq> producer_seq c + 1"
      using next_one by (metis (no_types, lifting) image_eqI)
    define s1 where "s1 = finish (step_core ?s ev)"
    have s1: "pending_events s1 = R" "core s1 = step_core c ev"
      using assms(3) s by (simp_all add: s1_def step_core_core)
    obtain t where t: "drain_pending s1 = Inr t"
      and tc: "(core t, pending_events t) = consume (step_core c ev) R"
      using drain_consume [of _ s1] assms(1) s1 by metis
    have "finish (t\<lparr>sequence_gap := (pending_events t \<noteq> [])\<rparr>)
        = finish (t\<lparr>pending_events := pending_events t, sequence_gap := (pending_events t \<noteq> [])\<rparr>)"
      by simp
    also have "\<dots> = finish ((core t)\<lparr>pending_events := pending_events t,
        sequence_gap := (pending_events t \<noteq> [])\<rparr>)"
      by (rule finish_core) simp
    also have "\<dots> = assemble (consume (step_core c ev) R)"
      by (simp add: assemble_def tc [symmetric])
    finally show ?thesis
      using next_one(2) assms(2,3) t none
      by (auto simp: reduce_step_def reduce_event_def Let_def s mem apply_contiguous_supported
          s1_def [symmetric])
  qed
qed

text \<open>
  The arrivals of a stream after the starting point, as the sorted buffer they would form.
\<close>

definition one_per_number :: "event list \<Rightarrow> bool" where
  "one_per_number evs \<longleftrightarrow>
     (\<forall>a \<in> set evs. \<forall>b \<in> set evs. producer_no a = producer_no b \<longrightarrow> a = b)"

definition buffer_of :: "int \<Rightarrow> event list \<Rightarrow> pending_event list \<Rightarrow> bool" where
  "buffer_of n evs L \<longleftrightarrow> buffer_ok n L \<and> set L = as_pending ` {e \<in> set evs. n < producer_no e}"

lemma as_pending_inj: "inj as_pending"
  by (rule injI) (simp add: as_pending_def)

lemma numbered_as_pending [simp]: "numbered (as_pending e) \<longleftrightarrow> supported e"
  by (simp add: numbered_def)

lemma buffer_of_snoc:
  assumes L: "buffer_of n evs L" and e: "supported e" "n < producer_no e" "e \<notin> set evs"
    and one: "one_per_number (evs @ [e])"
  shows "buffer_of n (evs @ [e]) (insort_key pe_seq (as_pending e) L)
    \<and> producer_no e \<notin> pe_seq ` set L"
proof -
  have fresh: "producer_no e \<notin> pe_seq ` set L"
    using L e one by (auto simp: buffer_of_def one_per_number_def)
  moreover have "buffer_ok n (insort_key pe_seq (as_pending e) L)"
    using L e fresh by (intro buffer_ok_insort) (auto simp: buffer_of_def)
  ultimately show ?thesis
    using L e by (auto simp: buffer_of_def set_insort_key)
qed

lemma reduce_all_snoc:
  "reduce_all (evs @ [e]) st = and_then (reduce_all evs st) (reduce_step e)"
  by (cases "reduce_all evs st")
    (auto simp: reduce_all_def fold_res_append and_then_def split: sum.splits)

text \<open>
  The result of a stream from an unbuffered state is a function of the set of its events.
\<close>

lemma reduce_all_canonical:
  assumes "core c = c" and "0 \<le> producer_seq c"
    and "\<forall>e \<in> set evs. supported e \<and> 0 < producer_no e" and "one_per_number evs"
  shows "\<exists>L. buffer_of (producer_seq c) evs L \<and>
    reduce_all evs (assemble (c, [])) = Inr (assemble (consume c L))"
  using assms(3,4)
proof (induction evs rule: rev_induct)
  case Nil
  show ?case by (intro exI [of _ "[]"]) (simp add: buffer_of_def reduce_all_def)
next
  case (snoc e evs)
  from snoc.prems have one: "one_per_number evs" by (auto simp: one_per_number_def)
  from snoc.IH [OF _ one] snoc.prems obtain L where L: "buffer_of (producer_seq c) evs L"
    and r: "reduce_all evs (assemble (c, [])) = Inr (assemble (consume c L))"
    by auto
  obtain c' R where cR: "consume c L = (c', R)" by (cases "consume c L")
  have ok: "buffer_ok (producer_seq c) L" using L by (simp add: buffer_of_def)
  note b = consume_bounds [OF ok cR]
  have core_c': "core c' = c'"
  proof -
    obtain t where "drain_pending (c\<lparr>pending_events := L\<rparr>) = Inr t"
      and "(core t, pending_events t) = consume (core c) L"
      using drain_consume [of "producer_seq c" "c\<lparr>pending_events := L\<rparr>"] ok by auto
    with cR assms(1) show ?thesis by (auto simp del: core_simps(1) simp: core_simps(2))
  qed
  from snoc.prems have e: "supported e" "0 < producer_no e" by auto
  from b assms(2) have R: "buffer_ok (producer_seq c' + 1) R" "0 \<le> producer_seq c'" by auto
  note step = reduce_step_assemble [OF R e(1) core_c']
  show ?case
  proof (cases "producer_no e \<le> producer_seq c \<or> e \<in> set evs")
    case True
    then have "producer_no e \<le> producer_seq c' \<or> producer_no e \<in> pe_seq ` set R"
    proof
      assume "e \<in> set evs"
      show ?thesis
      proof (cases "producer_no e \<le> producer_seq c")
        case False
        with \<open>e \<in> set evs\<close> L have "as_pending e \<in> set L" by (auto simp: buffer_of_def)
        with b have "pe_seq (as_pending e) \<le> producer_seq c' \<or> as_pending e \<in> set R" by blast
        then show ?thesis by (metis as_pending_simps(1) image_eqI)
      qed (use b in auto)
    qed (use b in auto)
    with step e(2) have "reduce_step e (assemble (c', R)) = Inr (assemble (c', R))" by auto
    with r cR have "reduce_all (evs @ [e]) (assemble (c, [])) = Inr (assemble (consume c L))"
      by (simp add: reduce_all_snoc)
    moreover have "buffer_of (producer_seq c) (evs @ [e]) L"
      using L True by (auto simp: buffer_of_def)
    ultimately show ?thesis by blast
  next
    case False
    then have e3: "producer_seq c < producer_no e" "e \<notin> set evs" by auto
    let ?L = "insort_key pe_seq (as_pending e) L"
    note ins = buffer_of_snoc [OF L e(1) e3 snoc.prems(2)]
    have cons: "consume c ?L = (if producer_seq c' + 1 < producer_no e
        then (c', insort_key pe_seq (as_pending e) R) else consume (step_core c' e) R)"
      using consume_insort [OF ok _ _ cR, of "as_pending e"] e3(1) ins by simp
    show ?thesis
    proof (cases "producer_no e \<le> producer_seq c'")
      case True
      \<comment> \<open>then its number was consumed, so an equal event is among the arrivals\<close>
      have "producer_no e \<in> pe_seq ` set L"
        using consume_covers [OF ok cR, of "producer_no e"] True e3(1) by simp
      with ins show ?thesis by blast
    next
      case False
      moreover have "producer_no e \<notin> pe_seq ` set R" using ins b by blast
      ultimately have "reduce_step e (assemble (c', R)) = Inr (assemble (consume c ?L))"
        using step e(2) cons by simp
      with r cR ins show ?thesis by (auto simp: reduce_all_snoc)
    qed
  qed
qed

section \<open>Every operation keeps the invariant\<close>

lemma buffered_after_Cons:
  "buffered_after n (p # ps) \<longleftrightarrow> n < pe_seq p \<and> pe_seq p = producer_no (pe_fields p)
     \<and> event_ok (pe_fields p) \<and> buffered_after (pe_seq p) ps"
  by (fastforce simp: buffered_after_def)

lemma buffered_after_mono: "buffered_after n ps \<Longrightarrow> m \<le> n \<Longrightarrow> buffered_after m ps"
  by (fastforce simp: buffered_after_def)

lemma buffered_after_insort:
  assumes "buffered_after n R" and "n < producer_no e" and "producer_no e \<notin> pe_seq ` set R"
    and "event_ok e"
  shows "buffered_after n (insort_key pe_seq (as_pending e) R)"
  using assms
proof (induction R arbitrary: n)
  case (Cons p R)
  show ?case
  proof (cases "producer_no e \<le> pe_seq p")
    case True
    with Cons.prems have "producer_no e < pe_seq p" by auto
    with Cons.prems show ?thesis unfolding buffered_after_Cons
      by (auto simp: buffered_after_Cons)
  next
    case False
    with Cons.prems Cons.IH [of "pe_seq p"] show ?thesis by (auto simp: buffered_after_Cons)
  qed
qed (simp add: buffered_after_def)

lemma apply_contiguous_axes:
  "axes_ok st \<Longrightarrow> event_ok ev \<Longrightarrow> apply_contiguous st ev = Inr c \<Longrightarrow> axes_ok c"
  by (auto simp: apply_contiguous_def and_then_eq_Inr intro: contiguous_changes_axes)

lemma drain_wf:
  assumes "drain_pending s = Inr t" and "axes_ok s"
    and "buffered_after (producer_seq s) (pending_events s)"
  shows "axes_ok t \<and> buffered_after (producer_seq t + 1) (pending_events t)
    \<and> producer_seq s \<le> producer_seq t"
  using assms
proof (induction s rule: drain_pending.induct)
  case (1 s)
  show ?case
  proof (cases "pending_events s")
    case Nil
    with "1.prems" show ?thesis by (simp add: drain_pending.simps [of s] buffered_after_def)
  next
    case (Cons p ps)
    with "1.prems"(3) have "buffered_after (producer_seq s) (p # ps)" by simp
    then have p: "producer_seq s < pe_seq p" "pe_seq p = producer_no (thaw p)"
      "event_ok (thaw p)" "buffered_after (pe_seq p) ps"
      unfolding buffered_after_Cons thaw_def by blast+
    show ?thesis
    proof (cases "pe_seq p = producer_seq s + 1")
      case False
      with "1.prems" Cons have "t = s" by (simp add: drain_pending.simps [of s])
      with "1.prems" Cons False show ?thesis by (auto simp: buffered_after_Cons)
    next
      case True
      with "1.prems"(1) Cons obtain c
        where c: "apply_contiguous (s\<lparr>pending_events := ps\<rparr>) (thaw p) = Inr c"
          and t: "drain_pending c = Inr t"
        by (auto simp: drain_pending.simps [of s] and_then_eq_Inr)
      have "axes_ok c" using apply_contiguous_axes [OF _ p(3) c] "1.prems"(2) by simp
      moreover have "pending_events c = ps \<and> producer_seq c = pe_seq p"
        using apply_contiguous_frame [OF c] p(2) by simp
      ultimately show ?thesis
        using "1.IH" [OF Cons True c t] p(1,4) by auto
    qed
  qed
qed

lemma derived_eqI:
  "c\<lparr>availability := a\<rparr> = d\<lparr>availability := a\<rparr> \<Longrightarrow> derived c = derived d"
  by (cases c, cases d) (simp add: derived_def)

lemma derived_availability [simp]: "derived (c\<lparr>availability := a\<rparr>) = derived c"
  by (simp add: derived_def)

lemma derived_finish [simp]: "derived (finish c) = derived c"
  by (simp add: finish_def)

lemma reduce_event_wf:
  assumes wf: "lifecycle_wf st" and ok: "event_ok ev" and r: "reduce_event st ev = Inr r"
  shows "lifecycle_wf (rd_state r) \<and> producer_seq st \<le> producer_seq (rd_state r)"
proof -
  let ?n = "producer_no ev"
  from r have pos: "0 < ?n" by (auto simp: reduce_event_def Let_def split: if_splits)
  consider (stale) "?n \<le> producer_seq st \<or> ?n \<in> pe_seq ` set (pending_events st)"
    | (gap) "?n \<notin> pe_seq ` set (pending_events st)" "producer_seq st + 1 < ?n"
    | (next_one) "?n \<notin> pe_seq ` set (pending_events st)" "?n = producer_seq st + 1"
    by linarith
  then show ?thesis
  proof cases
    case stale
    then have "rd_state r = st"
      using r pos by (auto simp: reduce_event_def Let_def split: if_splits)
    with wf show ?thesis by simp
  next
    case gap
    let ?ps = "insort_key pe_seq (as_pending ev) (pending_events st)"
    have "sort_key pe_seq (pending_events st @ [as_pending ev]) = ?ps"
      using wf gap(1) by (intro insort_snoc) (auto simp: lifecycle_wf_def buffered_after_def)
    moreover have "\<forall>item \<in> set (pending_events st). pe_seq item \<noteq> ?n"
      using gap by (metis (no_types, lifting) image_eqI)
    ultimately have "rd_state r = finish (st\<lparr>pending_events := ?ps, sequence_gap := True\<rparr>)"
      using r pos gap
      by (auto simp: reduce_event_def Let_def as_pending_def [symmetric] split: if_splits)
    moreover have "buffered_after (producer_seq st + 1) ?ps"
      using wf gap ok by (intro buffered_after_insort) (auto simp: lifecycle_wf_def)
    moreover have "?ps \<noteq> []" by (metis insort_not_Nil)
    ultimately show ?thesis using wf by (simp add: lifecycle_wf_def)
  next
    case next_one
    have none: "\<forall>item \<in> set (pending_events st). pe_seq item \<noteq> producer_seq st + 1"
      using next_one by (metis (no_types, lifting) image_eqI)
    with r pos next_one(2) obtain c t where c: "apply_contiguous st ev = Inr c"
      and t: "drain_pending c = Inr t"
      and rs: "rd_state r = finish (t\<lparr>sequence_gap := (pending_events t \<noteq> [])\<rparr>)"
      by (auto simp: reduce_event_def Let_def and_then_eq_Inr split: if_splits)
    have "axes_ok c" using wf ok c by (auto simp: lifecycle_wf_def intro: apply_contiguous_axes)
    moreover have "pending_events c = pending_events st \<and> producer_seq c = ?n"
      using apply_contiguous_frame [OF c] by simp
    ultimately have "axes_ok t \<and> buffered_after (producer_seq t + 1) (pending_events t)
        \<and> ?n \<le> producer_seq t"
      using drain_wf [OF t] wf next_one(2) by (auto simp: lifecycle_wf_def)
    then show ?thesis using wf next_one(2) rs by (simp add: lifecycle_wf_def)
  qed
qed

lemma init_lifecycle_wf: "lifecycle_wf init_lifecycle"
  by (simp add: lifecycle_wf_def init_lifecycle_def axes_ok_def any_active_def buffered_after_def
      derived_def derive_availability_def)

text \<open>The steps that the store performs on one session's state.\<close>

inductive lc_step :: "lifecycle \<Rightarrow> lifecycle \<Rightarrow> bool" where
  reduce: "event_ok ev \<Longrightarrow> reduce_event st ev = Inr r \<Longrightarrow> lc_step st (rd_state r)"
| liveness: "lc_step st (observe_gone st gone)"
| adapter: "lc_step st (set_adapter_connected st connected)"
| attach: "lc_step st (with_report st v status accepted)"

lemma observe_gone_wf: "lifecycle_wf st \<Longrightarrow> lifecycle_wf (observe_gone st g)"
  by (auto simp: lifecycle_wf_def observe_gone_def axes_ok_def any_active_def)

lemma set_adapter_connected_wf: "lifecycle_wf st \<Longrightarrow> lifecycle_wf (set_adapter_connected st g)"
  by (auto simp: lifecycle_wf_def set_adapter_connected_def axes_ok_def any_active_def)

lemma with_report_wf: "lifecycle_wf st \<Longrightarrow> lifecycle_wf (with_report st v s a)"
  by (auto simp: lifecycle_wf_def with_report_def axes_ok_def any_active_def derived_def)

interpretation lc: preserved lc_step lifecycle_wf
proof
  fix s t assume wf: "lifecycle_wf s" and "lc_step s t"
  from this(2) show "lifecycle_wf t"
    by cases (use wf in \<open>auto intro: observe_gone_wf set_adapter_connected_wf with_report_wf
      dest: reduce_event_wf\<close>)
qed

lemma contiguous_changes_ended:
  "contiguous_changes st ev = Inr c \<Longrightarrow> session_ended st \<Longrightarrow> session_ended c"
  by (auto simp: contiguous_changes_def Let_def)

lemma drain_ended: "drain_pending s = Inr t \<Longrightarrow> session_ended s \<Longrightarrow> session_ended t"
proof (induction s rule: drain_pending.induct)
  case (1 s)
  show ?case
  proof (cases "pending_events s")
    case Nil
    with "1.prems" show ?thesis by (simp add: drain_pending.simps [of s])
  next
    case (Cons p ps)
    with "1.prems" "1.IH" [OF Cons] show ?thesis
      by (fastforce simp: drain_pending.simps [of s] and_then_eq_Inr apply_contiguous_def
          dest: contiguous_changes_ended split: if_splits)
  qed
qed

lemma reduce_event_ended:
  "reduce_event st ev = Inr r \<Longrightarrow> session_ended st \<Longrightarrow> session_ended (rd_state r)"
  by (fastforce simp: reduce_event_def Let_def and_then_eq_Inr apply_contiguous_def
      dest: contiguous_changes_ended drain_ended split: if_splits)

interpretation ended: preserved lc_step "\<lambda>st. lifecycle_wf st \<and> session_ended st"
proof
  fix s t assume s: "lifecycle_wf s \<and> session_ended s" and step: "lc_step s t"
  from step have "session_ended t"
    by cases (use s in \<open>auto simp: observe_gone_def set_adapter_connected_def with_report_def
      dest: reduce_event_ended\<close>)
  with s step show "lifecycle_wf t \<and> session_ended t" by (blast intro: lc.step_inv)
qed

section \<open>Properties\<close>

lemma unbuffered_assemble:
  assumes "lifecycle_wf st" and "pending_events st = []"
  shows "assemble (core st, []) = st"
proof -
  have "assemble (core st, []) = finish (st\<lparr>pending_events := [], sequence_gap := False\<rparr>)"
    unfolding assemble_def by (simp add: finish_core [of "core st" st])
  also have "st\<lparr>pending_events := [], sequence_gap := False\<rparr> = st"
    using assms by (cases st) (simp add: lifecycle_wf_def)
  also have "finish st = st\<lparr>availability := availability st\<rparr>"
    using assms(1) by (simp add: finish_def lifecycle_wf_def)
  also have "\<dots> = st" by (cases st) simp
  finally show ?thesis .
qed

lemma strictly_sorted_unique:
  assumes "sorted_wrt (\<lambda>p q. pe_seq p < pe_seq q) L"
    and "sorted_wrt (\<lambda>p q. pe_seq p < pe_seq q) L'" and "set L = set L'"
  shows "L = L'"
  using assms
proof (induction L arbitrary: L')
  case (Cons p ps)
  then obtain q qs where q: "L' = q # qs" by (cases L') auto
  with Cons.prems have "p = q"
    by (metis (no_types, lifting) list.set_intros(1) order_less_asym set_ConsD sorted_wrt.simps(2))
  moreover have "p \<notin> set ps" "q \<notin> set qs" using Cons.prems q by auto
  ultimately have "set ps = set qs" using Cons.prems(3) q by (auto simp: insert_ident)
  with Cons q \<open>p = q\<close> show ?case by simp
qed simp

lemma buffer_of_unique:
  "buffer_of n evs L \<Longrightarrow> buffer_of n evs' L' \<Longrightarrow> set evs = set evs' \<Longrightarrow> L = L'"
  by (rule strictly_sorted_unique) (simp_all add: buffer_of_def buffer_ok_def)

text \<open>
  C1: for a session whose buffer is empty, the state after a producer's events depends only on
  which events arrived: any reordering and any duplication of the same events, gaps
  included, is reduced without an error to the same lifecycle state.
\<close>

theorem arrival_order_irrelevant:
  assumes "lifecycle_wf st" and "pending_events st = []"
    and "\<forall>e \<in> set evs. supported e \<and> 0 < producer_no e" and "one_per_number evs"
    and "set evs' = set evs"
  shows "\<exists>t. reduce_all evs st = Inr t \<and> reduce_all evs' st = Inr t"
proof -
  have c: "core (core st) = core st" "0 \<le> producer_seq (core st)"
    using assms(1) by (simp_all add: lifecycle_wf_def)
  have one': "one_per_number evs'" using assms(4,5) by (simp add: one_per_number_def)
  obtain L where L: "buffer_of (producer_seq (core st)) evs L"
    "reduce_all evs (assemble (core st, [])) = Inr (assemble (consume (core st) L))"
    using reduce_all_canonical [OF c assms(3,4)] by blast
  obtain L' where L': "buffer_of (producer_seq (core st)) evs' L'"
    "reduce_all evs' (assemble (core st, [])) = Inr (assemble (consume (core st) L'))"
    using reduce_all_canonical [OF c _ one'] assms(3,5) by metis
  from buffer_of_unique [OF L(1) L'(1)] assms(5) L(2) L'(2) show ?thesis
    by (simp add: unbuffered_assemble [OF assms(1,2)])
qed

definition sample_event :: "int \<Rightarrow> event_kind \<Rightarrow> event" where
  "sample_event n k = \<lparr>ev_id = ''e'', ev_session = ''s'', ev_harness = Claude, ev_role = Crew,
     ev_task = Some ''t'', ev_driver = None, producer_no = n, ev_kind = k\<rparr>"

theorem arrival_order_irrelevant_witness:
  "\<exists>t. reduce_all [sample_event 1 (TurnStart ''u''), sample_event 2 (TurnStop (Some False) None)]
         init_lifecycle = Inr t
     \<and> reduce_all [sample_event 2 (TurnStop (Some False) None), sample_event 1 (TurnStart ''u''),
         sample_event 2 (TurnStop (Some False) None)] init_lifecycle = Inr t"
  by (rule arrival_order_irrelevant [OF init_lifecycle_wf])
    (auto simp: init_lifecycle_def sample_event_def supported_def one_per_number_def)

text \<open>
  A complete stream is fully applied: when the events numbered directly after the session's
  last one have all arrived, in whatever order, nothing stays buffered, no gap is reported and
  the producer sequence is the last number.
\<close>

theorem complete_stream_applied:
  assumes "lifecycle_wf st" and "pending_events st = []"
    and "\<forall>e \<in> set evs. supported e" and "one_per_number evs"
    and "producer_no ` set evs = {producer_seq st + 1 .. producer_seq st + int n}"
  shows "\<exists>t. reduce_all evs st = Inr t \<and> pending_events t = [] \<and> \<not> sequence_gap t
    \<and> producer_seq t = producer_seq st + int n"
proof -
  have c: "core (core st) = core st" "0 \<le> producer_seq (core st)"
    using assms(1) by (simp_all add: lifecycle_wf_def)
  have range: "producer_seq st < producer_no e \<and> producer_no e \<le> producer_seq st + int n"
    if "e \<in> set evs" for e
    using that assms(5) by (metis add1_zle_eq atLeastAtMost_iff image_eqI)
  then have pos: "\<forall>e \<in> set evs. supported e \<and> 0 < producer_no e"
    using assms(3) c(2) by (auto dest: range)
  obtain L where L: "buffer_of (producer_seq (core st)) evs L"
    "reduce_all evs (assemble (core st, [])) = Inr (assemble (consume (core st) L))"
    using reduce_all_canonical [OF c pos assms(4)] by blast
  obtain c' R where cR: "consume (core st) L = (c', R)" by (cases "consume (core st) L")
  have ok: "buffer_ok (producer_seq (core st)) L" using L(1) by (simp add: buffer_of_def)
  note b = consume_bounds [OF ok cR]
  have nums: "pe_seq ` set L = {producer_seq st + 1 .. producer_seq st + int n}"
  proof -
    have "{e \<in> set evs. producer_seq st < producer_no e} = set evs" using range by blast
    with L(1) have "set L = as_pending ` set evs" by (simp add: buffer_of_def)
    then have "pe_seq ` set L = producer_no ` set evs" by (simp add: image_image)
    with assms(5) show ?thesis by simp
  qed
  have "R = []"
  proof (rule ccontr)
    assume "R \<noteq> []"
    then obtain p ps where R: "R = p # ps" by (cases R) auto
    with b have gt: "producer_seq c' + 1 < pe_seq p" and "p \<in> set L"
      by (auto simp: buffer_ok_Cons)
    then have "pe_seq p \<in> {producer_seq st + 1 .. producer_seq st + int n}"
      unfolding nums [symmetric] by blast
    with gt b nums have "producer_seq c' + 1 \<in> pe_seq ` set L" by auto
    then obtain q where q: "q \<in> set L" "pe_seq q = producer_seq c' + 1" by auto
    with b have "q \<in> set R" by force
    with b R gt q(2) show False by (auto simp: buffer_ok_def)
  qed
  moreover have "producer_seq c' = producer_seq st + int n"
  proof (rule antisym)
    show "producer_seq st + int n \<le> producer_seq c'"
    proof (cases "n = 0")
      case False
      then have "producer_seq st + int n \<in> pe_seq ` set L" using nums by auto
      with b \<open>R = []\<close> show ?thesis by auto
    qed (use b in simp)
    show "producer_seq c' \<le> producer_seq st + int n"
      using consume_covers [OF ok cR, of "producer_seq c'"] nums b by fastforce
  qed
  ultimately show ?thesis
    using L(2) [unfolded unbuffered_assemble [OF assms(1,2)] cR]
    by (intro exI [of _ "assemble (c', R)"]) (simp add: assemble_def)
qed

theorem complete_stream_applied_witness:
  "\<exists>t. reduce_all [sample_event 3 SessionEnd, sample_event 1 (TurnStart ''u''),
         sample_event 2 (TurnStop None None)] init_lifecycle = Inr t
     \<and> pending_events t = [] \<and> \<not> sequence_gap t \<and> producer_seq t = producer_seq init_lifecycle + int 3"
proof (rule complete_stream_applied [OF init_lifecycle_wf])
  have "{1..3::int} = {1, 2, 3}" by auto
  then show "producer_no ` set [sample_event 3 SessionEnd, sample_event 1 (TurnStart ''u''),
      sample_event 2 (TurnStop None None)]
    = {producer_seq init_lifecycle + 1 .. producer_seq init_lifecycle + int 3}"
    by (auto simp: init_lifecycle_def sample_event_def)
qed (auto simp: init_lifecycle_def sample_event_def supported_def one_per_number_def)

text \<open>
  C2: every lifecycle state the store can reach is well-formed: the availability is the one
  derived from the axes, the buffer holds strictly increasing numbers beyond the next one, a gap
  is reported exactly when something is buffered, no job count is negative, and the background
  axis says active exactly when some job, count or presence is recorded.
\<close>

theorem reachable_lifecycle_wf:
  assumes "lc_step\<^sup>*\<^sup>* init_lifecycle st"
  shows "lifecycle_wf st"
  using assms init_lifecycle_wf by (rule lc.run_inv)

lemma sample_turn_start:
  "reduce_event init_lifecycle (sample_event 1 (TurnStart ''u'')) =
     Inr \<lparr>rd_state = init_lifecycle\<lparr>foreground := FgRunning, availability := Busy,
         producer_seq := 1\<rparr>, rd_applied = True, rd_reason = None\<rparr>"
  by (simp add: reduce_event_def init_lifecycle_def sample_event_def apply_contiguous_def
      contiguous_changes_def drain_pending.simps finish_def derived_def derive_availability_def)

theorem reachable_lifecycle_wf_witness:
  "lifecycle_wf (init_lifecycle\<lparr>foreground := FgRunning, availability := Busy, producer_seq := 1\<rparr>)"
proof (rule reachable_lifecycle_wf)
  have "lc_step init_lifecycle (rd_state \<lparr>rd_state = init_lifecycle\<lparr>foreground := FgRunning,
      availability := Busy, producer_seq := 1\<rparr>, rd_applied = True, rd_reason = None\<rparr>)"
    by (rule lc_step.reduce [OF _ sample_turn_start]) (simp add: event_ok_def sample_event_def)
  then show "lc_step\<^sup>*\<^sup>* init_lifecycle
      (init_lifecycle\<lparr>foreground := FgRunning, availability := Busy, producer_seq := 1\<rparr>)"
    by simp
qed


lemma sample_turn_stop:
  "reduce_event (init_lifecycle\<lparr>foreground := FgRunning, availability := Busy, producer_seq := 1\<rparr>)
     (sample_event 2 (TurnStop (Some False) None)) =
   Inr \<lparr>rd_state = init_lifecycle\<lparr>foreground := FgStopped, background := BgClear,
          background_certified := True, availability := Quiescent, producer_seq := 2\<rparr>,
        rd_applied = True, rd_reason = None\<rparr>"
  by (simp add: reduce_event_def init_lifecycle_def sample_event_def apply_contiguous_def
      contiguous_changes_def drain_pending.simps finish_def derived_def derive_availability_def
      Let_def)

lemma sample_quiescent_reachable:
  "lc_step\<^sup>*\<^sup>* init_lifecycle (init_lifecycle\<lparr>foreground := FgStopped, background := BgClear,
     background_certified := True, availability := Quiescent, producer_seq := 2\<rparr>)"
proof -
  have "lc_step init_lifecycle (rd_state \<lparr>rd_state = init_lifecycle\<lparr>foreground := FgRunning,
      availability := Busy, producer_seq := 1\<rparr>, rd_applied = True, rd_reason = None\<rparr>)"
    by (rule lc_step.reduce [OF _ sample_turn_start]) (simp add: event_ok_def sample_event_def)
  then have "lc_step init_lifecycle
      (init_lifecycle\<lparr>foreground := FgRunning, availability := Busy, producer_seq := 1\<rparr>)"
    by simp
  moreover have "lc_step (init_lifecycle\<lparr>foreground := FgRunning, availability := Busy,
      producer_seq := 1\<rparr>) (rd_state \<lparr>rd_state = init_lifecycle\<lparr>foreground := FgStopped,
      background := BgClear, background_certified := True, availability := Quiescent,
      producer_seq := 2\<rparr>, rd_applied = True, rd_reason = None\<rparr>)"
    by (rule lc_step.reduce [OF _ sample_turn_stop]) (simp add: event_ok_def sample_event_def)
  ultimately show ?thesis by (auto intro: rtranclp.rtrancl_into_rtrancl)
qed


text \<open>
  A session's end is final: once a well-formed state has \<open>session_ended\<close>, every later event,
  host observation, reconnect or report leaves it ended and its availability \<open>gone\<close>.
\<close>

theorem session_end_is_final:
  assumes "lifecycle_wf st" and "session_ended st" and "lc_step\<^sup>*\<^sup>* st t"
  shows "session_ended t \<and> availability t = Gone"
proof -
  from assms(3,1,2) have "lifecycle_wf t \<and> session_ended t"
    by (rule ended.run_inv [OF _ conjI])
  then show ?thesis by (simp add: lifecycle_wf_def derived_def derive_availability_def)
qed

theorem session_end_is_final_witness:
  "session_ended (observe_gone (finish (init_lifecycle\<lparr>session_ended := True,
       session_gone := True\<rparr>)) False)
   \<and> availability (observe_gone (finish (init_lifecycle\<lparr>session_ended := True,
       session_gone := True\<rparr>)) False) = Gone"
proof (rule session_end_is_final)
  show "lifecycle_wf (finish (init_lifecycle\<lparr>session_ended := True, session_gone := True\<rparr>))"
    using init_lifecycle_wf
    by (simp add: lifecycle_wf_def axes_ok_def init_lifecycle_def any_active_def)
  show "lc_step\<^sup>*\<^sup>* (finish (init_lifecycle\<lparr>session_ended := True, session_gone := True\<rparr>))
     (observe_gone (finish (init_lifecycle\<lparr>session_ended := True, session_gone := True\<rparr>)) False)"
    by (rule r_into_rtranclp) (rule lc_step.liveness)
qed simp

end
