(* ===== verification/Text.thy ===== *)
theory Text
  imports Prelude
begin

text \<open>
  Python's \<open>str\<close> where a component looks inside free text: a list of Unicode code points, with
  the methods of the standard library that the code calls.  \<open>u ''abc''\<close> is an ASCII literal.
\<close>

type_synonym ucs = "nat list"

definition u :: "string \<Rightarrow> ucs" where
  "u s = map of_char s"

lemma u_simps [simp]: "u [] = []" "u (c # s) = of_char c # u s"
  by (simp_all add: u_def)

lemma u_append: "u (s @ t) = u s @ u t"
  by (simp add: u_def)

lemma u_eq_iff: "u s = u t \<longleftrightarrow> s = t"
  by (simp add: u_def inj_map_eq_map [OF inj_of_char])

text \<open>\<open>str.isspace\<close>, which is also \<open>\s\<close> of \<open>re\<close> and what \<open>str.strip\<close> removes.\<close>

definition is_space :: "nat \<Rightarrow> bool" where
  "is_space c \<longleftrightarrow> (9 \<le> c \<and> c \<le> 13) \<or> (28 \<le> c \<and> c \<le> 32) \<or> c = 133 \<or> c = 160 \<or> c = 5760
     \<or> (8192 \<le> c \<and> c \<le> 8202) \<or> c = 8232 \<or> c = 8233 \<or> c = 8239 \<or> c = 8287 \<or> c = 12288"

definition lstrip :: "ucs \<Rightarrow> ucs" where
  "lstrip t = dropWhile is_space t"

definition strip :: "ucs \<Rightarrow> ucs" where
  "strip t = rev (lstrip (rev (lstrip t)))"

text \<open>The line boundaries of \<open>str.splitlines\<close>; \<open>\r\n\<close> counts as one.\<close>

definition is_break :: "nat \<Rightarrow> bool" where
  "is_break c \<longleftrightarrow> (10 \<le> c \<and> c \<le> 13) \<or> (28 \<le> c \<and> c \<le> 30) \<or> c = 133 \<or> c = 8232 \<or> c = 8233"

fun split_from :: "ucs \<Rightarrow> ucs \<Rightarrow> ucs list" where
  "split_from cur [] = (if cur = [] then [] else [cur])"
| "split_from cur [c] = (if is_break c then [cur] else [cur @ [c]])"
| "split_from cur (c # d # cs) =
     (if c = 13 \<and> d = 10 then cur # split_from [] cs
      else if is_break c then cur # split_from [] (d # cs)
      else split_from (cur @ [c]) (d # cs))"

definition splitlines :: "ucs \<Rightarrow> ucs list" where
  "splitlines t = split_from [] t"

text \<open>
  \<open>str.lower\<close> and \<open>str.casefold\<close>.  Both are used only to compare with ASCII words, so the code
  points above ASCII whose image holds no ASCII letter are left as they are; the ones whose
  image does (the Kelvin sign, the long s, the Latin ligatures, \<dots>) are listed.
\<close>

definition lower1 :: "nat \<Rightarrow> ucs" where
  "lower1 c = (if 65 \<le> c \<and> c \<le> 90 then [c + 32]
     else if c = 304 then [105, 775] else if c = 8490 then [107] else [c])"

definition lower :: "ucs \<Rightarrow> ucs" where
  "lower t = concat (map lower1 t)"

definition casefold_special :: "(nat \<times> ucs) list" where
  "casefold_special =
     [(223, [115, 115]), (329, [700, 110]), (383, [115]), (496, [106, 780]), (7830, [104, 817]),
      (7831, [116, 776]), (7832, [119, 778]), (7833, [121, 778]), (7834, [97, 702]),
      (7838, [115, 115]), (64256, [102, 102]), (64257, [102, 105]), (64258, [102, 108]),
      (64259, [102, 102, 105]), (64260, [102, 102, 108]), (64261, [115, 116]), (64262, [115, 116])]"

definition casefold1 :: "nat \<Rightarrow> ucs" where
  "casefold1 c = (case map_of casefold_special c of Some t \<Rightarrow> t | None \<Rightarrow> lower1 c)"

definition casefold :: "ucs \<Rightarrow> ucs" where
  "casefold t = concat (map casefold1 t)"

definition is_digit :: "nat \<Rightarrow> bool" where
  "is_digit c \<longleftrightarrow> 48 \<le> c \<and> c \<le> 57"

definition is_letter :: "nat \<Rightarrow> bool" where
  "is_letter c \<longleftrightarrow> (65 \<le> c \<and> c \<le> 90) \<or> (97 \<le> c \<and> c \<le> 122)"

text \<open>\<open>int(digits)\<close> for ASCII digits; CPython refuses more than 4300 of them.\<close>

definition digits_value :: "ucs \<Rightarrow> nat" where
  "digits_value ds = foldl (\<lambda>n d. 10 * n + (d - 48)) 0 ds"

definition int_of_digits :: "ucs \<Rightarrow> py_error + nat" where
  "int_of_digits ds =
     (if length ds > 4300 then Inl (ValueError ''Exceeds the limit for integer string conversion'')
      else Inr (digits_value ds))"

section \<open>Facts\<close>

text \<open>Text that casefolds to an ASCII word lowers to it, once lowering gave an ASCII word.\<close>

lemma ascii_casefold1:
  assumes "\<forall>c \<in> set (lower1 c). c < 128"
  shows "casefold1 c = lower1 c"
proof -
  from assms have "c < 128 \<or> c = 8490" by (auto simp: lower1_def split: if_splits)
  then have "c \<notin> fst ` set casefold_special" by (auto simp: casefold_special_def)
  then have "map_of casefold_special c = None" by (simp add: map_of_eq_None_iff)
  then show ?thesis by (simp add: casefold1_def)
qed

lemma ascii_casefold:
  "\<forall>c \<in> set (lower t). c < 128 \<Longrightarrow> casefold t = lower t"
  by (induction t) (auto simp: lower_def casefold_def ascii_casefold1)

lemma ascii_u: "c \<in> set (u s) \<Longrightarrow> set s \<subseteq> {d. of_char d < (128::nat)} \<Longrightarrow> c < 128"
  by (auto simp: u_def)

text \<open>Splitting a text whose first part ends with a newline splits the two parts.\<close>

lemma split_from_newline:
  "split_from cur (t @ 10 # rest) = split_from cur (t @ [10]) @ splitlines rest"
proof (induction cur t rule: split_from.induct)
  case (1 cur)
  show ?case
  proof (cases rest)
    case Nil
    then show ?thesis by (simp add: is_break_def splitlines_def)
  next
    case (Cons d cs)
    then show ?thesis by (simp add: is_break_def splitlines_def)
  qed
next
  case (2 cur c)
  show ?case
    by (cases rest) (auto simp: is_break_def splitlines_def)
next
  case (3 cur c d cs)
  then show ?case by simp
qed

lemma splitlines_newline:
  "splitlines (t @ 10 # rest) = splitlines (t @ [10]) @ splitlines rest"
  using split_from_newline [of "[]" t rest] by (simp add: splitlines_def)

end
