(* ===== verification/Handoff.thy ===== *)
theory Handoff
  imports Text
begin

text \<open>
  \<open>lib/rozoro_monitor/handoff.py\<close>: the parser of the append-only handoff log that a crew writes.
  \<open>parse_text\<close> is modelled from text and cursor values; reading the three files is the caller's
  (\<open>parse\<close>, \<open>cursor\<close>, \<open>parse_task_report\<close> are file access around it).  An error line is a
  value of \<open>block_error\<close> or \<open>report_error\<close>, one constructor per message of the code.
\<close>

section \<open>Vocabulary\<close>

definition KNOWN :: "ucs set" where
  "KNOWN = {u ''verdict'', u ''reason'', u ''did'', u ''pending'', u ''inputs-needed'', u ''artifacts''}"

text \<open>\<open>KNOWN\<close> and \<open>REQUIRED\<close> in the alphabetical order in which their members are reported.\<close>

definition known_sorted :: "ucs list" where
  "known_sorted = [u ''artifacts'', u ''did'', u ''inputs-needed'', u ''pending'', u ''reason'',
     u ''verdict'']"

definition required_sorted :: "ucs list" where
  "required_sorted = [u ''artifacts'', u ''did'', u ''inputs-needed'', u ''pending'', u ''verdict'']"

definition VERDICTS :: "ucs set" where
  "VERDICTS = {u ''done'', u ''waiting'', u ''needs-action'', u ''failed'', u ''blocked''}"

definition NONE_WORDS :: "ucs set" where
  "NONE_WORDS = {u '''', u ''none'', u ''n/a'', u ''na'', u ''-''}"

definition OPEN_VERDICTS :: "ucs set" where
  "OPEN_VERDICTS = {u ''needs-action'', u ''failed'', u ''blocked''}"

type_synonym fields = "(ucs \<times> ucs) list"

definition get_field :: "fields \<Rightarrow> string \<Rightarrow> ucs" where
  "get_field fs k = (case map_of fs (u k) of Some v \<Rightarrow> v | None \<Rightarrow> [])"

datatype block_error =
    TurnSequence nat nat
  | MissingField ucs
  | DuplicateField ucs
  | UnknownVerdict ucs
  | WaitingInputsNeeded
  | WaitingPending
  | WaitingReason

datatype report_error =
    BlockError nat block_error
  | NoncanonicalHeadings "ucs list"
  | InvalidCanonicalAck
  | InvalidLegacyAck

datatype ack_cursor = AckInvalid | AckAt int

datatype ack_source = AckNone | AckV2 | AckLegacyMapped

record block =
  blk_index :: nat
  blk_turn :: nat
  blk_heading :: ucs
  blk_fields :: fields
  blk_valid :: bool
  blk_errors :: "block_error list"
  legacy_index :: nat

record open_item =
  oi_index :: nat
  oi_turn :: nat
  oi_heading :: ucs
  oi_verdict :: ucs
  oi_inputs_needed :: ucs

record handoff_report =
  hr_blocks :: nat
  hr_legacy_headings :: nat
  hr_acked_through :: int
  hr_acked_source :: ack_source
  hr_latest :: "block option"
  hr_block_details :: "block list"
  hr_open_items :: "open_item list"
  hr_unresolved :: nat
  hr_protocol_errors :: "report_error list"

section \<open>Lines\<close>

text \<open>\<open>H2\<close>: \<open>^## \<close>.\<close>

definition is_h2 :: "ucs \<Rightarrow> bool" where
  "is_h2 line \<longleftrightarrow> take 3 line = u ''## ''"

text \<open>
  \<open>TURN\<close>: \<open>## turn\<close>, a number without leading zero, then the end of the line or white space,
  an em dash (code point 8212) and anything.  The digits are those of the group.
\<close>

definition match_turn :: "ucs \<Rightarrow> ucs option" where
  "match_turn line =
     (if take 8 line \<noteq> u ''## turn '' then None
      else
        let rest = drop 8 line;
            ds = takeWhile is_digit rest;
            tail = dropWhile is_digit rest;
            after = dropWhile is_space tail
        in if ds = [] \<or> hd ds = 48 then None
           else if tail = [] then Some ds
           else if after \<noteq> tail \<and> after \<noteq> [] \<and> hd after = 8212 then Some ds
           else None)"

definition name_char :: "nat \<Rightarrow> bool" where
  "name_char c \<longleftrightarrow> is_letter c \<or> c = 45"

text \<open>\<open>FIELD\<close>: a name, a colon, and the rest of the line as the value.\<close>

definition match_field :: "ucs \<Rightarrow> (ucs \<times> ucs) option" where
  "match_field line =
     (let name = takeWhile name_char line; rest = dropWhile name_char line
      in if name = [] \<or> \<not> is_letter (hd name) \<or> rest = [] \<or> hd rest \<noteq> 58 then None
         else Some (name, dropWhile is_space (tl rest)))"

section \<open>Blocks\<close>

text \<open>One line of a block: the first value of a known field counts, later ones are duplicates.\<close>

definition add_line :: "ucs \<Rightarrow> fields \<times> ucs list \<Rightarrow> fields \<times> ucs list" where
  "add_line line acc =
     (case acc of (fs, dups) \<Rightarrow>
        case match_field line of
          None \<Rightarrow> acc
        | Some (name, v) \<Rightarrow>
            (let key = lower name in
             if key \<notin> KNOWN then acc
             else if map_of fs key \<noteq> None then (fs, dups @ [key])
             else (fs @ [(key, strip v)], dups)))"

definition block_fields :: "ucs list \<Rightarrow> fields \<times> ucs list" where
  "block_fields body = fold add_line body ([], [])"

definition block_errors_of :: "nat \<Rightarrow> nat \<Rightarrow> fields \<Rightarrow> ucs list \<Rightarrow> block_error list" where
  "block_errors_of previous declared fs dups =
     (let verdict = lower (get_field fs ''verdict'') in
      (if declared \<noteq> previous + 1 then [TurnSequence (previous + 1) declared] else [])
      @ map MissingField (filter (\<lambda>k. map_of fs k = None) required_sorted)
      @ map DuplicateField (filter (\<lambda>k. k \<in> set dups) known_sorted)
      @ (if verdict \<notin> VERDICTS
         then [UnknownVerdict (if get_field fs ''verdict'' = [] then u ''(missing)''
                               else get_field fs ''verdict'')] else [])
      @ (if verdict \<noteq> u ''done'' \<and> strip (get_field fs ''reason'') = []
         then [MissingField (u ''reason'')] else [])
      @ (if verdict = u ''waiting'' then
           (if lower (strip (get_field fs ''inputs-needed'')) \<notin> NONE_WORDS
            then [WaitingInputsNeeded] else [])
           @ (if lower (strip (get_field fs ''pending'')) \<in> NONE_WORDS then [WaitingPending] else [])
           @ (if lower (strip (get_field fs ''reason'')) \<in> NONE_WORDS then [WaitingReason] else [])
         else []))"

text \<open>\<open>list.index\<close>; every start is an H2 line, so the value is always in range.\<close>

fun index_of :: "'a \<Rightarrow> 'a list \<Rightarrow> nat" where
  "index_of x [] = 0"
| "index_of x (y # ys) = (if x = y then 0 else Suc (index_of x ys))"

definition make_block :: "ucs list \<Rightarrow> nat list \<Rightarrow> nat \<Rightarrow> nat \<Rightarrow> nat \<Rightarrow> nat \<Rightarrow> nat \<Rightarrow> block" where
  "make_block lines legacy number previous start declared end_line =
     (case block_fields (drop (start + 1) (take end_line lines)) of (fs, dups) \<Rightarrow>
        let errs = block_errors_of previous declared fs dups in
        \<lparr>blk_index = number + 1, blk_turn = declared, blk_heading = strip (drop 3 (lines ! start)),
         blk_fields = fs, blk_valid = (errs = []), blk_errors = errs,
         legacy_index = index_of start legacy + 1\<rparr>)"

fun blocks_from :: "ucs list \<Rightarrow> nat list \<Rightarrow> nat \<Rightarrow> nat \<Rightarrow> (nat \<times> nat) list \<Rightarrow> block list" where
  "blocks_from lines legacy number previous [] = []"
| "blocks_from lines legacy number previous ((start, declared) # rest) =
     make_block lines legacy number previous start declared
       (case rest of [] \<Rightarrow> length lines | (s, _) # _ \<Rightarrow> s)
     # blocks_from lines legacy (number + 1) declared rest"

text \<open>The turn headings with their numbers, in line order; an overlong number raises.\<close>

fun starts_from :: "nat \<Rightarrow> ucs list \<Rightarrow> py_error + (nat \<times> nat) list" where
  "starts_from i [] = Inr []"
| "starts_from i (line # lines) =
     (case match_turn line of
        None \<Rightarrow> starts_from (i + 1) lines
      | Some ds \<Rightarrow>
          and_then (int_of_digits ds) (\<lambda>n.
            and_then (starts_from (i + 1) lines) (\<lambda>rest. Inr ((i, n) # rest))))"

fun h2_indices :: "nat \<Rightarrow> ucs list \<Rightarrow> nat list" where
  "h2_indices i [] = []"
| "h2_indices i (line # lines) =
     (if is_h2 line then i # h2_indices (i + 1) lines else h2_indices (i + 1) lines)"

section \<open>Acknowledgement and open items\<close>

definition acknowledged ::
  "block list \<Rightarrow> nat \<Rightarrow> ack_cursor option \<Rightarrow> ack_cursor option
     \<Rightarrow> int \<times> ack_source \<times> report_error list" where
  "acknowledged blocks n_legacy v2 old =
     (case v2 of
        Some AckInvalid \<Rightarrow> (0, AckV2, [InvalidCanonicalAck])
      | Some (AckAt k) \<Rightarrow>
          if k > int (length blocks) then (0, AckV2, [InvalidCanonicalAck]) else (k, AckV2, [])
      | None \<Rightarrow>
          (case old of
             None \<Rightarrow> (0, AckNone, [])
           | Some AckInvalid \<Rightarrow> (0, AckLegacyMapped, [InvalidLegacyAck])
           | Some (AckAt k) \<Rightarrow>
               if k > int n_legacy then (0, AckLegacyMapped, [InvalidLegacyAck])
               else (int (length (filter (\<lambda>b. int (legacy_index b) \<le> k) blocks)),
                     AckLegacyMapped, [])))"

definition is_open :: "int \<Rightarrow> block \<Rightarrow> bool" where
  "is_open acked b \<longleftrightarrow> int (blk_index b) > acked
     \<and> (lower (get_field (blk_fields b) ''verdict'') \<in> OPEN_VERDICTS
        \<or> lower (strip (get_field (blk_fields b) ''inputs-needed'')) \<notin> NONE_WORDS)"

definition open_item_of :: "block \<Rightarrow> open_item" where
  "open_item_of b = \<lparr>oi_index = blk_index b, oi_turn = blk_turn b, oi_heading = blk_heading b,
     oi_verdict = get_field (blk_fields b) ''verdict'',
     oi_inputs_needed = get_field (blk_fields b) ''inputs-needed''\<rparr>"

definition parse_text ::
  "ucs \<Rightarrow> ack_cursor option \<Rightarrow> ack_cursor option \<Rightarrow> py_error + handoff_report" where
  "parse_text text ack_v2 ack_legacy =
     (let lines = splitlines text; legacy = h2_indices 0 lines in
      and_then (starts_from 0 lines) (\<lambda>starts.
        let blocks = blocks_from lines legacy 0 0 starts;
            malformed = filter (\<lambda>l. match_turn l = None) (filter is_h2 lines);
            (acked, source, ack_errs) = acknowledged blocks (length legacy) ack_v2 ack_legacy;
            items = map open_item_of (filter (is_open acked) blocks)
        in Inr \<lparr>hr_blocks = length blocks, hr_legacy_headings = length legacy,
             hr_acked_through = acked, hr_acked_source = source,
             hr_latest = (if blocks = [] then None else Some (last blocks)),
             hr_block_details = blocks, hr_open_items = items, hr_unresolved = length items,
             hr_protocol_errors =
               concat (map (\<lambda>b. map (BlockError (blk_index b)) (blk_errors b)) blocks)
               @ (if malformed = [] then [] else [NoncanonicalHeadings malformed])
               @ ack_errs\<rparr>))"

end
