(* ===== verification/Handoff_Facts.thy ===== *)
theory Handoff_Facts
  imports Handoff
begin

text \<open>
  What a handoff report without protocol errors promises to its readers, and that the log can
  grow only at its end: appending turns never changes an earlier block, and never closes an
  item that was open.
\<close>

section \<open>Structure of the parse\<close>

lemma blocks_from_turns:
  "map blk_turn (blocks_from lines legacy number previous starts) = map snd starts"
  by (induction lines legacy number previous starts rule: blocks_from.induct)
    (auto simp: make_block_def Let_def split: prod.splits)

lemma blocks_from_indices:
  "map blk_index (blocks_from lines legacy number previous starts)
     = [number + 1 ..< number + 1 + length starts]"
  by (induction lines legacy number previous starts rule: blocks_from.induct)
    (auto simp: make_block_def Let_def upt_rec split: prod.splits)

lemma length_blocks_from [simp]:
  "length (blocks_from lines legacy number previous starts) = length starts"
  by (metis blocks_from_turns length_map)

lemma blocks_from_errors:
  "b \<in> set (blocks_from lines legacy number previous starts) \<Longrightarrow>
     \<exists>prev dups. blk_errors b = block_errors_of prev (blk_turn b) (blk_fields b) dups"
proof (induction lines legacy number previous starts rule: blocks_from.induct)
  case (2 lines legacy number previous start declared rest)
  show ?case
  proof (cases "b \<in> set (blocks_from lines legacy (number + 1) declared rest)")
    case True
    then show ?thesis by (rule "2.IH")
  next
    case False
    with "2.prems" have "b = make_block lines legacy number previous start declared
        (case rest of [] \<Rightarrow> length lines | (s, _) # _ \<Rightarrow> s)"
      by simp
    then show ?thesis by (auto simp: make_block_def Let_def split: prod.splits)
  qed
qed simp

text \<open>Without a sequence error every declared turn is the one after the previous block's.\<close>

lemma blocks_from_sequence:
  assumes "\<forall>b \<in> set (blocks_from lines legacy number previous starts). blk_errors b = []"
  shows "map snd starts = [previous + 1 ..< previous + 1 + length starts]"
  using assms
proof (induction lines legacy number previous starts rule: blocks_from.induct)
  case (2 lines legacy number previous start declared rest)
  then have "declared = previous + 1"
    by (auto simp: make_block_def Let_def block_errors_of_def split: prod.splits if_splits)
  with 2 show ?case by (simp add: upt_rec)
qed simp

definition block_complete :: "block \<Rightarrow> bool" where
  "block_complete b \<longleftrightarrow>
     (\<forall>k \<in> set required_sorted. map_of (blk_fields b) k \<noteq> None)
     \<and> lower (get_field (blk_fields b) ''verdict'') \<in> VERDICTS
     \<and> (lower (get_field (blk_fields b) ''verdict'') \<noteq> u ''done'' \<longrightarrow>
          strip (get_field (blk_fields b) ''reason'') \<noteq> [])
     \<and> (lower (get_field (blk_fields b) ''verdict'') = u ''waiting'' \<longrightarrow>
          lower (strip (get_field (blk_fields b) ''inputs-needed'')) \<in> NONE_WORDS
          \<and> lower (strip (get_field (blk_fields b) ''pending'')) \<notin> NONE_WORDS
          \<and> lower (strip (get_field (blk_fields b) ''reason'')) \<notin> NONE_WORDS)"

lemma no_errors_complete:
  "block_errors_of prev (blk_turn b) (blk_fields b) dups = [] \<Longrightarrow> block_complete b"
  unfolding block_errors_of_def Let_def block_complete_def
  by (auto simp: filter_empty_conv split: if_splits)

lemma starts_from_append:
  "starts_from i (xs @ ys) = and_then (starts_from i xs) (\<lambda>a.
     and_then (starts_from (i + length xs) ys) (\<lambda>b. Inr (a @ b)))"
proof (induction xs arbitrary: i)
  case Nil
  show ?case by (simp add: and_then_def split: sum.split)
next
  case (Cons x xs)
  then show ?case
    by (auto simp: and_then_def split: option.split sum.split)
qed

lemma h2_indices_append:
  "h2_indices i (xs @ ys) = h2_indices i xs @ h2_indices (i + length xs) ys"
  by (induction xs arbitrary: i) auto

lemma starts_from_bounds:
  "starts_from i xs = Inr ss \<Longrightarrow> (s, n) \<in> set ss \<Longrightarrow> i \<le> s \<and> s < i + length xs"
proof (induction xs arbitrary: i ss)
  case (Cons x xs)
  then show ?case
    by (fastforce simp: and_then_eq_Inr split: option.splits)
qed simp

lemma h2_indices_bounds: "s \<in> set (h2_indices i xs) \<Longrightarrow> i \<le> s \<and> s < i + length xs"
  by (induction xs arbitrary: i) (fastforce split: if_splits)+

lemma match_turn_h2: "match_turn l = Some ds \<Longrightarrow> is_h2 l"
proof -
  assume "match_turn l = Some ds"
  then have "take 8 l = u ''## turn ''" by (auto simp: match_turn_def split: if_splits)
  then have "take 3 (take 8 l) = take 3 (u ''## turn '')" by simp
  then show ?thesis by (simp add: is_h2_def u_def min_def)
qed

lemma starts_from_h2:
  "starts_from i xs = Inr ss \<Longrightarrow> (s, n) \<in> set ss \<Longrightarrow> s \<in> set (h2_indices i xs)"
proof (induction xs arbitrary: i ss)
  case (Cons x xs)
  then show ?case
    by (fastforce simp: and_then_eq_Inr dest: match_turn_h2 split: option.splits)
qed simp

lemma index_of_append:
  "index_of x (xs @ ys) = (if x \<in> set xs then index_of x xs else length xs + index_of x ys)"
  by (induction xs) auto

lemma starts_from_sorted:
  "starts_from i xs = Inr ss \<Longrightarrow> sorted_wrt (\<lambda>a b. fst a < fst b) ss"
proof (induction xs arbitrary: i ss)
  case (Cons x xs)
  show ?case
  proof (cases "match_turn x")
    case None
    with Cons show ?thesis by auto
  next
    case (Some ds)
    with Cons.prems obtain n rest where r: "starts_from (i + 1) xs = Inr rest" "ss = (i, n) # rest"
      by (auto simp: and_then_eq_Inr)
    with Cons.IH [OF r(1)] starts_from_bounds [OF r(1)] show ?thesis by fastforce
  qed
qed simp

text \<open>
  A block is a function of the lines up to the next heading, so lines and headings added at the
  end of the log leave it as it was.
\<close>

lemma blocks_from_append:
  assumes "\<forall>(s, n) \<in> set ss. s < length xs \<and> s \<in> set legacy"
    and "sorted_wrt (\<lambda>a b. fst a < fst b) ss"
    and "\<exists>n rest. later = (length xs, n) # rest"
  shows "\<exists>prev. blocks_from (xs @ ys) (legacy @ legacy') number previous (ss @ later) =
    blocks_from xs legacy number previous ss
    @ blocks_from (xs @ ys) (legacy @ legacy') (number + length ss) prev later"
  using assms(1,2)
proof (induction ss arbitrary: number previous)
  case (Cons a ss)
  obtain start declared where a: "a = (start, declared)" by (cases a)
  let ?e = "case ss @ later of [] \<Rightarrow> length (xs @ ys) | (s, _) # _ \<Rightarrow> s"
  let ?e' = "case ss of [] \<Rightarrow> length xs | (s, _) # _ \<Rightarrow> s"
  have e: "?e = ?e'" using assms(3) by (auto split: list.splits)
  have le: "?e' \<le> length xs" "start < length xs" "start \<in> set legacy"
    using Cons.prems(1) by (auto simp: a split: list.splits)
  have "take ?e (xs @ ys) = take ?e' xs" using e le(1) by simp
  then have "make_block (xs @ ys) (legacy @ legacy') number previous start declared ?e
      = make_block xs legacy number previous start declared ?e'"
    using le by (simp add: make_block_def nth_append index_of_append)
  moreover obtain prev where "blocks_from (xs @ ys) (legacy @ legacy') (number + 1) declared (ss @ later) =
    blocks_from xs legacy (number + 1) declared ss
    @ blocks_from (xs @ ys) (legacy @ legacy') (number + 1 + length ss) prev later"
    using Cons.IH [of "number + 1" declared] Cons.prems by auto
  ultimately show ?case by (auto simp: a)
qed auto

lemma blocks_from_legacy_bound:
  assumes "\<forall>(s, n) \<in> set ss. s \<notin> set legacy"
    and "b \<in> set (blocks_from lines (legacy @ legacy') number previous ss)"
  shows "length legacy < legacy_index b"
  using assms
proof (induction ss arbitrary: number previous)
  case (Cons a ss)
  then show ?case
    by (cases a) (auto simp: make_block_def Let_def index_of_append split: prod.splits)
qed simp

section \<open>Properties\<close>

lemma parse_text_cases:
  assumes "parse_text t v2 old = Inr r"
  obtains starts where "starts_from 0 (splitlines t) = Inr starts"
    and "hr_block_details r = blocks_from (splitlines t) (h2_indices 0 (splitlines t)) 0 0 starts"
    and "hr_blocks r = length (hr_block_details r)"
    and "acknowledged (hr_block_details r) (length (h2_indices 0 (splitlines t))) v2 old
      = (hr_acked_through r, hr_acked_source r,
         filter (\<lambda>e. e \<in> {InvalidCanonicalAck, InvalidLegacyAck}) (hr_protocol_errors r))"
    and "hr_open_items r = map open_item_of (filter (is_open (hr_acked_through r)) (hr_block_details r))"
    and "hr_protocol_errors r = [] \<Longrightarrow> (\<forall>b \<in> set (hr_block_details r). blk_errors b = [])
      \<and> (\<forall>l \<in> set (splitlines t). is_h2 l \<longrightarrow> match_turn l \<noteq> None)"
proof -
  obtain starts where starts: "starts_from 0 (splitlines t) = Inr starts"
    using assms by (auto simp: parse_text_def Let_def and_then_eq_Inr)
  obtain a s e where ack: "acknowledged (blocks_from (splitlines t) (h2_indices 0 (splitlines t)) 0 0 starts)
      (length (h2_indices 0 (splitlines t))) v2 old = (a, s, e)"
    by (cases "acknowledged (blocks_from (splitlines t) (h2_indices 0 (splitlines t)) 0 0 starts)
      (length (h2_indices 0 (splitlines t))) v2 old")
  have e: "set e \<subseteq> {InvalidCanonicalAck, InvalidLegacyAck}"
    using ack by (auto simp: acknowledged_def split: option.splits ack_cursor.splits if_splits)
  then have fe: "filter (\<lambda>x. x = InvalidCanonicalAck \<or> x = InvalidLegacyAck) e = e"
    by (auto intro: filter_True)
  have fb: "filter (\<lambda>x. x = InvalidCanonicalAck \<or> x = InvalidLegacyAck)
      (concat (map (\<lambda>b. map (BlockError (blk_index b)) (blk_errors b)) bs)) = []" for bs
    by (auto simp: filter_empty_conv)
  show thesis
    by (rule that [OF starts]; use assms starts ack fe in
        \<open>auto simp: parse_text_def Let_def fb filter_empty_conv simp del: length_blocks_from
          split: if_splits\<close>)
qed

lemma acknowledged_le:
  "acknowledged bs n v2 old = (a, s, e) \<Longrightarrow> a \<le> int (length bs)"
  by (auto simp: acknowledged_def split: option.splits ack_cursor.splits if_splits)

lemma clean_blocks_complete:
  assumes "parse_text t v2 old = Inr r" and "hr_protocol_errors r = []"
    and "b \<in> set (hr_block_details r)"
  shows "block_complete b"
proof -
  obtain starts where
    d: "hr_block_details r = blocks_from (splitlines t) (h2_indices 0 (splitlines t)) 0 0 starts"
    and e: "\<forall>b \<in> set (hr_block_details r). blk_errors b = []"
    using assms(1) by (rule parse_text_cases) (use assms(2) in blast)
  obtain prev dups where "blk_errors b = block_errors_of prev (blk_turn b) (blk_fields b) dups"
    using blocks_from_errors assms(3) d by metis
  with e assms(3) show ?thesis by (metis no_errors_complete)
qed

text \<open>
  A report without protocol errors is complete: its turns are numbered 1, 2, 3, ... without
  a gap, every block has all required fields, a known verdict, a reason unless it is done, and a
  \<open>waiting\<close> block is certified (nothing needed, a real \<open>pending\<close> and reason); every H2
  line of the log is a turn heading; and the acknowledgement stays within the blocks.
\<close>

theorem clean_report:
  assumes "parse_text t v2 old = Inr r" and "hr_protocol_errors r = []"
  shows "map blk_turn (hr_block_details r) = [1 ..< hr_blocks r + 1]
    \<and> (\<forall>b \<in> set (hr_block_details r). block_complete b)
    \<and> (\<forall>l \<in> set (splitlines t). is_h2 l \<longrightarrow> match_turn l \<noteq> None)
    \<and> hr_acked_through r \<le> int (hr_blocks r)"
proof -
  obtain starts where s: "starts_from 0 (splitlines t) = Inr starts"
    and d: "hr_block_details r = blocks_from (splitlines t) (h2_indices 0 (splitlines t)) 0 0 starts"
    and n: "hr_blocks r = length (hr_block_details r)"
    and a: "acknowledged (hr_block_details r) (length (h2_indices 0 (splitlines t))) v2 old
      = (hr_acked_through r, hr_acked_source r,
         filter (\<lambda>e. e \<in> {InvalidCanonicalAck, InvalidLegacyAck}) (hr_protocol_errors r))"
    and e: "(\<forall>b \<in> set (hr_block_details r). blk_errors b = [])
      \<and> (\<forall>l \<in> set (splitlines t). is_h2 l \<longrightarrow> match_turn l \<noteq> None)"
    using assms(1) by (rule parse_text_cases) (use assms(2) in blast)
  have "map snd starts = [1 ..< 1 + length starts]"
    using blocks_from_sequence [of _ _ 0 0 starts] d e by auto
  then have "map blk_turn (hr_block_details r) = [1 ..< hr_blocks r + 1]"
    by (simp add: d n blocks_from_turns)
  moreover have "block_complete b" if "b \<in> set (hr_block_details r)" for b
    using assms that by (rule clean_blocks_complete)
  ultimately show ?thesis using e acknowledged_le [OF a] n by simp
qed

text \<open>A one-turn log for the witnesses, with its parse computed step by step.\<close>

definition sample_body :: "ucs list" where
  "sample_body = [u ''verdict: waiting'', u ''reason: ci'', u ''did: x'', u ''pending: build'',
     u ''inputs-needed: none'', u ''artifacts: none'']"

definition sample_log :: ucs where
  "sample_log = u ''## turn 1'' @ [10] @ u ''verdict: waiting'' @ [10] @ u ''reason: ci'' @ [10]
     @ u ''did: x'' @ [10] @ u ''pending: build'' @ [10] @ u ''inputs-needed: none'' @ [10]
     @ u ''artifacts: none''"

definition sample_fields :: fields where
  "sample_fields = [(u ''verdict'', u ''waiting''), (u ''reason'', u ''ci''), (u ''did'', u ''x''),
     (u ''pending'', u ''build''), (u ''inputs-needed'', u ''none''), (u ''artifacts'', u ''none'')]"

lemmas text_eval = splitlines_def is_break_def match_turn_def is_digit_def match_field_def
  name_char_def is_letter_def is_space_def lower_def lower1_def KNOWN_def is_h2_def strip_def
  lstrip_def int_of_digits_def digits_value_def

definition sample_all :: "ucs list" where
  "sample_all = u ''## turn 1'' # sample_body"

lemma sample_lines:
  "splitlines sample_log = sample_all"
  "splitlines (sample_log @ [10]) = sample_all"
  by (simp_all add: sample_log_def sample_all_def sample_body_def splitlines_def is_break_def)

lemma sample_block_fields: "block_fields sample_body = (sample_fields, [])"
  by (simp add: text_eval block_fields_def add_line_def sample_body_def sample_fields_def)

lemma sample_no_errors: "block_errors_of 0 1 sample_fields [] = []"
  by (simp add: text_eval block_errors_of_def get_field_def required_sorted_def known_sorted_def
      VERDICTS_def NONE_WORDS_def sample_fields_def)

lemma sample_starts:
  "starts_from 0 sample_all = Inr [(0, 1)]"
  "h2_indices 0 sample_all = [0]"
  "filter (\<lambda>l. is_h2 l \<and> match_turn l = None) sample_all = []"
  "length sample_all = 7"
  "match_turn (u ''## turn 1'') = Some (u ''1'')"
  "match_turn (u ''## turn 2'') = Some (u ''2'')"
  by (simp_all add: text_eval sample_all_def sample_body_def)

lemma sample_log_parse:
  "\<exists>r. parse_text sample_log None None = Inr r \<and> hr_protocol_errors r = [] \<and> hr_blocks r = 1"
proof -
  have "drop 1 (take 7 sample_all) = sample_body" "sample_all ! 0 = u ''## turn 1''"
    by (simp_all add: sample_all_def sample_body_def del: u_simps)
  with sample_block_fields sample_no_errors
  have "blocks_from sample_all [0] 0 0 [(0, 1)] =
    [\<lparr>blk_index = 1, blk_turn = 1, blk_heading = strip (drop 3 (u ''## turn 1'')),
      blk_fields = sample_fields, blk_valid = True, blk_errors = [], legacy_index = 1\<rparr>]"
    by (simp add: make_block_def sample_starts del: u_simps)
  then show ?thesis
    by (simp add: parse_text_def sample_lines sample_starts acknowledged_def Let_def del: u_simps)
qed

lemma parse_text_total:
  "starts_from 0 (splitlines t) = Inr ss \<Longrightarrow> \<exists>r. parse_text t None None = Inr r
     \<and> {InvalidCanonicalAck, InvalidLegacyAck} \<inter> set (hr_protocol_errors r) = {}"
  by (auto simp: parse_text_def acknowledged_def Let_def)

lemma parse_text_returns:
  "starts_from 0 (splitlines t) = Inr ss \<Longrightarrow>
     \<exists>r. parse_text t v2 old = Inr r \<and> hr_blocks r = length ss"
  by (auto simp: parse_text_def Let_def split: prod.splits)

theorem clean_report_witness:
  "\<exists>r. parse_text sample_log None None = Inr r \<and> hr_blocks r = 1
     \<and> map blk_turn (hr_block_details r) = [1 ..< hr_blocks r + 1]"
  using sample_log_parse clean_report [of sample_log None None] by metis

text \<open>
  The log is append-only for its readers: when turns are appended after a log that ends with
  a newline and whose cursors are valid, every earlier block parses exactly as before, the
  acknowledgement is unchanged, and every item that was open is still open, in the same order
  and before any new one.
\<close>

theorem append_keeps_report:
  assumes "parse_text (t @ [10]) v2 old = Inr r" and "parse_text (t @ 10 # more_text) v2 old = Inr r'"
    and "splitlines more_text = first # rest" and "match_turn first \<noteq> None"
    and "{InvalidCanonicalAck, InvalidLegacyAck} \<inter> set (hr_protocol_errors r) = {}"
  shows "prefix (hr_block_details r) (hr_block_details r')
    \<and> hr_acked_through r' = hr_acked_through r
    \<and> prefix (hr_open_items r) (hr_open_items r')"
proof -
  let ?xs = "splitlines (t @ [10])" and ?ys = "splitlines more_text"
  let ?l = "h2_indices 0 ?xs" and ?l' = "h2_indices (length ?xs) ?ys"
  have lines: "splitlines (t @ 10 # more_text) = ?xs @ ?ys" by (rule splitlines_newline)
  obtain ss where ss: "starts_from 0 ?xs = Inr ss"
    and d: "hr_block_details r = blocks_from ?xs ?l 0 0 ss"
    and n: "hr_blocks r = length (hr_block_details r)"
    and a: "acknowledged (hr_block_details r) (length ?l) v2 old
      = (hr_acked_through r, hr_acked_source r,
         filter (\<lambda>e. e \<in> {InvalidCanonicalAck, InvalidLegacyAck}) (hr_protocol_errors r))"
    and o: "hr_open_items r = map open_item_of (filter (is_open (hr_acked_through r)) (hr_block_details r))"
    using assms(1) by (rule parse_text_cases)
  obtain ss' where ss': "starts_from 0 (?xs @ ?ys) = Inr ss'"
    and d': "hr_block_details r' = blocks_from (?xs @ ?ys) (?l @ ?l') 0 0 ss'"
    and a': "acknowledged (hr_block_details r') (length (?l @ ?l')) v2 old
      = (hr_acked_through r', hr_acked_source r',
         filter (\<lambda>e. e \<in> {InvalidCanonicalAck, InvalidLegacyAck}) (hr_protocol_errors r'))"
    and o': "hr_open_items r' = map open_item_of (filter (is_open (hr_acked_through r')) (hr_block_details r'))"
    using assms(2) by (rule parse_text_cases) (simp add: lines h2_indices_append)
  obtain later where later: "starts_from (length ?xs) ?ys = Inr later" and app: "ss' = ss @ later"
    using ss ss' by (auto simp: starts_from_append and_then_eq_Inr)
  obtain k tl where head: "later = (length ?xs, k) # tl"
    using later assms(3,4) by (auto simp: and_then_eq_Inr)
  have ok: "\<forall>(s, n) \<in> set ss. s < length ?xs \<and> s \<in> set ?l"
    using starts_from_bounds [OF ss] starts_from_h2 [OF ss] by force
  obtain prev where split: "hr_block_details r' = hr_block_details r
      @ blocks_from (?xs @ ?ys) (?l @ ?l') (length ss) prev later"
    using blocks_from_append [OF ok starts_from_sorted [OF ss], of later ?ys ?l' 0 0] head
    by (auto simp: d d' app)
  have new: "length ?l < legacy_index b"
    if "b \<in> set (blocks_from (?xs @ ?ys) (?l @ ?l') (length ss) prev later)" for b
  proof (rule blocks_from_legacy_bound [OF _ that])
    show "\<forall>(s, n) \<in> set later. s \<notin> set ?l"
      using starts_from_bounds [OF later] h2_indices_bounds [of _ 0 ?xs] by fastforce
  qed
  have valid: "filter (\<lambda>e. e \<in> {InvalidCanonicalAck, InvalidLegacyAck}) (hr_protocol_errors r) = []"
    using assms(5) by (auto simp: filter_empty_conv)
  have none: "filter (\<lambda>b. int (legacy_index b) \<le> i)
      (blocks_from (?xs @ ?ys) (?l @ ?l') (length ss) prev later) = []"
    if "\<not> int (length ?l) < i" for i
    using that new by (fastforce simp: filter_empty_conv)
  have acked: "hr_acked_through r' = hr_acked_through r"
    using a [unfolded valid] a'
    by (auto simp: acknowledged_def split none
        split: option.splits ack_cursor.splits if_splits)
  show ?thesis
    unfolding o o' acked by (simp add: split acked)
qed

theorem append_keeps_report_witness:
  "\<exists>r r'. parse_text (sample_log @ [10]) None None = Inr r
     \<and> parse_text (sample_log @ 10 # u ''## turn 2'') None None = Inr r'
     \<and> prefix (hr_block_details r) (hr_block_details r')"
proof -
  have two: "splitlines (u ''## turn 2'') = [u ''## turn 2'']"
    by (simp add: splitlines_def is_break_def)
  obtain r where r: "parse_text (sample_log @ [10]) None None = Inr r"
    "{InvalidCanonicalAck, InvalidLegacyAck} \<inter> set (hr_protocol_errors r) = {}"
    using parse_text_total [of "sample_log @ [10]"] sample_lines(2) sample_starts(1) by metis
  have "starts_from 0 (splitlines (sample_log @ 10 # u ''## turn 2'')) = Inr [(0, 1), (7, 2)]"
    unfolding splitlines_newline [of sample_log "u ''## turn 2''"] sample_lines two starts_from_append
    by (simp add: sample_starts(1,4)) (simp add: text_eval)
  then obtain r' where r': "parse_text (sample_log @ 10 # u ''## turn 2'') None None = Inr r'"
    using parse_text_total by metis
  have "match_turn (u ''## turn 2'') \<noteq> None" by (simp add: sample_starts(6) del: u_simps)
  with append_keeps_report [OF r(1) r' two _ r(2)] r(1) r' show ?thesis by blast
qed

text \<open>
  C4: acknowledging through block \<open>k'\<close> closes exactly the open items up to \<open>k'\<close>: the later items
  stay open, unchanged and in order, whatever their verdicts.
\<close>

theorem ack_closes_exactly:
  assumes "parse_text t (Some (AckAt k)) old = Inr r" and "parse_text t (Some (AckAt k')) old = Inr r'"
    and "k \<le> k'" and "k' \<le> int (hr_blocks r)"
  shows "hr_open_items r' = filter (\<lambda>i. k' < int (oi_index i)) (hr_open_items r)
    \<and> hr_block_details r' = hr_block_details r"
proof -
  obtain ss where ss: "starts_from 0 (splitlines t) = Inr ss"
    and d: "hr_block_details r = blocks_from (splitlines t) (h2_indices 0 (splitlines t)) 0 0 ss"
    and n: "hr_blocks r = length (hr_block_details r)"
    and a: "acknowledged (hr_block_details r) (length (h2_indices 0 (splitlines t))) (Some (AckAt k)) old
      = (hr_acked_through r, hr_acked_source r,
         filter (\<lambda>e. e \<in> {InvalidCanonicalAck, InvalidLegacyAck}) (hr_protocol_errors r))"
    and o: "hr_open_items r = map open_item_of (filter (is_open (hr_acked_through r)) (hr_block_details r))"
    using assms(1) by (rule parse_text_cases)
  obtain ss' where ss': "starts_from 0 (splitlines t) = Inr ss'"
    and d': "hr_block_details r' = blocks_from (splitlines t) (h2_indices 0 (splitlines t)) 0 0 ss'"
    and a': "acknowledged (hr_block_details r') (length (h2_indices 0 (splitlines t))) (Some (AckAt k')) old
      = (hr_acked_through r', hr_acked_source r',
         filter (\<lambda>e. e \<in> {InvalidCanonicalAck, InvalidLegacyAck}) (hr_protocol_errors r'))"
    and o': "hr_open_items r' = map open_item_of (filter (is_open (hr_acked_through r')) (hr_block_details r'))"
    using assms(2) by (rule parse_text_cases)
  have same: "hr_block_details r' = hr_block_details r" using ss ss' d d' by simp
  have "hr_acked_through r = k" "hr_acked_through r' = k'"
    using a a' assms(3,4) n same by (auto simp: acknowledged_def split: if_splits)
  moreover have "filter (\<lambda>i. k' < int (oi_index i)) (map open_item_of (filter (is_open k) bs))
      = map open_item_of (filter (is_open k') bs)" for bs
    using assms(3) by (induction bs) (auto simp: is_open_def open_item_of_def)
  ultimately show ?thesis using o o' same by simp
qed

theorem ack_closes_exactly_witness:
  "\<exists>r r'. parse_text sample_log (Some (AckAt 0)) None = Inr r
     \<and> parse_text sample_log (Some (AckAt 1)) None = Inr r'
     \<and> hr_open_items r' = filter (\<lambda>i. 1 < int (oi_index i)) (hr_open_items r)"
proof -
  obtain r where r: "parse_text sample_log (Some (AckAt 0)) None = Inr r" "hr_blocks r = 1"
    using parse_text_returns [of sample_log] sample_lines(1) sample_starts(1) by fastforce
  obtain r' where r': "parse_text sample_log (Some (AckAt 1)) None = Inr r'"
    using parse_text_returns [of sample_log] sample_lines(1) sample_starts(1) by fastforce
  from ack_closes_exactly [OF r(1) r'] r r' show ?thesis by auto
qed

end
