(* ===== verification/Store_State.thy ===== *)
theory Store_State
  imports Reducer Handoff "HOL-Library.List_Lexorder" "HOL-Library.Char_ord"
begin

text \<open>
  The tables of \<open>lib/rozoro_monitor/store.py\<close> at schema version 7 as one record.  A table with a
  primary key is an association list in insertion (rowid) order; the others are lists of rows.
  Columns that only hold a wall-clock time for people to read are left out; the times that decide
  something (those of \<open>pending_sends\<close>) are kept as milliseconds.

  Every write of the class runs inside \<open>_immediate\<close>: one transaction that is rolled back when
  anything raises.  So an operation is a function from the store to \<open>Inl error\<close> (nothing changed)
  or \<open>Inr\<close> of its result and the new store.
\<close>

section \<open>Vocabulary of the columns\<close>

datatype report_status = Missing | Malformed | Valid

datatype verdict = VDone | VWaiting | VNeedsAction | VFailed | VBlocked | VOther ucs

datatype reason =
    RNone | RQuiescent | RMissingReport | RMalformedReport | RWaitingBackground
  | RNativeTurnEnded | RBlocked | RFailed | RNeedsAction | RGone | RUnknown

datatype priority = Normal | Urgent

datatype delivery_state = DPending | DDelivered | DDeferred | DError

datatype summary_error = Protocol report_error | UnreadableHandoff

text \<open>
  \<open>_REPORT_TUPLES\<close> of \<open>protocol.py\<close>: the report state, verdict and reason that may stand
  together in a reconciliation reply.
\<close>

definition REPORT_TUPLES :: "(report_status \<times> verdict option \<times> reason) set" where
  "REPORT_TUPLES = {
     (Missing, None, RMissingReport),
     (Malformed, None, RMalformedReport),
     (Valid, Some VDone, RNone),
     (Valid, Some VDone, RQuiescent),
     (Valid, Some VDone, RGone),
     (Valid, Some VWaiting, RWaitingBackground),
     (Valid, Some VWaiting, RUnknown),
     (Valid, Some VWaiting, RGone),
     (Valid, Some VNeedsAction, RNeedsAction),
     (Valid, Some VNeedsAction, RGone),
     (Valid, Some VFailed, RFailed),
     (Valid, Some VFailed, RGone),
     (Valid, Some VBlocked, RBlocked),
     (Valid, Some VBlocked, RGone)}"

text \<open>The report summary that \<open>_report_projection\<close> puts into the projection.\<close>

record report_summary =
  rs_state :: report_status
  rs_verdict :: "verdict option"
  rs_latest_verdict :: "verdict option"
  rs_blocks :: nat
  rs_acked_through :: int
  rs_acked_source :: ack_source
  rs_unresolved :: nat
  rs_open_items :: "open_item list"
  rs_protocol_errors :: "summary_error list"
  rs_external_action :: bool
  rs_heading :: ucs
  rs_reason :: ucs
  rs_pending :: ucs
  rs_inputs_needed :: ucs
  rs_artifacts :: ucs

section \<open>Rows\<close>

record event_row =
  er_durable_seq :: nat
  er_event :: event

record session_row =
  se_task :: "ident option"
  se_driver :: "ident option"
  se_harness :: harness
  se_role :: role
  se_foreground :: foreground
  se_background :: background
  se_background_count :: "int option"
  se_availability :: availability
  se_producer_seq :: int
  se_state :: lifecycle
  se_latest_durable_seq :: nat
  se_registered :: bool

text \<open>\<open>projection_json\<close>; the pane flag is present only after a liveness observation.\<close>

record projection_detail =
  pd_task :: ident
  pd_folder_present :: bool
  pd_session :: ident
  pd_foreground :: foreground
  pd_background :: background
  pd_background_count :: "int option"
  pd_availability :: availability
  pd_report :: report_summary
  pd_pane_exists :: "bool option"

record projection_row =
  pr_availability :: availability
  pr_report_state :: report_status
  pr_verdict :: "verdict option"
  pr_reason :: reason
  pr_generation :: nat
  pr_last_event_seq :: nat
  pr_detail :: projection_detail

record delivery =
  d_latest :: nat
  d_delivered :: nat
  d_acked :: nat
  d_state :: delivery_state
  d_error :: "string option"

record registration =
  r_session :: ident
  r_harness :: harness
  r_epoch :: nat

record offer =
  o_driver :: ident
  o_epoch :: nat
  o_session :: ident
  o_generation :: nat
  o_confirmed :: bool

record snapshot =
  sn_generation :: nat
  sn_task :: ident
  sn_row :: projection_row
  sn_compat :: bool

datatype send_state = SPending | SDelivering | SDelivered | SFailed | SCancelled

record send_row =
  sd_id :: ident
  sd_task :: ident
  sd_payload :: string
  sd_state :: send_state
  sd_error :: "string option"
  sd_created_at :: int
  sd_deadline_at :: int
  sd_resolved_at :: "int option"

record store =
  events :: "event_row list"
  events_seq :: nat
  latest_generation :: nat
  sessions :: "(ident \<times> session_row) list"
  task_projections :: "(ident \<times> projection_row) list"
  registrations :: "(ident \<times> registration) list"
  deliveries :: "(ident \<times> delivery) list"
  delivery_offers :: "offer list"
  pending_generations :: "(nat \<times> priority) list"
  generation_tasks :: "(nat \<times> ident \<times> reason) list"
  membership_snapshots :: "(nat \<times> ident) list"
  task_snapshots :: "snapshot list"
  disabled_drivers :: "ident list"
  pending_sends :: "send_row list"

text \<open>A database that the migrations have just created.\<close>

definition empty_store :: store where
  "empty_store = \<lparr>events = [], events_seq = 0, latest_generation = 0, sessions = [],
     task_projections = [], registrations = [], deliveries = [], delivery_offers = [],
     pending_generations = [], generation_tasks = [], membership_snapshots = [],
     task_snapshots = [], disabled_drivers = [], pending_sends = []\<rparr>"

type_synonym 'a op_result = "py_error + 'a \<times> store"

text \<open>\<open>error[:128]\<close>.\<close>

definition clip_error :: "string option \<Rightarrow> string option" where
  "clip_error e = map_option (take 128) e"

end
