(* ===== verification/Store_Delivery.thy ===== *)
theory Store_Delivery
  imports Store_State
begin

text \<open>
  The watchtower side of \<open>EventStore\<close>: driver registrations with their connection epochs, the
  three generation cursors of a driver (latest, delivered, acknowledged), the exact offers, and
  the immutable snapshots that reconciliation reads.
\<close>

section \<open>A new generation\<close>

record actionable_change =
  ac_task :: ident
  ac_reason :: reason
  ac_priority :: priority
  ac_preserve :: bool

text \<open>The row constraints of \<open>watchtower_deliveries\<close>, tested after an update of the table.\<close>

definition delivery_check :: "delivery \<Rightarrow> bool" where
  "delivery_check d \<longleftrightarrow> d_acked d \<le> d_delivered d \<and> d_delivered d \<le> d_latest d"

definition checked_deliveries :: "store \<Rightarrow> py_error + store" where
  "checked_deliveries s =
     (if \<forall>(_, d) \<in> set (deliveries s). delivery_check d then Inr s
      else Inl (IntegrityError ''CHECK constraint failed: watchtower_deliveries''))"

text \<open>
  \<open>bump_actionable\<close>: take the next generation, mark the changed task, and freeze the membership
  and every projection under that number.
\<close>

definition bump_actionable :: "actionable_change \<Rightarrow> store \<Rightarrow> nat op_result" where
  "bump_actionable change s =
     (let gen = latest_generation s + 1 in
      if gen \<in> fst ` set (pending_generations s)
      then Inl (IntegrityError ''UNIQUE constraint failed: pending_generations.generation'')
      else if map_of (task_projections s) (ac_task change) = None
      then Inl (ValueError ''actionable task has no projection'')
      else
        let projections' = update_key (ac_task change)
              (\<lambda>row. if ac_preserve change then row\<lparr>pr_generation := gen\<rparr>
                     else row\<lparr>pr_generation := gen, pr_reason := ac_reason change\<rparr>)
              (task_projections s)
        in and_then (checked_deliveries (s\<lparr>latest_generation := gen,
             pending_generations := pending_generations s @ [(gen, ac_priority change)],
             task_projections := projections',
             generation_tasks := generation_tasks s @ [(gen, ac_task change, ac_reason change)],
             membership_snapshots := membership_snapshots s @ map (\<lambda>(t, _). (gen, t)) projections',
             task_snapshots := task_snapshots s @
               map (\<lambda>(t, row). \<lparr>sn_generation = gen, sn_task = t, sn_row = row, sn_compat = True\<rparr>)
                 projections',
             deliveries := update_all (\<lambda>d. d\<lparr>d_latest := gen\<rparr>) (deliveries s)\<rparr>))
           (\<lambda>s'. Inr (gen, s')))"

section \<open>Authority and registration\<close>

datatype authority = AuthDisabled | AuthActive | AuthUnknown

definition driver_authority :: "ident \<Rightarrow> store \<Rightarrow> authority" where
  "driver_authority drv s =
     (if drv \<in> set (disabled_drivers s) then AuthDisabled
      else if map_of (deliveries s) drv \<noteq> None then AuthActive
      else AuthUnknown)"

text \<open>Deleting a registration cascades to its offers.\<close>

definition disable_driver_authority :: "ident \<Rightarrow> store \<Rightarrow> unit op_result" where
  "disable_driver_authority drv s =
     (if drv \<in> set (disabled_drivers s) then
        (if map_of (registrations s) drv \<noteq> None \<or> map_of (deliveries s) drv \<noteq> None
         then Inl (ValueError ''disabled driver retains inconsistent active authority'')
         else Inr ((), s))
      else case map_of (deliveries s) drv of
        None \<Rightarrow> Inl (ValueError ''unknown driver'')
      | Some d \<Rightarrow>
          if \<not> (d_latest d = d_delivered d \<and> d_delivered d = d_acked d)
          then Inl (ValueError ''cannot disable driver authority with pending generations'')
          else Inr ((), s\<lparr>disabled_drivers := disabled_drivers s @ [drv],
            registrations := AList.delete drv (registrations s),
            delivery_offers := filter (\<lambda>p. o_driver p \<noteq> drv) (delivery_offers s),
            deliveries := AList.delete drv (deliveries s)\<rparr>))"

definition register_driver :: "ident \<Rightarrow> ident \<Rightarrow> harness \<Rightarrow> store \<Rightarrow> nat op_result" where
  "register_driver drv sess harn s =
     (if drv \<in> set (disabled_drivers s)
      then Inl (ValueError ''driver authority is disabled for legacy fallback'')
      else case map_of (registrations s) drv of
        None \<Rightarrow>
          if map_of (deliveries s) drv \<noteq> None
          then Inl (IntegrityError ''UNIQUE constraint failed: watchtower_deliveries.driver_id'')
          else Inr (1, s\<lparr>
            registrations := registrations s @ [(drv, \<lparr>r_session = sess, r_harness = harn, r_epoch = 1\<rparr>)],
            deliveries := deliveries s @ [(drv, \<lparr>d_latest = latest_generation s, d_delivered = 0,
              d_acked = 0, d_state = DPending, d_error = None\<rparr>)]\<rparr>)
      | Some r \<Rightarrow>
          if r_harness r \<noteq> harn then Inl (ValueError ''driver harness is immutable'')
          else let ep = r_epoch r + 1 in
            Inr (ep, s\<lparr>registrations :=
              update_key drv (\<lambda>r. r\<lparr>r_session := sess, r_epoch := ep\<rparr>) (registrations s)\<rparr>))"

definition require_registration :: "ident \<Rightarrow> ident \<Rightarrow> nat \<Rightarrow> store \<Rightarrow> py_error + unit" where
  "require_registration drv sess ep s =
     (case map_of (registrations s) drv of
        Some r \<Rightarrow> if r_session r = sess \<and> r_epoch r = ep then Inr ()
                  else Inl (ValueError ''stale or mismatched driver connection epoch'')
      | None \<Rightarrow> Inl (ValueError ''stale or mismatched driver connection epoch''))"

text \<open>The cursor row of a driver; unpacking the missing row of an unknown one is a TypeError.\<close>

definition ledger_of :: "ident \<Rightarrow> store \<Rightarrow> py_error + delivery" where
  "ledger_of drv s = (case map_of (deliveries s) drv of None \<Rightarrow> Inl TypeError | Some d \<Rightarrow> Inr d)"

definition watchtower_availability ::
  "ident \<Rightarrow> ident \<Rightarrow> nat \<Rightarrow> store \<Rightarrow> py_error + availability" where
  "watchtower_availability drv sess ep s =
     and_then (require_registration drv sess ep s) (\<lambda>_.
       Inr (case map_of (sessions s) sess of
              Some row \<Rightarrow>
                if se_driver row = Some drv \<and> se_role row = Watchtower \<and> se_registered row
                then se_availability row else AvUnknown
            | None \<Rightarrow> AvUnknown))"

definition driver_snapshot :: "ident \<Rightarrow> store \<Rightarrow> nat \<times> nat \<times> nat" where
  "driver_snapshot drv s =
     (case map_of (deliveries s) drv of
        None \<Rightarrow> (0, 0, 0)
      | Some d \<Rightarrow> (d_latest d, d_delivered d, d_acked d))"

section \<open>Offers\<close>

text \<open>\<open>SELECT generation .. ORDER BY generation LIMIT 1\<close>.\<close>

definition first_generation :: "offer list \<Rightarrow> nat option" where
  "first_generation os = (if os = [] then None else Some (Min (o_generation ` set os)))"

definition open_offers :: "ident \<Rightarrow> nat \<Rightarrow> ident \<Rightarrow> nat \<Rightarrow> store \<Rightarrow> offer list" where
  "open_offers drv ep sess a s = filter (\<lambda>p. o_driver p = drv \<and> o_epoch p = ep \<and> o_session p = sess
     \<and> \<not> o_confirmed p \<and> a < o_generation p) (delivery_offers s)"

definition has_offer :: "ident \<Rightarrow> nat \<Rightarrow> ident \<Rightarrow> nat \<Rightarrow> bool \<Rightarrow> store \<Rightarrow> bool" where
  "has_offer drv ep sess gen confirmed s \<longleftrightarrow> (\<exists>p \<in> set (delivery_offers s). o_driver p = drv
     \<and> o_epoch p = ep \<and> o_session p = sess \<and> o_generation p = gen \<and> o_confirmed p = confirmed)"

definition range_priority :: "nat \<Rightarrow> nat \<Rightarrow> store \<Rightarrow> priority" where
  "range_priority a gen s =
     (if \<exists>(n, p) \<in> set (pending_generations s). a < n \<and> n \<le> gen \<and> p = Urgent
      then Urgent else Normal)"

definition tasks_between :: "nat \<Rightarrow> nat \<Rightarrow> store \<Rightarrow> ident list" where
  "tasks_between a gen s =
     map (\<lambda>(_, t, _). t) (filter (\<lambda>(n, _, _). a < n \<and> n \<le> gen) (generation_tasks s))"

definition notification_frontier ::
  "ident \<Rightarrow> ident \<Rightarrow> nat \<Rightarrow> store \<Rightarrow> py_error + (nat \<times> priority \<times> bool) option" where
  "notification_frontier drv sess ep s =
     and_then (require_registration drv sess ep s) (\<lambda>_.
     and_then (ledger_of drv s) (\<lambda>l.
       let g = d_latest l; d = d_delivered l; a = d_acked l;
           found = (\<lambda>gen immediate. Inr (Some (gen, range_priority a gen s, immediate)))
       in case first_generation (open_offers drv ep sess a s) of
            Some gen \<Rightarrow> found gen True
          | None \<Rightarrow>
              if g \<le> a then Inr None
              else if d > a then
                (if has_offer drv ep sess d True s then Inr None else found d True)
              else found g False))"

record notice =
  n_generation :: nat
  n_priority :: priority
  n_task_count :: nat

definition insert_offer :: "ident \<Rightarrow> nat \<Rightarrow> ident \<Rightarrow> nat \<Rightarrow> store \<Rightarrow> py_error + store" where
  "insert_offer drv ep sess gen s =
     (if \<exists>p \<in> set (delivery_offers s). o_driver p = drv \<and> o_epoch p = ep \<and> o_generation p = gen
      then Inl (IntegrityError ''UNIQUE constraint failed: delivery_offers'')
      else Inr (s\<lparr>delivery_offers := delivery_offers s @
        [\<lparr>o_driver = drv, o_epoch = ep, o_session = sess, o_generation = gen, o_confirmed = False\<rparr>]\<rparr>))"

definition offer_notification ::
  "ident \<Rightarrow> ident \<Rightarrow> nat \<Rightarrow> store \<Rightarrow> notice option op_result" where
  "offer_notification drv sess ep s =
     and_then (require_registration drv sess ep s) (\<lambda>_.
     and_then (ledger_of drv s) (\<lambda>l.
       let g = d_latest l; d = d_delivered l; a = d_acked l;
           offer = (\<lambda>gen s'. Inr (Some \<lparr>n_generation = gen, n_priority = range_priority a gen s',
              n_task_count = length (remdups (tasks_between a gen s'))\<rparr>, s'))
       in case first_generation (open_offers drv ep sess a s) of
            Some gen \<Rightarrow> offer gen s
          | None \<Rightarrow>
              if g \<le> a then Inr (None, s)
              else if d > a then
                (if has_offer drv ep sess d True s then Inr (None, s)
                 else and_then (insert_offer drv ep sess d s) (offer d))
              else and_then (insert_offer drv ep sess g s) (offer g)))"

definition withdraw_unconfirmed_offer ::
  "ident \<Rightarrow> ident \<Rightarrow> nat \<Rightarrow> nat \<Rightarrow> store \<Rightarrow> unit op_result" where
  "withdraw_unconfirmed_offer drv sess ep gen s =
     and_then (require_registration drv sess ep s) (\<lambda>_.
       let matches = (\<lambda>p. o_driver p = drv \<and> o_epoch p = ep \<and> o_session p = sess
             \<and> o_generation p = gen \<and> \<not> o_confirmed p)
       in if length (filter matches (delivery_offers s)) \<noteq> 1
          then Inl (ValueError ''generation does not match the exact unconfirmed offer'')
          else Inr ((), s\<lparr>delivery_offers := filter (\<lambda>p. \<not> matches p) (delivery_offers s)\<rparr>))"

definition record_delivery_outcome ::
  "ident \<Rightarrow> ident \<Rightarrow> nat \<Rightarrow> nat \<Rightarrow> delivery_state \<Rightarrow> string option \<Rightarrow> store \<Rightarrow> unit op_result" where
  "record_delivery_outcome drv sess ep gen state error s =
     (if state \<notin> {DDeferred, DError}
      then Inl (ValueError ''non-delivery state must be deferred or error'')
      else and_then (require_registration drv sess ep s) (\<lambda>_.
        if \<not> has_offer drv ep sess gen False s then
          (if has_offer drv ep sess gen True s
              \<and> (case map_of (deliveries s) drv of None \<Rightarrow> False | Some d \<Rightarrow> gen \<le> d_acked d)
           then Inr ((), s)
           else Inl (ValueError ''generation does not match the exact outstanding offer''))
        else Inr ((), s\<lparr>deliveries := update_key drv
               (\<lambda>d. d\<lparr>d_state := state, d_error := clip_error error\<rparr>) (deliveries s)\<rparr>)))"

definition confirm_delivery :: "ident \<Rightarrow> ident \<Rightarrow> nat \<Rightarrow> nat \<Rightarrow> store \<Rightarrow> bool op_result" where
  "confirm_delivery drv sess ep gen s =
     and_then (require_registration drv sess ep s) (\<lambda>_.
       let mine = filter (\<lambda>p. o_driver p = drv \<and> o_epoch p = ep \<and> o_session p = sess) (delivery_offers s);
           top = Max (o_generation ` set mine)
       in if mine = [] \<or> top \<noteq> gen
          then Inl (ValueError ''generation does not match the exact outstanding offer'')
          else if \<exists>p \<in> set mine. o_generation p = gen \<and> o_confirmed p then Inr (False, s)
          else and_then (checked_deliveries (s\<lparr>
            delivery_offers := update_where
              (\<lambda>p. o_driver p = drv \<and> o_epoch p = ep \<and> o_generation p = gen)
              (\<lambda>p. p\<lparr>o_confirmed := True\<rparr>) (delivery_offers s),
            deliveries := update_key drv (\<lambda>d. d\<lparr>d_delivered := max (d_delivered d) gen,
              d_state := DDelivered, d_error := None\<rparr>) (deliveries s)\<rparr>)) (\<lambda>s'. Inr (True, s')))"

section \<open>Reconciliation\<close>

text \<open>
  The latest snapshot of every task through a generation, optionally only for the tasks that a
  generation after \<open>changed_after\<close> touched, ordered by generation and task.
\<close>

definition newest_for :: "nat \<Rightarrow> snapshot list \<Rightarrow> snapshot \<Rightarrow> bool" where
  "newest_for through snaps p \<longleftrightarrow> sn_generation p \<le> through
     \<and> (\<forall>q \<in> set snaps. sn_task q = sn_task p \<and> sn_generation q \<le> through
          \<longrightarrow> sn_generation q \<le> sn_generation p)"

definition snapshot_rows :: "nat \<Rightarrow> nat option \<Rightarrow> store \<Rightarrow> py_error + snapshot list" where
  "snapshot_rows through changed_after s =
     (let latest = filter (newest_for through (task_snapshots s)) (task_snapshots s);
          wanted = (case changed_after of
             None \<Rightarrow> latest
           | Some a \<Rightarrow> filter (\<lambda>p. sn_task p \<in> set (tasks_between a through s)) latest);
          rows = sort_key sn_generation (sort_key sn_task wanted)
      in if \<exists>p \<in> set rows. \<not> sn_compat p
         then Inl (ValueError ''generation snapshot lacks immutable compatibility fields'')
         else Inr rows)"

definition reconcile :: "ident \<Rightarrow> ident \<Rightarrow> nat \<Rightarrow> nat \<Rightarrow> store \<Rightarrow> py_error + snapshot list" where
  "reconcile drv sess ep through s =
     and_then (require_registration drv sess ep s) (\<lambda>_.
       case map_of (deliveries s) drv of
         None \<Rightarrow> Inl (ValueError ''unavailable generation'')
       | Some d \<Rightarrow> if through > d_latest d then Inl (ValueError ''unavailable generation'')
                   else snapshot_rows through None s)"

definition snapshot_task_count :: "nat \<Rightarrow> store \<Rightarrow> nat" where
  "snapshot_task_count through s =
     length (remdups (map sn_task (filter (\<lambda>p. sn_generation p \<le> through) (task_snapshots s))))"

record reconciliation =
  rc_through :: nat
  rc_reports :: "snapshot list"
  rc_since :: nat
  rc_unchanged :: int

definition reconcile_delivered :: "ident \<Rightarrow> bool \<Rightarrow> store \<Rightarrow> reconciliation op_result" where
  "reconcile_delivered drv full s =
     (case (map_of (deliveries s) drv, map_of (registrations s) drv) of
        (Some d, Some r) \<Rightarrow>
          (let delivered = d_delivered d; acked = d_acked d in
           if delivered \<le> acked
           then Inr (\<lparr>rc_through = acked, rc_reports = [], rc_since = acked, rc_unchanged = 0\<rparr>, s)
           else if \<not> (\<exists>p \<in> set (delivery_offers s). o_driver p = drv \<and> o_generation p = delivered
                        \<and> o_confirmed p)
           then Inl (ValueError ''delivered cursor has no exact confirmed offer'')
           else
             let s' = s\<lparr>delivery_offers := update_where
                   (\<lambda>p. o_driver p = drv \<and> \<not> o_confirmed p
                        \<and> (o_epoch p < r_epoch r \<or> o_generation p = delivered))
                   (\<lambda>p. p\<lparr>o_confirmed := True\<rparr>) (delivery_offers s)\<rparr>
             in if \<exists>p \<in> set (delivery_offers s'). o_driver p = drv \<and> o_generation p < delivered
                     \<and> \<not> o_confirmed p
                then Inl (ValueError ''an older valid delivery offer remains unconfirmed'')
                else and_then (snapshot_rows delivered (if full then None else Some acked) s') (\<lambda>reports.
                  Inr (\<lparr>rc_through = delivered, rc_reports = reports, rc_since = acked,
                    rc_unchanged = int (snapshot_task_count delivered s') - int (length reports)\<rparr>, s')))
      | _ \<Rightarrow> Inl (ValueError ''unknown driver''))"

section \<open>Acknowledgement\<close>

definition set_acked :: "ident \<Rightarrow> nat \<Rightarrow> store \<Rightarrow> py_error + store" where
  "set_acked drv through s = checked_deliveries (s\<lparr>deliveries := update_key drv
     (\<lambda>d. d\<lparr>d_acked := through, d_state := DPending\<rparr>) (deliveries s)\<rparr>)"

definition ack_delivered :: "ident \<Rightarrow> nat \<Rightarrow> store \<Rightarrow> bool op_result" where
  "ack_delivered drv through s =
     (case map_of (deliveries s) drv of
        None \<Rightarrow> Inl (ValueError ''unknown driver'')
      | Some d \<Rightarrow>
          if through = d_acked d then Inr (False, s)
          else if through \<noteq> d_delivered d \<or> through < d_acked d
          then Inl (ValueError ''ack must equal the exact delivered cursor'')
          else if \<exists>p \<in> set (delivery_offers s). o_driver p = drv \<and> o_generation p \<le> through
                    \<and> \<not> o_confirmed p
          then Inl (ValueError ''cannot retire an unconfirmed delivery offer'')
          else and_then (set_acked drv through s) (\<lambda>s'. Inr (True, s')))"

definition ack_generation :: "ident \<Rightarrow> ident \<Rightarrow> nat \<Rightarrow> nat \<Rightarrow> store \<Rightarrow> bool op_result" where
  "ack_generation drv sess ep through s =
     and_then (require_registration drv sess ep s) (\<lambda>_.
     and_then (ledger_of drv s) (\<lambda>d.
       if through < d_acked d then Inl (ValueError ''stale acknowledgement'')
       else if through = d_acked d then Inr (False, s)
       else if through > d_delivered d
       then Inl (ValueError ''cannot acknowledge an undelivered generation'')
       else and_then (set_acked drv through s) (\<lambda>s'.
         Inr (True, s'\<lparr>delivery_offers := update_where
           (\<lambda>p. o_driver p = drv \<and> o_generation p \<le> through)
           (\<lambda>p. p\<lparr>o_confirmed := True\<rparr>) (delivery_offers s')\<rparr>))))"

text \<open>\<open>projection_snapshots_through\<close>: the frozen history, oldest generation first.\<close>

definition projection_snapshots_through :: "nat \<Rightarrow> store \<Rightarrow> snapshot list" where
  "projection_snapshots_through through s =
     sort_key sn_generation (sort_key sn_task
       (filter (\<lambda>p. sn_generation p \<le> through) (task_snapshots s)))"

end
