(* ===== verification/Store_Delivery_Facts.thy ===== *)
theory Store_Delivery_Facts
  imports Store_Delivery
begin

text \<open>
  Correctness of the delivery ledger.  \<open>driver_ok\<close> is the contract of one driver's cursors and
  offers, \<open>ledger_wf\<close> that of the whole ledger.  Each operation is shown to keep the contract of
  its own driver and to leave the others alone, so \<open>ledger_wf\<close> holds in every reachable store;
  the properties follow from it.
\<close>

section \<open>One driver\<close>

text \<open>
  \<open>latest\<close> is the daemon's generation, \<open>offers\<close> the driver's offer rows.  A confirmed offer is
  covered by the delivered cursor, an unconfirmed one lies above the acknowledged cursor; while a
  delivered generation is unacknowledged no offer lies above it and a confirmed offer names it; an
  unconfirmed offer of the current epoch is the highest offer of the driver.
\<close>

definition offer_ok :: "nat \<Rightarrow> registration \<Rightarrow> delivery \<Rightarrow> offer set \<Rightarrow> offer \<Rightarrow> bool" where
  "offer_ok latest r d offers p \<longleftrightarrow>
     o_epoch p \<le> r_epoch r \<and> (o_epoch p = r_epoch r \<longrightarrow> o_session p = r_session r)
     \<and> o_generation p \<le> latest
     \<and> (if o_confirmed p then o_generation p \<le> d_delivered d else d_acked d < o_generation p)
     \<and> (d_acked d < d_delivered d \<longrightarrow> o_generation p \<le> d_delivered d)
     \<and> (\<not> o_confirmed p \<and> o_epoch p = r_epoch r
          \<longrightarrow> (\<forall>q \<in> offers. o_generation q \<le> o_generation p))"

definition driver_ok :: "nat \<Rightarrow> registration \<Rightarrow> delivery \<Rightarrow> offer set \<Rightarrow> bool" where
  "driver_ok latest r d offers \<longleftrightarrow>
     delivery_check d \<and> d_latest d = latest \<and> (\<forall>p \<in> offers. offer_ok latest r d offers p)
     \<and> (d_acked d < d_delivered d
          \<longrightarrow> (\<exists>p \<in> offers. o_generation p = d_delivered d \<and> o_confirmed p))"

text \<open>The current epoch's unconfirmed offer is unique, and is the delivered cursor if that is open.\<close>

lemma current_offer_is_delivered:
  assumes "driver_ok latest r d offers" and "p \<in> offers" and "\<not> o_confirmed p"
    and "o_epoch p = r_epoch r" and "d_acked d < d_delivered d"
  shows "o_generation p = d_delivered d"
proof -
  from assms(1,2) have ok: "offer_ok latest r d offers p" by (simp add: driver_ok_def)
  with assms(5) have "o_generation p \<le> d_delivered d" by (simp add: offer_ok_def)
  moreover from assms(1,5) obtain q where "q \<in> offers" "o_generation q = d_delivered d"
    by (auto simp: driver_ok_def)
  with ok assms(3,4) have "d_delivered d \<le> o_generation p" by (auto simp: offer_ok_def)
  ultimately show ?thesis by simp
qed

lemma driver_ok_fresh:
  "driver_ok latest \<lparr>r_session = sess, r_harness = h, r_epoch = 1\<rparr>
     \<lparr>d_latest = latest, d_delivered = 0, d_acked = 0, d_state = DPending, d_error = None\<rparr> {}"
  by (simp add: driver_ok_def delivery_check_def)

lemma driver_ok_reconnect:
  assumes "driver_ok latest r d offers"
  shows "driver_ok latest (r\<lparr>r_session := sess, r_epoch := r_epoch r + 1\<rparr>) d offers"
  using assms by (fastforce simp: driver_ok_def offer_ok_def)

lemma driver_ok_bump:
  assumes "driver_ok latest r d offers"
  shows "driver_ok (latest + 1) r (d\<lparr>d_latest := latest + 1\<rparr>) offers"
  using assms by (fastforce simp: driver_ok_def offer_ok_def delivery_check_def)

lemma driver_ok_outcome:
  assumes "driver_ok latest r d offers"
  shows "driver_ok latest r (d\<lparr>d_state := st, d_error := e\<rparr>) offers"
  using assms by (simp add: driver_ok_def offer_ok_def delivery_check_def)

lemma driver_ok_withdraw:
  assumes "driver_ok latest r d offers" and "offers' \<subseteq> offers"
    and "\<And>p. p \<in> offers \<Longrightarrow> o_confirmed p \<Longrightarrow> p \<in> offers'"
  shows "driver_ok latest r d offers'"
proof -
  have "offer_ok latest r d offers' p" if "p \<in> offers'" for p
  proof -
    from that assms(1,2) have "offer_ok latest r d offers p" by (auto simp: driver_ok_def)
    with assms(2) show ?thesis by (auto simp: offer_ok_def)
  qed
  moreover have "\<exists>p \<in> offers'. o_generation p = d_delivered d \<and> o_confirmed p"
    if "d_acked d < d_delivered d"
    using assms(1,3) that by (fastforce simp: driver_ok_def)
  ultimately show ?thesis using assms(1) by (simp add: driver_ok_def)
qed

lemma driver_ok_offer:
  assumes ok: "driver_ok latest r d offers"
    and none: "\<And>p. p \<in> offers \<Longrightarrow> o_epoch p = r_epoch r \<Longrightarrow> \<not> o_confirmed p \<Longrightarrow> False"
    and gen: "gen = (if d_acked d < d_delivered d then d_delivered d else latest)"
    and open_range: "d_acked d < latest"
  shows "driver_ok latest r d (insert \<lparr>o_driver = drv, o_epoch = r_epoch r,
           o_session = r_session r, o_generation = gen, o_confirmed = False\<rparr> offers)"
    (is "driver_ok latest r d (insert ?new offers)")
proof -
  from ok have lims: "d_delivered d \<le> latest" and each: "\<And>p. p \<in> offers \<Longrightarrow> offer_ok latest r d offers p"
    by (auto simp: driver_ok_def delivery_check_def)
  have top: "o_generation p \<le> gen" if "p \<in> offers" for p
    using each[OF that] gen by (auto simp: offer_ok_def)
  have "offer_ok latest r d (insert ?new offers) ?new"
    using gen open_range lims top by (auto simp: offer_ok_def)
  moreover have "offer_ok latest r d (insert ?new offers) p" if "p \<in> offers" for p
    using each[OF that] none[OF that] by (auto simp: offer_ok_def)
  ultimately show ?thesis using ok by (auto simp: driver_ok_def)
qed


text \<open>The rows that satisfy \<open>c\<close> become confirmed.\<close>

definition settle :: "(offer \<Rightarrow> bool) \<Rightarrow> offer set \<Rightarrow> offer set" where
  "settle c offers = (\<lambda>p. if c p then p\<lparr>o_confirmed := True\<rparr> else p) ` offers"

lemma ball_settle:
  "(\<forall>p \<in> settle c offers. P p) \<longleftrightarrow> (\<forall>p \<in> offers. P (if c p then p\<lparr>o_confirmed := True\<rparr> else p))"
  unfolding settle_def by blast

lemma settle_generation_bound:
  "(\<forall>q \<in> settle c offers. o_generation q \<le> n) \<longleftrightarrow> (\<forall>q \<in> offers. o_generation q \<le> n)"
  by (simp add: ball_settle)

lemma settle_confirmed:
  assumes "\<exists>p \<in> offers. o_generation p = n \<and> (o_confirmed p \<or> c p)"
  shows "\<exists>p \<in> settle c offers. o_generation p = n \<and> o_confirmed p"
proof -
  from assms obtain p where p: "p \<in> offers" "o_generation p = n" "o_confirmed p \<or> c p" by blast
  let ?q = "if c p then p\<lparr>o_confirmed := True\<rparr> else p"
  from p have "?q \<in> settle c offers" "o_generation ?q = n" "o_confirmed ?q" by (auto simp: settle_def)
  then show ?thesis by blast
qed

lemma driver_ok_settle:
  assumes ok: "driver_ok latest r d offers"
    and cursors: "d_acked d' \<le> d_delivered d'" "d_delivered d' \<le> latest" "d_latest d' = latest"
    and covered: "\<And>p. p \<in> offers \<Longrightarrow> o_confirmed p \<or> c p \<Longrightarrow> o_generation p \<le> d_delivered d'"
    and above: "\<And>p. p \<in> offers \<Longrightarrow> \<not> o_confirmed p \<Longrightarrow> \<not> c p \<Longrightarrow> d_acked d' < o_generation p"
    and bounded: "\<And>p. p \<in> offers \<Longrightarrow> d_acked d' < d_delivered d' \<Longrightarrow> o_generation p \<le> d_delivered d'"
    and named: "d_acked d' < d_delivered d'
      \<Longrightarrow> \<exists>p \<in> offers. o_generation p = d_delivered d' \<and> (o_confirmed p \<or> c p)"
  shows "driver_ok latest r d' (settle c offers)"
proof -
  have "offer_ok latest r d' (settle c offers) (if c p then p\<lparr>o_confirmed := True\<rparr> else p)"
    if p: "p \<in> offers" for p
  proof -
    from ok p have "offer_ok latest r d offers p" by (simp add: driver_ok_def)
    then show ?thesis
      using covered[OF p] above[OF p] bounded[OF p]
      by (auto simp: offer_ok_def settle_generation_bound)
  qed
  then show ?thesis
    using cursors settle_confirmed[of offers _ c] named
    by (simp add: driver_ok_def delivery_check_def ball_settle)
qed

lemma driver_ok_confirm:
  assumes ok: "driver_ok latest r d offers"
    and p: "p \<in> offers" "\<not> o_confirmed p" "o_epoch p = r_epoch r" "o_generation p = gen"
  shows "max (d_delivered d) gen = gen"
    and "driver_ok latest r (d\<lparr>d_delivered := gen, d_state := DDelivered, d_error := None\<rparr>)
           (settle (\<lambda>q. o_epoch q = r_epoch r \<and> o_generation q = gen) offers)"
proof -
  from ok have check: "delivery_check d" "d_latest d = latest" by (simp_all add: driver_ok_def)
  from ok p have pok: "offer_ok latest r d offers p" by (simp add: driver_ok_def)
  then have top: "\<And>q. q \<in> offers \<Longrightarrow> o_generation q \<le> gen"
    and gen: "d_acked d < gen" "gen \<le> latest"
    using p by (auto simp: offer_ok_def)
  have le: "d_delivered d \<le> gen"
  proof (cases "d_acked d < d_delivered d")
    case True
    then show ?thesis using current_offer_is_delivered[OF ok p(1-3)] p(4) by simp
  next
    case False
    with check(1) gen(1) show ?thesis by (simp add: delivery_check_def)
  qed
  then show "max (d_delivered d) gen = gen" by simp
  show "driver_ok latest r (d\<lparr>d_delivered := gen, d_state := DDelivered, d_error := None\<rparr>)
           (settle (\<lambda>q. o_epoch q = r_epoch r \<and> o_generation q = gen) offers)"
  proof (rule driver_ok_settle[OF ok])
    fix q assume q: "q \<in> offers" "\<not> o_confirmed q"
    with ok have "offer_ok latest r d offers q" by (simp add: driver_ok_def)
    with q show "d_acked (d\<lparr>d_delivered := gen, d_state := DDelivered, d_error := None\<rparr>) < o_generation q"
      by (simp add: offer_ok_def)
  next
    show "\<exists>q \<in> offers. o_generation q = d_delivered (d\<lparr>d_delivered := gen, d_state := DDelivered, d_error := None\<rparr>)
            \<and> (o_confirmed q \<or> o_epoch q = r_epoch r \<and> o_generation q = gen)"
      using p by auto
  qed (use top gen check in \<open>auto simp: delivery_check_def\<close>)
qed

lemma driver_ok_retire:
  assumes ok: "driver_ok latest r d offers" and pending: "d_acked d < d_delivered d"
  shows "driver_ok latest r d
      (settle (\<lambda>p. \<not> o_confirmed p \<and> (o_epoch p < r_epoch r \<or> o_generation p = d_delivered d)) offers)"
    and "\<forall>p \<in> settle (\<lambda>p. \<not> o_confirmed p \<and> (o_epoch p < r_epoch r \<or> o_generation p = d_delivered d))
             offers. o_confirmed p"
proof -
  have each: "\<And>p. p \<in> offers \<Longrightarrow> offer_ok latest r d offers p"
    using ok by (simp add: driver_ok_def)
  show "driver_ok latest r d
      (settle (\<lambda>p. \<not> o_confirmed p \<and> (o_epoch p < r_epoch r \<or> o_generation p = d_delivered d)) offers)"
  proof (rule driver_ok_settle[OF ok])
    show "\<And>p. p \<in> offers \<Longrightarrow> o_generation p \<le> d_delivered d"
      using each pending by (auto simp: offer_ok_def)
    then show "\<And>p. p \<in> offers \<Longrightarrow> o_generation p \<le> d_delivered d" .
  next
    fix p assume "p \<in> offers" "\<not> o_confirmed p"
    then show "d_acked d < o_generation p" using each by (auto simp: offer_ok_def)
  qed (use ok pending in \<open>auto simp: driver_ok_def delivery_check_def\<close>)
  have "o_confirmed p \<or> o_epoch p < r_epoch r \<or> o_generation p = d_delivered d" if "p \<in> offers" for p
    using current_offer_is_delivered[OF ok that _ _ pending] each[OF that]
    by (fastforce simp: offer_ok_def)
  then show "\<forall>p \<in> settle (\<lambda>p. \<not> o_confirmed p \<and> (o_epoch p < r_epoch r \<or> o_generation p = d_delivered d))
             offers. o_confirmed p"
    by (auto simp: ball_settle)
qed

lemma driver_ok_ack:
  assumes ok: "driver_ok latest r d offers"
    and through: "d_acked d \<le> through" "through \<le> d_delivered d"
    and settled: "\<And>p. p \<in> offers \<Longrightarrow> \<not> o_confirmed p \<Longrightarrow> \<not> c p \<Longrightarrow> through < o_generation p"
    and only: "\<And>p. p \<in> offers \<Longrightarrow> c p \<Longrightarrow> o_generation p \<le> through"
  shows "driver_ok latest r (d\<lparr>d_acked := through, d_state := DPending\<rparr>) (settle c offers)"
proof (rule driver_ok_settle[OF ok])
  have each: "\<And>p. p \<in> offers \<Longrightarrow> offer_ok latest r d offers p"
    using ok by (simp add: driver_ok_def)
  show "o_generation p \<le> d_delivered (d\<lparr>d_acked := through, d_state := DPending\<rparr>)"
    if "p \<in> offers" "o_confirmed p \<or> c p" for p
    using each[OF that(1)] only[OF that(1)] that(2) through by (auto simp: offer_ok_def)
  show "o_generation p \<le> d_delivered (d\<lparr>d_acked := through, d_state := DPending\<rparr>)"
    if "p \<in> offers" "d_acked (d\<lparr>d_acked := through, d_state := DPending\<rparr>)
          < d_delivered (d\<lparr>d_acked := through, d_state := DPending\<rparr>)" for p
    using each[OF that(1)] that(2) through by (auto simp: offer_ok_def)
qed (use ok through settled in \<open>fastforce simp: driver_ok_def delivery_check_def\<close>)+

section \<open>The whole ledger\<close>

definition offers_of :: "ident \<Rightarrow> store \<Rightarrow> offer set" where
  "offers_of drv s = {p \<in> set (delivery_offers s). o_driver p = drv}"

definition entry_ok :: "ident \<Rightarrow> store \<Rightarrow> bool" where
  "entry_ok drv s = (case (map_of (registrations s) drv, map_of (deliveries s) drv) of
       (Some r, Some d) \<Rightarrow> driver_ok (latest_generation s) r d (offers_of drv s)
     | (None, None) \<Rightarrow> offers_of drv s = {}
     | _ \<Rightarrow> False)"

definition offer_key :: "offer \<Rightarrow> ident \<times> nat \<times> nat" where
  "offer_key p = (o_driver p, o_epoch p, o_generation p)"

definition registry_ok :: "store \<Rightarrow> bool" where
  "registry_ok s \<longleftrightarrow> distinct (keys (registrations s)) \<and> distinct (keys (deliveries s))
     \<and> distinct (map offer_key (delivery_offers s))
     \<and> (\<forall>drv \<in> set (disabled_drivers s). map_of (registrations s) drv = None)
     \<and> (\<forall>drv. entry_ok drv s)"

definition snapshot_key :: "snapshot \<Rightarrow> nat \<times> ident" where
  "snapshot_key p = (sn_generation p, sn_task p)"

text \<open>
  The frozen history: one changed task per generation, frozen with the generation; a frozen task
  still has a projection (the foreign key) and is frozen again with every later generation.
\<close>

definition history_ok :: "store \<Rightarrow> bool" where
  "history_ok s \<longleftrightarrow> map fst (pending_generations s) = [1..<latest_generation s + 1]
     \<and> map fst (generation_tasks s) = [1..<latest_generation s + 1]
     \<and> (\<forall>g \<in> set (generation_tasks s). (fst g, fst (snd g)) \<in> snapshot_key ` set (task_snapshots s))
     \<and> (\<forall>p \<in> set (task_snapshots s). sn_generation p \<in> {1..latest_generation s} \<and> sn_compat p)
     \<and> distinct (map snapshot_key (task_snapshots s))
     \<and> (\<forall>p \<in> set (task_snapshots s). sn_task p \<in> set (keys (task_projections s))
          \<and> (\<forall>g \<in> {sn_generation p..latest_generation s}.
                (g, sn_task p) \<in> snapshot_key ` set (task_snapshots s)))
     \<and> membership_snapshots s = map snapshot_key (task_snapshots s)
     \<and> distinct (keys (task_projections s))"

definition ledger_wf :: "store \<Rightarrow> bool" where
  "ledger_wf s \<longleftrightarrow> registry_ok s \<and> history_ok s"

lemma empty_store_wf: "ledger_wf empty_store"
  by (simp add: ledger_wf_def registry_ok_def history_ok_def empty_store_def entry_ok_def
      offers_of_def)

lemma entry_ok_cong:
  "map_of (registrations t) e = map_of (registrations s) e
   \<Longrightarrow> map_of (deliveries t) e = map_of (deliveries s) e \<Longrightarrow> offers_of e t = offers_of e s
   \<Longrightarrow> latest_generation t = latest_generation s \<Longrightarrow> entry_ok e t = entry_ok e s"
  by (simp only: entry_ok_def)

lemma entry_okI:
  "map_of (registrations s) drv = Some r \<Longrightarrow> map_of (deliveries s) drv = Some d
   \<Longrightarrow> driver_ok (latest_generation s) r d (offers_of drv s) \<Longrightarrow> entry_ok drv s"
  by (simp add: entry_ok_def)

lemma registry_ok_entry: "registry_ok s \<Longrightarrow> entry_ok drv s"
  by (simp add: registry_ok_def)

lemma entry_okD:
  assumes "registry_ok s" and "map_of (deliveries s) drv = Some d"
  obtains r where "map_of (registrations s) drv = Some r"
    and "driver_ok (latest_generation s) r d (offers_of drv s)"
  using registry_ok_entry[OF assms(1), of drv] assms(2)
  by (cases "map_of (registrations s) drv") (simp_all add: entry_ok_def)

lemma entry_okD':
  assumes "registry_ok s" and "map_of (registrations s) drv = Some r"
  obtains d where "map_of (deliveries s) drv = Some d"
    and "driver_ok (latest_generation s) r d (offers_of drv s)"
  using registry_ok_entry[OF assms(1), of drv] assms(2)
  by (cases "map_of (deliveries s) drv") (simp_all add: entry_ok_def)

lemma registered_iff_ledger:
  "registry_ok s \<Longrightarrow> map_of (registrations s) drv = None \<longleftrightarrow> map_of (deliveries s) drv = None"
  by (metis entry_okD entry_okD' not_None_eq)

lemma deliveries_checked:
  assumes "registry_ok s" and "(drv, d) \<in> set (deliveries s)"
  shows "delivery_check d \<and> d_latest d = latest_generation s"
proof -
  from assms have "map_of (deliveries s) drv = Some d" by (simp add: registry_ok_def)
  with assms(1) show ?thesis by (auto elim: entry_okD simp: driver_ok_def)
qed

lemma checked_deliveriesI: "registry_ok s \<Longrightarrow> checked_deliveries s = Inr s"
  using deliveries_checked by (fastforce simp: checked_deliveries_def)

lemma checked_deliveries_Inr:
  "checked_deliveries s = Inr t \<Longrightarrow> t = s"
  by (auto simp: checked_deliveries_def split: if_splits)

text \<open>An operation that changes one driver's rows only.\<close>

lemma registry_ok_change:
  assumes "registry_ok s"
    and "latest_generation t = latest_generation s"
    and "disabled_drivers t = disabled_drivers s"
    and "keys (registrations t) = keys (registrations s)" "keys (deliveries t) = keys (deliveries s)"
    and "\<And>e. e \<noteq> drv \<Longrightarrow> map_of (registrations t) e = map_of (registrations s) e"
    and "\<And>e. e \<noteq> drv \<Longrightarrow> map_of (deliveries t) e = map_of (deliveries s) e"
    and "\<And>e. e \<noteq> drv \<Longrightarrow> offers_of e t = offers_of e s"
    and "distinct (map offer_key (delivery_offers t))"
    and "entry_ok drv t"
  shows "registry_ok t"
proof -
  have "entry_ok e t" for e
    using assms(10) registry_ok_entry[OF assms(1), of e] entry_ok_cong[OF assms(6-8) assms(2), of e]
    by (cases "e = drv") simp_all
  moreover have "map_of (registrations t) e = None" if "e \<in> set (disabled_drivers t)" for e
    using that assms(1,3,4) by (simp add: registry_ok_def map_of_eq_None_iff flip: set_map)
  ultimately show ?thesis using assms(1,4,5,9) by (simp add: registry_ok_def)
qed

lemma history_ok_change:
  assumes "history_ok s"
    and "latest_generation t = latest_generation s" "pending_generations t = pending_generations s"
    and "generation_tasks t = generation_tasks s" "task_snapshots t = task_snapshots s"
    and "membership_snapshots t = membership_snapshots s"
    and "distinct (keys (task_projections t))"
    and "set (keys (task_projections s)) \<subseteq> set (keys (task_projections t))"
  shows "history_ok t"
  using assms unfolding history_ok_def by (simp only:) blast

lemma ledger_wf_change:
  assumes "ledger_wf s" and "registry_ok t"
    and "latest_generation t = latest_generation s" "pending_generations t = pending_generations s"
    and "generation_tasks t = generation_tasks s" "task_snapshots t = task_snapshots s"
    and "membership_snapshots t = membership_snapshots s"
    and "task_projections t = task_projections s"
  shows "ledger_wf t"
  using assms history_ok_change[of s t] by (simp add: ledger_wf_def history_ok_def)

lemma require_registration_Inr:
  "require_registration drv sess ep s = Inr () \<longleftrightarrow>
     (\<exists>r. map_of (registrations s) drv = Some r \<and> r_session r = sess \<and> r_epoch r = ep)"
  by (auto simp: require_registration_def split: option.splits)

lemma require_registration_cases:
  "require_registration drv sess ep s = Inr ()
   \<or> require_registration drv sess ep s = Inl (ValueError ''stale or mismatched driver connection epoch'')"
  by (auto simp: require_registration_def split: option.splits)

lemma ledger_of_eq: "map_of (deliveries s) drv = Some d \<Longrightarrow> ledger_of drv s = Inr d"
  by (simp add: ledger_of_def)

lemma offers_of_update_where:
  assumes "\<And>p. c p \<Longrightarrow> o_driver p = drv"
  shows "{p \<in> set (update_where c (\<lambda>p. p\<lparr>o_confirmed := True\<rparr>) os). o_driver p = e}
       = (if e = drv then settle c {p \<in> set os. o_driver p = drv} else {p \<in> set os. o_driver p = e})"
proof -
  have "o_driver (if c p then p\<lparr>o_confirmed := True\<rparr> else p) = o_driver p" for p by simp
  then have "{p \<in> set (update_where c (\<lambda>p. p\<lparr>o_confirmed := True\<rparr>) os). o_driver p = e}
      = settle c {p \<in> set os. o_driver p = e}"
    by (auto simp: settle_def update_where_def)
  moreover have "settle c {p \<in> set os. o_driver p = e} = {p \<in> set os. o_driver p = e}" if "e \<noteq> drv"
    using assms that by (auto simp: settle_def image_iff)
  ultimately show ?thesis by auto
qed

lemma offer_keys_update_where:
  "map offer_key (update_where c (\<lambda>p. p\<lparr>o_confirmed := True\<rparr>) os) = map offer_key os"
  by (rule map_update_where) (simp add: offer_key_def)

lemma settle_cong: "(\<And>p. p \<in> P \<Longrightarrow> c p = c' p) \<Longrightarrow> settle c P = settle c' P"
  by (auto simp: settle_def image_iff)

section \<open>Every operation keeps the ledger well-formed\<close>

lemma register_driver_wf:
  assumes wf: "ledger_wf s" and run: "register_driver drv sess harn s = Inr (ep, t)"
  shows "ledger_wf t"
proof -
  from wf have reg: "registry_ok s" by (simp add: ledger_wf_def)
  have enabled: "drv \<notin> set (disabled_drivers s)"
    using run by (auto simp: register_driver_def split: if_splits)
  show ?thesis
  proof (cases "map_of (registrations s) drv")
    case None
    with reg have none: "map_of (deliveries s) drv = None" by (simp add: registered_iff_ledger)
    let ?r = "\<lparr>r_session = sess, r_harness = harn, r_epoch = 1\<rparr>"
    let ?d = "\<lparr>d_latest = latest_generation s, d_delivered = 0, d_acked = 0, d_state = DPending,
      d_error = None\<rparr>"
    have t: "t = s\<lparr>registrations := registrations s @ [(drv, ?r)],
                   deliveries := deliveries s @ [(drv, ?d)]\<rparr>"
      using run enabled None none by (auto simp: register_driver_def)
    have fresh: "drv \<notin> set (keys (registrations s))" "drv \<notin> set (keys (deliveries s))"
      using None none by (simp_all add: map_of_eq_None_iff)
    have maps: "map_of (registrations t) = (map_of (registrations s))(drv \<mapsto> ?r)"
      "map_of (deliveries t) = (map_of (deliveries s))(drv \<mapsto> ?d)"
      using map_of_snoc[OF fresh(1)] map_of_snoc[OF fresh(2)] by (simp_all add: t)
    have offers: "offers_of drv s = {}"
      using registry_ok_entry[OF reg, of drv] None none by (simp add: entry_ok_def)
    have entries: "entry_ok e t" for e
    proof (cases "e = drv")
      case True
      have "driver_ok (latest_generation t) ?r ?d (offers_of e t)"
      proof -
        from offers True have "offers_of e t = {}" by (simp add: t offers_of_def)
        then show ?thesis using driver_ok_fresh by (simp add: t)
      qed
      with True maps show ?thesis by (auto intro: entry_okI)
    next
      case False
      then have "entry_ok e t = entry_ok e s"
        by (intro entry_ok_cong) (simp_all add: maps, simp_all add: t offers_of_def)
      with reg show ?thesis by (simp add: registry_ok_entry)
    qed
    have "registry_ok t"
      using reg fresh enabled entries
      by (simp add: registry_ok_def maps) (auto simp: t)
    with wf show ?thesis by (rule ledger_wf_change) (simp_all add: t)
  next
    case (Some r)
    with run enabled have t: "t = s\<lparr>registrations := update_key drv
        (\<lambda>r. r\<lparr>r_session := sess, r_epoch := ep\<rparr>) (registrations s)\<rparr>" and ep: "ep = r_epoch r + 1"
      by (auto simp: register_driver_def Let_def split: if_splits)
    from reg Some obtain d where d: "map_of (deliveries s) drv = Some d"
      and ok: "driver_ok (latest_generation s) r d (offers_of drv s)" by (rule entry_okD')
    have "registry_ok t"
    proof (rule registry_ok_change[OF reg, where drv = drv])
      show "entry_ok drv t"
        using driver_ok_reconnect[OF ok, of sess] Some d
        by (simp add: t ep entry_ok_def map_of_update_key offers_of_def)
    qed (use reg in \<open>simp_all add: t map_of_update_key offers_of_def registry_ok_def\<close>)
    with wf show ?thesis by (rule ledger_wf_change) (simp_all add: t)
  qed
qed

lemma map_of_delete: "map_of (AList.delete k tbl) e = (if e = k then None else map_of tbl e)"
  by (simp add: AList.delete_conv)

lemma disable_driver_authority_wf:
  assumes wf: "ledger_wf s" and run: "disable_driver_authority drv s = Inr (x, t)"
  shows "ledger_wf t"
proof (cases "t = s")
  case False
  from wf have reg: "registry_ok s" by (simp add: ledger_wf_def)
  from False run have t: "t = s\<lparr>disabled_drivers := disabled_drivers s @ [drv],
            registrations := AList.delete drv (registrations s),
            delivery_offers := filter (\<lambda>p. o_driver p \<noteq> drv) (delivery_offers s),
            deliveries := AList.delete drv (deliveries s)\<rparr>"
    by (auto simp: disable_driver_authority_def split: if_splits option.splits)
  have offers: "offers_of e t = (if e = drv then {} else offers_of e s)" for e
    by (auto simp: t offers_of_def)
  have "entry_ok e t" for e
  proof (cases "e = drv")
    case True
    with offers[of e] show ?thesis by (simp add: entry_ok_def) (simp add: t map_of_delete)
  next
    case False
    then have "entry_ok e t = entry_ok e s"
      using offers[of e] by (intro entry_ok_cong) (simp_all add: t map_of_delete)
    with reg show ?thesis by (simp add: registry_ok_entry)
  qed
  then have "registry_ok t"
    using reg by (simp add: t registry_ok_def map_of_delete distinct_delete distinct_map_filter)
  with wf show ?thesis by (rule ledger_wf_change) (simp_all add: t)
qed (use wf in simp)

text \<open>A new generation is always accepted for a task with a projection.\<close>

definition bumped :: "actionable_change \<Rightarrow> store \<Rightarrow> store" where
  "bumped change s =
     (let gen = latest_generation s + 1;
          projections' = update_key (ac_task change)
              (\<lambda>row. if ac_preserve change then row\<lparr>pr_generation := gen\<rparr>
                     else row\<lparr>pr_generation := gen, pr_reason := ac_reason change\<rparr>)
              (task_projections s)
      in s\<lparr>latest_generation := gen,
             pending_generations := pending_generations s @ [(gen, ac_priority change)],
             task_projections := projections',
             generation_tasks := generation_tasks s @ [(gen, ac_task change, ac_reason change)],
             membership_snapshots := membership_snapshots s @ map (\<lambda>(t, _). (gen, t)) projections',
             task_snapshots := task_snapshots s @
               map (\<lambda>(t, row). \<lparr>sn_generation = gen, sn_task = t, sn_row = row, sn_compat = True\<rparr>)
                 projections',
             deliveries := update_all (\<lambda>d. d\<lparr>d_latest := gen\<rparr>) (deliveries s)\<rparr>)"

lemma bumped_registry_ok:
  assumes reg: "registry_ok s"
  shows "registry_ok (bumped change s)"
proof -
  have "entry_ok e (bumped change s)" for e
  proof (cases "map_of (deliveries s) e")
    case None
    with reg have "map_of (registrations s) e = None" by (simp add: registered_iff_ledger)
    with None registry_ok_entry[OF reg, of e] show ?thesis
      by (simp add: entry_ok_def bumped_def Let_def map_of_update_all offers_of_def)
  next
    case (Some d)
    from reg Some obtain r where "map_of (registrations s) e = Some r"
      and ok: "driver_ok (latest_generation s) r d (offers_of e s)" by (rule entry_okD)
    then show ?thesis using Some driver_ok_bump[OF ok]
      by (intro entry_okI) (simp_all add: bumped_def Let_def map_of_update_all offers_of_def)
  qed
  with reg show ?thesis
    by (simp add: registry_ok_def) (simp add: bumped_def Let_def)
qed

lemma keys_are: "map (\<lambda>(t, _). (gen, t)) tbl = map (Pair gen) (keys tbl)"
  by (induction tbl) auto

lemma distinct_map_Pair: "distinct xs \<Longrightarrow> distinct (map (Pair g) xs)"
  by (simp add: distinct_map inj_on_def)

lemma bumped_history_ok:
  assumes h: "history_ok s" and "map_of (task_projections s) (ac_task change) \<noteq> None"
  shows "history_ok (bumped change s)"
proof -
  let ?gen = "latest_generation s + 1"
  let ?pr = "task_projections (bumped change s)"
  let ?new = "map (\<lambda>(t, row). \<lparr>sn_generation = ?gen, sn_task = t, sn_row = row, sn_compat = True\<rparr>) ?pr"
  have pr: "keys ?pr = keys (task_projections s)" by (simp add: bumped_def Let_def)
  have snaps: "task_snapshots (bumped change s) = task_snapshots s @ ?new"
    by (simp add: bumped_def Let_def)
  have new_keys: "map snapshot_key ?new = map (Pair ?gen) (keys (task_projections s))"
    unfolding pr[symmetric] by (auto simp: snapshot_key_def)
  have "ac_task change \<in> set (keys (task_projections s))"
    using assms(2) by (auto simp: map_of_eq_None_iff)
  then have member: "(?gen, ac_task change) \<in> set (map snapshot_key ?new)"
    unfolding new_keys set_map by blast
  have old: "\<And>p. p \<in> set (task_snapshots s) \<Longrightarrow> sn_generation p \<noteq> Suc (latest_generation s)"
    using h by (fastforce simp: history_ok_def)
  have "distinct (keys (task_projections s))" using h by (simp add: history_ok_def)
  then have "distinct (map (Pair ?gen) (keys (task_projections s)))" by (rule distinct_map_Pair)
  then have dist: "distinct (map snapshot_key (task_snapshots (bumped change s)))"
    using h old unfolding snaps map_append new_keys
    by (auto simp: history_ok_def snapshot_key_def)
  have frozen: "\<forall>p \<in> set (task_snapshots (bumped change s)).
      sn_generation p \<in> {1..?gen} \<and> sn_compat p"
    using h unfolding snaps by (fastforce simp: history_ok_def)
  have tasks: "\<forall>g \<in> set (generation_tasks (bumped change s)).
      (fst g, fst (snd g)) \<in> snapshot_key ` set (task_snapshots (bumped change s))"
  proof
    fix g assume "g \<in> set (generation_tasks (bumped change s))"
    then have "g \<in> set (generation_tasks s) \<or> g = (?gen, ac_task change, ac_reason change)"
      by (auto simp: bumped_def Let_def)
    then show "(fst g, fst (snd g)) \<in> snapshot_key ` set (task_snapshots (bumped change s))"
      using h member unfolding snaps by (auto simp: history_ok_def image_Un)
  qed
  have "membership_snapshots (bumped change s) = map snapshot_key (task_snapshots (bumped change s))"
  proof -
    have "membership_snapshots (bumped change s) = membership_snapshots s @ map (Pair ?gen) (keys ?pr)"
      by (simp add: bumped_def Let_def keys_are del: map_map List.map.compositionality)
    then show ?thesis using h unfolding snaps map_append new_keys pr by (simp only: history_ok_def)
  qed
  moreover have "\<forall>p \<in> set (task_snapshots (bumped change s)). sn_task p \<in> set (keys ?pr)
      \<and> (\<forall>g \<in> {sn_generation p..?gen}. (g, sn_task p) \<in> snapshot_key ` set (task_snapshots (bumped change s)))"
  proof
    fix p assume "p \<in> set (task_snapshots (bumped change s))"
    then consider "p \<in> set (task_snapshots s)" | "p \<in> set ?new"
      unfolding snaps set_append by (rule UnE)
    then have kept: "sn_task p \<in> set (keys (task_projections s))
        \<and> (\<forall>g \<in> {sn_generation p..latest_generation s}. (g, sn_task p) \<in> snapshot_key ` set (task_snapshots s))"
    proof cases
      case 1
      with h show ?thesis unfolding history_ok_def by blast
    next
      case 2
      then have "snapshot_key p \<in> set (map snapshot_key ?new)" by (simp only: set_map) blast
      then have "snapshot_key p \<in> Pair ?gen ` set (keys (task_projections s))"
        unfolding new_keys set_map .
      then show ?thesis by (auto simp: snapshot_key_def)
    qed
    have "(g, sn_task p) \<in> snapshot_key ` set (task_snapshots (bumped change s))"
      if "g \<in> {sn_generation p..?gen}" for g
    proof (cases "g = ?gen")
      case True
      with kept have "(g, sn_task p) \<in> set (map snapshot_key ?new)" unfolding new_keys set_map by blast
      then show ?thesis unfolding snaps set_append image_Un set_map by blast
    next
      case False
      with that kept have "(g, sn_task p) \<in> snapshot_key ` set (task_snapshots s)" by auto
      then show ?thesis unfolding snaps set_append image_Un by blast
    qed
    with kept show "sn_task p \<in> set (keys ?pr)
      \<and> (\<forall>g \<in> {sn_generation p..?gen}. (g, sn_task p) \<in> snapshot_key ` set (task_snapshots (bumped change s)))"
      unfolding pr by blast
  qed
  moreover have "distinct (keys ?pr)" using h unfolding pr by (simp add: history_ok_def)
  moreover have "latest_generation (bumped change s) = ?gen" by (simp add: bumped_def Let_def)
  moreover have "map fst (pending_generations (bumped change s)) = [1..<?gen + 1]"
    "map fst (generation_tasks (bumped change s)) = [1..<?gen + 1]"
    using h by (simp_all add: history_ok_def bumped_def Let_def)
  ultimately show ?thesis using dist frozen tasks by (simp only: history_ok_def)
qed

lemma bump_actionable_eq:
  assumes wf: "ledger_wf s"
  shows "bump_actionable change s =
    (if map_of (task_projections s) (ac_task change) = None
     then Inl (ValueError ''actionable task has no projection'')
     else Inr (latest_generation s + 1, bumped change s))"
proof -
  from wf have reg: "registry_ok s" and h: "history_ok s" by (simp_all add: ledger_wf_def)
  have "fst ` set (pending_generations s) = set [1..<latest_generation s + 1]"
    using h by (simp only: history_ok_def flip: set_map)
  then have "latest_generation s + 1 \<notin> fst ` set (pending_generations s)" by simp
  moreover have "checked_deliveries (bumped change s) = Inr (bumped change s)"
    by (rule checked_deliveriesI[OF bumped_registry_ok[OF reg]])
  ultimately show ?thesis by (simp add: bump_actionable_def bumped_def Let_def)
qed

lemma bump_actionable_wf:
  assumes wf: "ledger_wf s" and run: "bump_actionable change s = Inr (gen, t)"
  shows "ledger_wf t"
  using run bumped_registry_ok[of s change] bumped_history_ok[of s change] wf
  by (auto simp: bump_actionable_eq[OF wf] ledger_wf_def split: if_splits)

text \<open>The open offers of a current registration.\<close>

lemma open_offers_current:
  assumes reg: "registry_ok s" and r: "map_of (registrations s) drv = Some r"
    and d: "map_of (deliveries s) drv = Some d"
  shows "set (open_offers drv (r_epoch r) (r_session r) (d_acked d) s)
       = {p \<in> offers_of drv s. o_epoch p = r_epoch r \<and> \<not> o_confirmed p}"
proof -
  from reg r d have ok: "driver_ok (latest_generation s) r d (offers_of drv s)"
    by (metis entry_okD' option.inject)
  then have "\<And>p. p \<in> offers_of drv s \<Longrightarrow> offer_ok (latest_generation s) r d (offers_of drv s) p"
    by (simp add: driver_ok_def)
  then show ?thesis by (fastforce simp: open_offers_def offers_of_def offer_ok_def)
qed

lemma has_offer_current:
  assumes reg: "registry_ok s" and r: "map_of (registrations s) drv = Some r"
  shows "has_offer drv (r_epoch r) (r_session r) gen c s \<longleftrightarrow>
    (\<exists>p \<in> offers_of drv s. o_epoch p = r_epoch r \<and> o_generation p = gen \<and> o_confirmed p = c)"
proof -
  from reg r obtain d where "driver_ok (latest_generation s) r d (offers_of drv s)"
    by (rule entry_okD')
  then have "\<And>p. p \<in> offers_of drv s \<Longrightarrow> o_epoch p = r_epoch r \<Longrightarrow> o_session p = r_session r"
    by (auto simp: driver_ok_def offer_ok_def)
  then show ?thesis by (auto simp: has_offer_def offers_of_def)
qed

lemma first_generation_None: "first_generation os = None \<longleftrightarrow> os = []"
  by (simp add: first_generation_def)

text \<open>The offer row that \<open>offer_notification\<close> adds never collides with an existing one.\<close>

lemma insert_offer_wf:
  assumes wf: "ledger_wf s" and r: "map_of (registrations s) drv = Some r"
    and d: "map_of (deliveries s) drv = Some d"
    and none: "open_offers drv (r_epoch r) (r_session r) (d_acked d) s = []"
    and gen: "gen = (if d_acked d < d_delivered d then d_delivered d else latest_generation s)"
    and open_range: "d_acked d < latest_generation s"
    and unconsumed: "d_acked d < d_delivered d
      \<Longrightarrow> \<not> has_offer drv (r_epoch r) (r_session r) (d_delivered d) True s"
  shows "\<exists>t. insert_offer drv (r_epoch r) (r_session r) gen s = Inr t \<and> ledger_wf t
    \<and> t = s\<lparr>delivery_offers := delivery_offers s @ [\<lparr>o_driver = drv, o_epoch = r_epoch r,
          o_session = r_session r, o_generation = gen, o_confirmed = False\<rparr>]\<rparr>"
proof -
  let ?new = "\<lparr>o_driver = drv, o_epoch = r_epoch r, o_session = r_session r, o_generation = gen,
    o_confirmed = False\<rparr>"
  let ?t = "s\<lparr>delivery_offers := delivery_offers s @ [?new]\<rparr>"
  from wf have reg: "registry_ok s" by (simp add: ledger_wf_def)
  from reg r d have ok: "driver_ok (latest_generation s) r d (offers_of drv s)"
    by (metis entry_okD' option.inject)
  have no_open: "\<And>p. p \<in> offers_of drv s \<Longrightarrow> o_epoch p = r_epoch r \<Longrightarrow> \<not> o_confirmed p \<Longrightarrow> False"
    using open_offers_current[OF reg r d] none by auto
  have free: "o_generation p \<noteq> gen" if p: "p \<in> offers_of drv s" "o_epoch p = r_epoch r" for p
  proof
    assume same: "o_generation p = gen"
    from no_open[OF p] have "o_confirmed p" by blast
    moreover have "offer_ok (latest_generation s) r d (offers_of drv s) p"
      using ok p by (simp add: driver_ok_def)
    ultimately show False
      using same gen open_range unconsumed p
      by (auto simp: offer_ok_def has_offer_current[OF reg r] split: if_splits)
  qed
  then have run: "insert_offer drv (r_epoch r) (r_session r) gen s = Inr ?t"
    by (auto simp: insert_offer_def offers_of_def)
  have fresh_key: "offer_key ?new \<notin> offer_key ` set (delivery_offers s)"
    using free by (fastforce simp: offer_key_def offers_of_def)
  have offers: "offers_of e ?t = (if e = drv then insert ?new (offers_of drv s) else offers_of e s)" for e
    by (auto simp: offers_of_def)
  have "registry_ok ?t"
  proof (rule registry_ok_change[OF reg, where drv = drv])
    show "entry_ok drv ?t"
      using driver_ok_offer[OF ok no_open gen open_range, where drv = drv] r d offers[of drv]
      by (intro entry_okI) simp_all
  qed (use reg fresh_key offers in \<open>auto simp: registry_ok_def\<close>)
  then have "ledger_wf ?t" by (rule ledger_wf_change[OF wf]) simp_all
  with run show ?thesis by blast
qed

text \<open>
  What a current registration gets from \<open>offer_notification\<close>; the result \<open>gen\<close> is the same one
  that \<open>notification_frontier\<close> names.
\<close>

definition due :: "ident \<Rightarrow> registration \<Rightarrow> delivery \<Rightarrow> store \<Rightarrow> nat option" where
  "due drv r d s =
     (case first_generation (open_offers drv (r_epoch r) (r_session r) (d_acked d) s) of
        Some gen \<Rightarrow> Some gen
      | None \<Rightarrow>
          if d_latest d \<le> d_acked d then None
          else if d_acked d < d_delivered d then
            (if has_offer drv (r_epoch r) (r_session r) (d_delivered d) True s then None
             else Some (d_delivered d))
          else Some (d_latest d))"

lemma frontier_due:
  assumes "map_of (registrations s) drv = Some r" and "map_of (deliveries s) drv = Some d"
  shows "notification_frontier drv (r_session r) (r_epoch r) s
       = Inr (case due drv r d s of None \<Rightarrow> None
          | Some gen \<Rightarrow> Some (gen, range_priority (d_acked d) gen s,
              open_offers drv (r_epoch r) (r_session r) (d_acked d) s \<noteq> [] \<or> d_acked d < d_delivered d))"
  using assms
  by (auto simp: notification_frontier_def due_def require_registration_def ledger_of_def Let_def
      first_generation_None split: option.splits)
     (auto simp: first_generation_def split: if_splits)

definition notice_of :: "nat \<Rightarrow> nat \<Rightarrow> store \<Rightarrow> notice" where
  "notice_of a gen s = \<lparr>n_generation = gen, n_priority = range_priority a gen s,
     n_task_count = length (remdups (tasks_between a gen s))\<rparr>"

lemma notice_of_offers [simp]: "notice_of a gen (s\<lparr>delivery_offers := os\<rparr>) = notice_of a gen s"
  by (simp add: notice_of_def range_priority_def tasks_between_def)

text \<open>
  \<open>offer_notification\<close> of a current registration always returns; it offers exactly \<open>due\<close>, and
  it inserts a row only when the epoch has no open offer.
\<close>

lemma offer_notification_due:
  assumes wf: "ledger_wf s" and r: "map_of (registrations s) drv = Some r"
    and d: "map_of (deliveries s) drv = Some d"
  shows "\<exists>t. offer_notification drv (r_session r) (r_epoch r) s
      = Inr (map_option (\<lambda>gen. notice_of (d_acked d) gen s) (due drv r d s), t)
    \<and> ledger_wf t
    \<and> (t = s \<or> (\<exists>gen. due drv r d s = Some gen
        \<and> t = s\<lparr>delivery_offers := delivery_offers s @ [\<lparr>o_driver = drv, o_epoch = r_epoch r,
          o_session = r_session r, o_generation = gen, o_confirmed = False\<rparr>]\<rparr>))
    \<and> (\<forall>gen. due drv r d s = Some gen
        \<longrightarrow> first_generation (open_offers drv (r_epoch r) (r_session r) (d_acked d) t) = Some gen)"
proof -
  from wf have reg: "registry_ok s" by (simp add: ledger_wf_def)
  from reg r d have ok: "driver_ok (latest_generation s) r d (offers_of drv s)"
    by (metis entry_okD' option.inject)
  then have latest: "d_latest d = latest_generation s" "d_acked d \<le> d_delivered d"
      "d_delivered d \<le> latest_generation s"
    by (auto simp: driver_ok_def delivery_check_def)
  have rr: "require_registration drv (r_session r) (r_epoch r) s = Inr ()"
    using r by (simp add: require_registration_def)
  note eval = offer_notification_def rr ledger_of_def d due_def Let_def notice_of_def
  let ?open = "open_offers drv (r_epoch r) (r_session r) (d_acked d) s"
  show ?thesis
  proof (cases "?open = [] \<and> d_acked d < d_latest d
      \<and> \<not> (d_acked d < d_delivered d \<and> has_offer drv (r_epoch r) (r_session r) (d_delivered d) True s)")
    case False
    then show ?thesis using wf
      by (auto simp: eval first_generation_def)
  next
    case True
    define gen where "gen = (if d_acked d < d_delivered d then d_delivered d else latest_generation s)"
    obtain t where ins: "insert_offer drv (r_epoch r) (r_session r) gen s = Inr t" and "ledger_wf t"
      and t: "t = s\<lparr>delivery_offers := delivery_offers s @ [\<lparr>o_driver = drv, o_epoch = r_epoch r,
          o_session = r_session r, o_generation = gen, o_confirmed = False\<rparr>]\<rparr>"
      using insert_offer_wf[OF wf r d _ gen_def] True latest by auto
    moreover have "due drv r d s = Some gen"
      using True latest by (auto simp: due_def first_generation_def gen_def)
    moreover have "offer_notification drv (r_session r) (r_epoch r) s
        = Inr (Some (notice_of (d_acked d) gen t), t)"
      using True ins latest by (auto simp: eval first_generation_def gen_def)
    moreover have "notice_of (d_acked d) gen t = notice_of (d_acked d) gen s"
      unfolding t by (rule notice_of_offers)
    moreover have "d_acked d < gen" using True latest by (auto simp: gen_def)
    then have "first_generation (open_offers drv (r_epoch r) (r_session r) (d_acked d) t) = Some gen"
      using True by (simp add: t open_offers_def first_generation_def)
    ultimately show ?thesis by auto
  qed
qed

lemma offer_notification_wf:
  assumes wf: "ledger_wf s" and run: "offer_notification drv sess ep s = Inr (x, t)"
  shows "ledger_wf t"
proof -
  from run obtain r where r: "map_of (registrations s) drv = Some r" "r_session r = sess" "r_epoch r = ep"
    by (auto simp: offer_notification_def and_then_eq_Inr require_registration_Inr)
  then obtain d where "map_of (deliveries s) drv = Some d"
    using wf by (auto simp: ledger_wf_def elim: entry_okD')
  from offer_notification_due[OF wf r(1) this] r run show ?thesis by auto
qed

lemma withdraw_unconfirmed_offer_wf:
  assumes wf: "ledger_wf s" and run: "withdraw_unconfirmed_offer drv sess ep gen s = Inr (x, t)"
  shows "ledger_wf t"
proof -
  from wf have reg: "registry_ok s" by (simp add: ledger_wf_def)
  define matches where "matches p \<longleftrightarrow> o_driver p = drv \<and> o_epoch p = ep \<and> o_session p = sess
    \<and> o_generation p = gen \<and> \<not> o_confirmed p" for p :: offer
  from run have t: "t = s\<lparr>delivery_offers := filter (\<lambda>p. \<not> matches p) (delivery_offers s)\<rparr>"
    and rr: "require_registration drv sess ep s = Inr ()"
    by (auto simp: withdraw_unconfirmed_offer_def and_then_eq_Inr Let_def matches_def split: if_splits)
  from rr obtain r where r: "map_of (registrations s) drv = Some r"
    by (auto simp: require_registration_Inr)
  from reg r obtain d where d: "map_of (deliveries s) drv = Some d"
    and ok: "driver_ok (latest_generation s) r d (offers_of drv s)" by (rule entry_okD')
  have offers: "offers_of e t = {p \<in> offers_of e s. \<not> matches p}" for e
    by (auto simp: t offers_of_def)
  have "registry_ok t"
  proof (rule registry_ok_change[OF reg, where drv = drv])
    have "driver_ok (latest_generation t) r d (offers_of drv t)"
      using driver_ok_withdraw[OF ok, of "offers_of drv t"]
      by (auto simp: offers matches_def) (simp add: t)
    then show "entry_ok drv t" using r d by (intro entry_okI) (simp_all add: t)
  next
    fix e assume "e \<noteq> drv"
    then show "offers_of e t = offers_of e s" by (auto simp: t offers_of_def matches_def)
  qed (use reg in \<open>simp_all add: t registry_ok_def distinct_map_filter\<close>)
  with wf show ?thesis by (rule ledger_wf_change) (simp_all add: t)
qed

text \<open>An update of one driver's cursor row together with a confirmation of some of its offers.\<close>

lemma ledger_wf_settle:
  assumes wf: "ledger_wf s" and r: "map_of (registrations s) drv = Some r"
    and d: "map_of (deliveries s) drv = Some d"
    and own: "\<And>p. c p \<Longrightarrow> o_driver p = drv"
    and ok: "driver_ok (latest_generation s) r (f d) (settle c (offers_of drv s))"
  shows "ledger_wf (s\<lparr>delivery_offers := update_where c (\<lambda>p. p\<lparr>o_confirmed := True\<rparr>) (delivery_offers s),
      deliveries := update_key drv f (deliveries s)\<rparr>)" (is "ledger_wf ?t")
proof -
  from wf have reg: "registry_ok s" by (simp add: ledger_wf_def)
  have offers: "offers_of e ?t = (if e = drv then settle c (offers_of drv s) else offers_of e s)" for e
    using offers_of_update_where[of c drv "delivery_offers s" e] own by (simp add: offers_of_def)
  have "registry_ok ?t"
  proof (rule registry_ok_change[OF reg, where drv = drv])
    show "entry_ok drv ?t"
      using ok r d offers[of drv] by (intro entry_okI) (simp_all add: map_of_update_key)
  qed (use reg offers in \<open>simp_all add: map_of_update_key offer_keys_update_where registry_ok_def\<close>)
  then show ?thesis by (rule ledger_wf_change[OF wf]) simp_all
qed

lemma registered_entry:
  assumes "ledger_wf s" and "require_registration drv sess ep s = Inr ()"
  obtains r d where "map_of (registrations s) drv = Some r" "r_session r = sess" "r_epoch r = ep"
    "map_of (deliveries s) drv = Some d" "driver_ok (latest_generation s) r d (offers_of drv s)"
  using assms by (auto simp: require_registration_Inr ledger_wf_def elim: entry_okD')

lemma record_delivery_outcome_wf:
  assumes wf: "ledger_wf s" and run: "record_delivery_outcome drv sess ep gen st e s = Inr (x, t)"
  shows "ledger_wf t"
proof (cases "t = s")
  case False
  with run have t: "t = s\<lparr>deliveries := update_key drv
      (\<lambda>d. d\<lparr>d_state := st, d_error := clip_error e\<rparr>) (deliveries s)\<rparr>"
    and rr: "require_registration drv sess ep s = Inr ()"
    by (auto simp: record_delivery_outcome_def and_then_eq_Inr split: if_splits)
  from wf rr obtain r d where r: "map_of (registrations s) drv = Some r"
    and d: "map_of (deliveries s) drv = Some d"
    and ok: "driver_ok (latest_generation s) r d (offers_of drv s)" by (rule registered_entry)
  from wf have reg: "registry_ok s" by (simp add: ledger_wf_def)
  have "registry_ok t"
  proof (rule registry_ok_change[OF reg, where drv = drv])
    show "entry_ok drv t"
      using driver_ok_outcome[OF ok] r d
      by (intro entry_okI) (simp_all add: t map_of_update_key offers_of_def)
  qed (use reg in \<open>simp_all add: t map_of_update_key offers_of_def registry_ok_def\<close>)
  with wf show ?thesis by (rule ledger_wf_change) (simp_all add: t)
qed (use wf in simp)

lemma update_key_cong:
  assumes "distinct (keys tbl)" and "map_of tbl k = Some v" and "f v = g v"
  shows "update_key k f tbl = update_key k g tbl"
proof -
  have "f v' = g v'" if "(k, v') \<in> set tbl" for v'
    using assms that by (metis map_of_is_SomeI option.inject)
  then show ?thesis by (auto simp: update_key_def)
qed

text \<open>
  A confirmation that is not refused by its guards never violates a row constraint, and moves
  the delivered cursor to exactly the confirmed generation.
\<close>

lemma confirm_delivery_run:
  assumes wf: "ledger_wf s" and r: "map_of (registrations s) drv = Some r"
    and d: "map_of (deliveries s) drv = Some d"
    and p: "p \<in> offers_of drv s" "o_epoch p = r_epoch r" "\<not> o_confirmed p"
  shows "\<exists>t. confirm_delivery drv (r_session r) (r_epoch r) (o_generation p) s = Inr (True, t)
    \<and> ledger_wf t \<and> map_of (deliveries t) drv = Some (d\<lparr>d_delivered := o_generation p,
        d_state := DDelivered, d_error := None\<rparr>)
    \<and> t = s\<lparr>delivery_offers := update_where
           (\<lambda>q. o_driver q = drv \<and> o_epoch q = r_epoch r \<and> o_generation q = o_generation p)
           (\<lambda>p. p\<lparr>o_confirmed := True\<rparr>) (delivery_offers s),
         deliveries := update_key drv (\<lambda>d. d\<lparr>d_delivered := o_generation p,
           d_state := DDelivered, d_error := None\<rparr>) (deliveries s)\<rparr>"
proof -
  let ?gen = "o_generation p" and ?ep = "r_epoch r"
  from wf have reg: "registry_ok s" by (simp add: ledger_wf_def)
  from reg r d have ok: "driver_ok (latest_generation s) r d (offers_of drv s)"
    by (metis entry_okD' option.inject)
  define mine where "mine = filter (\<lambda>p. o_driver p = drv \<and> o_epoch p = ?ep \<and> o_session p = r_session r)
    (delivery_offers s)"
  have each: "\<And>q. q \<in> offers_of drv s \<Longrightarrow> offer_ok (latest_generation s) r d (offers_of drv s) q"
    using ok by (simp add: driver_ok_def)
  have p_mine: "p \<in> set mine"
    using p each[OF p(1)] by (auto simp: mine_def offers_of_def offer_ok_def)
  have "\<And>q. q \<in> set mine \<Longrightarrow> o_generation q \<le> ?gen"
    using each[OF p(1)] p by (auto simp: mine_def offers_of_def offer_ok_def)
  then have top: "Max (o_generation ` set mine) = ?gen"
    using p_mine by (intro Max_eqI) auto
  have unique: "q = p" if "q \<in> set mine" "o_generation q = ?gen" for q
  proof -
    have "inj_on offer_key (set (delivery_offers s))" using reg by (simp add: registry_ok_def distinct_map)
    moreover have "offer_key q = offer_key p" "q \<in> set (delivery_offers s)" "p \<in> set (delivery_offers s)"
      using that p by (auto simp: mine_def offers_of_def offer_key_def)
    ultimately show ?thesis by (rule inj_onD)
  qed
  let ?f = "\<lambda>d. d\<lparr>d_delivered := max (d_delivered d) ?gen, d_state := DDelivered, d_error := None\<rparr>"
  let ?g = "\<lambda>d. d\<lparr>d_delivered := ?gen, d_state := DDelivered, d_error := None\<rparr>"
  let ?c = "\<lambda>q. o_driver q = drv \<and> o_epoch q = ?ep \<and> o_generation q = ?gen"
  let ?t = "s\<lparr>delivery_offers := update_where ?c (\<lambda>p. p\<lparr>o_confirmed := True\<rparr>) (delivery_offers s),
         deliveries := update_key drv ?g (deliveries s)\<rparr>"
  have "?f d = ?g d"
    using driver_ok_confirm(1)[OF ok p(1,3,2)] by simp
  then have same: "update_key drv ?f (deliveries s) = update_key drv ?g (deliveries s)"
    using reg d by (intro update_key_cong) (simp_all add: registry_ok_def)
  have "settle ?c (offers_of drv s)
      = settle (\<lambda>q. o_epoch q = ?ep \<and> o_generation q = ?gen) (offers_of drv s)"
    by (rule settle_cong) (simp add: offers_of_def)
  then have "ledger_wf ?t"
    using driver_ok_confirm(2)[OF ok p(1,3,2)] by (intro ledger_wf_settle[OF wf r d]) auto
  moreover from this have "checked_deliveries ?t = Inr ?t"
    by (simp add: ledger_wf_def checked_deliveriesI)
  moreover have "\<not> (\<exists>q \<in> set mine. o_generation q = ?gen \<and> o_confirmed q)" using unique p(3) by blast
  moreover have "mine \<noteq> []" using p_mine by auto
  ultimately have "confirm_delivery drv (r_session r) ?ep ?gen s = Inr (True, ?t)"
    using r top same by (simp add: confirm_delivery_def require_registration_def Let_def mine_def)
  moreover have "map_of (deliveries ?t) drv = Some (?g d)" using d by (simp add: map_of_update_key)
  ultimately show ?thesis using \<open>ledger_wf ?t\<close> by blast
qed

lemma confirm_delivery_cases:
  assumes wf: "ledger_wf s" and run: "confirm_delivery drv sess ep gen s = Inr (b, t)"
  shows "(\<not> b \<and> t = s) \<or> (b \<and> (\<exists>r d p. map_of (registrations s) drv = Some r \<and> r_session r = sess
     \<and> r_epoch r = ep \<and> map_of (deliveries s) drv = Some d \<and> p \<in> offers_of drv s
     \<and> o_epoch p = ep \<and> \<not> o_confirmed p \<and> o_generation p = gen))"
proof -
  from run have rr: "require_registration drv sess ep s = Inr ()"
    by (auto simp: confirm_delivery_def and_then_eq_Inr)
  from wf rr obtain r d where rd: "map_of (registrations s) drv = Some r" "r_session r = sess"
    "r_epoch r = ep" "map_of (deliveries s) drv = Some d" by (rule registered_entry)
  define mine where "mine = filter (\<lambda>p. o_driver p = drv \<and> o_epoch p = ep \<and> o_session p = sess)
    (delivery_offers s)"
  from run rr have top: "mine \<noteq> []" "Max (o_generation ` set mine) = gen"
    by (auto simp: confirm_delivery_def Let_def mine_def split: if_splits)
  then have "gen \<in> o_generation ` set mine"
    by (metis List.finite_set Max_in finite_imageI image_is_empty set_empty)
  then obtain p where p: "p \<in> set mine" "o_generation p = gen" by auto
  show ?thesis
  proof (cases "\<exists>p \<in> set mine. o_generation p = gen \<and> o_confirmed p")
    case True
    with run rr top have "Inr (False, s) = (Inr (b, t) :: bool op_result)"
      by (simp add: confirm_delivery_def Let_def mine_def)
    then show ?thesis by simp
  next
    case False
    with run top have "b"
      unfolding confirm_delivery_def rr and_then_simps Let_def mine_def[symmetric]
      by (simp add: and_then_eq_Inr)
    moreover have "p \<in> offers_of drv s" "o_epoch p = ep" "\<not> o_confirmed p"
      using p False by (auto simp: mine_def offers_of_def)
    ultimately show ?thesis using rd p(2) by blast
  qed
qed

lemma confirm_delivery_wf:
  assumes wf: "ledger_wf s" and run: "confirm_delivery drv sess ep gen s = Inr (b, t)"
  shows "ledger_wf t"
  using confirm_delivery_cases[OF assms] run confirm_delivery_run[OF wf] wf by force

section \<open>Reconciliation and acknowledgement\<close>

lemma no_change_update_key: "update_key k (\<lambda>d. d) tbl = tbl"
  by (induction tbl) (auto simp: update_key_def)

lemma tasks_between_offers [simp]:
  "tasks_between a n (s\<lparr>delivery_offers := os\<rparr>) = tasks_between a n s"
  by (simp add: tasks_between_def)

lemma history_reads_offers [simp]:
  "snapshot_rows n since (s\<lparr>delivery_offers := os\<rparr>) = snapshot_rows n since s"
  "snapshot_task_count n (s\<lparr>delivery_offers := os\<rparr>) = snapshot_task_count n s"
  by (cases since; simp add: snapshot_rows_def) (simp add: snapshot_task_count_def)

lemma snapshot_rows_Inr:
  assumes "history_ok s"
  shows "\<exists>rows. snapshot_rows through since s = Inr rows
    \<and> set rows = {p \<in> set (task_snapshots s). newest_for through (task_snapshots s) p
        \<and> (\<forall>a. since = Some a \<longrightarrow> sn_task p \<in> set (tasks_between a through s))}
    \<and> distinct (map sn_task rows)"
proof -
  let ?latest = "filter (newest_for through (task_snapshots s)) (task_snapshots s)"
  let ?wanted = "case since of None \<Rightarrow> ?latest
    | Some a \<Rightarrow> filter (\<lambda>p. sn_task p \<in> set (tasks_between a through s)) ?latest"
  let ?rows = "sort_key sn_generation (sort_key sn_task ?wanted)"
  have compat: "\<forall>p \<in> set (task_snapshots s). sn_compat p"
    and keys: "distinct (map snapshot_key (task_snapshots s))"
    using assms by (simp_all add: history_ok_def)
  have rows: "set ?rows = {p \<in> set (task_snapshots s). newest_for through (task_snapshots s) p
        \<and> (\<forall>a. since = Some a \<longrightarrow> sn_task p \<in> set (tasks_between a through s))}"
    by (cases since) auto
  have "distinct ?wanted"
    using keys by (cases since) (simp_all add: distinct_map)
  then have "distinct ?rows" by simp
  moreover have "inj_on sn_task (set ?rows)"
  proof (rule inj_onI)
    fix p q assume "p \<in> set ?rows" "q \<in> set ?rows" "sn_task p = sn_task q"
    then have pq: "p \<in> set (task_snapshots s)" "q \<in> set (task_snapshots s)"
      and "sn_generation p = sn_generation q"
      unfolding rows by (auto simp: newest_for_def intro: le_antisym)
    with \<open>sn_task p = sn_task q\<close> have "snapshot_key p = snapshot_key q" by (simp add: snapshot_key_def)
    with keys pq show "p = q" by (simp add: distinct_map inj_on_def)
  qed
  ultimately have "distinct (map sn_task ?rows)" unfolding distinct_map by blast
  moreover have "snapshot_rows through since s = Inr ?rows"
    using rows compat by (auto simp: snapshot_rows_def Let_def)
  ultimately show ?thesis using rows by blast
qed

lemma retired_store:
  assumes wf: "ledger_wf s" and r: "map_of (registrations s) drv = Some r"
    and d: "map_of (deliveries s) drv = Some d" and pending: "d_acked d < d_delivered d"
  defines "c \<equiv> \<lambda>p :: offer. o_driver p = drv \<and> \<not> o_confirmed p
      \<and> (o_epoch p < r_epoch r \<or> o_generation p = d_delivered d)"
  defines "t \<equiv> s\<lparr>delivery_offers := update_where c (\<lambda>p. p\<lparr>o_confirmed := True\<rparr>) (delivery_offers s)\<rparr>"
  shows "ledger_wf t" and "\<forall>p \<in> offers_of drv t. o_confirmed p"
    and "\<exists>p \<in> set (delivery_offers s). o_driver p = drv \<and> o_generation p = d_delivered d \<and> o_confirmed p"
proof -
  have ok: "driver_ok (latest_generation s) r d (offers_of drv s)"
    using wf r d by (metis entry_okD' ledger_wf_def option.inject)
  have c: "settle c (offers_of drv s)
     = settle (\<lambda>p. \<not> o_confirmed p \<and> (o_epoch p < r_epoch r \<or> o_generation p = d_delivered d)) (offers_of drv s)"
    by (rule settle_cong) (simp add: c_def offers_of_def)
  show "ledger_wf t"
    using ledger_wf_settle[OF wf r d, of c "\<lambda>d. d"] driver_ok_retire(1)[OF ok pending]
    unfolding c[symmetric] by (simp add: t_def no_change_update_key c_def)
  have "offers_of drv t = settle c (offers_of drv s)"
    using offers_of_update_where[of c drv "delivery_offers s" drv]
    by (simp add: t_def offers_of_def c_def)
  then show "\<forall>p \<in> offers_of drv t. o_confirmed p"
    using driver_ok_retire(2)[OF ok pending] unfolding c[symmetric] by simp
  show "\<exists>p \<in> set (delivery_offers s). o_driver p = drv \<and> o_generation p = d_delivered d \<and> o_confirmed p"
    using ok pending by (auto simp: driver_ok_def offers_of_def)
qed

lemma reconcile_delivered_run:
  assumes wf: "ledger_wf s" and r: "map_of (registrations s) drv = Some r"
    and d: "map_of (deliveries s) drv = Some d" and pending: "d_acked d < d_delivered d"
  shows "\<exists>rows t. reconcile_delivered drv full s = Inr (\<lparr>rc_through = d_delivered d, rc_reports = rows,
        rc_since = d_acked d,
        rc_unchanged = int (snapshot_task_count (d_delivered d) s) - int (length rows)\<rparr>, t)
    \<and> snapshot_rows (d_delivered d) (if full then None else Some (d_acked d)) s = Inr rows
    \<and> ledger_wf t \<and> (\<forall>p \<in> offers_of drv t. o_confirmed p)
    \<and> (\<exists>os. t = s\<lparr>delivery_offers := os\<rparr>)"
proof -
  let ?t = "s\<lparr>delivery_offers := update_where (\<lambda>p. o_driver p = drv \<and> \<not> o_confirmed p
      \<and> (o_epoch p < r_epoch r \<or> o_generation p = d_delivered d))
      (\<lambda>p. p\<lparr>o_confirmed := True\<rparr>) (delivery_offers s)\<rparr>"
  note t = retired_store[OF wf r d pending]
  from t(1) have "history_ok ?t" by (simp add: ledger_wf_def)
  then obtain rows where rows: "snapshot_rows (d_delivered d) (if full then None else Some (d_acked d)) ?t = Inr rows"
    using snapshot_rows_Inr by blast
  have "\<not> (\<exists>p \<in> set (delivery_offers ?t). o_driver p = drv \<and> o_generation p < d_delivered d \<and> \<not> o_confirmed p)"
    using t(2) unfolding offers_of_def by blast
  then have "reconcile_delivered drv full s = Inr (\<lparr>rc_through = d_delivered d, rc_reports = rows,
        rc_since = d_acked d,
        rc_unchanged = int (snapshot_task_count (d_delivered d) s) - int (length rows)\<rparr>, ?t)"
    using r d pending t(3) rows by (simp add: reconcile_delivered_def Let_def)
  with t(1,2) rows show ?thesis by (simp only: history_reads_offers) blast
qed

lemma reconcile_delivered_wf:
  assumes wf: "ledger_wf s" and run: "reconcile_delivered drv full s = Inr (x, t)"
  shows "ledger_wf t"
proof -
  from run obtain d r where d: "map_of (deliveries s) drv = Some d"
    and r: "map_of (registrations s) drv = Some r"
    by (auto simp: reconcile_delivered_def split: option.splits)
  show ?thesis
  proof (cases "d_acked d < d_delivered d")
    case True
    from reconcile_delivered_run[OF wf r d True, of full] run show ?thesis by auto
  next
    case False
    with run r d wf show ?thesis by (simp add: reconcile_delivered_def Let_def)
  qed
qed

text \<open>An accepted acknowledgement of either kind never violates a row constraint.\<close>

lemma ledger_wf_ack:
  assumes wf: "ledger_wf s" and r: "map_of (registrations s) drv = Some r"
    and d: "map_of (deliveries s) drv = Some d"
    and through: "d_acked d < through" "through \<le> d_delivered d"
    and own: "\<And>p. c p \<Longrightarrow> o_driver p = drv \<and> o_generation p \<le> through"
    and rest: "\<And>p. p \<in> offers_of drv s \<Longrightarrow> o_generation p \<le> through \<Longrightarrow> o_confirmed p \<or> c p"
  shows "ledger_wf (s\<lparr>delivery_offers := update_where c (\<lambda>p. p\<lparr>o_confirmed := True\<rparr>) (delivery_offers s),
      deliveries := update_key drv (\<lambda>d. d\<lparr>d_acked := through, d_state := DPending\<rparr>) (deliveries s)\<rparr>)"
proof (rule ledger_wf_settle[OF wf r d])
  have ok: "driver_ok (latest_generation s) r d (offers_of drv s)"
    using wf r d by (metis entry_okD' ledger_wf_def option.inject)
  show "driver_ok (latest_generation s) r (d\<lparr>d_acked := through, d_state := DPending\<rparr>)
      (settle c (offers_of drv s))"
    by (rule driver_ok_ack[OF ok]) (use through own rest in \<open>auto simp: not_le[symmetric]\<close>)
qed (use own in blast)

lemma no_update_where: "update_where (\<lambda>p. False) f rows = rows"
  by (simp add: update_where_def)

lemma update_offers_commute:
  "(s\<lparr>deliveries := ds\<rparr>)\<lparr>delivery_offers := os\<rparr> = s\<lparr>delivery_offers := os, deliveries := ds\<rparr>"
  by simp

lemma ack_delivered_run:
  assumes wf: "ledger_wf s" and d: "map_of (deliveries s) drv = Some d"
    and pending: "d_acked d < d_delivered d" and settled: "\<forall>p \<in> offers_of drv s. o_confirmed p"
  defines "t \<equiv> s\<lparr>deliveries := update_key drv
      (\<lambda>e. e\<lparr>d_acked := d_delivered d, d_state := DPending\<rparr>) (deliveries s)\<rparr>"
  shows "ack_delivered drv (d_delivered d) s = Inr (True, t)" and "ledger_wf t"
proof -
  from wf d obtain r where r: "map_of (registrations s) drv = Some r"
    by (auto simp: ledger_wf_def elim: entry_okD)
  show "ledger_wf t"
    using ledger_wf_ack[OF wf r d pending, of "\<lambda>p. False"] settled by (simp add: no_update_where t_def)
  then have "checked_deliveries t = Inr t" by (simp add: ledger_wf_def checked_deliveriesI)
  then show "ack_delivered drv (d_delivered d) s = Inr (True, t)"
    using d pending settled by (auto simp: ack_delivered_def set_acked_def t_def offers_of_def)
qed

lemma ack_delivered_cases:
  assumes run: "ack_delivered drv through s = Inr (b, t)"
  shows "t = s \<or> (\<exists>d. map_of (deliveries s) drv = Some d \<and> through = d_delivered d
    \<and> d_acked d < d_delivered d
    \<and> (\<forall>p \<in> offers_of drv s. o_generation p \<le> d_delivered d \<longrightarrow> o_confirmed p)
    \<and> t = s\<lparr>deliveries := update_key drv (\<lambda>d. d\<lparr>d_acked := through, d_state := DPending\<rparr>) (deliveries s)\<rparr>)"
  using run by (fastforce simp: ack_delivered_def set_acked_def offers_of_def and_then_eq_Inr
      dest!: checked_deliveries_Inr split: option.splits if_splits)

lemma ack_delivered_wf:
  assumes wf: "ledger_wf s" and run: "ack_delivered drv through s = Inr (b, t)"
  shows "ledger_wf t"
  using ack_delivered_cases[OF run]
proof
  assume "\<exists>d. map_of (deliveries s) drv = Some d \<and> through = d_delivered d
    \<and> d_acked d < d_delivered d
    \<and> (\<forall>p \<in> offers_of drv s. o_generation p \<le> d_delivered d \<longrightarrow> o_confirmed p)
    \<and> t = s\<lparr>deliveries := update_key drv (\<lambda>d. d\<lparr>d_acked := through, d_state := DPending\<rparr>) (deliveries s)\<rparr>"
  then obtain d where d: "map_of (deliveries s) drv = Some d" and th: "through = d_delivered d"
    and pending: "d_acked d < d_delivered d"
    and settled: "\<forall>p \<in> offers_of drv s. o_generation p \<le> d_delivered d \<longrightarrow> o_confirmed p"
    and t: "t = s\<lparr>deliveries := update_key drv (\<lambda>d. d\<lparr>d_acked := through, d_state := DPending\<rparr>) (deliveries s)\<rparr>"
    by blast
  from wf d obtain r where r: "map_of (registrations s) drv = Some r"
    by (auto simp: ledger_wf_def elim: entry_okD)
  show ?thesis
    using ledger_wf_ack[OF wf r d pending, of "\<lambda>p. False"] settled
    by (simp add: no_update_where t th)
qed (use wf in simp)

lemma ack_generation_cases:
  assumes run: "ack_generation drv sess ep through s = Inr (b, t)"
  shows "t = s \<or> (\<exists>r d. map_of (registrations s) drv = Some r \<and> r_session r = sess \<and> r_epoch r = ep
    \<and> map_of (deliveries s) drv = Some d \<and> d_acked d < through \<and> through \<le> d_delivered d
    \<and> t = s\<lparr>delivery_offers := update_where (\<lambda>p. o_driver p = drv \<and> o_generation p \<le> through)
           (\<lambda>p. p\<lparr>o_confirmed := True\<rparr>) (delivery_offers s),
        deliveries := update_key drv (\<lambda>d. d\<lparr>d_acked := through, d_state := DPending\<rparr>) (deliveries s)\<rparr>)"
  using run by (fastforce simp: ack_generation_def set_acked_def and_then_eq_Inr ledger_of_def
      require_registration_Inr dest!: checked_deliveries_Inr split: option.splits if_splits)

lemma ack_generation_wf:
  assumes wf: "ledger_wf s" and run: "ack_generation drv sess ep through s = Inr (b, t)"
  shows "ledger_wf t"
  using ack_generation_cases[OF run]
proof
  let ?c = "\<lambda>p :: offer. o_driver p = drv \<and> o_generation p \<le> through"
  let ?t = "s\<lparr>delivery_offers := update_where ?c (\<lambda>p. p\<lparr>o_confirmed := True\<rparr>) (delivery_offers s),
        deliveries := update_key drv (\<lambda>d. d\<lparr>d_acked := through, d_state := DPending\<rparr>) (deliveries s)\<rparr>"
  assume "\<exists>r d. map_of (registrations s) drv = Some r \<and> r_session r = sess \<and> r_epoch r = ep
    \<and> map_of (deliveries s) drv = Some d \<and> d_acked d < through \<and> through \<le> d_delivered d \<and> t = ?t"
  then obtain r d where r: "map_of (registrations s) drv = Some r"
    and d: "map_of (deliveries s) drv = Some d"
    and range: "d_acked d < through" "through \<le> d_delivered d" and t: "t = ?t" by blast
  show ?thesis
    unfolding t by (rule ledger_wf_ack[OF wf r d range]) (auto simp: offers_of_def)
qed (use wf in simp)

section \<open>The ledger as a state machine\<close>

text \<open>
  The steps: every operation of this component, and anything else the daemon does to the store
  that leaves the ledger's tables alone (events, sessions, projections, follow-up sends); a
  projection row that a snapshot refers to is not deleted (the foreign key).
\<close>

definition same_ledger :: "store \<Rightarrow> store \<Rightarrow> bool" where
  "same_ledger s t \<longleftrightarrow> latest_generation t = latest_generation s
     \<and> registrations t = registrations s \<and> deliveries t = deliveries s
     \<and> delivery_offers t = delivery_offers s \<and> pending_generations t = pending_generations s
     \<and> generation_tasks t = generation_tasks s \<and> membership_snapshots t = membership_snapshots s
     \<and> task_snapshots t = task_snapshots s \<and> disabled_drivers t = disabled_drivers s"

inductive delivery_step :: "store \<Rightarrow> store \<Rightarrow> bool" where
  elsewhere: "same_ledger s t \<Longrightarrow> distinct (keys (task_projections t))
    \<Longrightarrow> sn_task ` set (task_snapshots s) \<subseteq> set (keys (task_projections t)) \<Longrightarrow> delivery_step s t"
| bump: "bump_actionable change s = Inr (gen, t) \<Longrightarrow> delivery_step s t"
| register: "register_driver drv sess harn s = Inr (ep, t) \<Longrightarrow> delivery_step s t"
| disable: "disable_driver_authority drv s = Inr (x, t) \<Longrightarrow> delivery_step s t"
| offer: "offer_notification drv sess ep s = Inr (out, t) \<Longrightarrow> delivery_step s t"
| withdraw: "withdraw_unconfirmed_offer drv sess ep gen s = Inr (x, t) \<Longrightarrow> delivery_step s t"
| outcome: "record_delivery_outcome drv sess ep gen st e s = Inr (x, t) \<Longrightarrow> delivery_step s t"
| confirm: "confirm_delivery drv sess ep gen s = Inr (b, t) \<Longrightarrow> delivery_step s t"
| reconcile: "reconcile_delivered drv full s = Inr (out', t) \<Longrightarrow> delivery_step s t"
| ack_cli: "ack_delivered drv through s = Inr (b, t) \<Longrightarrow> delivery_step s t"
| ack_adapter: "ack_generation drv sess ep through s = Inr (b, t) \<Longrightarrow> delivery_step s t"

lemma same_ledger_wf:
  assumes "ledger_wf s" and same: "same_ledger s t" and "distinct (keys (task_projections t))"
    and "sn_task ` set (task_snapshots s) \<subseteq> set (keys (task_projections t))"
  shows "ledger_wf t"
proof -
  have "entry_ok e t = entry_ok e s" for e
    using same by (intro entry_ok_cong) (simp_all add: same_ledger_def offers_of_def)
  with assms(1) same have "registry_ok t"
    by (simp add: ledger_wf_def registry_ok_def same_ledger_def)
  moreover have "history_ok t"
    using assms unfolding ledger_wf_def history_ok_def same_ledger_def by (simp only:) blast
  ultimately show ?thesis by (simp add: ledger_wf_def)
qed

lemmas operations_wf = bump_actionable_wf register_driver_wf disable_driver_authority_wf
  offer_notification_wf withdraw_unconfirmed_offer_wf record_delivery_outcome_wf
  confirm_delivery_wf reconcile_delivered_wf ack_delivered_wf ack_generation_wf

lemma delivery_step_wf: "delivery_step s t \<Longrightarrow> ledger_wf s \<Longrightarrow> ledger_wf t"
  by (induction rule: delivery_step.induct) (blast intro: same_ledger_wf operations_wf)+

interpretation ledger: preserved delivery_step ledger_wf
  by unfold_locales (blast intro: delivery_step_wf)

section \<open>What never goes backwards\<close>

definition driver_view ::
  "ident \<Rightarrow> store \<Rightarrow> bool \<times> registration option \<times> delivery option" where
  "driver_view drv s =
     (drv \<in> set (disabled_drivers s), map_of (registrations s) drv, map_of (deliveries s) drv)"

definition cursors_le :: "delivery \<Rightarrow> delivery \<Rightarrow> bool" where
  "cursors_le a b \<longleftrightarrow> d_acked a \<le> d_acked b \<and> d_delivered a \<le> d_delivered b \<and> d_latest a \<le> d_latest b"

definition epoch_le :: "registration \<Rightarrow> registration \<Rightarrow> bool" where
  "epoch_le a b \<longleftrightarrow> r_epoch a \<le> r_epoch b \<and> r_harness a = r_harness b"

text \<open>A row only moves up, and disappears only together with a tombstone, for good.\<close>

definition row_le :: "('a \<Rightarrow> 'a \<Rightarrow> bool) \<Rightarrow> bool \<times> 'a option \<Rightarrow> bool \<times> 'a option \<Rightarrow> bool" where
  "row_le le x y \<longleftrightarrow> (fst x \<longrightarrow> fst y)
     \<and> (case snd x of
          Some a \<Rightarrow> (case snd y of Some b \<Rightarrow> le a b | None \<Rightarrow> fst y)
        | None \<Rightarrow> fst x \<longrightarrow> snd y = None)"

definition no_regress ::
  "bool \<times> registration option \<times> delivery option \<Rightarrow> bool \<times> registration option \<times> delivery option \<Rightarrow> bool" where
  "no_regress x y \<longleftrightarrow> row_le epoch_le (fst x, fst (snd x)) (fst y, fst (snd y))
     \<and> row_le cursors_le (fst x, snd (snd x)) (fst y, snd (snd y))"

lemma row_le_refl: "(\<And>a. le a a) \<Longrightarrow> row_le le x x"
  by (cases x) (auto simp: row_le_def split: option.splits)

lemma row_le_trans:
  "(\<And>a b c. le a b \<Longrightarrow> le b c \<Longrightarrow> le a c) \<Longrightarrow> row_le le x y \<Longrightarrow> row_le le y z \<Longrightarrow> row_le le x z"
  by (cases x; cases y; cases z) (auto simp: row_le_def split: option.splits)

lemma no_regress_refl: "no_regress x x"
  by (auto simp: no_regress_def epoch_le_def cursors_le_def intro: row_le_refl)

lemma no_regress_trans: "no_regress x y \<Longrightarrow> no_regress y z \<Longrightarrow> no_regress x z"
  by (auto simp: no_regress_def epoch_le_def cursors_le_def elim!: row_le_trans[rotated 1])

lemma no_regress_same:
  assumes "disabled_drivers t = disabled_drivers s" "registrations t = registrations s"
    "deliveries t = deliveries s"
  shows "no_regress (driver_view drv s) (driver_view drv t)"
  using assms by (simp add: driver_view_def no_regress_refl)

lemma no_regress_cursors:
  assumes "disabled_drivers t = disabled_drivers s" "registrations t = registrations s"
    and "deliveries t = update_key e f (deliveries s)"
    and "\<And>d. map_of (deliveries s) e = Some d \<Longrightarrow> cursors_le d (f d)"
  shows "no_regress (driver_view drv s) (driver_view drv t)"
  using assms
  by (auto simp: driver_view_def no_regress_def row_le_def map_of_update_key epoch_le_def
      cursors_le_def split: option.splits)

lemma delivery_step_no_regress:
  assumes wf: "ledger_wf s" and step: "delivery_step s t"
  shows "no_regress (driver_view drv s) (driver_view drv t)"
  using step
proof cases
  case elsewhere
  then show ?thesis by (intro no_regress_same) (simp_all add: same_ledger_def)
next
  case (bump change gen)
  then have t: "t = bumped change s" by (auto simp: bump_actionable_eq[OF wf] split: if_splits)
  have "d_latest d = latest_generation s" if "map_of (deliveries s) drv = Some d" for d
    using wf deliveries_checked map_of_SomeD[OF that] by (auto simp: ledger_wf_def)
  then show ?thesis
    by (auto simp: t bumped_def Let_def driver_view_def no_regress_def row_le_def map_of_update_all
        epoch_le_def cursors_le_def split: option.splits)
next
  case (register e sess harn ep)
  have reg: "registry_ok s" using wf by (simp add: ledger_wf_def)
  show ?thesis
  proof (cases "map_of (registrations s) e")
    case None
    with reg have none: "map_of (deliveries s) e = None" by (simp add: registered_iff_ledger)
    with None register show ?thesis
      by (auto simp: register_driver_def driver_view_def no_regress_def row_le_def
          epoch_le_def cursors_le_def map_add_def split: option.splits if_splits)
  next
    case (Some r)
    with register show ?thesis
      by (auto simp: register_driver_def Let_def driver_view_def no_regress_def row_le_def
          epoch_le_def cursors_le_def map_of_update_key split: option.splits if_splits)
  qed
next
  case (disable e x)
  then show ?thesis
    by (auto simp: disable_driver_authority_def driver_view_def no_regress_def row_le_def
        epoch_le_def cursors_le_def map_of_delete split: option.splits if_splits)
next
  case (offer e sess ep out)
  then show ?thesis
    by (intro no_regress_same)
       (auto simp: offer_notification_def and_then_eq_Inr insert_offer_def Let_def
         split: option.splits if_splits)
next
  case (withdraw e sess ep gen x)
  then show ?thesis
    by (intro no_regress_same)
       (auto simp: withdraw_unconfirmed_offer_def and_then_eq_Inr Let_def split: if_splits)
next
  case (outcome e sess ep gen st err x)
  then consider "t = s" | "t = s\<lparr>deliveries := update_key e
      (\<lambda>d. d\<lparr>d_state := st, d_error := clip_error err\<rparr>) (deliveries s)\<rparr>"
    by (auto simp: record_delivery_outcome_def and_then_eq_Inr split: if_splits)
  then show ?thesis
  proof cases
    case 2
    then show ?thesis by (intro no_regress_cursors) (auto simp: cursors_le_def)
  qed (simp add: no_regress_refl)
next
  case (confirm e sess ep gen b)
  from confirm_delivery_cases[OF wf confirm] show ?thesis
  proof (elim disjE conjE exE)
    fix r d p
    assume *: "map_of (registrations s) e = Some r" "r_session r = sess" "r_epoch r = ep"
      "map_of (deliveries s) e = Some d" "p \<in> offers_of e s" "o_epoch p = ep" "\<not> o_confirmed p"
      "o_generation p = gen"
    then have ok: "driver_ok (latest_generation s) r d (offers_of e s)"
      using wf by (metis entry_okD' ledger_wf_def option.inject)
    have "d_delivered d \<le> gen" using driver_ok_confirm(1)[OF ok *(5,7)] * by (simp add: max_def split: if_splits)
    with confirm_delivery_run[OF wf *(1,4,5)] confirm * show ?thesis
      by (auto intro!: no_regress_cursors simp: cursors_le_def)
  qed (simp add: no_regress_refl)
next
  case (reconcile e full out')
  then show ?thesis
    by (intro no_regress_same)
       (auto simp: reconcile_delivered_def and_then_eq_Inr Let_def split: option.splits if_splits)
next
  case (ack_cli e through b)
  from ack_delivered_cases[OF ack_cli] show ?thesis
  proof
    assume "t = s"
    then show ?thesis by (simp add: no_regress_refl)
  qed (auto simp: cursors_le_def intro!: no_regress_cursors)
next
  case (ack_adapter e sess ep through b)
  from ack_generation_cases[OF ack_adapter] show ?thesis
  proof
    assume "t = s"
    then show ?thesis by (simp add: no_regress_refl)
  qed (auto simp: cursors_le_def intro!: no_regress_cursors)
qed

interpretation cursors: monotone_run delivery_step ledger_wf "driver_view drv" no_regress for drv
  by unfold_locales (auto intro: no_regress_refl no_regress_trans delivery_step_no_regress)

end
