(* ===== verification/Delivery_Theorems.thy ===== *)
theory Delivery_Theorems
  imports Store_Delivery_Facts
begin

text \<open>
  The properties of the delivery ledger, for every store that a sequence of operations can
  reach from a fresh database, with witnesses on a small run: two tasks, one driver, one
  generation offered, confirmed, reconciled and acknowledged.
\<close>

section \<open>A small run\<close>

definition sample_report :: report_summary where
  "sample_report = \<lparr>rs_state = Missing, rs_verdict = None, rs_latest_verdict = None, rs_blocks = 0,
     rs_acked_through = 0, rs_acked_source = AckNone, rs_unresolved = 0, rs_open_items = [],
     rs_protocol_errors = [], rs_external_action = False, rs_heading = [], rs_reason = [],
     rs_pending = [], rs_inputs_needed = [], rs_artifacts = []\<rparr>"

definition sample_row :: "ident \<Rightarrow> projection_row" where
  "sample_row task = \<lparr>pr_availability = Quiescent, pr_report_state = Missing, pr_verdict = None,
     pr_reason = RMissingReport, pr_generation = 0, pr_last_event_seq = 1,
     pr_detail = \<lparr>pd_task = task, pd_folder_present = False, pd_session = ''sess'',
       pd_foreground = FgStopped, pd_background = BgClear, pd_background_count = Some 0,
       pd_availability = Quiescent, pd_report = sample_report, pd_pane_exists = None\<rparr>\<rparr>"

definition two_tasks :: store where
  "two_tasks = empty_store\<lparr>task_projections := [(''t1'', sample_row ''t1''), (''t2'', sample_row ''t2'')]\<rparr>"

definition t1_missing :: actionable_change where
  "t1_missing = \<lparr>ac_task = ''t1'', ac_reason = RMissingReport, ac_priority = Normal, ac_preserve = False\<rparr>"

definition after :: "'a op_result \<Rightarrow> store" where
  "after r = (case r of Inr (_, s) \<Rightarrow> s | Inl _ \<Rightarrow> empty_store)"

definition one_change :: store where
  "one_change = after (bump_actionable t1_missing two_tasks)"

definition registered_run :: store where
  "registered_run = after (register_driver ''drv'' ''wt'' Pi one_change)"

definition offered_run :: store where
  "offered_run = after (offer_notification ''drv'' ''wt'' 1 registered_run)"

definition confirmed_run :: store where
  "confirmed_run = after (confirm_delivery ''drv'' ''wt'' 1 1 offered_run)"

lemmas run_defs = after_def bump_actionable_def register_driver_def offer_notification_def
  confirm_delivery_def require_registration_def ledger_of_def open_offers_def first_generation_def
  insert_offer_def range_priority_def tasks_between_def checked_deliveries_def delivery_check_def
  update_key_def update_all_def t1_missing_def two_tasks_def empty_store_def

lemma run_one_change:
  "bump_actionable t1_missing two_tasks = Inr (1, one_change)"
  by (simp add: one_change_def run_defs)

lemma run_registered:
  "register_driver ''drv'' ''wt'' Pi one_change = Inr (1, registered_run)"
  by (simp add: registered_run_def one_change_def run_defs)

lemma run_offered:
  "offer_notification ''drv'' ''wt'' 1 registered_run
   = Inr (Some \<lparr>n_generation = 1, n_priority = Normal, n_task_count = 1\<rparr>, offered_run)"
  by (simp add: offered_run_def registered_run_def one_change_def run_defs)

lemma run_confirmed:
  "confirm_delivery ''drv'' ''wt'' 1 1 offered_run = Inr (True, confirmed_run)"
  by (simp add: confirmed_run_def offered_run_def registered_run_def one_change_def run_defs)

lemma reach_two_tasks: "delivery_step\<^sup>*\<^sup>* empty_store two_tasks"
  by (rule r_into_rtranclp, rule delivery_step.elsewhere)
     (simp_all add: two_tasks_def empty_store_def same_ledger_def)

lemma reach_registered: "delivery_step\<^sup>*\<^sup>* empty_store registered_run"
  using reach_two_tasks delivery_step.bump[OF run_one_change] delivery_step.register[OF run_registered]
  by (meson rtranclp.rtrancl_into_rtrancl)

lemma reach_confirmed: "delivery_step\<^sup>*\<^sup>* registered_run confirmed_run"
  using delivery_step.offer[OF run_offered] delivery_step.confirm[OF run_confirmed]
  by (meson converse_rtranclp_into_rtranclp rtranclp.rtrancl_refl)

lemma reachable_ledger: "delivery_step\<^sup>*\<^sup>* empty_store s \<Longrightarrow> ledger_wf s"
  using ledger.run_inv empty_store_wf by blast

section \<open>The constraints of the tables never fire\<close>

lemma confirm_never_integrity:
  assumes wf: "ledger_wf s"
  shows "confirm_delivery drv sess ep gen s \<noteq> Inl (IntegrityError m)"
proof
  assume bad: "confirm_delivery drv sess ep gen s = Inl (IntegrityError m)"
  then have rr: "require_registration drv sess ep s = Inr ()"
    using require_registration_cases[of drv sess ep s] by (auto simp: confirm_delivery_def)
  from wf rr obtain r d where rd: "map_of (registrations s) drv = Some r" "r_session r = sess"
    "r_epoch r = ep" "map_of (deliveries s) drv = Some d" by (rule registered_entry)
  define mine where "mine = filter (\<lambda>p. o_driver p = drv \<and> o_epoch p = ep \<and> o_session p = sess)
    (delivery_offers s)"
  note raw = bad[unfolded confirm_delivery_def rr and_then_simps Let_def, folded mine_def]
  from raw have "mine \<noteq> []" and top: "Max (o_generation ` set mine) = gen"
    and no: "\<not> (\<exists>p \<in> set mine. o_generation p = gen \<and> o_confirmed p)"
    by (auto split: if_splits)
  then have "gen \<in> o_generation ` set mine"
    by (metis List.finite_set Max_in finite_imageI image_is_empty set_empty)
  with no obtain p where p: "p \<in> offers_of drv s" "o_epoch p = r_epoch r" "\<not> o_confirmed p"
    "o_generation p = gen"
    using rd by (auto simp: mine_def offers_of_def)
  from confirm_delivery_run[OF wf rd(1,4) p(1-3)] rd p(4) bad show False by auto
qed

lemma ack_never_integrity:
  assumes wf: "ledger_wf s"
  shows "ack_delivered drv through s \<noteq> Inl (IntegrityError m)"
    and "ack_generation drv sess ep through s \<noteq> Inl (IntegrityError m)"
proof -
  have settled: "set_acked drv n s \<noteq> Inl e"
    if "map_of (deliveries s) drv = Some d" "n \<le> d_delivered d" for d n e
  proof -
    have "delivery_check d'" if "(k, d') \<in> set (update_key drv (\<lambda>d. d\<lparr>d_acked := n, d_state := DPending\<rparr>) (deliveries s))"
      for k d'
    proof -
      have keys: "distinct (keys (deliveries s))" using wf by (simp add: ledger_wf_def registry_ok_def)
      from that obtain d0 where "(k, d0) \<in> set (deliveries s)"
        and d': "d' = (if k = drv then d0\<lparr>d_acked := n, d_state := DPending\<rparr> else d0)"
        by (auto simp: update_key_def)
      moreover from this keys have "k = drv \<Longrightarrow> d0 = d"
        using \<open>map_of (deliveries s) drv = Some d\<close> by (simp add: map_of_is_SomeI)
      ultimately show ?thesis
        using wf deliveries_checked \<open>n \<le> d_delivered d\<close>
        by (fastforce simp: ledger_wf_def delivery_check_def)
    qed
    then show ?thesis by (auto simp: set_acked_def checked_deliveries_def split: if_splits)
  qed
  show "ack_delivered drv through s \<noteq> Inl (IntegrityError m)"
    using settled by (fastforce simp: ack_delivered_def and_then_eq_Inl split: option.splits if_splits)
  show "ack_generation drv sess ep through s \<noteq> Inl (IntegrityError m)"
    using settled require_registration_cases[of drv sess ep s]
    by (fastforce simp: ack_generation_def and_then_eq_Inl ledger_of_def split: option.splits if_splits)
qed

lemma ledger_of_registered:
  assumes "ledger_wf s" and "require_registration drv sess ep s = Inr ()"
  shows "\<exists>d. ledger_of drv s = Inr d"
  using assms by (auto simp: ledger_of_def elim: registered_entry)

lemma offer_never_integrity:
  assumes wf: "ledger_wf s"
  shows "offer_notification drv sess ep s = Inl e
    \<Longrightarrow> e = ValueError ''stale or mismatched driver connection epoch''"
proof -
  assume bad: "offer_notification drv sess ep s = Inl e"
  show ?thesis
  proof (cases "require_registration drv sess ep s = Inr ()")
    case True
    from wf True obtain r d where rd: "map_of (registrations s) drv = Some r" "r_session r = sess"
      "r_epoch r = ep" "map_of (deliveries s) drv = Some d" by (rule registered_entry)
    from offer_notification_due[OF wf rd(1,4)] rd bad show ?thesis by auto
  next
    case False
    with bad require_registration_cases[of drv sess ep s] show ?thesis
      by (auto simp: offer_notification_def)
  qed
qed

text \<open>
  In every reachable store no operation of the ledger fails on a constraint of the tables (a
  primary key or a CHECK on the cursors) or on a missing cursor row: the guards in the code alone
  decide, and a notification is refused only to a stale connection.
\<close>

theorem ledger_constraints_never_fire:
  assumes reach: "delivery_step\<^sup>*\<^sup>* empty_store s"
  shows "bump_actionable change s \<noteq> Inl (IntegrityError m)
    \<and> register_driver drv sess harn s \<noteq> Inl (IntegrityError m)
    \<and> confirm_delivery drv sess ep gen s \<noteq> Inl (IntegrityError m)
    \<and> ack_delivered drv gen s \<noteq> Inl (IntegrityError m)
    \<and> ack_generation drv sess ep gen s \<notin> {Inl (IntegrityError m), Inl TypeError}
    \<and> notification_frontier drv sess ep s \<noteq> Inl TypeError
    \<and> (\<forall>e. offer_notification drv sess ep s = Inl e
          \<longrightarrow> e = ValueError ''stale or mismatched driver connection epoch'')"
proof (intro conjI allI impI)
  from reach have wf: "ledger_wf s" by (rule reachable_ledger)
  then have reg: "registry_ok s" by (simp add: ledger_wf_def)
  show "bump_actionable change s \<noteq> Inl (IntegrityError m)"
    by (simp add: bump_actionable_eq[OF wf])
  show "register_driver drv sess harn s \<noteq> Inl (IntegrityError m)"
    using registered_iff_ledger[OF reg, of drv]
    by (auto simp: register_driver_def Let_def split: option.splits)
  show "confirm_delivery drv sess ep gen s \<noteq> Inl (IntegrityError m)"
    by (rule confirm_never_integrity[OF wf])
  show "ack_delivered drv gen s \<noteq> Inl (IntegrityError m)" by (rule ack_never_integrity[OF wf])
  have *: "ledger_of drv s \<noteq> Inl e" if "require_registration drv sess ep s = Inr ()" for e
    using ledger_of_registered[OF wf that] by auto
  have "ack_generation drv sess ep gen s \<noteq> Inl TypeError"
    using * require_registration_cases[of drv sess ep s]
    by (auto simp: ack_generation_def and_then_eq_Inl set_acked_def checked_deliveries_def
        split: if_splits)
  then show "ack_generation drv sess ep gen s \<notin> {Inl (IntegrityError m), Inl TypeError}"
    using ack_never_integrity(2)[OF wf] by blast
  show "notification_frontier drv sess ep s \<noteq> Inl TypeError"
    using * require_registration_cases[of drv sess ep s]
    by (auto simp: notification_frontier_def and_then_eq_Inl Let_def split: option.splits if_splits)
  show "e = ValueError ''stale or mismatched driver connection epoch''"
    if "offer_notification drv sess ep s = Inl e" for e
    using that by (rule offer_never_integrity[OF wf])
qed

theorem ledger_constraints_never_fire_witness:
  "offer_notification ''drv'' ''old'' 1 registered_run
     = Inl (ValueError ''stale or mismatched driver connection epoch'')
   \<and> confirm_delivery ''drv'' ''wt'' 1 2 registered_run \<noteq> Inl (IntegrityError [])"
  using ledger_constraints_never_fire[OF reach_registered]
  by (simp add: registered_run_def one_change_def run_defs)

section \<open>Cursors, epochs and tombstones along a run\<close>

lemma run_no_regress:
  "delivery_step\<^sup>*\<^sup>* s t \<Longrightarrow> ledger_wf s \<Longrightarrow> no_regress (driver_view drv s) (driver_view drv t)"
  by (rule cursors.run_le)

lemma disabled_unregistered:
  assumes "ledger_wf s" and "drv \<in> set (disabled_drivers s)"
  shows "map_of (registrations s) drv = None" and "map_of (deliveries s) drv = None"
  using assms registered_iff_ledger[of s drv] by (auto simp: ledger_wf_def registry_ok_def)

text \<open>
  C7: a driver's cursors only advance.  From a reachable store along any run, every cursor of a
  driver moves up or stays, and acknowledged <= delivered <= latest holds throughout; the row goes
  away only when the driver has been disabled.
\<close>

theorem cursors_only_advance:
  assumes reach: "delivery_step\<^sup>*\<^sup>* empty_store s" and run: "delivery_step\<^sup>*\<^sup>* s t"
    and d: "map_of (deliveries s) drv = Some d"
  shows "(driver_authority drv t = AuthDisabled \<and> map_of (deliveries t) drv = None)
    \<or> (\<exists>e. map_of (deliveries t) drv = Some e
        \<and> d_acked d \<le> d_acked e \<and> d_delivered d \<le> d_delivered e \<and> d_latest d \<le> d_latest e
        \<and> d_acked e \<le> d_delivered e \<and> d_delivered e \<le> d_latest e
        \<and> d_latest e = latest_generation t)"
proof -
  from reach have wf: "ledger_wf s" by (rule reachable_ledger)
  with run have wf': "ledger_wf t" by (rule ledger.run_inv)
  from run_no_regress[OF run wf, of drv] d have
    "(\<exists>e. map_of (deliveries t) drv = Some e \<and> cursors_le d e)
     \<or> (map_of (deliveries t) drv = None \<and> drv \<in> set (disabled_drivers t))"
    by (auto simp: no_regress_def driver_view_def row_le_def split: option.splits)
  then show ?thesis
    using wf' deliveries_checked[of t drv] map_of_SomeD[of "deliveries t" drv]
    by (fastforce simp: ledger_wf_def driver_authority_def cursors_le_def delivery_check_def)
qed

theorem cursors_only_advance_witness:
  "\<exists>e. map_of (deliveries confirmed_run) ''drv'' = Some e \<and> d_delivered e \<le> d_latest e
     \<and> d_latest e = latest_generation confirmed_run"
proof -
  have "\<exists>d. map_of (deliveries registered_run) ''drv'' = Some d"
    by (simp add: registered_run_def one_change_def run_defs)
  then obtain d where "map_of (deliveries registered_run) ''drv'' = Some d" ..
  moreover have "map_of (deliveries confirmed_run) ''drv'' \<noteq> None"
    by (simp add: confirmed_run_def offered_run_def registered_run_def one_change_def run_defs)
  ultimately show ?thesis
    using cursors_only_advance[OF reach_registered reach_confirmed, of "''drv''" d] by auto
qed

text \<open>
  A connection that has been replaced stays refused.  After a registration has returned
  epoch \<open>ep\<close>, whatever happens next, every operation that names an earlier epoch of the driver
  is refused as stale, in particular it changes nothing.
\<close>

theorem replaced_connection_is_refused:
  assumes reach: "delivery_step\<^sup>*\<^sup>* empty_store s"
    and register: "register_driver drv sess harn s = Inr (ep, t)"
    and run: "delivery_step\<^sup>*\<^sup>* t v" and old: "e < ep"
  defines "stale \<equiv> ValueError ''stale or mismatched driver connection epoch''"
  shows "offer_notification drv sess' e v = Inl stale
    \<and> notification_frontier drv sess' e v = Inl stale
    \<and> withdraw_unconfirmed_offer drv sess' e gen v = Inl stale
    \<and> record_delivery_outcome drv sess' e gen DDeferred err v = Inl stale
    \<and> confirm_delivery drv sess' e gen v = Inl stale
    \<and> ack_generation drv sess' e gen v = Inl stale
    \<and> reconcile drv sess' e gen v = Inl stale
    \<and> watchtower_availability drv sess' e v = Inl stale"
proof -
  from reach have wf: "ledger_wf s" by (rule reachable_ledger)
  then have wf': "ledger_wf t" using register by (rule register_driver_wf)
  have "\<exists>r. map_of (registrations t) drv = Some r \<and> r_epoch r = ep"
    using register
    by (auto simp: register_driver_def Let_def map_of_update_key map_add_def split: option.splits if_splits)
  then have "map_of (registrations v) drv = None
      \<or> (\<exists>r. map_of (registrations v) drv = Some r \<and> ep \<le> r_epoch r)"
    using run_no_regress[OF run wf', of drv]
    by (auto simp: no_regress_def driver_view_def row_le_def epoch_le_def split: option.splits)
  then have "require_registration drv sess' e v = Inl stale"
    using old by (auto simp: require_registration_def stale_def)
  then show ?thesis
    by (simp add: offer_notification_def notification_frontier_def withdraw_unconfirmed_offer_def
        record_delivery_outcome_def confirm_delivery_def ack_generation_def reconcile_def
        watchtower_availability_def)
qed

theorem replaced_connection_is_refused_witness:
  "confirm_delivery ''drv'' ''wt'' 0 1 registered_run
     = Inl (ValueError ''stale or mismatched driver connection epoch'')"
proof -
  have "delivery_step\<^sup>*\<^sup>* empty_store one_change"
    using reach_two_tasks delivery_step.bump[OF run_one_change] by (rule rtranclp.rtrancl_into_rtrancl)
  from replaced_connection_is_refused[OF this run_registered rtranclp.rtrancl_refl, of 0]
  show ?thesis by simp
qed

text \<open>
  C8: a tombstone is final.  Disabling a driver succeeds only with nothing pending; from then on
  the driver has no registration, no cursors and no offers, can never register again, and
  disabling it once more succeeds without a change.
\<close>

theorem tombstone_is_final:
  assumes reach: "delivery_step\<^sup>*\<^sup>* empty_store s"
    and disable: "disable_driver_authority drv s = Inr ((), t)" and run: "delivery_step\<^sup>*\<^sup>* t v"
  shows "(\<forall>d. map_of (deliveries s) drv = Some d \<longrightarrow> d_acked d = latest_generation s)
    \<and> driver_authority drv v = AuthDisabled
    \<and> map_of (registrations v) drv = None \<and> map_of (deliveries v) drv = None
    \<and> offers_of drv v = {}
    \<and> register_driver drv sess harn v = Inl (ValueError ''driver authority is disabled for legacy fallback'')
    \<and> disable_driver_authority drv v = Inr ((), v)"
proof -
  from reach have wf: "ledger_wf s" by (rule reachable_ledger)
  then have "ledger_wf t" using disable by (rule disable_driver_authority_wf)
  note wf_v = ledger.run_inv[OF run this] and regress = run_no_regress[OF run this, of drv]
  have clean: "d_acked d = latest_generation s" if "map_of (deliveries s) drv = Some d" for d
  proof -
    have "d_latest d = latest_generation s"
      using wf deliveries_checked map_of_SomeD[OF that] by (auto simp: ledger_wf_def)
    moreover have "drv \<notin> set (disabled_drivers s)"
      using disabled_unregistered[OF wf] that by auto
    ultimately show ?thesis
      using disable that by (auto simp: disable_driver_authority_def split: if_splits)
  qed
  have "drv \<in> set (disabled_drivers t)"
    using disable by (auto simp: disable_driver_authority_def split: if_splits option.splits)
  with regress have dis: "drv \<in> set (disabled_drivers v)"
    by (auto simp: no_regress_def driver_view_def row_le_def)
  note none = disabled_unregistered[OF wf_v dis]
  have "offers_of drv v = {}"
    using registry_ok_entry[of v drv] wf_v none by (simp add: ledger_wf_def entry_ok_def)
  then show ?thesis
    using clean dis none
    by (simp add: driver_authority_def register_driver_def disable_driver_authority_def)
qed

theorem tombstone_is_final_witness:
  "\<exists>t. disable_driver_authority ''d2'' (after (register_driver ''d2'' ''x'' Codex empty_store)) = Inr ((), t)
    \<and> register_driver ''d2'' ''y'' Codex t
        = Inl (ValueError ''driver authority is disabled for legacy fallback'')"
proof -
  have reg: "register_driver ''d2'' ''x'' Codex empty_store
      = Inr (1, after (register_driver ''d2'' ''x'' Codex empty_store))"
    by (simp add: run_defs)
  then have reach: "delivery_step\<^sup>*\<^sup>* empty_store (after (register_driver ''d2'' ''x'' Codex empty_store))"
    by (intro r_into_rtranclp delivery_step.register)
  have "\<exists>t. disable_driver_authority ''d2'' (after (register_driver ''d2'' ''x'' Codex empty_store)) = Inr ((), t)"
    by (simp add: run_defs disable_driver_authority_def)
  with tombstone_is_final[OF reach _ rtranclp.rtrancl_refl] show ?thesis by blast
qed

section \<open>The frozen history\<close>

text \<open>Rows are only appended, each with a generation beyond the ones counted so far.\<close>

definition grows :: "nat \<Rightarrow> ('a \<Rightarrow> nat) \<Rightarrow> 'a list \<Rightarrow> 'a list \<Rightarrow> bool" where
  "grows n gen xs ys \<longleftrightarrow> (\<exists>zs. ys = xs @ zs \<and> (\<forall>z \<in> set zs. n < gen z))"

lemma grows_refl [simp]: "grows n gen xs xs"
  by (simp add: grows_def)

lemma grows_append: "(\<And>z. z \<in> set zs \<Longrightarrow> n < gen z) \<Longrightarrow> grows n gen xs (xs @ zs)"
  by (simp add: grows_def)

lemma grows_trans: "grows n gen xs ys \<Longrightarrow> grows m gen ys zs \<Longrightarrow> n \<le> m \<Longrightarrow> grows n gen xs zs"
  by (fastforce simp: grows_def)

lemma grows_filter: "grows n gen xs ys \<Longrightarrow> m \<le> n \<Longrightarrow> filter (\<lambda>x. gen x \<le> m \<and> P x) ys = filter (\<lambda>x. gen x \<le> m \<and> P x) xs"
  by (fastforce simp: grows_def filter_empty_conv)

definition history_le :: "store \<Rightarrow> store \<Rightarrow> bool" where
  "history_le s t \<longleftrightarrow> latest_generation s \<le> latest_generation t
     \<and> grows (latest_generation s) fst (pending_generations s) (pending_generations t)
     \<and> grows (latest_generation s) fst (generation_tasks s) (generation_tasks t)
     \<and> grows (latest_generation s) fst (membership_snapshots s) (membership_snapshots t)
     \<and> grows (latest_generation s) sn_generation (task_snapshots s) (task_snapshots t)"

lemma history_le_trans: "history_le s t \<Longrightarrow> history_le t v \<Longrightarrow> history_le s v"
  unfolding history_le_def using grows_trans order_trans by metis

lemma history_unchanged:
  "\<lbrakk>latest_generation t = latest_generation s; pending_generations t = pending_generations s;
    generation_tasks t = generation_tasks s; membership_snapshots t = membership_snapshots s;
    task_snapshots t = task_snapshots s\<rbrakk> \<Longrightarrow> history_le s t"
  by (simp add: history_le_def)

lemma bumped_history_le: "history_le s (bumped change s)"
  by (auto simp: history_le_def bumped_def Let_def intro!: grows_append)

lemma delivery_step_history:
  assumes wf: "ledger_wf s" and step: "delivery_step s t"
  shows "history_le s t"
  using step
proof cases
  case (bump change gen)
  then have "t = bumped change s" by (auto simp: bump_actionable_eq[OF wf] split: if_splits)
  then show ?thesis by (simp add: bumped_history_le)
next
  case (confirm drv sess ep gen b)
  from confirm_delivery_cases[OF wf confirm] show ?thesis
  proof (elim disjE conjE exE)
    fix r d p
    assume *: "map_of (registrations s) drv = Some r" "r_session r = sess" "r_epoch r = ep"
      "map_of (deliveries s) drv = Some d" "p \<in> offers_of drv s" "o_epoch p = ep" "\<not> o_confirmed p"
      "o_generation p = gen"
    with confirm_delivery_run[OF wf *(1,4,5)] confirm show ?thesis
      by (auto intro!: history_unchanged)
  qed (auto intro: history_unchanged)
next
  case (ack_cli drv through b)
  from ack_delivered_cases[OF ack_cli] show ?thesis by (auto intro!: history_unchanged)
next
  case (ack_adapter drv sess ep through b)
  from ack_generation_cases[OF ack_adapter] show ?thesis by (auto intro!: history_unchanged)
qed (auto intro!: history_unchanged
      simp: same_ledger_def register_driver_def disable_driver_authority_def offer_notification_def
        withdraw_unconfirmed_offer_def record_delivery_outcome_def reconcile_delivered_def
        insert_offer_def and_then_eq_Inr Let_def split: option.splits if_splits)

interpretation history: monotone_run delivery_step ledger_wf "\<lambda>s. s" history_le
  by unfold_locales (auto intro: delivery_step_history history_le_trans history_unchanged)

lemma snapshot_rows_frozen:
  assumes "history_le s t" and "n \<le> latest_generation s"
  shows "snapshot_rows n since t = snapshot_rows n since s"
    and "projection_snapshots_through n t = projection_snapshots_through n s"
proof -
  have snaps: "filter (\<lambda>p. sn_generation p \<le> n \<and> P p) (task_snapshots t)
      = filter (\<lambda>p. sn_generation p \<le> n \<and> P p) (task_snapshots s)" for P
    using assms by (intro grows_filter) (auto simp: history_le_def)
  from snaps[of "\<lambda>_. True"] show "projection_snapshots_through n t = projection_snapshots_through n s"
    by (simp add: projection_snapshots_through_def)
  have tasks: "tasks_between a n t = tasks_between a n s" for a
  proof -
    have "filter (\<lambda>g. fst g \<le> n \<and> a < fst g) (generation_tasks t)
        = filter (\<lambda>g. fst g \<le> n \<and> a < fst g) (generation_tasks s)"
      using assms by (intro grows_filter) (auto simp: history_le_def)
    moreover have "(\<lambda>(m, _ :: ident \<times> reason). a < m \<and> m \<le> n) = (\<lambda>g. fst g \<le> n \<and> a < fst g)" by auto
    ultimately show ?thesis by (simp add: tasks_between_def)
  qed
  have "{q \<in> set (task_snapshots t). sn_generation q \<le> n} = {q \<in> set (task_snapshots s). sn_generation q \<le> n}"
    using arg_cong[OF snaps[of "\<lambda>_. True"], of set] by simp
  then have newest: "newest_for n (task_snapshots t) = newest_for n (task_snapshots s)"
    by (auto simp: newest_for_def fun_eq_iff)
  have "(\<lambda>p. sn_generation p \<le> n \<and> newest_for n (task_snapshots s) p) = newest_for n (task_snapshots s)"
    by (auto simp: newest_for_def)
  then have "filter (newest_for n (task_snapshots t)) (task_snapshots t)
      = filter (newest_for n (task_snapshots s)) (task_snapshots s)"
    using snaps[of "newest_for n (task_snapshots s)"] by (simp add: newest)
  then show "snapshot_rows n since t = snapshot_rows n since s"
    by (simp add: snapshot_rows_def tasks cong: option.case_cong)
qed

text \<open>
  C9: the delivery history is append-only.  Along any run the generations, the changed task of
  each and the frozen projections of the past are never altered, so a reconciliation through a
  past generation reads the same rows whenever it is asked.
\<close>

theorem history_is_frozen:
  assumes reach: "delivery_step\<^sup>*\<^sup>* empty_store s" and run: "delivery_step\<^sup>*\<^sup>* s t"
  shows "prefix (task_snapshots s) (task_snapshots t) \<and> prefix (generation_tasks s) (generation_tasks t)
    \<and> prefix (pending_generations s) (pending_generations t)
    \<and> (\<forall>n \<le> latest_generation s.
         projection_snapshots_through n t = projection_snapshots_through n s
         \<and> snapshot_rows n since t = snapshot_rows n since s)"
proof -
  have le: "history_le s t" using run reachable_ledger[OF reach] by (rule history.run_le)
  then show ?thesis
    using snapshot_rows_frozen[OF le] by (auto simp: history_le_def grows_def)
qed

theorem history_is_frozen_witness:
  "prefix (task_snapshots registered_run) (task_snapshots confirmed_run)
   \<and> projection_snapshots_through 1 confirmed_run = projection_snapshots_through 1 registered_run"
proof -
  have "latest_generation registered_run = 1"
    by (simp add: registered_run_def one_change_def run_defs)
  with history_is_frozen[OF reach_registered reach_confirmed] show ?thesis by simp
qed

section \<open>What a reconciliation returns\<close>

text \<open>The newest row of every task through a generation is the one frozen at that generation.\<close>

lemma newest_is_frozen:
  assumes h: "history_ok s" and n: "n \<le> latest_generation s"
    and p: "p \<in> set (task_snapshots s)"
  shows "newest_for n (task_snapshots s) p \<longleftrightarrow> sn_generation p = n"
proof
  assume newest: "newest_for n (task_snapshots s) p"
  then have le: "sn_generation p \<le> n" by (simp add: newest_for_def)
  have "(n, sn_task p) \<in> snapshot_key ` set (task_snapshots s)"
    using h p le n unfolding history_ok_def by (meson atLeastAtMost_iff)
  then obtain q where "q \<in> set (task_snapshots s)" "sn_generation q = n" "sn_task q = sn_task p"
    by (auto simp: snapshot_key_def)
  with newest have "n \<le> sn_generation p" by (auto simp: newest_for_def)
  with le show "sn_generation p = n" by simp
qed (auto simp: newest_for_def)

lemma changed_task_frozen:
  assumes h: "history_ok s" and n: "a < n" "n \<le> latest_generation s"
  shows "\<exists>p \<in> set (task_snapshots s). sn_generation p = n \<and> sn_task p \<in> set (tasks_between a n s)"
proof -
  have "map fst (generation_tasks s) = [1..<latest_generation s + 1]"
    using h by (simp add: history_ok_def)
  then have "n \<in> set (map fst (generation_tasks s))" using n by (simp only: set_upt) simp
  then obtain g where g: "g \<in> set (generation_tasks s)" "fst g = n" by auto
  then have "(n, fst (snd g)) \<in> snapshot_key ` set (task_snapshots s)"
    using h unfolding history_ok_def by blast
  then obtain p where p: "p \<in> set (task_snapshots s)" "snapshot_key p = (n, fst (snd g))" by force
  have "fst (snd g) \<in> set (tasks_between a n s)"
    unfolding tasks_between_def set_map
    by (rule image_eqI[where x = g]) (use g n in \<open>auto simp: case_prod_beta\<close>)
  with p show ?thesis by (auto simp: snapshot_key_def)
qed

lemma reconciled_rows:
  assumes h: "history_ok s" and n: "a < n" "n \<le> latest_generation s"
    and rows: "snapshot_rows n (if full then None else Some a) s = Inr rows"
  shows "set rows = {p \<in> set (task_snapshots s). sn_generation p = n
        \<and> (full \<or> sn_task p \<in> set (tasks_between a n s))}"
    and "distinct (map sn_task rows)" and "rows \<noteq> []"
    and "length rows \<le> snapshot_task_count n s"
proof -
  from snapshot_rows_Inr[OF h, of n "if full then None else Some a"] rows
  have set_rows: "set rows = {p \<in> set (task_snapshots s). newest_for n (task_snapshots s) p
        \<and> (full \<or> sn_task p \<in> set (tasks_between a n s))}" and dist: "distinct (map sn_task rows)"
    by (auto split: if_splits)
  then show rows_eq: "set rows = {p \<in> set (task_snapshots s). sn_generation p = n
        \<and> (full \<or> sn_task p \<in> set (tasks_between a n s))}"
    using newest_is_frozen[OF h n(2)] by auto
  show "distinct (map sn_task rows)" by (rule dist)
  show "rows \<noteq> []"
    using changed_task_frozen[OF h n] rows_eq by auto
  have "length rows = card (sn_task ` set rows)"
    using dist by (metis distinct_card length_map list.set_map)
  also have "\<dots> \<le> card (sn_task ` {p \<in> set (task_snapshots s). sn_generation p \<le> n})"
    using rows_eq by (intro card_mono) auto
  also have "\<dots> = snapshot_task_count n s"
    by (simp add: snapshot_task_count_def length_remdups_card_conv)
  finally show "length rows \<le> snapshot_task_count n s" .
qed

text \<open>
  C6: reconciliation of a delivered, unacknowledged generation always succeeds and is exact: it
  returns one row per task, frozen at the delivered generation itself; all of them in full mode,
  otherwise exactly the tasks that a generation in (acked, delivered] changed; never none; the
  count of suppressed tasks is not negative; no cursor moves, and no offer of the driver stays
  unconfirmed.
\<close>

theorem reconciliation_is_exact:
  assumes reach: "delivery_step\<^sup>*\<^sup>* empty_store s"
    and d: "map_of (deliveries s) drv = Some d" and pending: "d_acked d < d_delivered d"
  shows "\<exists>rc t. reconcile_delivered drv full s = Inr (rc, t)
    \<and> rc_through rc = d_delivered d \<and> rc_since rc = d_acked d \<and> 0 \<le> rc_unchanged rc
    \<and> rc_reports rc \<noteq> [] \<and> distinct (map sn_task (rc_reports rc))
    \<and> set (rc_reports rc) = {p \<in> set (task_snapshots s). sn_generation p = d_delivered d
          \<and> (full \<or> sn_task p \<in> set (tasks_between (d_acked d) (d_delivered d) s))}
    \<and> deliveries t = deliveries s \<and> (\<forall>p \<in> offers_of drv t. o_confirmed p)"
proof -
  from reach have wf: "ledger_wf s" by (rule reachable_ledger)
  then have h: "history_ok s" by (simp add: ledger_wf_def)
  from wf d obtain r where r: "map_of (registrations s) drv = Some r"
    and ok: "driver_ok (latest_generation s) r d (offers_of drv s)"
    by (auto simp: ledger_wf_def elim: entry_okD)
  then have le: "d_delivered d \<le> latest_generation s"
    by (auto simp: driver_ok_def delivery_check_def)
  from reconcile_delivered_run[OF wf r d pending, of full] obtain rows t os where
    run: "reconcile_delivered drv full s = Inr (\<lparr>rc_through = d_delivered d, rc_reports = rows,
        rc_since = d_acked d,
        rc_unchanged = int (snapshot_task_count (d_delivered d) s) - int (length rows)\<rparr>, t)"
    and rows: "snapshot_rows (d_delivered d) (if full then None else Some (d_acked d)) s = Inr rows"
    and t: "\<forall>p \<in> offers_of drv t. o_confirmed p" "t = s\<lparr>delivery_offers := os\<rparr>"
    by blast
  note facts = reconciled_rows[OF h pending le rows]
  show ?thesis using run facts t by auto
qed

theorem reconciliation_is_exact_witness:
  "\<exists>rc t. reconcile_delivered ''drv'' False confirmed_run = Inr (rc, t) \<and> rc_reports rc \<noteq> []"
proof -
  have "\<exists>d. map_of (deliveries confirmed_run) ''drv'' = Some d \<and> d_acked d < d_delivered d"
    by (simp add: confirmed_run_def offered_run_def registered_run_def one_change_def run_defs)
  then obtain d where "map_of (deliveries confirmed_run) ''drv'' = Some d" "d_acked d < d_delivered d"
    by blast
  from reconciliation_is_exact[OF rtranclp_trans[OF reach_registered reach_confirmed] this, of False]
  show ?thesis by blast
qed

section \<open>The life of a wake\<close>

text \<open>
  C10: the two readers agree.  \<open>notification_frontier\<close>, which only looks, announces exactly the
  generation and priority that \<open>offer_notification\<close>, which writes, offers next; when it announces
  nothing, nothing is offered and nothing written; and asking again repeats the same offer
  without a second row.
\<close>

theorem frontier_agrees_with_offer:
  assumes reach: "delivery_step\<^sup>*\<^sup>* empty_store s"
  shows "case notification_frontier drv sess ep s of
      Inl e \<Rightarrow> offer_notification drv sess ep s = Inl e
    | Inr None \<Rightarrow> offer_notification drv sess ep s = Inr (None, s)
    | Inr (Some (gen, prio, immediate)) \<Rightarrow>
        (\<exists>n t. offer_notification drv sess ep s = Inr (Some n, t)
          \<and> n_generation n = gen \<and> n_priority n = prio
          \<and> offer_notification drv sess ep t = Inr (Some n, t))"
proof (cases "require_registration drv sess ep s = Inr ()")
  case True
  from reach have wf: "ledger_wf s" by (rule reachable_ledger)
  from wf True obtain r d where r: "map_of (registrations s) drv = Some r" "r_session r = sess"
    "r_epoch r = ep" and d: "map_of (deliveries s) drv = Some d" by (rule registered_entry)
  from offer_notification_due[OF wf r(1) d] obtain t where
    t: "offer_notification drv sess ep s
      = Inr (map_option (\<lambda>gen. notice_of (d_acked d) gen s) (due drv r d s), t)"
    and "t = s \<or> (\<exists>gen. due drv r d s = Some gen
        \<and> t = s\<lparr>delivery_offers := delivery_offers s @ [\<lparr>o_driver = drv, o_epoch = r_epoch r,
          o_session = r_session r, o_generation = gen, o_confirmed = False\<rparr>]\<rparr>)"
    and again: "\<forall>gen. due drv r d s = Some gen
        \<longrightarrow> first_generation (open_offers drv (r_epoch r) (r_session r) (d_acked d) t) = Some gen"
    using r by blast
  then have same: "registrations t = registrations s" "deliveries t = deliveries s"
    "\<And>gen. notice_of (d_acked d) gen t = notice_of (d_acked d) gen s"
    "due drv r d s = None \<Longrightarrow> t = s"
    by auto
  show ?thesis
  proof (cases "due drv r d s")
    case None
    then show ?thesis using frontier_due[OF r(1) d] t same r by simp
  next
    case (Some gen)
    with again have "offer_notification drv sess ep t = Inr (Some (notice_of (d_acked d) gen t), t)"
      using r d same(1,2)
      by (simp add: offer_notification_def require_registration_def ledger_of_def Let_def notice_of_def)
    then show ?thesis using frontier_due[OF r(1) d] t Some same(3) r by (auto simp: notice_of_def)
  qed
next
  case False
  with require_registration_cases[of drv sess ep s] show ?thesis
    by (auto simp: notification_frontier_def offer_notification_def)
qed

theorem frontier_agrees_with_offer_witness:
  "\<exists>n t. offer_notification ''drv'' ''wt'' 1 registered_run = Inr (Some n, t) \<and> n_generation n = 1
     \<and> offer_notification ''drv'' ''wt'' 1 t = Inr (Some n, t)"
proof -
  have "notification_frontier ''drv'' ''wt'' 1 registered_run = Inr (Some (1, Normal, False))"
    by (simp add: notification_frontier_def registered_run_def one_change_def run_defs)
  with frontier_agrees_with_offer[OF reach_registered, of "''drv''" "''wt''" 1] show ?thesis
    by fastforce
qed

text \<open>A connection that has confirmed the delivered generation is owed nothing more.\<close>

lemma consumed_wake:
  assumes wf: "ledger_wf s" and r: "map_of (registrations s) drv = Some r"
    and d: "map_of (deliveries s) drv = Some d" and pending: "d_acked d < d_delivered d"
    and p: "p \<in> offers_of drv s" "o_epoch p = r_epoch r" "o_confirmed p" "o_generation p = d_delivered d"
  shows "due drv r d s = None"
    and "offer_notification drv (r_session r) (r_epoch r) s = Inr (None, s)"
proof -
  from wf have reg: "registry_ok s" by (simp add: ledger_wf_def)
  from reg r d have ok: "driver_ok (latest_generation s) r d (offers_of drv s)"
    by (metis entry_okD' option.inject)
  have "False" if q: "q \<in> offers_of drv s" "o_epoch q = r_epoch r" "\<not> o_confirmed q" for q
  proof -
    from current_offer_is_delivered[OF ok q(1,3,2) pending] p q
    have "offer_key q = offer_key p" "q \<in> set (delivery_offers s)" "p \<in> set (delivery_offers s)"
      by (auto simp: offer_key_def offers_of_def)
    moreover have "inj_on offer_key (set (delivery_offers s))"
      using reg by (simp add: registry_ok_def distinct_map)
    ultimately have "q = p" by (meson inj_onD)
    with p(3) q(3) show False by simp
  qed
  then have "{q \<in> offers_of drv s. o_epoch q = r_epoch r \<and> \<not> o_confirmed q} = {}" by auto
  then have "set (open_offers drv (r_epoch r) (r_session r) (d_acked d) s) = {}"
    by (simp only: open_offers_current[OF reg r d])
  then have none: "open_offers drv (r_epoch r) (r_session r) (d_acked d) s = []" by simp
  moreover have "has_offer drv (r_epoch r) (r_session r) (d_delivered d) True s"
    using p has_offer_current[OF reg r] by blast
  ultimately show "due drv r d s = None"
    using pending by (simp add: due_def first_generation_def)
  then show "offer_notification drv (r_session r) (r_epoch r) s = Inr (None, s)"
    using none pending r d \<open>has_offer drv (r_epoch r) (r_session r) (d_delivered d) True s\<close>
    by (simp add: offer_notification_def require_registration_def ledger_of_def first_generation_def
        Let_def)
qed

text \<open>After a confirmation the driver's row names the confirmed generation and its offer.\<close>

lemma confirmed_state:
  assumes wf: "ledger_wf s" and run: "confirm_delivery drv sess ep gen s = Inr (True, t)"
  shows "\<exists>r d p. map_of (registrations t) drv = Some r \<and> r_session r = sess \<and> r_epoch r = ep
    \<and> map_of (deliveries t) drv = Some d \<and> d_delivered d = gen \<and> d_acked d < gen
    \<and> p \<in> offers_of drv t \<and> o_epoch p = ep \<and> o_confirmed p \<and> o_generation p = gen"
proof -
  from confirm_delivery_cases[OF wf run] obtain r d p where
    rd: "map_of (registrations s) drv = Some r" "r_session r = sess" "r_epoch r = ep"
      "map_of (deliveries s) drv = Some d"
    and p: "p \<in> offers_of drv s" "o_epoch p = ep" "\<not> o_confirmed p" "o_generation p = gen"
    by blast
  from confirm_delivery_run[OF wf rd(1,4) p(1)] p rd run have
    t: "map_of (deliveries t) drv = Some (d\<lparr>d_delivered := gen, d_state := DDelivered, d_error := None\<rparr>)"
      "registrations t = registrations s"
      "delivery_offers t = update_where
           (\<lambda>q. o_driver q = drv \<and> o_epoch q = ep \<and> o_generation q = gen)
           (\<lambda>p. p\<lparr>o_confirmed := True\<rparr>) (delivery_offers s)"
    by auto
  have "p\<lparr>o_confirmed := True\<rparr> \<in> offers_of drv t"
    using p by (auto simp: offers_of_def t(3) set_update_where)
  moreover have "d_acked d < gen"
    using wf rd p by (auto simp: ledger_wf_def driver_ok_def offer_ok_def elim!: entry_okD')
  ultimately show ?thesis using t rd p by fastforce
qed

definition bump_all :: "actionable_change list \<Rightarrow> store \<Rightarrow> py_error + store" where
  "bump_all = fold_res (\<lambda>c s. and_then (bump_actionable c s) (\<lambda>(gen, t). Inr t))"

text \<open>
  One wake per connection.  Once a connection has confirmed a generation it gets no further
  offer while that generation is unacknowledged, however many new generations arrive meanwhile.
\<close>

theorem one_wake_per_connection:
  assumes reach: "delivery_step\<^sup>*\<^sup>* empty_store s"
    and confirm: "confirm_delivery drv sess ep gen s = Inr (True, t)"
    and later: "bump_all changes t = Inr v"
  shows "offer_notification drv sess ep v = Inr (None, v)"
proof -
  define served where "served v \<longleftrightarrow> ledger_wf v \<and> (\<exists>r d p. map_of (registrations v) drv = Some r
    \<and> r_session r = sess \<and> r_epoch r = ep \<and> map_of (deliveries v) drv = Some d \<and> d_delivered d = gen
    \<and> d_acked d < gen \<and> p \<in> offers_of drv v \<and> o_epoch p = ep \<and> o_confirmed p \<and> o_generation p = gen)"
    for v
  from reach have wf: "ledger_wf s" by (rule reachable_ledger)
  have "served t"
    using confirm_delivery_wf[OF wf confirm] confirmed_state[OF wf confirm] by (simp add: served_def)
  then have "served v"
  proof (rule fold_res_invariant[OF later[unfolded bump_all_def]])
    fix c x y
    assume "served x" "and_then (bump_actionable c x) (\<lambda>(gen, t). Inr t) = Inr y"
    then have wf_x: "ledger_wf x" and y: "y = bumped c x"
      by (auto simp: served_def bump_actionable_eq and_then_eq_Inr split: if_splits)
    have "bump_actionable c x = Inr (latest_generation x + 1, y)"
      using \<open>and_then (bump_actionable c x) (\<lambda>(gen, t). Inr t) = Inr y\<close>
      by (auto simp: bump_actionable_eq[OF wf_x] split: if_splits)
    with wf_x have "ledger_wf y" by (rule bump_actionable_wf)
    moreover obtain r d p where "map_of (registrations x) drv = Some r" "r_session r = sess"
      "r_epoch r = ep" "map_of (deliveries x) drv = Some d" "d_delivered d = gen" "d_acked d < gen"
      "p \<in> offers_of drv x" "o_epoch p = ep" "o_confirmed p" "o_generation p = gen"
      using \<open>served x\<close> unfolding served_def by blast
    then have "map_of (registrations y) drv = Some r \<and> r_session r = sess \<and> r_epoch r = ep
      \<and> map_of (deliveries y) drv = Some (d\<lparr>d_latest := latest_generation x + 1\<rparr>)
      \<and> d_delivered (d\<lparr>d_latest := latest_generation x + 1\<rparr>) = gen
      \<and> d_acked (d\<lparr>d_latest := latest_generation x + 1\<rparr>) < gen
      \<and> p \<in> offers_of drv y \<and> o_epoch p = ep \<and> o_confirmed p \<and> o_generation p = gen"
      by (simp add: y bumped_def Let_def map_of_update_all offers_of_def)
    ultimately show "served y" unfolding served_def by blast
  qed
  then obtain r d p where wf_v: "ledger_wf v" and r: "map_of (registrations v) drv = Some r"
    "r_session r = sess" "r_epoch r = ep" and d: "map_of (deliveries v) drv = Some d"
    "d_delivered d = gen" "d_acked d < gen"
    and p: "p \<in> offers_of drv v" "o_epoch p = ep" "o_confirmed p" "o_generation p = gen"
    unfolding served_def by blast
  have "offer_notification drv (r_session r) (r_epoch r) v = Inr (None, v)"
    by (rule consumed_wake(2)[OF wf_v r(1) d(1)]) (use r d p in auto)
  with r(2,3) show ?thesis by simp
qed

lemma confirm_run_from: "ledger_wf registered_run" "ledger_wf offered_run"
  using reach_registered reachable_ledger offer_notification_wf[OF _ run_offered] by blast+

theorem one_wake_per_connection_witness:
  "\<exists>v. bump_all [t1_missing] confirmed_run = Inr v
     \<and> offer_notification ''drv'' ''wt'' 1 v = Inr (None, v)"
proof -
  have reach: "delivery_step\<^sup>*\<^sup>* empty_store offered_run"
    using reach_registered delivery_step.offer[OF run_offered] by (rule rtranclp.rtrancl_into_rtrancl)
  have "\<exists>v. bump_all [t1_missing] confirmed_run = Inr v"
    by (simp add: bump_all_def confirmed_run_def offered_run_def registered_run_def one_change_def run_defs)
  then obtain v where v: "bump_all [t1_missing] confirmed_run = Inr v" ..
  with one_wake_per_connection[OF reach run_confirmed v] show ?thesis by blast
qed

text \<open>
  C5: a wake completes.  An offered notification can always be confirmed by its connection; the
  reconciliation that follows reports through exactly that generation and is not empty; its
  acknowledgement is accepted and brings the acknowledged cursor to that generation.  None of
  the four steps can fail.
\<close>

theorem wake_completes:
  assumes reach: "delivery_step\<^sup>*\<^sup>* empty_store s"
    and offered: "offer_notification drv sess ep s = Inr (Some n, t)"
  shows "\<exists>c rc v w. confirm_delivery drv sess ep (n_generation n) t = Inr (True, c)
    \<and> reconcile_delivered drv full c = Inr (rc, v)
    \<and> rc_through rc = n_generation n \<and> rc_reports rc \<noteq> []
    \<and> ack_delivered drv (n_generation n) v = Inr (True, w)
    \<and> (\<exists>d. map_of (deliveries w) drv = Some d \<and> d_acked d = n_generation n \<and> d_delivered d = n_generation n)"
proof -
  from reach have wf: "ledger_wf s" by (rule reachable_ledger)
  from offered have rr: "require_registration drv sess ep s = Inr ()"
    by (auto simp: offer_notification_def and_then_eq_Inr)
  from wf rr obtain r d where r: "map_of (registrations s) drv = Some r" "r_session r = sess"
    "r_epoch r = ep" and d: "map_of (deliveries s) drv = Some d" by (rule registered_entry)
  define gen where "gen = n_generation n"
  from offer_notification_due[OF wf r(1) d] offered r obtain "ledger_wf t"
    and some: "Some n = map_option (\<lambda>gen. notice_of (d_acked d) gen s) (due drv r d s)"
    and t: "registrations t = registrations s" "deliveries t = deliveries s"
    and first_due: "\<forall>gen. due drv r d s = Some gen
        \<longrightarrow> first_generation (open_offers drv ep sess (d_acked d) t) = Some gen"
    by auto
  from some have "due drv r d s = Some gen"
    by (cases "due drv r d s") (auto simp: gen_def notice_of_def)
  with first_due have first: "first_generation (open_offers drv ep sess (d_acked d) t) = Some gen"
    by blast
  have "gen \<in> o_generation ` set (open_offers drv ep sess (d_acked d) t)"
    using first Min_in[of "o_generation ` set (open_offers drv ep sess (d_acked d) t)"]
    by (auto simp: first_generation_def split: if_splits)
  then obtain p where p: "p \<in> offers_of drv t" "o_epoch p = r_epoch r" "\<not> o_confirmed p" "o_generation p = gen"
    using r by (auto simp: open_offers_def offers_of_def)
  from confirm_delivery_run[OF \<open>ledger_wf t\<close> _ _ p(1-3)] r d p(4) t obtain c where
    c: "confirm_delivery drv sess ep gen t = Inr (True, c)" "ledger_wf c" by auto
  from confirmed_state[OF \<open>ledger_wf t\<close> c(1)] obtain r' d' where
    rd: "map_of (registrations c) drv = Some r'" "map_of (deliveries c) drv = Some d'"
      "d_delivered d' = gen" "d_acked d' < gen" by blast
  then have pending: "d_acked d' < d_delivered d'" by simp
  from reconcile_delivered_run[OF c(2) rd(1,2) pending, of full] obtain rows v where
    v: "reconcile_delivered drv full c = Inr (\<lparr>rc_through = d_delivered d', rc_reports = rows,
        rc_since = d_acked d',
        rc_unchanged = int (snapshot_task_count (d_delivered d') c) - int (length rows)\<rparr>, v)"
    and rows: "snapshot_rows (d_delivered d') (if full then None else Some (d_acked d')) c = Inr rows"
    and settled: "ledger_wf v" "\<forall>p \<in> offers_of drv v. o_confirmed p" "deliveries v = deliveries c"
    by auto
  have "d_delivered d' \<le> latest_generation c"
    using c(2) deliveries_checked map_of_SomeD[OF rd(2)] by (fastforce simp: ledger_wf_def delivery_check_def)
  then have "rows \<noteq> []" using reconciled_rows(3)[OF _ pending _ rows] c(2) by (simp add: ledger_wf_def)
  moreover from settled(3) rd(2) have dv: "map_of (deliveries v) drv = Some d'" by simp
  note ack_delivered_run(1)[OF settled(1) dv pending settled(2)]
  ultimately show ?thesis
    using c(1) v rd(3) dv by (fastforce simp: gen_def map_of_update_key)
qed

theorem wake_completes_witness:
  "\<exists>c. confirm_delivery ''drv'' ''wt'' 1 1 offered_run = Inr (True, c)"
  using wake_completes[OF reach_registered run_offered] by auto

end
