(* ===== verification/Coalescer.thy ===== *)
theory Coalescer
  imports Complex_Main Delivery_Theorems
begin

text \<open>
  \<open>notify.py\<close>: the coalescer, which decides when a driver is woken.  It keeps no task state: it
  reads the ledger's frontier, lets normal facts gather for one collection window, and hands one
  content-free notification at a time to an actuator.

  The actuator is a parameter.  \<open>poll\<close> runs in three parts that other threads can run between:
  the bookkeeping under the lock up to the claim (\<open>poll_begin\<close>), the durable offer
  (\<open>poll_offer\<close>), and the settlement of the actuator's answer (\<open>poll_settle\<close>); \<open>poll_release\<close>
  is its \<open>finally\<close>.  Times are exact rationals, for the code's floating-point seconds.
\<close>

section \<open>State\<close>

datatype delivery_status = StDelivered | StDeferred | StError

record delivery_result =
  dr_status :: delivery_status
  dr_error :: "string option"

record collection =
  cw_generation :: nat
  cw_deadline :: rat

record coalescer =
  co_driver :: ident
  co_session :: ident
  co_epoch :: nat
  co_window :: rat
  co_collection :: "collection option"
  co_in_flight :: "nat option"
  co_external :: "nat option"
  co_claimed :: bool

definition DEFAULT_COLLECTION_WINDOW :: rat where
  "DEFAULT_COLLECTION_WINDOW = 35 / 100"

definition new_coalescer :: "ident \<Rightarrow> ident \<Rightarrow> nat \<Rightarrow> rat \<Rightarrow> py_error + coalescer" where
  "new_coalescer drv sess ep window =
     (if window < 0 then Inl (ValueError ''collection_window must be non-negative'')
      else Inr \<lparr>co_driver = drv, co_session = sess, co_epoch = ep, co_window = window,
        co_collection = None, co_in_flight = None, co_external = None, co_claimed = False\<rparr>)"

definition deadline :: "coalescer \<Rightarrow> rat option" where
  "deadline c = map_option cw_deadline (co_collection c)"

type_synonym frontier = "nat \<times> priority \<times> bool"

definition co_frontier :: "coalescer \<Rightarrow> store \<Rightarrow> py_error + frontier option" where
  "co_frontier c s = notification_frontier (co_driver c) (co_session c) (co_epoch c) s"

definition co_offer :: "coalescer \<Rightarrow> store \<Rightarrow> notice option op_result" where
  "co_offer c s = offer_notification (co_driver c) (co_session c) (co_epoch c) s"

section \<open>Offers confirmed by a socket adapter\<close>

text \<open>An exception leaves the coalescer as far as it has got; the store's operation rolls back.\<close>

definition offer_pending ::
  "rat \<Rightarrow> coalescer \<Rightarrow> store \<Rightarrow> (py_error + notice option) \<times> coalescer \<times> store" where
  "offer_pending now c s = (case co_frontier c s of
       Inl e \<Rightarrow> (Inl e, c, s)
     | Inr None \<Rightarrow> (Inr None, c\<lparr>co_collection := None, co_external := None\<rparr>, s)
     | Inr (Some (gen, priority, immediate)) \<Rightarrow>
         if co_external c = Some gen then (Inr None, c, s)
         else
           let w = (case co_collection c of
                 None \<Rightarrow> \<lparr>cw_generation = gen, cw_deadline = now + co_window c\<rparr>
               | Some w \<Rightarrow> if gen > cw_generation w then w\<lparr>cw_generation := gen\<rparr> else w);
               c1 = c\<lparr>co_collection := Some w\<rparr>
           in if \<not> immediate \<and> priority \<noteq> Urgent \<and> now < cw_deadline w then (Inr None, c1, s)
              else case co_offer c s of
                  Inl e \<Rightarrow> (Inl e, c1, s)
                | Inr (None, t) \<Rightarrow> (Inr None, c1, t)
                | Inr (Some n, t) \<Rightarrow>
                    if n_generation n \<noteq> gen then (Inr None, c1, t)
                    else (Inr (Some n), c1\<lparr>co_external := Some gen\<rparr>, t))"

section \<open>Polling with an actuator\<close>

text \<open>The collection that a poll at \<open>now\<close> leaves when it sees generation \<open>gen\<close>.\<close>

definition collected :: "rat \<Rightarrow> nat \<Rightarrow> coalescer \<Rightarrow> collection" where
  "collected now gen c = (case co_collection c of
       None \<Rightarrow> \<lparr>cw_generation = gen, cw_deadline = now + co_window c\<rparr>
     | Some w \<Rightarrow>
         if gen > cw_generation w then
           (case co_in_flight c of
              Some g \<Rightarrow>
                if cw_generation w \<le> g \<and> gen > g
                then \<lparr>cw_generation = gen, cw_deadline = now + co_window c\<rparr>
                else w\<lparr>cw_generation := gen\<rparr>
            | None \<Rightarrow> w\<lparr>cw_generation := gen\<rparr>)
         else w)"

text \<open>The claimed generation, or \<open>None\<close> when the poll has nothing to do or must wait.\<close>

definition poll_begin :: "rat \<Rightarrow> frontier option \<Rightarrow> coalescer \<Rightarrow> nat option \<times> coalescer" where
  "poll_begin now front c = (case front of
       None \<Rightarrow> (None, c\<lparr>co_collection := None\<rparr>)
     | Some (gen, priority, immediate) \<Rightarrow>
         let w = collected now gen c; c1 = c\<lparr>co_collection := Some w\<rparr>
         in if \<not> immediate \<and> priority \<noteq> Urgent \<and> now < cw_deadline w then (None, c1)
            else if co_claimed c then (None, c1)
            else (Some gen, c1\<lparr>co_claimed := True, co_in_flight := Some gen\<rparr>))"

definition forget :: "nat \<Rightarrow> coalescer \<Rightarrow> coalescer" where
  "forget gen c = (case co_collection c of
       Some w \<Rightarrow> if cw_generation w \<le> gen then c\<lparr>co_collection := None\<rparr> else c
     | None \<Rightarrow> c)"

definition poll_offer ::
  "nat \<Rightarrow> coalescer \<Rightarrow> store \<Rightarrow> (py_error + notice option) \<times> coalescer \<times> store" where
  "poll_offer gen c s = (case co_offer c s of
       Inl e \<Rightarrow> (Inl e, c, s)
     | Inr (None, t) \<Rightarrow> (Inr None, forget gen c, t)
     | Inr (Some n, t) \<Rightarrow>
         if n_generation n \<noteq> gen then
           (case withdraw_unconfirmed_offer (co_driver c) (co_session c) (co_epoch c) (n_generation n) t of
              Inl e \<Rightarrow> (Inl e, c, t)
            | Inr (_, v) \<Rightarrow> (Inr None, c, v))
         else (Inr (Some n), c, t))"

text \<open>What calling the actuator can come to: an answer, an exception of a class, or nonsense.\<close>

datatype actuator_answer = Answered delivery_result | Raised string | NotAResult

definition result_of :: "actuator_answer \<Rightarrow> delivery_result" where
  "result_of a = (case a of
       Answered r \<Rightarrow> r
     | Raised name \<Rightarrow> \<lparr>dr_status = StError, dr_error = Some name\<rparr>
     | NotAResult \<Rightarrow> \<lparr>dr_status = StError, dr_error = Some ''invalid actuator result''\<rparr>)"

definition ledger_state :: "delivery_status \<Rightarrow> delivery_state" where
  "ledger_state st = (case st of
       StDelivered \<Rightarrow> DDelivered | StDeferred \<Rightarrow> DDeferred | StError \<Rightarrow> DError)"

definition poll_settle ::
  "notice \<Rightarrow> actuator_answer \<Rightarrow> coalescer \<Rightarrow> store
     \<Rightarrow> (py_error + delivery_result) \<times> coalescer \<times> store" where
  "poll_settle n answer c s =
     (let res = result_of answer; gen = n_generation n in
      if dr_status res = StDelivered then
        (case confirm_delivery (co_driver c) (co_session c) (co_epoch c) gen s of
           Inl e \<Rightarrow> (Inl e, c, s)
         | Inr (_, t) \<Rightarrow> (Inr res, forget gen c, t))
      else
        (case record_delivery_outcome (co_driver c) (co_session c) (co_epoch c) gen
               (ledger_state (dr_status res)) (dr_error res) s of
           Inl e \<Rightarrow> (Inl e, c, s)
         | Inr (_, t) \<Rightarrow> (Inr res, c, t)))"

definition poll_release :: "coalescer \<Rightarrow> coalescer" where
  "poll_release c = c\<lparr>co_in_flight := None, co_claimed := False\<rparr>"

text \<open>A poll up to the call of the actuator, and the whole poll, when nothing runs in between.\<close>

definition poll_prepare ::
  "rat \<Rightarrow> coalescer \<Rightarrow> store \<Rightarrow> (py_error + notice option) \<times> coalescer \<times> store" where
  "poll_prepare now c s = (case co_frontier c s of
       Inl e \<Rightarrow> (Inl e, c, s)
     | Inr front \<Rightarrow> (case poll_begin now front c of
           (None, c1) \<Rightarrow> (Inr None, c1, s)
         | (Some gen, c1) \<Rightarrow> (case poll_offer gen c1 s of
               (Inr (Some n), c2, t) \<Rightarrow> (Inr (Some n), c2, t)
             | (r, c2, t) \<Rightarrow> (r, poll_release c2, t))))"

definition poll ::
  "rat \<Rightarrow> (notice \<Rightarrow> actuator_answer) \<Rightarrow> coalescer \<Rightarrow> store
     \<Rightarrow> (py_error + delivery_result option) \<times> coalescer \<times> store" where
  "poll now actuator c s = (case poll_prepare now c s of
       (Inl e, c1, t) \<Rightarrow> (Inl e, c1, t)
     | (Inr None, c1, t) \<Rightarrow> (Inr None, c1, t)
     | (Inr (Some n), c1, t) \<Rightarrow> (case poll_settle n (actuator n) c1 t of
           (Inl e, c2, v) \<Rightarrow> (Inl e, poll_release c2, v)
         | (Inr res, c2, v) \<Rightarrow> (Inr (Some res), poll_release c2, v)))"

section \<open>One delivery at a time\<close>

text \<open>
  Many threads may poll one coalescer.  A poller that holds the claim is either about to offer or
  waiting for its actuator; the ledger may change at any moment, and a frontier may be out of date
  by the time the lock is taken.
\<close>

datatype poller = Offering nat | Delivering notice

inductive poll_step :: "coalescer \<times> store \<times> poller list \<Rightarrow> coalescer \<times> store \<times> poller list \<Rightarrow> bool" where
  begins: "poll_begin now front c = (Some gen, d) \<Longrightarrow> poll_step (c, s, ps) (d, s, Offering gen # ps)"
| waits: "poll_begin now front c = (None, d) \<Longrightarrow> poll_step (c, s, ps) (d, s, ps)"
| offers: "poll_offer gen c s = (Inr (Some n), d, t)
    \<Longrightarrow> poll_step (c, s, ps @ Offering gen # qs) (d, t, ps @ Delivering n # qs)"
| gives_up: "poll_offer gen c s = (r, d, t) \<Longrightarrow> r \<in> {Inr None} \<union> range Inl
    \<Longrightarrow> poll_step (c, s, ps @ Offering gen # qs) (poll_release d, t, ps @ qs)"
| settles: "poll_settle n answer c s = (r, d, t)
    \<Longrightarrow> poll_step (c, s, ps @ Delivering n # qs) (poll_release d, t, ps @ qs)"
| external: "offer_pending now c s = (r, d, t) \<Longrightarrow> poll_step (c, s, ps) (d, t, ps)"
| ledger: "delivery_step s t \<Longrightarrow> poll_step (c, s, ps) (c, t, ps)"

definition claim_held :: "coalescer \<times> store \<times> poller list \<Rightarrow> bool" where
  "claim_held = (\<lambda>(c, s, ps). length ps = (if co_claimed c then 1 else 0))"

lemma forget_claim [simp]: "co_claimed (forget gen c) = co_claimed c"
  by (simp add: forget_def split: option.splits)

lemma claim_frame:
  "poll_offer gen c s = (r, d, t) \<Longrightarrow> co_claimed d = co_claimed c"
  "poll_settle n answer c s = (q, d, t) \<Longrightarrow> co_claimed d = co_claimed c"
  "offer_pending now c s = (r, d, t) \<Longrightarrow> co_claimed d = co_claimed c"
  by (auto simp: poll_offer_def poll_settle_def offer_pending_def Let_def
      split: sum.splits option.splits prod.splits if_splits)

lemma poll_step_claim: "poll_step x y \<Longrightarrow> claim_held x \<Longrightarrow> claim_held y"
proof (induction rule: poll_step.induct)
  case (begins now front c gen d s ps)
  then show ?case
    by (auto simp: claim_held_def poll_begin_def Let_def split: option.splits if_splits)
next
  case (waits now front c d s ps)
  then have "co_claimed d = co_claimed c"
    by (auto simp: poll_begin_def Let_def split: option.splits if_splits)
  with waits show ?case by (simp add: claim_held_def)
next
  case (offers gen c s n d t ps qs)
  with claim_frame(1)[OF offers(1)] show ?case by (simp add: claim_held_def)
next
  case (gives_up gen c s r d t ps qs)
  then show ?case by (simp add: claim_held_def poll_release_def split: if_splits)
next
  case (settles n answer c s r d t ps qs)
  then show ?case by (simp add: claim_held_def poll_release_def split: if_splits)
next
  case (external now c s r d t ps)
  with claim_frame(3)[OF external(1)] show ?case by (simp add: claim_held_def)
next
  case (ledger s t c ps)
  then show ?case by (simp add: claim_held_def)
qed

interpretation claim: preserved poll_step claim_held
  by unfold_locales (rule poll_step_claim)

section \<open>What a poll offers\<close>

lemma first_generation_mem: "first_generation os = Some g \<Longrightarrow> \<exists>p \<in> set os. o_generation p = g"
  unfolding first_generation_def
  by (metis (no_types, lifting) List.finite_set Min_in empty_is_image finite_imageI imageE option.distinct(1)
      option.inject set_empty)

lemma co_offer_due:
  assumes wf: "ledger_wf s" and front: "co_frontier c s = Inr (Some (gen, prio, imm))"
  obtains r d t where "map_of (registrations s) (co_driver c) = Some r" "r_session r = co_session c"
    "r_epoch r = co_epoch c" "map_of (deliveries s) (co_driver c) = Some d"
    "co_offer c s = Inr (Some (notice_of (d_acked d) gen s), t)" "ledger_wf t"
    "t = s\<lparr>delivery_offers := delivery_offers t\<rparr>"
    "first_generation (open_offers (co_driver c) (co_epoch c) (co_session c) (d_acked d) t) = Some gen"
proof -
  from front have "require_registration (co_driver c) (co_session c) (co_epoch c) s = Inr ()"
    by (auto simp: co_frontier_def notification_frontier_def and_then_eq_Inr)
  with wf obtain r d where r: "map_of (registrations s) (co_driver c) = Some r"
    "r_session r = co_session c" "r_epoch r = co_epoch c"
    and d: "map_of (deliveries s) (co_driver c) = Some d" by (rule registered_entry)
  from frontier_due[OF r(1) d] front r have due: "due (co_driver c) r d s = Some gen"
    by (auto simp: co_frontier_def split: option.splits)
  from offer_notification_due[OF wf r(1) d] due r obtain t where
    "co_offer c s = Inr (Some (notice_of (d_acked d) gen s), t)" "ledger_wf t"
    "t = s\<lparr>delivery_offers := delivery_offers t\<rparr>"
    "first_generation (open_offers (co_driver c) (co_epoch c) (co_session c) (d_acked d) t) = Some gen"
    by (fastforce simp: co_offer_def)
  with r d that show ?thesis by blast
qed

text \<open>A poller alone: nobody holds the claim.\<close>

definition idle :: "coalescer \<Rightarrow> bool" where
  "idle c \<longleftrightarrow> \<not> co_claimed c \<and> co_in_flight c = None"

definition eligible :: "rat \<Rightarrow> frontier \<Rightarrow> coalescer \<Rightarrow> bool" where
  "eligible now front c = (case front of (gen, prio, imm) \<Rightarrow>
     imm \<or> prio = Urgent \<or> cw_deadline (collected now gen c) \<le> now)"

definition holding :: "rat \<Rightarrow> nat \<Rightarrow> coalescer \<Rightarrow> coalescer" where
  "holding now gen c = c\<lparr>co_collection := Some (collected now gen c), co_claimed := True, co_in_flight := Some gen\<rparr>"

lemma poll_prepare_due:
  assumes wf: "ledger_wf s" and front: "co_frontier c s = Inr (Some (gen, prio, imm))" and "idle c"
  shows "if eligible now (gen, prio, imm) c
    then \<exists>d t. map_of (deliveries s) (co_driver c) = Some d
      \<and> poll_prepare now c s = (Inr (Some (notice_of (d_acked d) gen s)), holding now gen c, t)
      \<and> co_offer c s = Inr (Some (notice_of (d_acked d) gen s), t)
    else poll_prepare now c s = (Inr None, c\<lparr>co_collection := Some (collected now gen c)\<rparr>, s)"
proof -
  from wf front obtain r d t where d: "map_of (deliveries s) (co_driver c) = Some d"
    and t: "co_offer c s = Inr (Some (notice_of (d_acked d) gen s), t)" by (rule co_offer_due)
  have "poll_begin now (Some (gen, prio, imm)) c = (if eligible now (gen, prio, imm) c
      then (Some gen, holding now gen c) else (None, c\<lparr>co_collection := Some (collected now gen c)\<rparr>))"
    using assms(3) by (auto simp: poll_begin_def eligible_def holding_def idle_def Let_def)
  moreover have "co_offer (holding now gen c) s = co_offer c s" by (simp add: co_offer_def holding_def)
  ultimately show ?thesis
    using front d t by (simp add: poll_prepare_def poll_offer_def notice_of_def)
qed

lemma poll_prepare_idle:
  assumes "ledger_wf s" and "idle c" and "poll_prepare now c s = (Inr (Some n), c', t)"
  obtains gen prio imm d where "co_frontier c s = Inr (Some (gen, prio, imm))" "eligible now (gen, prio, imm) c"
    "map_of (deliveries s) (co_driver c) = Some d" "n = notice_of (d_acked d) gen s"
    "c' = holding now gen c" "co_offer c s = Inr (Some n, t)"
proof -
  from assms(3) obtain gen prio imm where front: "co_frontier c s = Inr (Some (gen, prio, imm))"
    by (cases "co_frontier c s") (auto simp: poll_prepare_def poll_begin_def split: option.splits)
  from poll_prepare_due[OF assms(1) front assms(2), of now] assms(3) that front show ?thesis
    by (auto split: if_splits)
qed

section \<open>Settling a poll\<close>

lemma offered_row:
  assumes wf: "ledger_wf s" and front: "co_frontier c s = Inr (Some (gen, prio, imm))"
  obtains r d t p where "map_of (registrations t) (co_driver c) = Some r" "r_session r = co_session c"
    "r_epoch r = co_epoch c" "map_of (deliveries s) (co_driver c) = Some d"
    "co_offer c s = Inr (Some (notice_of (d_acked d) gen s), t)" "ledger_wf t"
    "t = s\<lparr>delivery_offers := delivery_offers t\<rparr>"
    "first_generation (open_offers (co_driver c) (co_epoch c) (co_session c) (d_acked d) t) = Some gen"
    "p \<in> offers_of (co_driver c) t" "o_epoch p = r_epoch r" "\<not> o_confirmed p" "o_generation p = gen"
proof -
  from wf front obtain r d t where r: "map_of (registrations s) (co_driver c) = Some r"
    "r_session r = co_session c" "r_epoch r = co_epoch c" "map_of (deliveries s) (co_driver c) = Some d"
    and t: "co_offer c s = Inr (Some (notice_of (d_acked d) gen s), t)" "ledger_wf t"
    "t = s\<lparr>delivery_offers := delivery_offers t\<rparr>"
    "first_generation (open_offers (co_driver c) (co_epoch c) (co_session c) (d_acked d) t) = Some gen"
    by (rule co_offer_due)
  from t(3) r(1) have rt: "map_of (registrations t) (co_driver c) = Some r" by (metis store.select_convs(6) store.surjective store.update_convs(8))
  from first_generation_mem[OF t(4)] obtain p where p: "p \<in> offers_of (co_driver c) t"
    "o_epoch p = r_epoch r" "\<not> o_confirmed p" "o_generation p = gen"
    using r(3) by (auto simp: open_offers_def offers_of_def)
  show ?thesis by (rule that[OF rt r(2-4) t p])
qed

definition answered :: "delivery_status \<Rightarrow> string option \<Rightarrow> delivery_result" where
  "answered st err = \<lparr>dr_status = st, dr_error = err\<rparr>"

lemma forget_idle [simp]: "idle (poll_release (forget gen c))"
  by (simp add: idle_def poll_release_def)

lemma poll_delivers:
  assumes wf: "ledger_wf s" and front: "co_frontier c s = Inr (Some (gen, prio, imm))" and idle: "idle c"
    and el: "eligible now (gen, prio, imm) c"
  shows "\<exists>d t. poll now (\<lambda>_. Answered (answered StDelivered err)) c s
      = (Inr (Some (answered StDelivered err)), poll_release (forget gen (holding now gen c)), t)
    \<and> map_of (deliveries t) (co_driver c) = Some d \<and> d_delivered d = gen"
proof -
  from wf front obtain r d t p where r: "map_of (registrations t) (co_driver c) = Some r"
    "r_session r = co_session c" "r_epoch r = co_epoch c" and d: "map_of (deliveries s) (co_driver c) = Some d"
    and t: "co_offer c s = Inr (Some (notice_of (d_acked d) gen s), t)" "ledger_wf t"
    "t = s\<lparr>delivery_offers := delivery_offers t\<rparr>"
    and p: "p \<in> offers_of (co_driver c) t" "o_epoch p = r_epoch r" "\<not> o_confirmed p" "o_generation p = gen"
    by (rule offered_row)
  from t(3) d have dt: "map_of (deliveries t) (co_driver c) = Some d"
    by (metis store.select_convs(7) store.surjective store.update_convs(8))
  from confirm_delivery_run[OF t(2) r(1) dt p(1-3)] obtain v where
    v: "confirm_delivery (co_driver c) (co_session c) (co_epoch c) gen t = Inr (True, v)"
    and dv: "map_of (deliveries v) (co_driver c) = Some (d\<lparr>d_delivered := gen, d_state := DDelivered, d_error := None\<rparr>)"
    using r p(4) by auto
  have "poll now (\<lambda>_. Answered (answered StDelivered err)) c s
      = (Inr (Some (answered StDelivered err)), poll_release (forget gen (holding now gen c)), v)"
    using poll_prepare_due[OF wf front idle, of now] el d t(1) v
    by (auto simp: poll_def poll_settle_def answered_def result_of_def notice_of_def holding_def Let_def)
  with dv show ?thesis by auto
qed

section \<open>Waiting\<close>

inductive watch_step :: "coalescer \<times> store \<Rightarrow> coalescer \<times> store \<Rightarrow> bool" where
  ledger: "delivery_step s t \<Longrightarrow> watch_step (c, s) (c, t)"
| waiting: "co_frontier c s = Inr (Some front) \<Longrightarrow> poll now actuator c s = (Inr None, d, t)
    \<Longrightarrow> watch_step (c, s) (d, t)"

definition watching :: "ident \<Rightarrow> rat \<Rightarrow> coalescer \<times> store \<Rightarrow> bool" where
  "watching drv dl = (\<lambda>(c, s). idle c \<and> ledger_wf s \<and> co_driver c = drv
     \<and> (\<exists>w. co_collection c = Some w \<and> cw_deadline w = dl))"

lemma poll_waits:
  assumes wf: "ledger_wf s" and front: "co_frontier c s = Inr (Some (gen, prio, imm))" and idle: "idle c"
    and run: "poll now actuator c s = (Inr None, d, t)"
  shows "d = c\<lparr>co_collection := Some (collected now gen c)\<rparr> \<and> t = s"
  using poll_prepare_due[OF wf front idle, of now] run
  by (auto simp: poll_def poll_settle_def Let_def split: if_splits sum.splits prod.splits)

lemma collected_deadline:
  "idle c \<Longrightarrow> co_collection c = Some w \<Longrightarrow> cw_deadline (collected now gen c) = cw_deadline w"
  "co_collection c = None \<Longrightarrow> cw_deadline (collected now gen c) = now + co_window c"
  by (simp_all add: collected_def idle_def)

lemma watch_step_watching:
  assumes "watching drv dl x" and "watch_step x y"
  shows "watching drv dl y"
  using assms(2,1)
proof (cases rule: watch_step.cases)
  case (ledger s t c)
  with assms(1) show ?thesis by (auto simp: watching_def intro: delivery_step_wf)
next
  case (waiting c s front now actuator d t)
  obtain gen prio imm where "front = (gen, prio, imm)" by (cases front)
  with waiting assms(1) poll_waits[of s c gen prio imm now actuator d t] show ?thesis
    by (auto simp: watching_def collected_deadline(1)) (simp_all add: idle_def)
qed

interpretation watching: preserved watch_step "watching drv dl" for drv dl
  by unfold_locales (rule watch_step_watching)

text \<open>
  C14: a normal wake waits at most one collection window.  A poll that finds something due while
  nothing was being collected opens the window.  Whatever happens to the ledger after that, and
  however often the coalescer is polled in vain, arrivals never push the deadline back: any poll one
  window later that still finds something due hands it to the actuator, and when that reports
  success the delivered cursor of the driver is exactly the generation found.
\<close>

theorem normal_wake_within_window:
  assumes "delivery_step\<^sup>*\<^sup>* empty_store s0" and "idle c0" and "co_collection c0 = None"
    and "co_frontier c0 s0 = Inr (Some (gen0, prio0, imm0))" and "poll t0 act0 c0 s0 = (Inr None, c1, s1)"
    and "watch_step\<^sup>*\<^sup>* (c1, s1) (c2, s2)" and "co_frontier c2 s2 = Inr (Some (gen, prio, imm))"
    and "t0 + co_window c0 \<le> now"
  shows "\<exists>c3 s3 d. poll now (\<lambda>_. Answered (answered StDelivered err)) c2 s2
      = (Inr (Some (answered StDelivered err)), c3, s3)
    \<and> map_of (deliveries s3) (co_driver c0) = Some d \<and> d_delivered d = gen \<and> idle c3"
proof -
  have wf: "ledger_wf s0" using assms(1) by (rule reachable_ledger)
  from poll_waits[OF wf assms(4,2,5)] have
    c1: "c1 = c0\<lparr>co_collection := Some (collected t0 gen0 c0)\<rparr>" and s1: "s1 = s0" by blast+
  then have "watching (co_driver c0) (t0 + co_window c0) (c1, s1)"
    using wf assms(2) collected_deadline(2)[OF assms(3)] by (auto simp: watching_def idle_def)
  with assms(6) have "watching (co_driver c0) (t0 + co_window c0) (c2, s2)" by (rule watching.run_inv)
  then obtain w where w: "idle c2" "ledger_wf s2" "co_driver c2 = co_driver c0" "co_collection c2 = Some w"
    "cw_deadline w = t0 + co_window c0" by (auto simp: watching_def)
  then have "eligible now (gen, prio, imm) c2"
    using assms(8) collected_deadline(1)[OF w(1,4)] by (simp add: eligible_def)
  from poll_delivers[OF w(2) assms(7) w(1) this, of err] w(3) show ?thesis by auto
qed

section \<open>Retrying\<close>

inductive new_generation :: "store \<Rightarrow> store \<Rightarrow> bool" where
  "bump_actionable change s = Inr (gen, t) \<Longrightarrow> new_generation s t"

text \<open>An unconfirmed offer of the current connection that stands for the notification \<open>n\<close>.\<close>

definition parked :: "ident \<Rightarrow> registration \<Rightarrow> nat \<Rightarrow> notice \<Rightarrow> store \<Rightarrow> bool" where
  "parked drv r a n s \<longleftrightarrow> ledger_wf s \<and> map_of (registrations s) drv = Some r
     \<and> map_option d_acked (map_of (deliveries s) drv) = Some a
     \<and> first_generation (open_offers drv (r_epoch r) (r_session r) a s) = Some (n_generation n)
     \<and> n = notice_of a (n_generation n) s"

lemma notice_of_later:
  assumes "pending_generations t = pending_generations s @ ps" "generation_tasks t = generation_tasks s @ ts"
    and "\<forall>(g, _) \<in> set ps. gen < g" "\<forall>(g, _) \<in> set ts. gen < g"
  shows "notice_of a gen t = notice_of a gen s"
proof -
  have "tasks_between a gen t = tasks_between a gen s"
    using assms(2,4) by (fastforce simp: tasks_between_def filter_empty_conv)
  moreover have "range_priority a gen t = range_priority a gen s"
    using assms(1,3) by (fastforce simp: range_priority_def)
  ultimately show ?thesis by (simp add: notice_of_def)
qed

lemma parked_new_generation:
  assumes old: "parked drv r a n s" and step: "new_generation s t"
  shows "parked drv r a n t"
proof -
  from step obtain c gen' where run: "bump_actionable c s = Inr (gen', t)" by (auto simp: new_generation.simps)
  from old have wf: "ledger_wf s" by (simp add: parked_def)
  then have t: "t = bumped c s" using run by (auto simp: bump_actionable_eq split: if_splits)
  from old obtain d where r: "map_of (registrations s) drv = Some r" and d: "map_of (deliveries s) drv = Some d"
    and first: "first_generation (open_offers drv (r_epoch r) (r_session r) a s) = Some (n_generation n)"
    by (auto simp: parked_def)
  from wf r d have ok: "driver_ok (latest_generation s) r d (offers_of drv s)"
    by (metis entry_okD' ledger_wf_def option.inject)
  from first_generation_mem[OF first] obtain p where "p \<in> offers_of drv s" "o_generation p = n_generation n"
    by (auto simp: open_offers_def offers_of_def)
  with ok have "n_generation n \<le> latest_generation s" by (auto simp: driver_ok_def offer_ok_def)
  then have "notice_of a (n_generation n) t = notice_of a (n_generation n) s"
    by (intro notice_of_later[where ps = "[(latest_generation s + 1, ac_priority c)]"
          and ts = "[(latest_generation s + 1, ac_task c, ac_reason c)]"])
       (simp_all add: t bumped_def Let_def)
  moreover have "ledger_wf t" by (rule bump_actionable_wf[OF wf run])
  moreover have "open_offers drv (r_epoch r) (r_session r) a t = open_offers drv (r_epoch r) (r_session r) a s"
    by (simp add: open_offers_def t bumped_def Let_def)
  ultimately show ?thesis
    using old by (auto simp: parked_def t bumped_def Let_def map_of_update_all)
qed

interpretation parked: preserved new_generation "parked drv r a n" for drv r a n
  by unfold_locales (rule parked_new_generation)

lemma parked_prepare:
  assumes "parked (co_driver c) r a n s" and "r_session r = co_session c" "r_epoch r = co_epoch c" and "idle c"
  shows "\<exists>c' t. poll_prepare now c s = (Inr (Some n), c', t)"
proof -
  from assms(1) obtain d where wf: "ledger_wf s" and r: "map_of (registrations s) (co_driver c) = Some r"
    and d: "map_of (deliveries s) (co_driver c) = Some d" "d_acked d = a"
    and first: "first_generation (open_offers (co_driver c) (r_epoch r) (r_session r) a s) = Some (n_generation n)"
    and n: "n = notice_of a (n_generation n) s"
    by (auto simp: parked_def)
  from first have "open_offers (co_driver c) (r_epoch r) (r_session r) a s \<noteq> []" by (auto simp: first_generation_def)
  with first d frontier_due[OF r d(1)] have
    front: "co_frontier c s = Inr (Some (n_generation n, range_priority a (n_generation n) s, True))"
    using assms(2,3) by (simp add: co_frontier_def due_def)
  have "eligible now (n_generation n, range_priority a (n_generation n) s, True) c" by (simp add: eligible_def)
  with poll_prepare_due[OF wf front assms(4), of now] d n show ?thesis by auto
qed

text \<open>
  An unsuccessful wake is retried unchanged.  When the actuator does not report success (it
  defers, fails, raises, or answers nonsense), the outcome is recorded, the delivered cursor stays
  where it is, and the offer stays open: however many generations the daemon adds in the meantime,
  the coalescer's next poll, at any time, hands the actuator the identical notification.
\<close>

theorem failed_wake_is_retried:
  assumes "delivery_step\<^sup>*\<^sup>* empty_store s" and "idle c"
    and "poll_prepare now c s = (Inr (Some n), c1, s1)"
    and "dr_status (result_of answer) \<noteq> StDelivered"
    and "poll_settle n answer c1 s1 = (res, c2, s2)" and "new_generation\<^sup>*\<^sup>* s2 s3"
  shows "res = Inr (result_of answer)
    \<and> map_option d_delivered (map_of (deliveries s2) (co_driver c)) = map_option d_delivered (map_of (deliveries s) (co_driver c))
    \<and> (\<exists>c3 s4. poll_prepare now' (poll_release c2) s3 = (Inr (Some n), c3, s4))"
proof -
  have wf: "ledger_wf s" using assms(1) by (rule reachable_ledger)
  from wf assms(2,3) obtain gen prio imm d where front: "co_frontier c s = Inr (Some (gen, prio, imm))"
    and d: "map_of (deliveries s) (co_driver c) = Some d" and n: "n = notice_of (d_acked d) gen s"
    and c1: "c1 = holding now gen c" and offer: "co_offer c s = Inr (Some n, s1)"
    by (rule poll_prepare_idle)
  from wf front obtain r d' t p where r: "map_of (registrations t) (co_driver c) = Some r"
    "r_session r = co_session c" "r_epoch r = co_epoch c"
    and d': "map_of (deliveries s) (co_driver c) = Some d'"
    and t: "co_offer c s = Inr (Some (notice_of (d_acked d') gen s), t)" "ledger_wf t"
    "t = s\<lparr>delivery_offers := delivery_offers t\<rparr>"
    "first_generation (open_offers (co_driver c) (co_epoch c) (co_session c) (d_acked d') t) = Some gen"
    and p: "p \<in> offers_of (co_driver c) t" "o_epoch p = r_epoch r" "\<not> o_confirmed p" "o_generation p = gen"
    by (rule offered_row)
  from d d' t(1) offer have same: "d' = d" "t = s1" by simp_all
  have deliveries: "deliveries s1 = deliveries s"
    using t(3) same(2) by (metis store.select_convs(7) store.surjective store.update_convs(8))
  have n_gen: "n_generation n = gen" "notice_of (d_acked d) gen s1 = n"
    using t(3) n same(2) by (simp add: notice_of_def, metis notice_of_offers)
  let ?st = "ledger_state (dr_status (result_of answer))"
  define v where "v = s1\<lparr>deliveries := update_key (co_driver c)
      (\<lambda>d. d\<lparr>d_state := ?st, d_error := clip_error (dr_error (result_of answer))\<rparr>) (deliveries s1)\<rparr>"
  have st: "?st \<in> {DDeferred, DError}" using assms(4) by (cases "dr_status (result_of answer)") (simp_all add: ledger_state_def)
  have "has_offer (co_driver c) (co_epoch c) (co_session c) gen False s1"
    using p r same(2) has_offer_current[of s1 "co_driver c" r gen False] t(2)
    by (auto simp: ledger_wf_def)
  moreover have "require_registration (co_driver c) (co_session c) (co_epoch c) s1 = Inr ()"
    using r same(2) by (simp add: require_registration_Inr)
  ultimately have out: "record_delivery_outcome (co_driver c) (co_session c) (co_epoch c) gen ?st
      (dr_error (result_of answer)) s1 = Inr ((), v)"
    using st by (simp add: record_delivery_outcome_def v_def)
  have "co_driver c1 = co_driver c" "co_session c1 = co_session c" "co_epoch c1 = co_epoch c"
    by (simp_all add: c1 holding_def)
  with assms(4,5) out n_gen(1) have settled: "res = Inr (result_of answer)" "c2 = c1" "s2 = v"
    by (auto simp: poll_settle_def Let_def)
  have "open_offers (co_driver c) e x a v = open_offers (co_driver c) e x a s1" for e x a
    by (simp add: v_def open_offers_def)
  moreover have "notice_of (d_acked d) gen v = n"
    using n_gen(2) by (simp add: v_def notice_of_def range_priority_def tasks_between_def)
  ultimately have "parked (co_driver c) r (d_acked d) n v"
    using record_delivery_outcome_wf[OF t(2)[unfolded same(2)] out] r t(4) d same n_gen(1) deliveries
    by (auto simp: parked_def v_def map_of_update_key)
  then have "parked (co_driver c) r (d_acked d) n s3"
    using assms(6) settled(3) parked.run_inv by blast
  moreover have "idle (poll_release c2)" "co_driver (poll_release c2) = co_driver c"
    "co_session (poll_release c2) = co_session c" "co_epoch (poll_release c2) = co_epoch c"
    by (simp_all add: idle_def poll_release_def settled(2) c1 holding_def)
  ultimately have "\<exists>c3 s4. poll_prepare now' (poll_release c2) s3 = (Inr (Some n), c3, s4)"
    using parked_prepare[of "poll_release c2" r "d_acked d" n s3 now'] r by simp
  then show ?thesis using settled(1,3) deliveries by (simp add: v_def map_of_update_key option.map_comp comp_def)
qed

text \<open>
  The actuator is never called twice at a time.  However many threads poll one coalescer, in
  whatever interleaving with each other, with socket polls and with changes of the ledger, at most
  one of them is between its claim and its settlement, and the claim flag is set exactly then.
\<close>

theorem one_delivery_at_a_time:
  assumes "new_coalescer drv sess ep window = Inr c" and "poll_step\<^sup>*\<^sup>* (c, s, []) (d, t, pollers)"
  shows "length pollers \<le> 1 \<and> (co_claimed d \<longleftrightarrow> pollers \<noteq> [])"
proof -
  have "claim_held (c, s, [])"
    using assms(1) by (auto simp: new_coalescer_def claim_held_def split: if_splits)
  with assms(2) have "claim_held (d, t, pollers)" by (rule claim.run_inv)
  then show ?thesis by (auto simp: claim_held_def split: if_splits)
qed

section \<open>The properties on a concrete run\<close>

definition sample_coalescer :: "collection option \<Rightarrow> coalescer" where
  "sample_coalescer w = \<lparr>co_driver = ''drv'', co_session = ''wt'', co_epoch = 1,
     co_window = DEFAULT_COLLECTION_WINDOW, co_collection = w, co_in_flight = None, co_external = None,
     co_claimed = False\<rparr>"

lemma sample_frontier: "co_frontier (sample_coalescer w) registered_run = Inr (Some (1, Normal, False))"
  by (simp add: co_frontier_def sample_coalescer_def notification_frontier_def registered_run_def
      one_change_def run_defs)

lemma sample_idle: "idle (sample_coalescer w)"
  by (simp add: idle_def sample_coalescer_def)

lemma sample_poll: "poll 0 (\<lambda>_. NotAResult) (sample_coalescer None) registered_run
  = (Inr None, sample_coalescer (Some \<lparr>cw_generation = 1, cw_deadline = 35 / 100\<rparr>), registered_run)"
  unfolding poll_def poll_prepare_def sample_frontier
  by (simp add: poll_begin_def collected_def sample_coalescer_def DEFAULT_COLLECTION_WINDOW_def Let_def)

lemma normal_wake_within_window_witness:
  "\<exists>c1 s1 c3 s3 d. poll 0 (\<lambda>_. NotAResult) (sample_coalescer None) registered_run = (Inr None, c1, s1)
     \<and> poll (35 / 100) (\<lambda>_. Answered (answered StDelivered None)) c1 s1
         = (Inr (Some (answered StDelivered None)), c3, s3)
     \<and> map_of (deliveries s3) ''drv'' = Some d \<and> d_delivered d = 1"
proof -
  have "co_collection (sample_coalescer None) = None" "co_driver (sample_coalescer None) = ''drv''"
    "0 + co_window (sample_coalescer None) \<le> 35 / 100"
    by (simp_all add: sample_coalescer_def DEFAULT_COLLECTION_WINDOW_def)
  with normal_wake_within_window[OF reach_registered sample_idle this(1) sample_frontier sample_poll
      rtranclp.rtrancl_refl sample_frontier this(3), of None] sample_poll
  show ?thesis by fastforce
qed

definition due_coalescer :: coalescer where
  "due_coalescer = sample_coalescer (Some \<lparr>cw_generation = 1, cw_deadline = 0\<rparr>)"

definition retry_run :: "coalescer \<times> store" where
  "retry_run = snd (poll_settle \<lparr>n_generation = 1, n_priority = Normal, n_task_count = 1\<rparr> (Raised ''TimeoutError'')
     (holding 1 1 due_coalescer) offered_run)"

lemma retry_prepare: "poll_prepare 1 due_coalescer registered_run
  = (Inr (Some \<lparr>n_generation = 1, n_priority = Normal, n_task_count = 1\<rparr>), holding 1 1 due_coalescer, offered_run)"
  unfolding poll_prepare_def due_coalescer_def sample_frontier
  using run_offered
  by (simp add: poll_begin_def collected_def holding_def poll_offer_def co_offer_def sample_coalescer_def Let_def)

lemma retry_settled: "poll_settle \<lparr>n_generation = 1, n_priority = Normal, n_task_count = 1\<rparr>
    (Raised ''TimeoutError'') (holding 1 1 due_coalescer) offered_run
  = (Inr (answered StError (Some ''TimeoutError'')), fst retry_run, snd retry_run)"
  by (simp add: retry_run_def poll_settle_def result_of_def answered_def record_delivery_outcome_def
      holding_def due_coalescer_def sample_coalescer_def ledger_state_def require_registration_def
      has_offer_def offered_run_def registered_run_def one_change_def run_defs)

lemma failed_wake_is_retried_witness:
  "\<exists>g s3 c3 s4. bump_actionable t1_missing (snd retry_run) = Inr (g, s3)
     \<and> poll_prepare 2 (poll_release (fst retry_run)) s3
       = (Inr (Some \<lparr>n_generation = 1, n_priority = Normal, n_task_count = 1\<rparr>), c3, s4)"
proof -
  have "idle due_coalescer" by (simp add: due_coalescer_def sample_idle)
  moreover obtain g s3 where b: "bump_actionable t1_missing (snd retry_run) = Inr (g, s3)"
    by (simp add: retry_run_def poll_settle_def result_of_def record_delivery_outcome_def
      holding_def due_coalescer_def sample_coalescer_def ledger_state_def require_registration_def
      has_offer_def offered_run_def registered_run_def one_change_def run_defs)
  moreover have "dr_status (result_of (Raised ''TimeoutError'')) \<noteq> StDelivered" by (simp add: result_of_def)
  ultimately have "\<exists>c3 s4. poll_prepare 2 (poll_release (fst retry_run)) s3
       = (Inr (Some \<lparr>n_generation = 1, n_priority = Normal, n_task_count = 1\<rparr>), c3, s4)"
    using failed_wake_is_retried[OF reach_registered _ retry_prepare _ retry_settled
        r_into_rtranclp[where r = new_generation, OF new_generation.intros[OF b]], of 2] by blast
  with b show ?thesis by blast
qed

lemma one_delivery_at_a_time_witness:
  "\<exists>d. poll_step\<^sup>*\<^sup>* (sample_coalescer None, registered_run, []) (d, registered_run, [Offering 1])
     \<and> co_claimed d \<and> length [Offering 1] \<le> 1"
proof -
  have new: "new_coalescer ''drv'' ''wt'' 1 DEFAULT_COLLECTION_WINDOW = Inr (sample_coalescer None)"
    by (simp add: new_coalescer_def sample_coalescer_def DEFAULT_COLLECTION_WINDOW_def)
  have "poll_begin 0 (Some (1, Urgent, False)) (sample_coalescer None)
      = (Some 1, holding 0 1 (sample_coalescer None))"
    by (simp add: poll_begin_def collected_def holding_def sample_coalescer_def Let_def)
  then have "poll_step\<^sup>*\<^sup>* (sample_coalescer None, registered_run, [])
      (holding 0 1 (sample_coalescer None), registered_run, [Offering 1])"
    by (intro r_into_rtranclp poll_step.begins)
  with one_delivery_at_a_time[OF new this] show ?thesis by blast
qed

end
