(* ===== verification/Store_Events.thy ===== *)
theory Store_Events
  imports Store_Delivery
begin

text \<open>
  The event side of \<open>store.py\<close>: accepting an event once, reducing it into its session and its
  task's projection, reading the task's handoff, turning a changed projection into a new
  generation, replaying the log, and applying host liveness.

  The task files are an environment: one operation reads them once, and what it reads is an
  argument.  \<open>accept_event\<close> is modelled with its default hooks, the ones the daemon uses.
\<close>

section \<open>The report of a task\<close>

text \<open>What \<open>parse_task_report\<close> finds on disk; \<open>Unreadable\<close> is any exception of reading or decoding.\<close>

datatype handoff_file = NoFile | Unreadable | Content ucs

record task_files =
  tf_folder :: bool
  tf_handoff :: handoff_file
  tf_ack_v2 :: "ack_cursor option"
  tf_ack_legacy :: "ack_cursor option"

type_synonym tasks_dir = "ident \<Rightarrow> task_files"

definition parse_task_report :: "task_files \<Rightarrow> py_error + handoff_report" where
  "parse_task_report tf = (case tf_handoff tf of
       Unreadable \<Rightarrow> Inl (RuntimeError ''cannot read handoff.md'')
     | NoFile \<Rightarrow> parse_text [] (tf_ack_v2 tf) (tf_ack_legacy tf)
     | Content text \<Rightarrow> parse_text text (tf_ack_v2 tf) (tf_ack_legacy tf))"

definition verdict_of :: "ucs \<Rightarrow> verdict" where
  "verdict_of w =
     (if w = u ''done'' then VDone
      else if w = u ''waiting'' then VWaiting
      else if w = u ''needs-action'' then VNeedsAction
      else if w = u ''failed'' then VFailed
      else if w = u ''blocked'' then VBlocked
      else VOther w)"

text \<open>The verdict of the newest block, in any state of the report.\<close>

definition latest_verdict :: "block option \<Rightarrow> verdict option" where
  "latest_verdict latest = (case latest of
       None \<Rightarrow> None
     | Some b \<Rightarrow> let w = casefold (get_field (blk_fields b) ''verdict'')
                 in if w = [] then None else Some (verdict_of w))"

definition open_verdict :: "open_item \<Rightarrow> verdict" where
  "open_verdict item =
     (let w = casefold (oi_verdict item) in if w \<in> OPEN_VERDICTS then verdict_of w else VNeedsAction)"

definition unreadable_report :: report_summary where
  "unreadable_report = \<lparr>rs_state = Malformed, rs_verdict = None, rs_latest_verdict = None,
     rs_blocks = 0, rs_acked_through = 0, rs_acked_source = AckNone, rs_unresolved = 0,
     rs_open_items = [], rs_protocol_errors = [UnreadableHandoff], rs_external_action = False,
     rs_heading = [], rs_reason = [], rs_pending = [], rs_inputs_needed = [], rs_artifacts = []\<rparr>"

definition summarize :: "handoff_report \<Rightarrow> report_summary" where
  "summarize rep =
     (let latest = hr_latest rep;
          state = (if hr_protocol_errors rep \<noteq> [] then Malformed
                   else if hr_blocks rep = 0 then Missing else Valid);
          newest = latest_verdict latest;
          verdict = (if state \<noteq> Valid then None
                     else case hr_open_items rep of
                         [] \<Rightarrow> newest
                       | item # _ \<Rightarrow> Some (open_verdict item));
          field = (\<lambda>k. case latest of None \<Rightarrow> [] | Some b \<Rightarrow> get_field (blk_fields b) k)
      in \<lparr>rs_state = state, rs_verdict = verdict, rs_latest_verdict = newest,
           rs_blocks = hr_blocks rep, rs_acked_through = hr_acked_through rep,
           rs_acked_source = hr_acked_source rep, rs_unresolved = hr_unresolved rep,
           rs_open_items = hr_open_items rep,
           rs_protocol_errors = map Protocol (hr_protocol_errors rep),
           rs_external_action = (hr_open_items rep \<noteq> []),
           rs_heading = (case latest of None \<Rightarrow> [] | Some b \<Rightarrow> blk_heading b),
           rs_reason = field ''reason'', rs_pending = field ''pending'',
           rs_inputs_needed = field ''inputs-needed'', rs_artifacts = field ''artifacts''\<rparr>)"

definition report_projection :: "task_files \<Rightarrow> report_summary" where
  "report_projection tf = (case parse_task_report tf of
       Inl _ \<Rightarrow> unreadable_report
     | Inr rep \<Rightarrow> summarize rep)"

definition actionable_reason :: "lifecycle \<Rightarrow> report_summary \<Rightarrow> py_error + reason" where
  "actionable_reason st rs =
     (if rs_state rs = Missing then Inr RMissingReport
      else if rs_state rs = Malformed then Inr RMalformedReport
      else if availability st = Gone then Inr RGone
      else case rs_verdict rs of
          Some VDone \<Rightarrow> Inr (if availability st = Quiescent then RQuiescent else RNone)
        | Some VWaiting \<Rightarrow>
            Inr (if availability st = WaitingBackground then RWaitingBackground else RUnknown)
        | Some VNeedsAction \<Rightarrow> Inr RNeedsAction
        | Some VFailed \<Rightarrow> Inr RFailed
        | Some VBlocked \<Rightarrow> Inr RBlocked
        | _ \<Rightarrow> Inl (ValueError ''valid report has no protocol verdict''))"

section \<open>Sessions and projections\<close>

definition get_session_state :: "ident \<Rightarrow> store \<Rightarrow> lifecycle option" where
  "get_session_state sess s = map_option se_state (map_of (sessions s) sess)"

definition session_identity :: "session_row \<Rightarrow> harness \<times> role \<times> ident option \<times> ident option" where
  "session_identity row = (se_harness row, se_role row, se_task row, se_driver row)"

definition event_identity :: "event \<Rightarrow> harness \<times> role \<times> ident option \<times> ident option" where
  "event_identity ev = (ev_harness ev, ev_role ev, ev_task ev, ev_driver ev)"

text \<open>The trigger \<open>sessions_identity_valid_insert\<close>.\<close>

definition role_identity_valid :: "event \<Rightarrow> bool" where
  "role_identity_valid ev = (case ev_role ev of
       Crew \<Rightarrow> ev_task ev \<noteq> None \<and> ev_driver ev = None
     | Watchtower \<Rightarrow> ev_driver ev \<noteq> None \<and> ev_task ev = None)"

definition persist_session ::
  "event \<Rightarrow> nat \<Rightarrow> lifecycle \<Rightarrow> bool \<Rightarrow> store \<Rightarrow> py_error + store" where
  "persist_session ev seq st registered s =
     (let old = map_of (sessions s) (ev_session ev) in
      if (case old of Some row \<Rightarrow> session_identity row \<noteq> event_identity ev | None \<Rightarrow> False)
      then Inl (ValueError ''session identity is immutable'')
      else if \<not> role_identity_valid ev
      then Inl (IntegrityError ''session role identity is invalid'')
      else Inr (s\<lparr>sessions := AList.update (ev_session ev)
        \<lparr>se_task = ev_task ev, se_driver = ev_driver ev, se_harness = ev_harness ev,
          se_role = ev_role ev, se_foreground = foreground st, se_background = background st,
          se_background_count = active_count st, se_availability = availability st,
          se_producer_seq = producer_seq st, se_state = st, se_latest_durable_seq = seq,
          se_registered = (registered \<or> (case old of Some row \<Rightarrow> se_registered row | None \<Rightarrow> False))\<rparr>
        (sessions s)\<rparr>))"

text \<open>An update keeps the generation that the row already carries.\<close>

definition upsert_task_projection ::
  "ident \<Rightarrow> nat \<Rightarrow> availability \<Rightarrow> report_status \<Rightarrow> verdict option \<Rightarrow> reason \<Rightarrow> projection_detail
     \<Rightarrow> store \<Rightarrow> store" where
  "upsert_task_projection task seq av state v why detail s =
     s\<lparr>task_projections := AList.update task
        \<lparr>pr_availability = av, pr_report_state = state, pr_verdict = v, pr_reason = why,
          pr_generation = (case map_of (task_projections s) task of
              Some row \<Rightarrow> pr_generation row | None \<Rightarrow> 0),
          pr_last_event_seq = seq, pr_detail = detail\<rparr> (task_projections s)\<rparr>"

definition projection_of :: "ident \<Rightarrow> event \<Rightarrow> task_files \<Rightarrow> lifecycle \<Rightarrow> projection_detail" where
  "projection_of task ev tf st =
     \<lparr>pd_task = task, pd_folder_present = tf_folder tf, pd_session = ev_session ev,
       pd_foreground = foreground st, pd_background = background st,
       pd_background_count = active_count st, pd_availability = availability st,
       pd_report = report_projection tf, pd_pane_exists = None\<rparr>"

definition reduce_projection :: "tasks_dir \<Rightarrow> event \<Rightarrow> nat \<Rightarrow> store \<Rightarrow> lifecycle op_result" where
  "reduce_projection dir ev seq s =
     (let state = (case get_session_state (ev_session ev) s of Some st \<Rightarrow> st | None \<Rightarrow> init_lifecycle) in
      and_then (reduce_event state ev) (\<lambda>result.
      let st = rd_state result;
          registered = (ev_kind ev = SessionRegister
            \<or> (case map_of (sessions s) (ev_session ev) of Some row \<Rightarrow> se_registered row | None \<Rightarrow> False))
      in and_then (persist_session ev seq st registered s) (\<lambda>s1.
        case ev_task ev of
          Some task \<Rightarrow>
            if registered \<and> ev_role ev = Crew \<and> task \<noteq> []
            then let rs = report_projection (dir task) in
              and_then (actionable_reason st rs) (\<lambda>why.
                Inr (st, upsert_task_projection task seq (availability st) (rs_state rs)
                  (rs_verdict rs) why (projection_of task ev (dir task) st) s1))
            else Inr (st, s1)
        | None \<Rightarrow> Inr (st, s1))))"

section \<open>Accepting an event\<close>

record accepted =
  ac_seq :: nat
  ac_duplicate :: bool
  ac_generation :: "nat option"

definition find_event :: "ident \<Rightarrow> store \<Rightarrow> event_row option" where
  "find_event eid s = find (\<lambda>row. ev_id (er_event row) = eid) (events s)"

definition urgent_verdicts :: "verdict option set" where
  "urgent_verdicts = {Some VBlocked, Some VFailed, Some VNeedsAction}"

definition urgent_reasons :: "reason set" where
  "urgent_reasons = {RBlocked, RFailed, RNeedsAction}"

text \<open>The columns that decide whether a projection changed.\<close>

definition visible ::
  "projection_row \<Rightarrow> availability \<times> report_status \<times> verdict option \<times> reason \<times> projection_detail" where
  "visible row = (pr_availability row, pr_report_state row, pr_verdict row, pr_reason row, pr_detail row)"

definition is_turn_start :: "event_kind \<Rightarrow> bool" where
  "is_turn_start k = (case k of TurnStart _ \<Rightarrow> True | _ \<Rightarrow> False)"

definition is_turn_stop :: "event_kind \<Rightarrow> bool" where
  "is_turn_stop k = (case k of TurnStop _ _ \<Rightarrow> True | _ \<Rightarrow> False)"

definition startup_missing_report :: "event \<Rightarrow> projection_row \<Rightarrow> bool" where
  "startup_missing_report ev now \<longleftrightarrow> ev_harness ev \<in> {Pi, Codex} \<and> pr_reason now = RMissingReport
     \<and> (ev_kind ev = SessionRegister \<or> (is_turn_start (ev_kind ev) \<and> pr_availability now = Busy))"

definition codex_turn_report :: "event \<Rightarrow> projection_row option \<Rightarrow> projection_row \<Rightarrow> bool" where
  "codex_turn_report ev before now \<longleftrightarrow> ev_harness ev = Codex \<and> is_turn_stop (ev_kind ev)
     \<and> pr_report_state now = Valid
     \<and> (case before of None \<Rightarrow> True
        | Some old \<Rightarrow> pr_report_state old \<noteq> pr_report_state now \<or> pr_verdict old \<noteq> pr_verdict now)"

definition detect_change ::
  "event \<Rightarrow> ident \<Rightarrow> projection_row option \<Rightarrow> projection_row option \<Rightarrow> actionable_change option" where
  "detect_change ev task before now' = (case now' of
       None \<Rightarrow> None
     | Some now \<Rightarrow>
         if codex_turn_report ev before now
         then Some \<lparr>ac_task = task, ac_reason = RNativeTurnEnded,
           ac_priority = (if pr_verdict now \<in> urgent_verdicts then Urgent else Normal),
           ac_preserve = True\<rparr>
         else if \<not> startup_missing_report ev now \<and> pr_reason now \<noteq> RNone
           \<and> map_option visible before \<noteq> Some (visible now)
         then Some \<lparr>ac_task = task, ac_reason = pr_reason now,
           ac_priority = (if pr_reason now \<in> urgent_reasons then Urgent else Normal),
           ac_preserve = False\<rparr>
         else None)"

definition accept_event :: "tasks_dir \<Rightarrow> event \<Rightarrow> store \<Rightarrow> accepted op_result" where
  "accept_event dir ev s =
     (case find_event (ev_id ev) s of
        Some row \<Rightarrow>
          if er_event row \<noteq> ev
          then Inl (ValueError ''event_id conflicts with its durable envelope'')
          else Inr (\<lparr>ac_seq = er_durable_seq row, ac_duplicate = True, ac_generation = None\<rparr>, s)
      | None \<Rightarrow>
          let seq = events_seq s + 1;
              s1 = s\<lparr>events := events s @ [\<lparr>er_durable_seq = seq, er_event = ev\<rparr>], events_seq := seq\<rparr>
          in and_then (reduce_projection dir ev seq s1) (\<lambda>(st, s2).
            let change = (case ev_task ev of
                  Some task \<Rightarrow> if task = [] then None
                    else detect_change ev task (map_of (task_projections s) task)
                           (map_of (task_projections s2) task)
                | None \<Rightarrow> None)
            in case change of
                None \<Rightarrow> Inr (\<lparr>ac_seq = seq, ac_duplicate = False, ac_generation = None\<rparr>, s2)
              | Some c \<Rightarrow> and_then (bump_actionable c s2) (\<lambda>(gen, s3).
                  Inr (\<lparr>ac_seq = seq, ac_duplicate = False, ac_generation = Some gen\<rparr>, s3))))"

section \<open>Replaying the log\<close>

definition replay_row :: "tasks_dir \<Rightarrow> event_row \<Rightarrow> store \<Rightarrow> py_error + store" where
  "replay_row dir row s =
     and_then (reduce_projection dir (er_event row) (er_durable_seq row) s) (\<lambda>(_, s'). Inr s')"

definition rebuild_projections :: "tasks_dir \<Rightarrow> store \<Rightarrow> unit op_result" where
  "rebuild_projections dir s =
     (if task_snapshots s \<noteq> []
      then Inl (RuntimeError ''projection rebuild requires delivery-ledger replay support'')
      else and_then (fold_res (replay_row dir) (sort_key er_durable_seq (events s))
             (s\<lparr>task_projections := [], sessions := []\<rparr>)) (\<lambda>s'. Inr ((), s')))"

definition task_projection :: "ident \<Rightarrow> store \<Rightarrow> projection_row option" where
  "task_projection task s = map_of (task_projections s) task"

section \<open>Host liveness\<close>

definition observe :: "bool option \<Rightarrow> bool option \<Rightarrow> lifecycle \<Rightarrow> lifecycle" where
  "observe pane adapter st =
     (let st1 = (case pane of None \<Rightarrow> st | Some b \<Rightarrow> observe_gone st (\<not> b))
      in case adapter of None \<Rightarrow> st1 | Some b \<Rightarrow> set_adapter_connected st1 b)"

definition observed_session :: "lifecycle \<Rightarrow> session_row \<Rightarrow> session_row" where
  "observed_session st row = row\<lparr>se_foreground := foreground st, se_background := background st,
     se_background_count := active_count st, se_availability := availability st, se_state := st\<rparr>"

definition observed_detail :: "bool option \<Rightarrow> lifecycle \<Rightarrow> projection_detail \<Rightarrow> projection_detail" where
  "observed_detail pane st d = d\<lparr>pd_foreground := foreground st, pd_background := background st,
     pd_background_count := active_count st, pd_availability := availability st,
     pd_pane_exists := (case pane of None \<Rightarrow> pd_pane_exists d | Some b \<Rightarrow> Some b)\<rparr>"

definition reconcile_session ::
  "ident \<Rightarrow> bool option \<Rightarrow> bool option \<Rightarrow> ident \<times> session_row \<Rightarrow> store \<Rightarrow> py_error + store" where
  "reconcile_session task pane adapter row s =
     (case row of (sess, old) \<Rightarrow>
        let st = observe pane adapter (se_state old);
            s1 = s\<lparr>sessions := update_key sess (observed_session st) (sessions s)\<rparr>
        in case map_of (task_projections s) task of
            None \<Rightarrow> Inr s1
          | Some before \<Rightarrow>
              let detail = observed_detail pane st (pr_detail before) in
              and_then (actionable_reason st (pd_report detail)) (\<lambda>why.
                let s2 = s1\<lparr>task_projections := update_key task (\<lambda>row. row\<lparr>
                           pr_availability := availability st, pr_reason := why, pr_detail := detail\<rparr>)
                         (task_projections s1)\<rparr>;
                    disconnected_edge = (adapter = Some False \<and> adapter_connected (se_state old))
                in if (why \<noteq> RNone \<and> pr_reason before \<noteq> why) \<or> disconnected_edge
                   then let edge = (if disconnected_edge \<and> why = RNone then RUnknown else why) in
                     and_then (bump_actionable \<lparr>ac_task = task, ac_reason = edge,
                        ac_priority = (if edge \<in> insert RGone urgent_reasons then Urgent else Normal),
                        ac_preserve = (edge \<noteq> why)\<rparr> s2) (\<lambda>(_, s3). Inr s3)
                   else Inr s2))"

definition reconcile_herdr_liveness ::
  "ident \<Rightarrow> bool option \<Rightarrow> bool option \<Rightarrow> store \<Rightarrow> unit op_result" where
  "reconcile_herdr_liveness task pane adapter s =
     and_then (fold_res (reconcile_session task pane adapter)
         (filter (\<lambda>(_, row). se_task row = Some task) (sessions s)) s) (\<lambda>s'. Inr ((), s'))"

end
