(* ===== verification/Store_Events_Facts.thy ===== *)
theory Store_Events_Facts
  imports Store_Events Store_Delivery_Facts Reducer_Facts Handoff_Facts
begin

text \<open>
  Correctness of the event side: what the report summary promises, the well-formedness of events,
  sessions, projections and frozen snapshots, and that every operation of the daemon keeps it.
\<close>

section \<open>Report summaries\<close>

text \<open>A verdict is present exactly when the report is valid, and is then one of the five.\<close>

definition protocol_verdict :: "verdict option \<Rightarrow> bool" where
  "protocol_verdict v \<longleftrightarrow> v \<in> Some ` {VDone, VWaiting, VNeedsAction, VFailed, VBlocked}"

definition verdict_fits :: "report_summary \<Rightarrow> bool" where
  "verdict_fits rs \<longleftrightarrow> (if rs_state rs = Valid then protocol_verdict (rs_verdict rs) else rs_verdict rs = None)"

lemma u_words_ascii: "w \<in> VERDICTS \<Longrightarrow> c \<in> set w \<Longrightarrow> c < 128"
  by (auto simp: VERDICTS_def u_def)

lemma complete_block_verdict:
  assumes "block_complete b"
  shows "protocol_verdict (latest_verdict (Some b))"
proof -
  let ?w = "get_field (blk_fields b) ''verdict''"
  from assms have known: "lower ?w \<in> VERDICTS" by (simp add: block_complete_def)
  then have "casefold ?w = lower ?w" by (intro ascii_casefold) (auto dest: u_words_ascii)
  moreover have "protocol_verdict (Some (verdict_of w))" and "w \<noteq> []" if "w \<in> VERDICTS" for w
    using that by (auto simp: VERDICTS_def verdict_of_def protocol_verdict_def u_def)
  ultimately show ?thesis using known by (simp add: latest_verdict_def Let_def)
qed

lemma open_verdict_protocol: "protocol_verdict (Some (open_verdict item))"
  by (auto simp: open_verdict_def Let_def OPEN_VERDICTS_def verdict_of_def protocol_verdict_def)

lemma hr_latest_last:
  assumes "parse_text t v2 old = Inr r"
  shows "hr_latest r = (if hr_block_details r = [] then None else Some (last (hr_block_details r)))
     \<and> hr_blocks r = length (hr_block_details r)"
proof -
  obtain starts where starts: "starts_from 0 (splitlines t) = Inr starts"
    using assms by (auto simp: parse_text_def Let_def and_then_eq_Inr)
  obtain a s e where "acknowledged (blocks_from (splitlines t) (h2_indices 0 (splitlines t)) 0 0 starts)
      (length (h2_indices 0 (splitlines t))) v2 old = (a, s, e)"
    by (metis prod_cases3)
  with assms starts show ?thesis by (auto simp: parse_text_def Let_def simp del: length_blocks_from)
qed

lemma summarize_ok:
  assumes r: "parse_text t v2 old = Inr r"
  shows "verdict_fits (summarize r)"
proof (cases "hr_protocol_errors r = [] \<and> hr_blocks r \<noteq> 0")
  case True
  then have "last (hr_block_details r) \<in> set (hr_block_details r)"
    using hr_latest_last[OF r] by auto
  then have "block_complete (last (hr_block_details r))"
    using clean_blocks_complete[OF r] True by blast
  then have "protocol_verdict (latest_verdict (hr_latest r))"
    using complete_block_verdict hr_latest_last[OF r] True by simp
  with True show ?thesis
    by (simp add: verdict_fits_def summarize_def Let_def open_verdict_protocol split: list.split)
next
  case False
  then show ?thesis by (auto simp: verdict_fits_def summarize_def Let_def)
qed

lemma report_projection_fits: "verdict_fits (report_projection tf)"
proof (cases "parse_task_report tf")
  case (Inl e)
  then show ?thesis by (simp add: report_projection_def unreadable_report_def verdict_fits_def)
next
  case (Inr r)
  then have "\<exists>t. parse_text t (tf_ack_v2 tf) (tf_ack_legacy tf) = Inr r"
    by (auto simp: parse_task_report_def split: handoff_file.splits)
  with Inr show ?thesis by (auto simp: report_projection_def summarize_ok)
qed

text \<open>A summary that was read from the files of a task.\<close>

definition summary_ok :: "report_summary \<Rightarrow> bool" where
  "summary_ok rs \<longleftrightarrow> (\<exists>tf. rs = report_projection tf)"

lemma report_projection_ok: "summary_ok (report_projection tf)"
  by (auto simp: summary_ok_def)

lemma summary_fits: "summary_ok rs \<Longrightarrow> verdict_fits rs"
  using report_projection_fits by (auto simp: summary_ok_def)

text \<open>The reason is defined for every summary, and completes it to a tuple of the protocol.\<close>

lemma actionable_reason_ok:
  assumes "summary_ok rs"
  shows "\<exists>why. actionable_reason st rs = Inr why \<and> (rs_state rs, rs_verdict rs, why) \<in> REPORT_TUPLES"
  using summary_fits[OF assms]
  by (cases "rs_state rs")
     (auto simp: verdict_fits_def actionable_reason_def protocol_verdict_def REPORT_TUPLES_def)

section \<open>Well-formed stores\<close>

definition session_ok :: "session_row \<Rightarrow> bool" where
  "session_ok row \<longleftrightarrow> lifecycle_wf (se_state row) \<and> se_availability row = availability (se_state row)
     \<and> se_foreground row = foreground (se_state row) \<and> se_background row = background (se_state row)
     \<and> se_background_count row = active_count (se_state row)
     \<and> se_producer_seq row = producer_seq (se_state row)
     \<and> (case se_role row of Crew \<Rightarrow> se_task row \<noteq> None \<and> se_driver row = None
        | Watchtower \<Rightarrow> se_driver row \<noteq> None \<and> se_task row = None)"

definition projection_ok :: "projection_row \<Rightarrow> bool" where
  "projection_ok row \<longleftrightarrow> summary_ok (pd_report (pr_detail row))
     \<and> (pr_report_state row, pr_verdict row, pr_reason row) \<in> REPORT_TUPLES
     \<and> pr_report_state row = rs_state (pd_report (pr_detail row))
     \<and> pr_verdict row = rs_verdict (pd_report (pr_detail row))
     \<and> pr_availability row = pd_availability (pr_detail row)"

definition log_ok :: "store \<Rightarrow> bool" where
  "log_ok s \<longleftrightarrow> map er_durable_seq (events s) = [1..<events_seq s + 1]
     \<and> distinct (map (\<lambda>row. ev_id (er_event row)) (events s))
     \<and> (\<forall>row \<in> set (events s). event_ok (er_event row))"

definition derived_ok :: "store \<Rightarrow> bool" where
  "derived_ok s \<longleftrightarrow> distinct (keys (sessions s)) \<and> (\<forall>(k, row) \<in> set (sessions s). session_ok row)
     \<and> (\<forall>(k, row) \<in> set (task_projections s). projection_ok row)"

definition facts_wf :: "store \<Rightarrow> bool" where
  "facts_wf s \<longleftrightarrow> log_ok s \<and> derived_ok s \<and> (\<forall>p \<in> set (task_snapshots s). projection_ok (sn_row p))"

definition store_wf :: "store \<Rightarrow> bool" where
  "store_wf s \<longleftrightarrow> ledger_wf s \<and> facts_wf s"

lemma empty_facts_wf: "store_wf empty_store"
  using empty_store_wf by (simp add: store_wf_def facts_wf_def derived_ok_def log_ok_def empty_store_def)

lemma map_of_ok:
  "\<forall>(k, row) \<in> set tbl. P row \<Longrightarrow> map_of tbl k = Some row \<Longrightarrow> P row"
  by (auto dest: map_of_SomeD)

section \<open>Reducing an event into its session and its task\<close>

text \<open>What a reduction leaves alone: the log and the ledger; projections are only added or rewritten.\<close>

definition only_derived :: "store \<Rightarrow> store \<Rightarrow> bool" where
  "only_derived s t \<longleftrightarrow> same_ledger s t \<and> events t = events s \<and> events_seq t = events_seq s
     \<and> pending_sends t = pending_sends s
     \<and> set (keys (task_projections s)) \<subseteq> set (keys (task_projections t))
     \<and> (distinct (keys (task_projections s)) \<longrightarrow> distinct (keys (task_projections t)))"

lemma only_derived_refl: "only_derived s s"
  by (simp add: only_derived_def same_ledger_def)

lemma only_derived_trans: "only_derived s t \<Longrightarrow> only_derived t v \<Longrightarrow> only_derived s v"
  by (auto simp: only_derived_def same_ledger_def)

lemma persist_session_ok:
  assumes ok: "derived_ok s" and st: "lifecycle_wf st"
    and run: "persist_session ev seq st registered s = Inr t"
  shows "derived_ok t \<and> only_derived s t \<and> task_projections t = task_projections s"
proof -
  obtain row where t: "t = s\<lparr>sessions := AList.update (ev_session ev) row (sessions s)\<rparr>"
    and row: "session_ok row"
    using run st
    by (auto simp: persist_session_def Let_def session_ok_def role_identity_valid_def
        split: if_splits role.splits)
  have "session_ok r" if "(k, r) \<in> set (sessions t)" for k r
    using that ok row by (auto simp: t derived_ok_def dest!: alist_update_values)
  then show ?thesis
    using ok by (auto simp: t derived_ok_def only_derived_def same_ledger_def distinct_update)
qed

lemma upsert_ok:
  assumes ok: "derived_ok s" and rs: "summary_ok rs"
    and tuple: "(rs_state rs, rs_verdict rs, why) \<in> REPORT_TUPLES"
    and detail: "pd_report detail = rs" "pd_availability detail = av"
  shows "derived_ok (upsert_task_projection task seq av (rs_state rs) (rs_verdict rs) why detail s)
    \<and> only_derived s (upsert_task_projection task seq av (rs_state rs) (rs_verdict rs) why detail s)"
proof -
  let ?t = "upsert_task_projection task seq av (rs_state rs) (rs_verdict rs) why detail s"
  have "projection_ok r" if "(k, r) \<in> set (task_projections ?t)" for k r
    using that ok rs tuple detail
    by (auto simp: upsert_task_projection_def derived_ok_def dest!: alist_update_values)
       (auto simp: projection_ok_def)
  then show ?thesis
    using ok by (auto simp: upsert_task_projection_def derived_ok_def only_derived_def
        same_ledger_def update_keys distinct_update)
qed

lemma reduce_projection_ok:
  assumes ok: "derived_ok s" and ev: "event_ok ev"
    and run: "reduce_projection dir ev seq s = Inr (st, t)"
  shows "derived_ok t \<and> only_derived s t"
proof -
  let ?state = "case get_session_state (ev_session ev) s of Some st \<Rightarrow> st | None \<Rightarrow> init_lifecycle"
  let ?reg = "ev_kind ev = SessionRegister
    \<or> (case map_of (sessions s) (ev_session ev) of Some row \<Rightarrow> se_registered row | None \<Rightarrow> False)"
  have "lifecycle_wf ?state"
    using ok map_of_ok[of "sessions s" session_ok "ev_session ev"] init_lifecycle_wf
    by (auto simp: get_session_state_def derived_ok_def session_ok_def split: option.splits)
  moreover from run obtain r s1 where r: "reduce_event ?state ev = Inr r"
    and s1: "persist_session ev seq (rd_state r) ?reg s = Inr s1"
    by (auto simp: reduce_projection_def Let_def and_then_eq_Inr)
  ultimately have step: "derived_ok s1 \<and> only_derived s s1"
    using reduce_event_wf[OF _ ev] persist_session_ok[OF ok] by blast
  from run r s1 consider "t = s1" | task why where
    "actionable_reason (rd_state r) (report_projection (dir task)) = Inr why"
    "t = upsert_task_projection task seq (availability (rd_state r)) (rs_state (report_projection (dir task)))
       (rs_verdict (report_projection (dir task))) why (projection_of task ev (dir task) (rd_state r)) s1"
    by (auto simp: reduce_projection_def Let_def and_then_eq_Inr split: option.splits if_splits)
  then show ?thesis
  proof cases
    case 1
    with step show ?thesis by simp
  next
    case (2 task why)
    have "(rs_state (report_projection (dir task)), rs_verdict (report_projection (dir task)), why) \<in> REPORT_TUPLES"
      using actionable_reason_ok[OF report_projection_ok] 2(1) by (metis sum.inject(2))
    then have "derived_ok t \<and> only_derived s1 t"
      unfolding 2(2) using step
      by (intro upsert_ok) (simp_all add: report_projection_ok projection_of_def)
    with step only_derived_trans show ?thesis by blast
  qed
qed

section \<open>Every operation keeps the store well-formed\<close>

lemma update_key_values:
  "(k, v) \<in> set (update_key a f tbl) \<Longrightarrow> \<exists>w. (k, w) \<in> set tbl \<and> v = (if k = a then f w else w)"
  by (auto simp: update_key_def)

text \<open>A change names the reason its projection row already has, unless it keeps the row's reason.\<close>

definition change_ok :: "actionable_change \<Rightarrow> store \<Rightarrow> bool" where
  "change_ok c s \<longleftrightarrow> ac_preserve c
     \<or> (\<exists>row. map_of (task_projections s) (ac_task c) = Some row \<and> pr_reason row = ac_reason c)"

lemma bumped_facts_wf:
  assumes wf: "store_wf s" and change: "change_ok c s"
  shows "facts_wf (bumped c s)"
proof -
  let ?gen = "latest_generation s + 1"
  have dist: "distinct (keys (task_projections s))"
    using wf by (simp add: store_wf_def ledger_wf_def history_ok_def)
  have rows: "projection_ok r" if "(k, r) \<in> set (task_projections (bumped c s))" for k r
  proof -
    from that obtain w where w: "(k, w) \<in> set (task_projections s)"
      and r: "r = (if k = ac_task c then (if ac_preserve c then w\<lparr>pr_generation := ?gen\<rparr>
          else w\<lparr>pr_generation := ?gen, pr_reason := ac_reason c\<rparr>) else w)"
      by (auto simp: bumped_def Let_def dest!: update_key_values)
    have "projection_ok w" using w wf by (auto simp: store_wf_def facts_wf_def derived_ok_def)
    moreover have "k = ac_task c \<Longrightarrow> \<not> ac_preserve c \<Longrightarrow> pr_reason w = ac_reason c"
      using w dist change by (auto simp: change_ok_def)
    ultimately show ?thesis unfolding r by (auto simp: projection_ok_def)
  qed
  then have "projection_ok (sn_row p)" if "p \<in> set (task_snapshots (bumped c s))" for p
    using that wf by (auto simp: store_wf_def facts_wf_def bumped_def Let_def)
  with rows show ?thesis
    using wf by (auto simp: store_wf_def facts_wf_def derived_ok_def log_ok_def)
      (auto simp: bumped_def Let_def)
qed

lemma bump_store_wf:
  assumes "store_wf s" and "change_ok c s" and "bump_actionable c s = Inr (gen, t)"
  shows "store_wf t"
proof -
  from assms(1) have wf: "ledger_wf s" by (simp add: store_wf_def)
  with assms(3) have "t = bumped c s" by (auto simp: bump_actionable_eq split: if_splits)
  with bumped_facts_wf[OF assms(1,2)] bump_actionable_wf[OF wf assms(3)] show ?thesis
    by (simp add: store_wf_def)
qed

lemma only_derived_step:
  assumes wf: "ledger_wf s" and only: "only_derived s t"
  shows "delivery_step s t"
proof (rule delivery_step.elsewhere)
  have "sn_task ` set (task_snapshots s) \<subseteq> set (keys (task_projections s))"
    using wf unfolding ledger_wf_def history_ok_def by blast
  then show "sn_task ` set (task_snapshots s) \<subseteq> set (keys (task_projections t))"
    using only by (auto simp: only_derived_def)
qed (use wf only in \<open>auto simp: only_derived_def ledger_wf_def history_ok_def\<close>)

lemma only_derived_wf:
  assumes "store_wf s" and "only_derived s t" and "derived_ok t"
  shows "store_wf t"
proof -
  have "ledger_wf t"
    using assms only_derived_step delivery_step_wf by (auto simp: store_wf_def)
  with assms show ?thesis
    by (auto simp: store_wf_def facts_wf_def only_derived_def same_ledger_def log_ok_def)
qed

text \<open>The store with the event appended to the log.\<close>

definition logged :: "event \<Rightarrow> store \<Rightarrow> store" where
  "logged ev s = s\<lparr>events := events s @ [\<lparr>er_durable_seq = events_seq s + 1, er_event = ev\<rparr>],
     events_seq := events_seq s + 1\<rparr>"

lemma find_event_None:
  "find_event eid s = None \<longleftrightarrow> eid \<notin> (\<lambda>row. ev_id (er_event row)) ` set (events s)"
  by (auto simp: find_event_def find_None_iff)

lemma logged_wf:
  assumes wf: "store_wf s" and ev: "event_ok ev" and fresh: "find_event (ev_id ev) s = None"
  shows "store_wf (logged ev s)"
proof -
  have "log_ok (logged ev s)"
    using wf ev fresh by (auto simp: store_wf_def facts_wf_def log_ok_def logged_def find_event_None)
  moreover have "ledger_wf (logged ev s)"
    using wf same_ledger_wf[of s "logged ev s"]
    unfolding store_wf_def ledger_wf_def history_ok_def
    by (simp add: logged_def same_ledger_def) blast
  ultimately show ?thesis
    using wf by (simp add: store_wf_def facts_wf_def derived_ok_def) (simp add: logged_def)
qed

text \<open>The ways \<open>accept_event\<close> can return.\<close>

lemma accept_event_cases:
  assumes "accept_event dir ev s = Inr (a, t)"
  obtains (duplicate) row where "find_event (ev_id ev) s = Some row" "er_event row = ev" "t = s"
      "a = \<lparr>ac_seq = er_durable_seq row, ac_duplicate = True, ac_generation = None\<rparr>"
  | (quiet) st where "find_event (ev_id ev) s = None"
      "reduce_projection dir ev (events_seq s + 1) (logged ev s) = Inr (st, t)"
      "a = \<lparr>ac_seq = events_seq s + 1, ac_duplicate = False, ac_generation = None\<rparr>"
  | (change) st s2 c gen task where "find_event (ev_id ev) s = None"
      "reduce_projection dir ev (events_seq s + 1) (logged ev s) = Inr (st, s2)"
      "ev_task ev = Some task"
      "detect_change ev task (map_of (task_projections s) task) (map_of (task_projections s2) task) = Some c"
      "bump_actionable c s2 = Inr (gen, t)"
      "a = \<lparr>ac_seq = events_seq s + 1, ac_duplicate = False, ac_generation = Some gen\<rparr>"
  using assms unfolding accept_event_def Let_def logged_def[symmetric]
  by (auto simp: and_then_eq_Inr split: option.splits if_splits)

lemma detect_change_ok:
  assumes "detect_change ev task before (map_of (task_projections s) task) = Some c"
  shows "change_ok c s \<and> ac_task c = task"
  using assms by (auto simp: detect_change_def change_ok_def split: option.splits if_splits)

lemma accept_event_wf:
  assumes wf: "store_wf s" and ev: "event_ok ev" and run: "accept_event dir ev s = Inr (a, t)"
  shows "store_wf t"
  using run
proof (cases rule: accept_event_cases)
  case duplicate
  with wf show ?thesis by simp
next
  case (quiet st)
  have l: "store_wf (logged ev s)" by (rule logged_wf[OF wf ev quiet(1)])
  then have "derived_ok (logged ev s)" by (simp add: store_wf_def facts_wf_def)
  from reduce_projection_ok[OF this ev quiet(2)] only_derived_wf[OF l] show ?thesis by blast
next
  case (change st s2 c gen task)
  have l: "store_wf (logged ev s)" by (rule logged_wf[OF wf ev change(1)])
  then have "derived_ok (logged ev s)" by (simp add: store_wf_def facts_wf_def)
  from reduce_projection_ok[OF this ev change(2)] only_derived_wf[OF l] have "store_wf s2" by blast
  with change(4,5) detect_change_ok show ?thesis by (blast intro: bump_store_wf)
qed

text \<open>Host liveness: each session of the task once, with its own stored state.\<close>

lemma observe_wf: "lifecycle_wf st \<Longrightarrow> lifecycle_wf (observe pane adapter st)"
  by (auto simp: observe_def Let_def observe_gone_wf set_adapter_connected_wf split: option.splits)

lemma observe_producer_seq [simp]: "producer_seq (observe pane adapter st) = producer_seq st"
  by (auto simp: observe_def Let_def observe_gone_def set_adapter_connected_def split: option.splits)

lemma observed_session_ok:
  "session_ok row \<Longrightarrow> session_ok (observed_session (observe pane adapter (se_state row)) row)"
  by (auto simp: session_ok_def observed_session_def observe_wf split: role.splits)

definition with_session :: "ident \<Rightarrow> (session_row \<Rightarrow> session_row) \<Rightarrow> store \<Rightarrow> store" where
  "with_session sess f s = s\<lparr>sessions := update_key sess f (sessions s)\<rparr>"

lemma with_session_ok:
  assumes ok: "derived_ok s" and old: "map_of (sessions s) sess = Some old"
  shows "derived_ok (with_session sess (observed_session (observe pane adapter (se_state old))) s)
    \<and> only_derived s (with_session sess (observed_session (observe pane adapter (se_state old))) s)"
proof -
  have "session_ok r" if "(k, r) \<in> set (update_key sess
      (observed_session (observe pane adapter (se_state old))) (sessions s))" for k r
  proof -
    from that obtain w where w: "(k, w) \<in> set (sessions s)"
      and r: "r = (if k = sess then observed_session (observe pane adapter (se_state old)) w else w)"
      by (auto dest!: update_key_values)
    then have "map_of (sessions s) k = Some w" using ok by (simp add: derived_ok_def)
    with old have "k = sess \<Longrightarrow> w = old" by simp
    moreover have "session_ok w" using w ok by (auto simp: derived_ok_def)
    ultimately show ?thesis by (cases "k = sess") (simp_all add: r observed_session_ok)
  qed
  with ok show ?thesis
    by (auto simp: with_session_def derived_ok_def only_derived_def same_ledger_def)
qed

definition with_projection :: "ident \<Rightarrow> (projection_row \<Rightarrow> projection_row) \<Rightarrow> store \<Rightarrow> store" where
  "with_projection task f s = s\<lparr>task_projections := update_key task f (task_projections s)\<rparr>"

lemma with_projection_ok:
  assumes ok: "derived_ok s" and f: "\<And>row. (task, row) \<in> set (task_projections s) \<Longrightarrow> projection_ok (f row)"
  shows "derived_ok (with_projection task f s) \<and> only_derived s (with_projection task f s)"
proof -
  have "projection_ok r" if "(k, r) \<in> set (task_projections (with_projection task f s))" for k r
    using that ok f by (auto simp: with_projection_def derived_ok_def dest!: update_key_values)
  with ok show ?thesis
    by (auto simp: with_projection_def derived_ok_def only_derived_def same_ledger_def)
qed

lemma reconcile_session_wf:
  assumes wf: "store_wf s" and old: "map_of (sessions s) sess = Some old"
  shows "\<exists>t. reconcile_session task pane adapter (sess, old) s = Inr t
    \<and> store_wf t \<and> delivery_step\<^sup>*\<^sup>* s t
    \<and> sessions t = update_key sess (observed_session (observe pane adapter (se_state old))) (sessions s)
    \<and> events t = events s \<and> events_seq t = events_seq s"
proof -
  let ?st = "observe pane adapter (se_state old)"
  let ?s1 = "with_session sess (observed_session ?st) s"
  from wf have "derived_ok s" by (simp add: store_wf_def facts_wf_def)
  note s1 = with_session_ok[OF this old, of pane adapter]
  then have wf1: "store_wf ?s1" using only_derived_wf[OF wf] by blast
  have step1: "delivery_step s ?s1"
    using s1 wf only_derived_step by (simp add: store_wf_def)
  show ?thesis
  proof (cases "map_of (task_projections s) task")
    case None
    then have "reconcile_session task pane adapter (sess, old) s = Inr ?s1"
      by (simp add: reconcile_session_def Let_def with_session_def)
    with wf1 step1 show ?thesis by (auto simp: with_session_def)
  next
    case (Some before)
    let ?detail = "observed_detail pane ?st (pr_detail before)"
    from Some wf have before: "projection_ok before"
      by (auto simp: store_wf_def facts_wf_def derived_ok_def dest: map_of_SomeD)
    then have "summary_ok (pd_report ?detail)" by (simp add: projection_ok_def observed_detail_def)
    from actionable_reason_ok[OF this] obtain why where
      why: "actionable_reason ?st (pd_report ?detail) = Inr why"
      and tuple: "(rs_state (pd_report ?detail), rs_verdict (pd_report ?detail), why) \<in> REPORT_TUPLES"
      by blast
    let ?f = "\<lambda>row. row\<lparr>pr_availability := availability ?st, pr_reason := why, pr_detail := ?detail\<rparr>"
    let ?s2 = "with_projection task ?f ?s1"
    have row: "row = before" if "(task, row) \<in> set (task_projections ?s1)" for row
    proof -
      have "distinct (keys (task_projections s))" using wf by (simp add: store_wf_def ledger_wf_def history_ok_def)
      with that Some show ?thesis by (simp add: with_session_def)
    qed
    have "projection_ok (?f row)" if "(task, row) \<in> set (task_projections ?s1)" for row
      using row[OF that] before tuple by (simp add: projection_ok_def observed_detail_def)
    then have ok2: "derived_ok ?s2 \<and> only_derived ?s1 ?s2" using s1 by (intro with_projection_ok) blast+
    then have wf2: "store_wf ?s2" using only_derived_wf[OF wf1] by blast
    have step2: "delivery_step ?s1 ?s2"
      using ok2 wf1 only_derived_step by (simp add: store_wf_def)
    have now: "map_of (task_projections ?s2) task = Some (?f before)"
      using Some by (simp add: with_projection_def with_session_def map_of_update_key)
    let ?edge = "adapter = Some False \<and> adapter_connected (se_state old)"
    define edge where "edge = (if ?edge \<and> why = RNone then RUnknown else why)"
    define prio where "prio = (if edge \<in> insert RGone urgent_reasons then Urgent else Normal)"
    let ?c = "\<lparr>ac_task = task, ac_reason = edge, ac_priority = prio, ac_preserve = (edge \<noteq> why)\<rparr>"
    let ?bump = "(why \<noteq> RNone \<and> pr_reason before \<noteq> why) \<or> ?edge"
    have run: "reconcile_session task pane adapter (sess, old) s =
      (if ?bump then and_then (bump_actionable ?c ?s2) (\<lambda>(_, s3). Inr s3) else Inr ?s2)"
      by (simp add: reconcile_session_def Let_def Some why with_projection_def with_session_def
          edge_def prio_def)
    have bump: "bump_actionable ?c ?s2 = Inr (latest_generation ?s2 + 1, bumped ?c ?s2)"
      using wf2 now by (simp add: bump_actionable_eq store_wf_def)
    have "change_ok ?c ?s2" using now by (auto simp: change_ok_def)
    then have "store_wf (bumped ?c ?s2)" using bump by (rule bump_store_wf[OF wf2])
    moreover have "delivery_step\<^sup>*\<^sup>* s (bumped ?c ?s2)" "delivery_step\<^sup>*\<^sup>* s ?s2"
      using step1 step2 delivery_step.bump[OF bump]
      by (meson rtranclp.rtrancl_into_rtrancl rtranclp.rtrancl_refl)+
    ultimately show ?thesis
      using run bump wf2
      by (cases ?bump) (simp_all add: bumped_def Let_def with_projection_def with_session_def)
  qed
qed

lemma reconcile_sessions_wf:
  assumes "store_wf s" and "distinct (keys rows)"
    and "\<forall>(k, r) \<in> set rows. map_of (sessions s) k = Some r"
  shows "\<exists>t. fold_res (reconcile_session task pane adapter) rows s = Inr t
    \<and> store_wf t \<and> delivery_step\<^sup>*\<^sup>* s t \<and> events t = events s \<and> events_seq t = events_seq s"
  using assms
proof (induction rows arbitrary: s)
  case (Cons row rows)
  obtain k r where row: "row = (k, r)" by (cases row)
  from Cons.prems(3) have "map_of (sessions s) k = Some r" by (simp add: row)
  from reconcile_session_wf[OF Cons.prems(1) this, of task pane adapter] obtain v where
    v: "reconcile_session task pane adapter (k, r) s = Inr v" "store_wf v" "delivery_step\<^sup>*\<^sup>* s v"
      "events v = events s" "events_seq v = events_seq s"
    and sess: "sessions v = update_key k (observed_session (observe pane adapter (se_state r))) (sessions s)"
    by blast
  have "\<exists>t. fold_res (reconcile_session task pane adapter) rows v = Inr t
    \<and> store_wf t \<and> delivery_step\<^sup>*\<^sup>* v t \<and> events t = events v \<and> events_seq t = events_seq v"
    using Cons.prems(2,3) v(2) sess
    by (intro Cons.IH[of v]) (auto simp: row map_of_update_key rev_image_eqI)
  with v show ?case by (auto simp: row intro: rtranclp_trans)
qed simp

text \<open>Applying host liveness cannot fail.\<close>

lemma reconcile_herdr_liveness_wf:
  assumes wf: "store_wf s"
  shows "\<exists>t. reconcile_herdr_liveness task pane adapter s = Inr ((), t)
    \<and> store_wf t \<and> delivery_step\<^sup>*\<^sup>* s t \<and> events t = events s \<and> events_seq t = events_seq s"
proof -
  let ?rows = "filter (\<lambda>(_, row). se_task row = Some task) (sessions s)"
  have "distinct (keys (sessions s))" using wf by (simp add: store_wf_def facts_wf_def derived_ok_def)
  then have "\<exists>t. fold_res (reconcile_session task pane adapter) ?rows s = Inr t
    \<and> store_wf t \<and> delivery_step\<^sup>*\<^sup>* s t \<and> events t = events s \<and> events_seq t = events_seq s"
    by (intro reconcile_sessions_wf[OF wf]) (auto simp: distinct_map_filter)
  then show ?thesis by (auto simp: reconcile_herdr_liveness_def)
qed

section \<open>Replay\<close>

lemma replay_row_ok:
  assumes "derived_ok s" and "event_ok (er_event row)" and "replay_row dir row s = Inr t"
  shows "derived_ok t \<and> only_derived s t"
  using assms reduce_projection_ok by (fastforce simp: replay_row_def and_then_eq_Inr)

lemma replay_ok:
  assumes "fold_res (replay_row dir) rows s = Inr t" and "derived_ok s"
    and "\<forall>row \<in> set rows. event_ok (er_event row)"
  shows "derived_ok t \<and> only_derived s t"
  using fold_res_invariant[OF assms(1), of "\<lambda>x. derived_ok x \<and> only_derived s x"] assms(2,3)
    replay_row_ok only_derived_refl only_derived_trans by blast

definition cleared :: "store \<Rightarrow> store" where
  "cleared s = s\<lparr>task_projections := [], sessions := []\<rparr>"

lemma cleared_wf:
  assumes "store_wf s" and "task_snapshots s = []"
  shows "store_wf (cleared s)" and "delivery_step s (cleared s)"
proof -
  show step: "delivery_step s (cleared s)"
    using assms(2) by (intro delivery_step.elsewhere) (simp_all add: cleared_def same_ledger_def)
  have "ledger_wf (cleared s)" using step assms(1) delivery_step_wf by (simp add: store_wf_def)
  moreover have "facts_wf (cleared s)"
  proof -
    have "log_ok (cleared s) = log_ok s" by (simp add: log_ok_def cleared_def)
    moreover have "derived_ok (cleared s)" "task_snapshots (cleared s) = []"
      using assms(2) by (simp_all add: derived_ok_def cleared_def)
    ultimately show ?thesis using assms(1) by (simp add: store_wf_def facts_wf_def)
  qed
  ultimately show "store_wf (cleared s)" by (simp add: store_wf_def)
qed

lemma rebuild_cases:
  assumes "rebuild_projections dir s = Inr (x, t)"
  shows "task_snapshots s = [] \<and> fold_res (replay_row dir) (sort_key er_durable_seq (events s)) (cleared s) = Inr t"
  using assms by (auto simp: rebuild_projections_def cleared_def and_then_eq_Inr split: if_splits)

lemma rebuild_projections_wf:
  assumes wf: "store_wf s" and run: "rebuild_projections dir s = Inr (x, t)"
  shows "store_wf t \<and> delivery_step\<^sup>*\<^sup>* s t \<and> only_derived (cleared s) t"
proof -
  note c = rebuild_cases[OF run]
  then have "store_wf (cleared s)" and step: "delivery_step s (cleared s)"
    using cleared_wf[OF wf] by blast+
  then have "derived_ok (cleared s)" by (simp add: store_wf_def facts_wf_def)
  then have "derived_ok t \<and> only_derived (cleared s) t"
    using c wf by (intro replay_ok) (auto simp: store_wf_def facts_wf_def log_ok_def)
  with \<open>store_wf (cleared s)\<close> only_derived_wf only_derived_step step show ?thesis
    unfolding store_wf_def by (meson converse_rtranclp_into_rtranclp r_into_rtranclp)
qed

section \<open>The daemon's store as a state machine\<close>

text \<open>The tables that a driver's or a follow-up's operation leaves alone.\<close>

definition same_facts :: "store \<Rightarrow> store \<Rightarrow> bool" where
  "same_facts s t \<longleftrightarrow> events t = events s \<and> events_seq t = events_seq s \<and> sessions t = sessions s
     \<and> task_projections t = task_projections s \<and> latest_generation t = latest_generation s
     \<and> task_snapshots t = task_snapshots s \<and> generation_tasks t = generation_tasks s"

inductive daemon_step :: "store \<Rightarrow> store \<Rightarrow> bool" where
  accept: "event_ok ev \<Longrightarrow> accept_event dir ev s = Inr (a, t) \<Longrightarrow> daemon_step s t"
| liveness: "reconcile_herdr_liveness task pane adapter s = Inr (x, t) \<Longrightarrow> daemon_step s t"
| driver: "delivery_step s t \<Longrightarrow> same_facts s t \<Longrightarrow> daemon_step s t"

text \<open>The rebuild is a maintenance operation: the daemon itself never calls it.\<close>

inductive store_step :: "store \<Rightarrow> store \<Rightarrow> bool" where
  daemon: "daemon_step s t \<Longrightarrow> store_step s t"
| rebuild: "rebuild_projections dir s = Inr (x, t) \<Longrightarrow> store_step s t"

text \<open>Every operation of a driver is such a step.\<close>

lemma driver_operations_facts:
  "register_driver drv sess harn s = Inr (ep', t) \<Longrightarrow> same_facts s t"
  "disable_driver_authority drv s = Inr (x, t) \<Longrightarrow> same_facts s t"
  "offer_notification drv sess ep s = Inr (n, t) \<Longrightarrow> same_facts s t"
  "withdraw_unconfirmed_offer drv sess ep gen s = Inr (x, t) \<Longrightarrow> same_facts s t"
  "record_delivery_outcome drv sess ep gen st e s = Inr (x, t) \<Longrightarrow> same_facts s t"
  "confirm_delivery drv sess ep gen s = Inr (b, t) \<Longrightarrow> same_facts s t"
  "reconcile_delivered drv full s = Inr (rc, t) \<Longrightarrow> same_facts s t"
  "ack_delivered drv gen s = Inr (b, t) \<Longrightarrow> same_facts s t"
  "ack_generation drv sess ep gen s = Inr (b, t) \<Longrightarrow> same_facts s t"
  by (auto simp: same_facts_def register_driver_def disable_driver_authority_def
        offer_notification_def withdraw_unconfirmed_offer_def record_delivery_outcome_def
        confirm_delivery_def reconcile_delivered_def ack_delivered_def ack_generation_def
        insert_offer_def set_acked_def and_then_eq_Inr Let_def dest!: checked_deliveries_Inr
        split: option.splits if_splits)

lemma driver_operations_step:
  "register_driver drv sess harn s = Inr (ep', t) \<Longrightarrow> daemon_step s t"
  "disable_driver_authority drv s = Inr (x, t) \<Longrightarrow> daemon_step s t"
  "offer_notification drv sess ep s = Inr (n, t) \<Longrightarrow> daemon_step s t"
  "withdraw_unconfirmed_offer drv sess ep gen s = Inr (x, t) \<Longrightarrow> daemon_step s t"
  "record_delivery_outcome drv sess ep gen st e s = Inr (x, t) \<Longrightarrow> daemon_step s t"
  "confirm_delivery drv sess ep gen s = Inr (b, t) \<Longrightarrow> daemon_step s t"
  "reconcile_delivered drv full s = Inr (rc, t) \<Longrightarrow> daemon_step s t"
  "ack_delivered drv gen s = Inr (b, t) \<Longrightarrow> daemon_step s t"
  "ack_generation drv sess ep gen s = Inr (b, t) \<Longrightarrow> daemon_step s t"
  by (rule daemon_step.driver, erule delivery_step.intros(3-11), erule driver_operations_facts)+

lemma logged_step:
  assumes "store_wf s"
  shows "delivery_step s (logged ev s)"
proof (rule delivery_step.elsewhere)
  show "sn_task ` set (task_snapshots s) \<subseteq> set (keys (task_projections (logged ev s)))"
    using assms unfolding store_wf_def ledger_wf_def history_ok_def logged_def by auto
qed (use assms in \<open>simp_all add: store_wf_def ledger_wf_def history_ok_def same_ledger_def logged_def\<close>)

text \<open>The reduction inside an accepted event, as steps of the ledger's machine.\<close>

lemma accepted_reduction:
  assumes wf: "store_wf s" and ev: "event_ok ev" and fresh: "find_event (ev_id ev) s = None"
    and run: "reduce_projection dir ev seq (logged ev s) = Inr (st, t)"
  shows "store_wf t" and "delivery_step\<^sup>*\<^sup>* s t" and "only_derived (logged ev s) t"
proof -
  have l: "store_wf (logged ev s)" by (rule logged_wf[OF wf ev fresh])
  then have "derived_ok (logged ev s)" by (simp add: store_wf_def facts_wf_def)
  from reduce_projection_ok[OF this ev run]
  have t: "derived_ok t" and only: "only_derived (logged ev s) t" by blast+
  from only show "only_derived (logged ev s) t" .
  from only_derived_wf[OF l only t] show "store_wf t" .
  have "delivery_step (logged ev s) t" using l only only_derived_step by (simp add: store_wf_def)
  with logged_step[OF wf] show "delivery_step\<^sup>*\<^sup>* s t"
    by (meson converse_rtranclp_into_rtranclp r_into_rtranclp)
qed

lemma accept_event_deliveries:
  assumes wf: "store_wf s" and ev: "event_ok ev" and run: "accept_event dir ev s = Inr (a, t)"
  shows "delivery_step\<^sup>*\<^sup>* s t"
  using run
proof (cases rule: accept_event_cases)
  case (quiet st)
  from accepted_reduction(2)[OF wf ev quiet(1,2)] show ?thesis .
next
  case (change st s2 c gen task)
  from accepted_reduction(2)[OF wf ev change(1,2)] delivery_step.bump[OF change(5)] show ?thesis
    by (rule rtranclp.rtrancl_into_rtrancl)
qed simp

lemma daemon_step_wf: "daemon_step s t \<Longrightarrow> store_wf s \<Longrightarrow> store_wf t \<and> delivery_step\<^sup>*\<^sup>* s t"
proof (induction rule: daemon_step.induct)
  case (accept ev dir s a t)
  then show ?case using accept_event_wf accept_event_deliveries by blast
next
  case (liveness task pane adapter s x t)
  from reconcile_herdr_liveness_wf[OF liveness(2), of task pane adapter] liveness(1) show ?case by auto
next
  case (driver s t)
  have "log_ok t = log_ok s" "derived_ok t = derived_ok s"
    using driver(2) by (simp_all add: same_facts_def log_ok_def derived_ok_def)
  with driver show ?case
    using delivery_step_wf by (auto simp: store_wf_def facts_wf_def same_facts_def)
qed

lemma store_step_wf: "store_step s t \<Longrightarrow> store_wf s \<Longrightarrow> store_wf t \<and> delivery_step\<^sup>*\<^sup>* s t"
  by (induction rule: store_step.induct) (blast dest: daemon_step_wf rebuild_projections_wf)+

interpretation store: preserved store_step store_wf
  by unfold_locales (blast dest: store_step_wf)

lemma store_run_deliveries: "store_step\<^sup>*\<^sup>* s t \<Longrightarrow> store_wf s \<Longrightarrow> delivery_step\<^sup>*\<^sup>* s t"
proof (induction rule: rtranclp_induct)
  case (step t v)
  then have "store_wf t" by (blast intro: store.run_inv)
  with step show ?case by (blast intro: rtranclp_trans dest: store_step_wf)
qed simp

lemma daemon_run_store: "daemon_step\<^sup>*\<^sup>* s t \<Longrightarrow> store_step\<^sup>*\<^sup>* s t"
  by (induction rule: rtranclp_induct) (auto intro: rtranclp.rtrancl_into_rtrancl store_step.daemon)

lemma reachable_store: "store_step\<^sup>*\<^sup>* empty_store s \<Longrightarrow> store_wf s"
  using store.run_inv empty_facts_wf by blast

section \<open>The log only grows\<close>

lemma store_step_events: "store_step s t \<Longrightarrow> store_wf s \<Longrightarrow> prefix (events s) (events t)"
proof (induction rule: store_step.induct)
  case (daemon s t)
  from daemon(1) show ?case
  proof cases
    case (accept ev dir a)
    from accept(2) show ?thesis
    proof (cases rule: accept_event_cases)
      case (quiet st)
      from accepted_reduction(3)[OF daemon(2) accept(1) quiet(1,2)] show ?thesis
        by (simp add: only_derived_def logged_def)
    next
      case (change st s2 c gen task)
      from accepted_reduction(1,3)[OF daemon(2) accept(1) change(1,2)] change(5) show ?thesis
        by (auto simp: only_derived_def logged_def store_wf_def bump_actionable_eq bumped_def Let_def
            split: if_splits)
    qed simp
  next
    case (liveness task pane adapter x)
    from reconcile_herdr_liveness_wf[OF daemon(2), of task pane adapter] liveness show ?thesis by auto
  qed (simp add: same_facts_def)
next
  case (rebuild dir s x t)
  then have "only_derived (cleared s) t" using rebuild_projections_wf by blast
  then show ?case by (simp add: only_derived_def cleared_def)
qed

interpretation log: monotone_run store_step store_wf events prefix
  by unfold_locales (auto intro: store_step_events)

end
