(* ===== verification/Pending_Sends.thy ===== *)
theory Pending_Sends
  imports Store_Events_Facts
begin

text \<open>
  The follow-up queue of \<open>store.py\<close>: text a driver wants a crew to read once it is no longer in
  the middle of a turn.  The five operations on the table \<open>pending_sends\<close>, and what they promise:
  one open follow-up per task, every follow-up claimed at most once, terminal rows for ever.

  The clock is an argument of every operation, in milliseconds since 1970.  SQLite's \<open>strftime\<close>
  yields NULL for an instant after the year 9999, which the table's \<open>NOT NULL\<close> refuses; up to
  there the text order of its timestamps is the order of the instants.
\<close>

section \<open>Operations\<close>

definition MAX_INSTANT :: int where
  "MAX_INSTANT = 253402300799999"

definition is_open_send :: "send_row \<Rightarrow> bool" where
  "is_open_send r \<longleftrightarrow> sd_state r \<in> {SPending, SDelivering}"

definition retire :: "send_state \<Rightarrow> string option \<Rightarrow> int \<Rightarrow> send_row \<Rightarrow> send_row" where
  "retire st err now r = r\<lparr>sd_state := st, sd_error := err, sd_resolved_at := Some now\<rparr>"

definition supersede :: "ident \<Rightarrow> int \<Rightarrow> send_row list \<Rightarrow> send_row list" where
  "supersede task now =
     update_where (\<lambda>r. sd_task r = task \<and> is_open_send r) (retire SCancelled (Some ''superseded'') now)"

text \<open>The insertion meets the table's constraints after the update of the same transaction.\<close>

definition enqueue_pending_send ::
  "ident \<Rightarrow> ident \<Rightarrow> string \<Rightarrow> int \<Rightarrow> int \<Rightarrow> store \<Rightarrow> unit op_result" where
  "enqueue_pending_send send task payload timeout_ms now s =
     (let rows = supersede task now (pending_sends s);
          deadline = now + timeout_ms in
      if deadline > MAX_INSTANT
      then Inl (IntegrityError ''NOT NULL constraint failed: pending_sends.deadline_at'')
      else if \<exists>r \<in> set rows. sd_id r = send
      then Inl (IntegrityError ''UNIQUE constraint failed: pending_sends.send_id'')
      else if \<exists>r \<in> set rows. sd_task r = task \<and> is_open_send r
      then Inl (IntegrityError ''UNIQUE constraint failed: pending_sends.task_id'')
      else Inr ((), s\<lparr>pending_sends := rows @ [\<lparr>sd_id = send, sd_task = task, sd_payload = payload,
             sd_state = SPending, sd_error = None, sd_created_at = now, sd_deadline_at = deadline,
             sd_resolved_at = None\<rparr>]\<rparr>))"

text \<open>The row is returned as it was read, before it was marked.\<close>

definition claim_pending_send :: "ident \<Rightarrow> store \<Rightarrow> send_row option op_result" where
  "claim_pending_send task s =
     (case find (\<lambda>r. sd_task r = task \<and> sd_state r = SPending) (pending_sends s) of
        None \<Rightarrow> Inr (None, s)
      | Some row \<Rightarrow> Inr (Some row, s\<lparr>pending_sends :=
          update_where (\<lambda>r. sd_id r = sd_id row) (\<lambda>r. r\<lparr>sd_state := SDelivering\<rparr>) (pending_sends s)\<rparr>))"

definition resolve_pending_send ::
  "ident \<Rightarrow> send_state \<Rightarrow> string option \<Rightarrow> int \<Rightarrow> store \<Rightarrow> unit op_result" where
  "resolve_pending_send send st err now s =
     (if st \<notin> {SDelivered, SFailed, SCancelled}
      then Inl (ValueError ''pending send must resolve to delivered, failed, or cancelled'')
      else Inr ((), s\<lparr>pending_sends :=
        update_where (\<lambda>r. sd_id r = send) (retire st (clip_error err) now) (pending_sends s)\<rparr>))"

text \<open>\<open>ORDER BY created_at DESC, rowid DESC LIMIT 1\<close>: the last of the newest rows.\<close>

fun newest_send :: "send_row list \<Rightarrow> send_row option" where
  "newest_send [] = None"
| "newest_send (r # rs) = (case newest_send rs of
       None \<Rightarrow> Some r
     | Some q \<Rightarrow> Some (if sd_created_at q \<ge> sd_created_at r then q else r))"

definition pending_send :: "ident \<Rightarrow> store \<Rightarrow> send_row option" where
  "pending_send task s = newest_send (filter (\<lambda>r. sd_task r = task) (pending_sends s))"

definition overdue :: "int \<Rightarrow> send_row \<Rightarrow> bool" where
  "overdue now r \<longleftrightarrow> sd_state r = SPending \<and> sd_deadline_at r \<le> now"

definition abandoned :: "int \<Rightarrow> int \<Rightarrow> send_row \<Rightarrow> bool" where
  "abandoned stale now r \<longleftrightarrow> sd_state r = SDelivering \<and> sd_created_at r \<le> now - 1000 * stale"

definition lost_message :: string where
  "lost_message = ''daemon restarted mid-delivery; text may or may not have reached the pane''"

definition fail_row :: "string \<Rightarrow> int \<Rightarrow> send_row \<Rightarrow> send_row list \<Rightarrow> send_row list" where
  "fail_row err now row = update_where (\<lambda>r. sd_id r = sd_id row) (retire SFailed (Some err) now)"

definition sweep_expired_pending_sends :: "int \<Rightarrow> int \<Rightarrow> store \<Rightarrow> send_row list op_result" where
  "sweep_expired_pending_sends stale now s =
     (let expired = filter (overdue now) (pending_sends s);
          lost = filter (abandoned stale now) (pending_sends s);
          rows = fold (fail_row lost_message now) lost
                   (fold (fail_row ''timeout'' now) expired (pending_sends s))
      in Inr (expired @ lost, s\<lparr>pending_sends := rows\<rparr>))"

definition expired_pending_send_tasks :: "int \<Rightarrow> store \<Rightarrow> ident list" where
  "expired_pending_send_tasks now s = remdups (map sd_task (filter (overdue now) (pending_sends s)))"

text \<open>The default of the sweep's age limit, in seconds; the daemon uses it.\<close>

definition STALE_DELIVERING :: int where
  "STALE_DELIVERING = 3600"

section \<open>The table's invariant\<close>

text \<open>Unique numbers, and one open row per task at most: the two unique indexes.\<close>

definition sends_ok :: "send_row list \<Rightarrow> bool" where
  "sends_ok rows \<longleftrightarrow> distinct (map sd_id rows)
     \<and> (\<forall>r \<in> set rows. \<forall>q \<in> set rows.
          is_open_send r \<and> is_open_send q \<and> sd_task r = sd_task q \<longrightarrow> r = q)"

lemma retire_simps [simp]:
  "sd_id (retire st err now r) = sd_id r" "sd_task (retire st err now r) = sd_task r"
  "sd_payload (retire st err now r) = sd_payload r" "sd_state (retire st err now r) = st"
  "sd_created_at (retire st err now r) = sd_created_at r"
  "sd_deadline_at (retire st err now r) = sd_deadline_at r"
  "sd_error (retire st err now r) = err" "sd_resolved_at (retire st err now r) = Some now"
  by (simp_all add: retire_def)

lemma same_row: "sends_ok rows \<Longrightarrow> r \<in> set rows \<Longrightarrow> q \<in> set rows \<Longrightarrow> sd_id r = sd_id q \<Longrightarrow> r = q"
  by (auto simp: sends_ok_def distinct_map inj_on_def)

text \<open>
  What every change of existing rows has in common: it rewrites chosen rows in place, keeps their
  number and task, and opens none.
\<close>

lemma update_where_sends_ok:
  assumes "sends_ok rows"
    and f: "\<And>r. r \<in> set rows \<Longrightarrow> p r \<Longrightarrow> sd_id (f r) = sd_id r \<and> sd_task (f r) = sd_task r
              \<and> (is_open_send (f r) \<longrightarrow> is_open_send r)"
  shows "sends_ok (update_where p f rows)"
proof -
  let ?g = "\<lambda>r. if p r then f r else r"
  have g: "sd_id (?g r) = sd_id r" "sd_task (?g r) = sd_task r" "is_open_send (?g r) \<Longrightarrow> is_open_send r"
    if "r \<in> set rows" for r
    using f[OF that] by (cases "p r"; simp)+
  have "map sd_id (update_where p f rows) = map sd_id rows"
    using g(1) by (auto simp: update_where_def)
  moreover have "?g r = ?g q"
    if "r \<in> set rows" "q \<in> set rows" "is_open_send (?g r)" "is_open_send (?g q)"
      "sd_task (?g r) = sd_task (?g q)" for r q
  proof -
    have "is_open_send r" "is_open_send q" "sd_task r = sd_task q"
      using g[OF that(1)] g[OF that(2)] that(3-5) by metis+
    with assms(1) that(1,2) have "r = q" by (auto simp: sends_ok_def)
    then show ?thesis by simp
  qed
  moreover have "set (update_where p f rows) = ?g ` set rows" by (simp add: update_where_def)
  ultimately show ?thesis
    using assms(1) by (auto simp only: sends_ok_def elim!: imageE)
qed

lemma retired_closed: "st \<notin> {SPending, SDelivering} \<Longrightarrow> \<not> is_open_send (retire st err now r)"
  by (simp add: is_open_send_def)

lemma supersede_ok: "sends_ok rows \<Longrightarrow> sends_ok (supersede task now rows)"
  unfolding supersede_def by (rule update_where_sends_ok) (simp_all add: retired_closed)

lemma supersede_closed:
  assumes "r \<in> set (supersede task now rows)" and "sd_task r = task"
  shows "\<not> is_open_send r"
proof -
  from assms(1) obtain q where q: "r = (if sd_task q = task \<and> is_open_send q
      then retire SCancelled (Some ''superseded'') now q else q)"
    by (auto simp only: supersede_def update_where_def set_map)
  show ?thesis
  proof (cases "sd_task q = task \<and> is_open_send q")
    case True
    with q show ?thesis by (simp add: retired_closed)
  next
    case False
    with q assms(2) show ?thesis by simp
  qed
qed

lemma supersede_ids [simp]: "map sd_id (supersede task now rows) = map sd_id rows"
  unfolding supersede_def by (rule map_update_where) simp

text \<open>The third constraint never fires: the insertion follows the cancellation.\<close>

lemma enqueue_eq:
  "enqueue_pending_send send task payload timeout_ms now s =
     (if now + timeout_ms > MAX_INSTANT
      then Inl (IntegrityError ''NOT NULL constraint failed: pending_sends.deadline_at'')
      else if send \<in> set (map sd_id (pending_sends s))
      then Inl (IntegrityError ''UNIQUE constraint failed: pending_sends.send_id'')
      else Inr ((), s\<lparr>pending_sends := supersede task now (pending_sends s) @ [\<lparr>sd_id = send,
             sd_task = task, sd_payload = payload, sd_state = SPending, sd_error = None,
             sd_created_at = now, sd_deadline_at = now + timeout_ms, sd_resolved_at = None\<rparr>]\<rparr>))"
proof -
  have "(\<exists>r \<in> set (supersede task now (pending_sends s)). sd_id r = send)
      \<longleftrightarrow> send \<in> set (map sd_id (supersede task now (pending_sends s)))"
    by (auto simp del: supersede_ids)
  moreover have "(\<exists>r \<in> set (supersede task now (pending_sends s)). sd_task r = task \<and> is_open_send r) = False"
    using supersede_closed by blast
  ultimately show ?thesis by (simp only: enqueue_pending_send_def Let_def if_False supersede_ids)
qed

lemma snoc_sends_ok:
  assumes "sends_ok rows" and "sd_id r \<notin> set (map sd_id rows)"
    and "\<And>q. q \<in> set rows \<Longrightarrow> sd_task q = sd_task r \<Longrightarrow> \<not> is_open_send q"
  shows "sends_ok (rows @ [r])"
proof -
  have "distinct (map sd_id (rows @ [r]))" using assms(1,2) by (auto simp: sends_ok_def)
  moreover have "x = y"
    if "x \<in> set (rows @ [r])" "y \<in> set (rows @ [r])" "is_open_send x" "is_open_send y" "sd_task x = sd_task y" for x y
    using that assms(1,3) by (auto simp: sends_ok_def)
  ultimately show ?thesis by (auto simp: sends_ok_def)
qed

lemma enqueue_ok:
  assumes "sends_ok (pending_sends s)" and "enqueue_pending_send send task payload timeout_ms now s = Inr (x, t)"
  shows "sends_ok (pending_sends t)"
  using assms supersede_ok supersede_closed
  by (auto simp: enqueue_eq split: if_splits simp del: map_map intro!: snoc_sends_ok)

lemma claim_ok:
  assumes "sends_ok (pending_sends s)" and "claim_pending_send task s = Inr (c, t)"
  shows "sends_ok (pending_sends t)"
proof (cases "find (\<lambda>r. sd_task r = task \<and> sd_state r = SPending) (pending_sends s)")
  case (Some row)
  then have row: "row \<in> set (pending_sends s)" "sd_state row = SPending"
    by (auto simp: find_Some_iff)
  have "sends_ok (update_where (\<lambda>r. sd_id r = sd_id row) (\<lambda>r. r\<lparr>sd_state := SDelivering\<rparr>) (pending_sends s))"
    using assms(1)
  proof (rule update_where_sends_ok)
    fix r assume "r \<in> set (pending_sends s)" "sd_id r = sd_id row"
    with row same_row[OF assms(1)] have "r = row" by blast
    with row(2) show "sd_id (r\<lparr>sd_state := SDelivering\<rparr>) = sd_id r \<and> sd_task (r\<lparr>sd_state := SDelivering\<rparr>) = sd_task r
        \<and> (is_open_send (r\<lparr>sd_state := SDelivering\<rparr>) \<longrightarrow> is_open_send r)"
      by (simp add: is_open_send_def)
  qed
  with Some assms(2) show ?thesis by (auto simp: claim_pending_send_def)
qed (use assms in \<open>simp add: claim_pending_send_def\<close>)

lemma resolve_ok:
  assumes "sends_ok (pending_sends s)" and "resolve_pending_send send st err now s = Inr (x, t)"
  shows "sends_ok (pending_sends t)"
proof -
  from assms(2) have st: "st \<notin> {SPending, SDelivering}"
    and t: "pending_sends t = update_where (\<lambda>r. sd_id r = send) (retire st (clip_error err) now) (pending_sends s)"
    by (auto simp: resolve_pending_send_def split: if_splits)
  show ?thesis
    unfolding t by (rule update_where_sends_ok[OF assms(1)]) (simp add: retired_closed[OF st])
qed

text \<open>Failing a list of rows one by one is one update of all rows with their numbers.\<close>

lemma fold_fail_row:
  "fold (fail_row err now) xs rows =
     update_where (\<lambda>r. sd_id r \<in> sd_id ` set xs) (retire SFailed (Some err) now) rows"
proof (induction xs arbitrary: rows)
  case Nil
  show ?case by (simp add: update_where_def)
next
  case (Cons x xs)
  have "retire SFailed (Some err) now (retire SFailed (Some err) now r) = retire SFailed (Some err) now r" for r
    by (simp add: retire_def)
  then show ?case unfolding fold.simps comp_apply Cons.IH by (simp add: fail_row_def update_where_def comp_def)
qed

definition swept :: "int \<Rightarrow> int \<Rightarrow> send_row \<Rightarrow> send_row" where
  "swept stale now r =
     (if overdue now r then retire SFailed (Some ''timeout'') now r
      else if abandoned stale now r then retire SFailed (Some lost_message) now r
      else r)"

lemma sweep_eq:
  assumes ok: "sends_ok (pending_sends s)"
  shows "sweep_expired_pending_sends stale now s =
    Inr (filter (overdue now) (pending_sends s) @ filter (abandoned stale now) (pending_sends s),
         s\<lparr>pending_sends := map (swept stale now) (pending_sends s)\<rparr>)"
proof -
  let ?rows = "pending_sends s"
  let ?e = "retire SFailed (Some ''timeout'') now" and ?l = "retire SFailed (Some lost_message) now"
  have chosen: "sd_id r \<in> sd_id ` set (filter P ?rows) \<longleftrightarrow> P r" if "r \<in> set ?rows" for P r
    using same_row[OF ok that] that by auto
  have one: "(if sd_id (if sd_id r \<in> sd_id ` set (filter (overdue now) ?rows) then ?e r else r)
             \<in> sd_id ` set (filter (abandoned stale now) ?rows)
          then ?l (if sd_id r \<in> sd_id ` set (filter (overdue now) ?rows) then ?e r else r)
          else (if sd_id r \<in> sd_id ` set (filter (overdue now) ?rows) then ?e r else r)) = swept stale now r"
    if "r \<in> set ?rows" for r
  proof -
    have "\<not> (overdue now r \<and> abandoned stale now r)" by (simp add: overdue_def abandoned_def)
    then show ?thesis
      using chosen[OF that, of "overdue now"] chosen[OF that, of "abandoned stale now"]
      by (cases "overdue now r") (simp_all only: swept_def retire_simps if_True if_False simp_thms)
  qed
  have "fold (fail_row lost_message now) (filter (abandoned stale now) ?rows)
          (fold (fail_row ''timeout'' now) (filter (overdue now) ?rows) ?rows) = map (swept stale now) ?rows"
    unfolding fold_fail_row update_where_def map_map comp_def by (rule map_cong[OF refl one])
  then show ?thesis by (simp only: sweep_expired_pending_sends_def Let_def)
qed

lemma sweep_ok:
  assumes "sends_ok (pending_sends s)" and "sweep_expired_pending_sends stale now s = Inr (x, t)"
  shows "sends_ok (pending_sends t)"
proof -
  have "map (swept stale now) rows
      = update_where (\<lambda>r. overdue now r \<or> abandoned stale now r) (swept stale now) rows" for rows
    by (auto simp: update_where_def swept_def)
  moreover have "sends_ok (update_where (\<lambda>r. overdue now r \<or> abandoned stale now r) (swept stale now) (pending_sends s))"
    by (rule update_where_sends_ok[OF assms(1)]) (auto simp: swept_def retired_closed)
  ultimately show ?thesis using assms by (auto simp add: sweep_eq)
qed

section \<open>The queue as a state machine\<close>

inductive send_step :: "store \<Rightarrow> store \<Rightarrow> bool" where
  elsewhere: "pending_sends t = pending_sends s \<Longrightarrow> send_step s t"
| enqueue: "enqueue_pending_send send task payload timeout_ms now s = Inr (x, t) \<Longrightarrow> send_step s t"
| claim: "claim_pending_send task s = Inr (c, t) \<Longrightarrow> send_step s t"
| resolve: "resolve_pending_send send st err now s = Inr (x, t) \<Longrightarrow> send_step s t"
| sweep: "sweep_expired_pending_sends stale now s = Inr (gone, t) \<Longrightarrow> send_step s t"

definition send_table_ok :: "store \<Rightarrow> bool" where
  "send_table_ok s \<longleftrightarrow> sends_ok (pending_sends s)"

lemma send_step_ok: "send_step s t \<Longrightarrow> send_table_ok s \<Longrightarrow> send_table_ok t"
  unfolding send_table_ok_def
proof (induction rule: send_step.induct)
  case (elsewhere t s)
  then show ?case by simp
qed (blast intro: enqueue_ok claim_ok resolve_ok sweep_ok)+

interpretation sends: preserved send_step send_table_ok
  by unfold_locales (blast dest: send_step_ok)

lemma reachable_sends: "send_step\<^sup>*\<^sup>* empty_store s \<Longrightarrow> sends_ok (pending_sends s)"
  using sends.run_inv[of empty_store s] by (simp add: send_table_ok_def sends_ok_def empty_store_def)

text \<open>Once a follow-up has left the pending state, it never returns to it.\<close>

definition taken :: "store \<Rightarrow> ident set" where
  "taken s = {sd_id r | r. r \<in> set (pending_sends s) \<and> sd_state r \<noteq> SPending}"

lemma taken_mapped:
  assumes "pending_sends t = map f (pending_sends s) @ new"
    and "\<And>r. sd_id (f r) = sd_id r" and "\<And>r. sd_state r \<noteq> SPending \<Longrightarrow> sd_state (f r) \<noteq> SPending"
  shows "taken s \<subseteq> taken t"
proof
  fix i assume "i \<in> taken s"
  then obtain r where "r \<in> set (pending_sends s)" "sd_state r \<noteq> SPending" "i = sd_id r"
    by (auto simp: taken_def)
  with assms show "i \<in> taken t" unfolding taken_def by (force intro: exI[of _ "f r"])
qed

lemma taken_updated:
  assumes "pending_sends t = update_where p f (pending_sends s) @ new"
    and "\<And>r. sd_id (f r) = sd_id r" and "\<And>r. sd_state (f r) \<noteq> SPending"
  shows "taken s \<subseteq> taken t"
  using assms by (intro taken_mapped[of t "\<lambda>r. if p r then f r else r"]) (simp_all add: update_where_def)

lemma send_step_taken: "send_step s t \<Longrightarrow> send_table_ok s \<Longrightarrow> taken s \<subseteq> taken t"
proof (induction rule: send_step.induct)
  case (elsewhere t s)
  then show ?case by (simp add: taken_def)
next
  case (enqueue send task payload timeout_ms now s x t)
  then show ?case
    by (intro taken_updated[of t "\<lambda>r. sd_task r = task \<and> is_open_send r"
          "retire SCancelled (Some ''superseded'') now"]) (auto simp: enqueue_eq supersede_def split: if_splits)
next
  case (claim task s c t)
  show ?case
  proof (cases c)
    case None
    with claim have "t = s" by (auto simp: claim_pending_send_def split: option.splits)
    then show ?thesis by simp
  next
    case (Some row)
    with claim show ?thesis
      by (intro taken_updated[of t "\<lambda>r. sd_id r = sd_id row" "\<lambda>r. r\<lparr>sd_state := SDelivering\<rparr>" s "[]"])
         (auto simp: claim_pending_send_def split: option.splits)
  qed
next
  case (resolve send st err now s x t)
  then show ?case
    by (intro taken_updated[of t "\<lambda>r. sd_id r = send" "retire st (clip_error err) now" s "[]"])
       (auto simp: resolve_pending_send_def split: if_splits)
next
  case (sweep stale now s gone t)
  then show ?case
    by (intro taken_mapped[of t "swept stale now" s "[]"])
       (auto simp: send_table_ok_def sweep_eq swept_def)
qed

interpretation taken: monotone_run send_step send_table_ok taken "(\<subseteq>)"
  by unfold_locales (auto dest: send_step_taken)

section \<open>Properties\<close>

definition queued_once :: store where
  "queued_once = empty_store\<lparr>pending_sends := [\<lparr>sd_id = ''p1'', sd_task = ''t1'', sd_payload = ''go'',
     sd_state = SPending, sd_error = None, sd_created_at = 0, sd_deadline_at = 50, sd_resolved_at = None\<rparr>]\<rparr>"

lemma run_queued_once: "enqueue_pending_send ''p1'' ''t1'' ''go'' 50 0 empty_store = Inr ((), queued_once)"
  by (simp add: enqueue_eq queued_once_def empty_store_def MAX_INSTANT_def supersede_def)

lemma reach_queued_once: "send_step\<^sup>*\<^sup>* empty_store queued_once"
  by (rule r_into_rtranclp, rule send_step.enqueue[OF run_queued_once])

lemma latest_pending:
  assumes "send_step\<^sup>*\<^sup>* empty_store s" and "enqueue_pending_send send task payload timeout_ms now s = Inr (x, t)"
  shows "\<exists>row v. claim_pending_send task t = Inr (Some row, v) \<and> sd_id row = send \<and> sd_payload row = payload"
proof -
  have "find (\<lambda>r. sd_task r = task \<and> sd_state r = SPending) (supersede task now (pending_sends s)) = None"
    using supersede_closed by (fastforce simp: find_None_iff is_open_send_def)
  then have "find (\<lambda>r. sd_task r = task \<and> sd_state r = SPending)
      (supersede task now (pending_sends s) @ [\<lparr>sd_id = send, sd_task = task, sd_payload = payload,
         sd_state = SPending, sd_error = None, sd_created_at = now, sd_deadline_at = now + timeout_ms,
         sd_resolved_at = None\<rparr>])
    = Some \<lparr>sd_id = send, sd_task = task, sd_payload = payload, sd_state = SPending, sd_error = None,
         sd_created_at = now, sd_deadline_at = now + timeout_ms, sd_resolved_at = None\<rparr>"
    by (rule find_snoc) simp
  with assms(2) show ?thesis by (auto simp: enqueue_eq claim_pending_send_def split: if_splits)
qed

text \<open>
  An accepted follow-up replaces the task's earlier intent.  When enqueueing succeeds, the new
  row is the task's only open one, the next claim for the task yields exactly its text, every
  earlier open row of the task is cancelled, and the rows of other tasks are untouched; it fails
  only when the deadline lies beyond the last instant SQLite can print or the number was used
  before, so the constraint of one open row per task never fires.
\<close>

theorem latest_intent_wins:
  assumes "send_step\<^sup>*\<^sup>* empty_store s"
  shows "case enqueue_pending_send send task payload timeout_ms now s of
      Inr (_, t) \<Rightarrow>
        {r \<in> set (pending_sends t). sd_task r = task \<and> is_open_send r}
          = {\<lparr>sd_id = send, sd_task = task, sd_payload = payload, sd_state = SPending, sd_error = None,
               sd_created_at = now, sd_deadline_at = now + timeout_ms, sd_resolved_at = None\<rparr>}
        \<and> (\<exists>row v. claim_pending_send task t = Inr (Some row, v) \<and> sd_id row = send \<and> sd_payload row = payload)
        \<and> filter (\<lambda>r. sd_task r \<noteq> task) (pending_sends t) = filter (\<lambda>r. sd_task r \<noteq> task) (pending_sends s)
    | Inl e \<Rightarrow> (now + timeout_ms > MAX_INSTANT \<or> send \<in> sd_id ` set (pending_sends s))
        \<and> e \<noteq> IntegrityError ''UNIQUE constraint failed: pending_sends.task_id''"
proof -
  let ?new = "\<lparr>sd_id = send, sd_task = task, sd_payload = payload, sd_state = SPending, sd_error = None,
     sd_created_at = now, sd_deadline_at = now + timeout_ms, sd_resolved_at = None\<rparr>"
  let ?old = "supersede task now (pending_sends s)"
  have no_open: "sd_task r \<noteq> task" if "r \<in> set ?old" "is_open_send r" for r
    using supersede_closed that by blast
  have others: "filter (\<lambda>r. sd_task r \<noteq> task) (supersede task now rows) = filter (\<lambda>r. sd_task r \<noteq> task) rows"
    for rows
    by (induction rows) (auto simp: supersede_def)
  have only: "{r \<in> set (?old @ [?new]). sd_task r = task \<and> is_open_send r} = {?new}"
    using no_open by (auto simp: is_open_send_def)
  show ?thesis
  proof (cases "enqueue_pending_send send task payload timeout_ms now s")
    case (Inl e)
    then show ?thesis by (auto simp: enqueue_eq split: if_splits)
  next
    case (Inr r)
    obtain t where r: "r = ((), t)" by (cases r) simp
    with Inr have "pending_sends t = ?old @ [?new]" by (auto simp: enqueue_eq split: if_splits)
    with only others latest_pending[OF assms Inr[unfolded r]] show ?thesis
      by (simp add: Inr r del: set_append)
  qed
qed

lemma latest_intent_wins_witness:
  "\<exists>t row v. enqueue_pending_send ''p2'' ''t1'' ''stop'' 50 10 queued_once = Inr ((), t)
     \<and> claim_pending_send ''t1'' t = Inr (Some row, v) \<and> sd_payload row = ''stop''"
proof -
  obtain t where "enqueue_pending_send ''p2'' ''t1'' ''stop'' 50 10 queued_once = Inr ((), t)"
    by (simp add: enqueue_eq queued_once_def empty_store_def MAX_INSTANT_def)
  with latest_intent_wins[OF reach_queued_once, where send = "''p2''" and task = "''t1''" and payload = "''stop''"
      and timeout_ms = 50 and now = 10]
  show ?thesis by auto
qed

text \<open>
  C13: a follow-up is handed to at most one deliverer.  Once a claim has returned a row, no later
  claim, whichever operations ran in between, returns that follow-up again.
\<close>

theorem follow_up_claimed_once:
  assumes "send_step\<^sup>*\<^sup>* empty_store s" and "claim_pending_send task s = Inr (Some row, t)"
    and "send_step\<^sup>*\<^sup>* t v" and "claim_pending_send task' v = Inr (Some row', w)"
  shows "sd_id row' \<noteq> sd_id row"
proof -
  have ok: "send_table_ok s" using reachable_sends[OF assms(1)] by (simp add: send_table_ok_def)
  with send_step.claim[OF assms(2)] send_step_ok have ok': "send_table_ok t" by blast
  with assms(3) have "send_table_ok v" by (blast intro: sends.run_inv)
  from assms(2) have row: "row \<in> set (pending_sends s)" and t: "pending_sends t =
      update_where (\<lambda>r. sd_id r = sd_id row) (\<lambda>r. r\<lparr>sd_state := SDelivering\<rparr>) (pending_sends s)"
    by (auto simp: claim_pending_send_def find_Some_iff split: option.splits)
  from row have "row\<lparr>sd_state := SDelivering\<rparr> \<in> set (pending_sends t)"
    unfolding t set_update_where by blast
  then have "sd_id row \<in> taken t"
    unfolding taken_def by (intro CollectI exI[of _ "row\<lparr>sd_state := SDelivering\<rparr>"]) simp
  with taken.run_le[OF assms(3) ok'] have "sd_id row \<in> taken v" by blast
  then obtain q where q: "q \<in> set (pending_sends v)" "sd_id q = sd_id row" "sd_state q \<noteq> SPending"
    by (auto simp: taken_def)
  from assms(4) have "row' \<in> set (pending_sends v)" "sd_state row' = SPending"
    by (auto simp: claim_pending_send_def find_Some_iff split: option.splits)
  with q \<open>send_table_ok v\<close> same_row[of "pending_sends v" q row'] show ?thesis
    by (auto simp: send_table_ok_def)
qed

lemma follow_up_claimed_once_witness:
  "\<exists>row t v w row'. claim_pending_send ''t1'' queued_once = Inr (Some row, t)
     \<and> enqueue_pending_send ''p2'' ''t1'' ''stop'' 50 10 t = Inr ((), v)
     \<and> claim_pending_send ''t1'' v = Inr (Some row', w) \<and> sd_id row' \<noteq> sd_id row"
proof -
  obtain row t where c: "claim_pending_send ''t1'' queued_once = Inr (Some row, t)"
    and t: "map sd_id (pending_sends t) = [''p1'']"
    by (simp add: claim_pending_send_def queued_once_def)
  obtain v where e: "enqueue_pending_send ''p2'' ''t1'' ''stop'' 50 10 t = Inr ((), v)"
    using t by (auto simp: enqueue_eq MAX_INSTANT_def)
  have "send_step\<^sup>*\<^sup>* empty_store t"
    using reach_queued_once send_step.claim[OF c] by (rule rtranclp.rtrancl_into_rtrancl)
  from latest_pending[OF this e] obtain row' w where "claim_pending_send ''t1'' v = Inr (Some row', w)"
    by blast
  with follow_up_claimed_once[OF reach_queued_once c r_into_rtranclp[where r = send_step, OF send_step.enqueue[OF e]]] c e
  show ?thesis by blast
qed

text \<open>
  The sweep fails what it must and nothing else.  It returns the pending rows whose deadline
  has come and the claimed rows that are older than the limit, marks exactly those as failed with
  the reason that tells them apart, leaves every other row as it was, and leaves no task overdue.
\<close>

theorem sweep_is_exact:
  assumes "send_step\<^sup>*\<^sup>* empty_store s"
  shows "\<exists>failed t. sweep_expired_pending_sends stale now s = Inr (failed, t)
    \<and> set failed = {r \<in> set (pending_sends s). overdue now r \<or> abandoned stale now r}
    \<and> pending_sends t = map (\<lambda>r. if overdue now r
          then r\<lparr>sd_state := SFailed, sd_error := Some ''timeout'', sd_resolved_at := Some now\<rparr>
        else if abandoned stale now r
          then r\<lparr>sd_state := SFailed, sd_error := Some lost_message, sd_resolved_at := Some now\<rparr>
        else r) (pending_sends s)
    \<and> expired_pending_send_tasks now t = []"
proof -
  have "expired_pending_send_tasks now (s\<lparr>pending_sends := map (swept stale now) (pending_sends s)\<rparr>) = []"
    by (auto simp: expired_pending_send_tasks_def overdue_def swept_def filter_empty_conv)
  then show ?thesis
    using sweep_eq[OF reachable_sends[OF assms]] by (auto simp: swept_def retire_def)
qed

lemma sweep_is_exact_witness:
  "\<exists>failed t. sweep_expired_pending_sends STALE_DELIVERING 50 queued_once = Inr (failed, t)
     \<and> map sd_state (pending_sends t) = [SFailed] \<and> expired_pending_send_tasks 50 t = []"
proof -
  from sweep_is_exact[OF reach_queued_once, of STALE_DELIVERING 50] obtain failed t where
    "sweep_expired_pending_sends STALE_DELIVERING 50 queued_once = Inr (failed, t)"
    "expired_pending_send_tasks 50 t = []"
    "map sd_state (pending_sends t) = [SFailed]"
    by (auto simp: queued_once_def overdue_def)
  then show ?thesis by (intro exI conjI)
qed

text \<open>
  A superseded follow-up that a deliverer holds can still land: the cancellation does not take it
  back, and its outcome overwrites the cancelled row with \<open>delivered\<close>.
\<close>

theorem superseded_text_can_land:
  assumes "sends_ok (pending_sends s)" and "row \<in> set (pending_sends s)" and "sd_state row = SDelivering"
    and "enqueue_pending_send send (sd_task row) payload timeout_ms now s = Inr ((), t)"
  shows "\<exists>v. resolve_pending_send (sd_id row) SDelivered None later t = Inr ((), v)
    \<and> retire SCancelled (Some ''superseded'') now row \<in> set (pending_sends t)
    \<and> retire SDelivered None later row \<in> set (pending_sends v)"
proof -
  have c: "retire SCancelled (Some ''superseded'') now row \<in> set (pending_sends t)"
    using assms(2-4) by (auto simp: enqueue_eq supersede_def set_update_where is_open_send_def split: if_splits)
  moreover have "retire SDelivered None later (retire SCancelled (Some ''superseded'') now row)
      = retire SDelivered None later row"
    by (simp add: retire_def)
  ultimately have "retire SDelivered None later row \<in> set (update_where (\<lambda>r. sd_id r = sd_id row)
      (retire SDelivered None later) (pending_sends t))"
    by (force simp: set_update_where image_iff)
  with c show ?thesis by (simp add: resolve_pending_send_def clip_error_def)
qed

end
