(* ===== verification/Mailbox.thy ===== *)
theory Mailbox
  imports Pending_Sends
begin

text \<open>
  What the follow-up queue promises its clients: one mailbox per task.  A mailbox is empty, holds a
  text that waits, or holds a text that somebody has taken and is delivering; a new text replaces
  whatever was there.  The rows, their clocks and their error texts are details below this.
\<close>

section \<open>The specification\<close>

datatype mail = Vacant | Waiting ident string | Taken ident string

type_synonym mailboxes = "ident \<Rightarrow> mail"

inductive mail_step :: "mailboxes \<Rightarrow> mailboxes \<Rightarrow> bool" where
  put: "mail_step b (b(task := Waiting send payload))"
| take: "b task = Waiting send payload \<Longrightarrow> mail_step b (b(task := Taken send payload))"
| clear: "mail_step b (\<lambda>task. if task \<in> freed then Vacant else b task)"

section \<open>The abstraction\<close>

definition open_row :: "ident \<Rightarrow> send_row list \<Rightarrow> send_row option" where
  "open_row task = find (\<lambda>r. sd_task r = task \<and> is_open_send r)"

definition mail_of :: "send_row option \<Rightarrow> mail" where
  "mail_of row = (case row of None \<Rightarrow> Vacant
     | Some r \<Rightarrow> if sd_state r = SPending then Waiting (sd_id r) (sd_payload r) else Taken (sd_id r) (sd_payload r))"

definition boxes :: "store \<Rightarrow> mailboxes" where
  "boxes s = (\<lambda>task. mail_of (open_row task (pending_sends s)))"

lemma open_row_eq:
  assumes "sends_ok rows"
  shows "open_row task rows = Some r \<longleftrightarrow> r \<in> set rows \<and> sd_task r = task \<and> is_open_send r"
proof
  assume "open_row task rows = Some r"
  then show "r \<in> set rows \<and> sd_task r = task \<and> is_open_send r" by (auto simp: open_row_def find_Some_iff)
next
  assume r: "r \<in> set rows \<and> sd_task r = task \<and> is_open_send r"
  then obtain q where q: "open_row task rows = Some q"
    by (cases "open_row task rows") (auto simp: open_row_def find_None_iff)
  then have "q \<in> set rows \<and> sd_task q = task \<and> is_open_send q" by (auto simp: open_row_def find_Some_iff)
  with r assms have "q = r" by (auto simp: sends_ok_def)
  with q show "open_row task rows = Some r" by simp
qed

text \<open>Rewriting rows in place, with none opened.\<close>

lemma open_row_map:
  assumes ok: "sends_ok rows"
    and f: "\<And>r. r \<in> set rows \<Longrightarrow> sd_task (f r) = sd_task r \<and> (is_open_send (f r) \<longrightarrow> is_open_send r)"
  shows "open_row task (map f rows) = (case open_row task rows of None \<Rightarrow> None
    | Some r \<Rightarrow> if is_open_send (f r) then Some (f r) else None)"
proof (cases "open_row task rows")
  case None
  then have "\<not> (sd_task r = task \<and> is_open_send r)" if "r \<in> set rows" for r
    using that by (auto simp: open_row_def find_None_iff)
  with f have "open_row task (map f rows) = None" by (auto simp: open_row_def find_None_iff)
  with None show ?thesis by simp
next
  case (Some r)
  then have r: "r \<in> set rows" "sd_task r = task" "is_open_send r" using open_row_eq[OF ok] by auto
  have only: "q = r" if "q \<in> set rows" "sd_task (f q) = task" "is_open_send (f q)" for q
    using f[OF that(1)] that r ok by (auto simp: sends_ok_def)
  show ?thesis
  proof (cases "is_open_send (f r)")
    case True
    obtain q where q: "open_row task (map f rows) = Some q"
      using f[OF r(1)] r True by (cases "open_row task (map f rows)") (auto simp: open_row_def find_None_iff)
    then obtain q' where "q = f q'" "q' \<in> set rows" "sd_task q = task" "is_open_send q"
      by (auto simp: open_row_def find_Some_iff)
    with only have "q = f r" by blast
    with q Some True show ?thesis by simp
  next
    case False
    with only have "open_row task (map f rows) = None" by (auto simp: open_row_def find_None_iff)
    with Some False show ?thesis by simp
  qed
qed

section \<open>The operations on mailboxes\<close>

lemma cleared_boxes:
  assumes ok: "sends_ok (pending_sends s)" and t: "pending_sends t = map f (pending_sends s)"
    and f: "\<And>r. r \<in> set (pending_sends s) \<Longrightarrow> f r = r \<or> (sd_task (f r) = sd_task r \<and> \<not> is_open_send (f r))"
  shows "mail_step (boxes s) (boxes t)"
proof -
  let ?freed = "{task. \<exists>r. open_row task (pending_sends s) = Some r \<and> \<not> is_open_send (f r)}"
  have "boxes t task = (if task \<in> ?freed then Vacant else boxes s task)" for task
  proof -
    have "open_row task (pending_sends t) = (case open_row task (pending_sends s) of None \<Rightarrow> None
        | Some r \<Rightarrow> if is_open_send (f r) then Some (f r) else None)"
      unfolding t using f by (intro open_row_map[OF ok]) metis
    moreover have "f r = r" if "open_row task (pending_sends s) = Some r" "is_open_send (f r)" for r
      using f[of r] that open_row_eq[OF ok] by blast
    ultimately show ?thesis by (auto simp: boxes_def mail_of_def split: option.splits)
  qed
  then have "boxes t = (\<lambda>task. if task \<in> ?freed then Vacant else boxes s task)" by (rule ext)
  with mail_step.clear[of "boxes s" ?freed] show ?thesis by (simp only:)
qed

lemma enqueue_boxes:
  assumes ok: "sends_ok (pending_sends s)" and run: "enqueue_pending_send send task payload timeout_ms now s = Inr (x, t)"
  shows "boxes t = (boxes s)(task := Waiting send payload)"
proof
  fix other
  let ?new = "\<lparr>sd_id = send, sd_task = task, sd_payload = payload, sd_state = SPending, sd_error = None,
    sd_created_at = now, sd_deadline_at = now + timeout_ms, sd_resolved_at = None\<rparr>"
  let ?old = "supersede task now (pending_sends s)"
  from run have t: "pending_sends t = ?old @ [?new]" by (auto simp: enqueue_eq split: if_splits)
  show "boxes t other = ((boxes s)(task := Waiting send payload)) other"
  proof (cases "other = task")
    case True
    have "open_row task ?old = None"
      using supersede_closed by (fastforce simp: open_row_def find_None_iff)
    then have "open_row task (pending_sends t) = Some ?new"
      unfolding t open_row_def by (intro find_snoc) (simp_all add: is_open_send_def)
    with True show ?thesis by (simp add: boxes_def mail_of_def)
  next
    case False
    have "open_row other ?old = open_row other (pending_sends s)"
    proof -
      have "open_row other ?old = (case open_row other (pending_sends s) of None \<Rightarrow> None
        | Some r \<Rightarrow> if is_open_send (if sd_task r = task \<and> is_open_send r
            then retire SCancelled (Some ''superseded'') now r else r)
          then Some (if sd_task r = task \<and> is_open_send r then retire SCancelled (Some ''superseded'') now r else r) else None)"
        unfolding supersede_def update_where_def by (rule open_row_map[OF ok]) (simp add: retired_closed)
      moreover have "sd_task r = other" if "open_row other (pending_sends s) = Some r" for r
        using that by (auto simp: open_row_def find_Some_iff)
      moreover have "is_open_send r" if "open_row other (pending_sends s) = Some r" for r
        using that by (auto simp: open_row_def find_Some_iff)
      ultimately show ?thesis using False by (cases "open_row other (pending_sends s)") auto
    qed
    moreover have "open_row other (?old @ [?new]) = open_row other ?old"
      using False unfolding open_row_def by (intro find_append_None) simp
    ultimately show ?thesis using False by (simp add: boxes_def t)
  qed
qed

lemma claim_boxes:
  assumes ok: "sends_ok (pending_sends s)" and run: "claim_pending_send task s = Inr (c, t)"
  shows "case boxes s task of
      Waiting send payload \<Rightarrow> (\<exists>row. c = Some row \<and> sd_id row = send \<and> sd_payload row = payload)
        \<and> boxes t = (boxes s)(task := Taken send payload)
    | _ \<Rightarrow> c = None \<and> t = s"
proof (cases c)
  case None
  with run have "t = s" "\<forall>r \<in> set (pending_sends s). \<not> (sd_task r = task \<and> sd_state r = SPending)"
    by (auto simp: claim_pending_send_def find_None_iff split: option.splits)
  with None show ?thesis
    by (auto simp: boxes_def mail_of_def open_row_def find_Some_iff split: option.splits mail.splits)
next
  case (Some row)
  let ?f = "\<lambda>r. if sd_id r = sd_id row then r\<lparr>sd_state := SDelivering\<rparr> else r"
  from run Some have row: "row \<in> set (pending_sends s)" "sd_task row = task" "sd_state row = SPending"
    and t: "pending_sends t = map ?f (pending_sends s)"
    by (auto simp: claim_pending_send_def find_Some_iff update_where_def split: option.splits)
  then have here: "open_row task (pending_sends s) = Some row"
    using open_row_eq[OF ok] by (auto simp: is_open_send_def)
  have same: "sd_id r = sd_id row \<Longrightarrow> r \<in> set (pending_sends s) \<Longrightarrow> r = row" for r
    using same_row[OF ok] row(1) by blast
  have f: "sd_task (?f r) = sd_task r \<and> (is_open_send (?f r) \<longrightarrow> is_open_send r)" if "r \<in> set (pending_sends s)" for r
    using same[OF _ that] row(3) by (cases "sd_id r = sd_id row") (auto simp: is_open_send_def)
  have "boxes t other = ((boxes s)(task := Taken (sd_id row) (sd_payload row))) other" for other
  proof -
    have opened: "open_row other (pending_sends t) = (case open_row other (pending_sends s) of None \<Rightarrow> None
        | Some r \<Rightarrow> if is_open_send (?f r) then Some (?f r) else None)"
      unfolding t by (rule open_row_map[OF ok f])
    show ?thesis
    proof (cases "other = task")
      case True
      with opened here show ?thesis by (simp add: boxes_def mail_of_def is_open_send_def)
    next
      case False
      have "?f r = r \<and> is_open_send r" if "open_row other (pending_sends s) = Some r" for r
      proof -
        from that have r: "r \<in> set (pending_sends s)" "sd_task r = other" "is_open_send r"
          unfolding open_row_eq[OF ok] by blast+
        with False row(2) same[OF _ r(1)] show ?thesis by auto
      qed
      with opened have "open_row other (pending_sends t) = open_row other (pending_sends s)"
        by (cases "open_row other (pending_sends s)") simp_all
      with False show ?thesis by (simp add: boxes_def)
    qed
  qed
  with Some here row(3) show ?thesis by (auto simp: boxes_def mail_of_def)
qed

lemma send_step_mail:
  assumes "send_step s t" and "sends_ok (pending_sends s)"
  shows "mail_step\<^sup>*\<^sup>* (boxes s) (boxes t)"
  using assms
proof (induction rule: send_step.induct)
  case (elsewhere t s)
  then show ?case by (simp add: boxes_def)
next
  case (enqueue send task payload timeout_ms now s x t)
  then show ?case using enqueue_boxes mail_step.put by (metis r_into_rtranclp)
next
  case (claim task s c t)
  then show ?case
    using claim_boxes[OF claim(2,1)] mail_step.take[of "boxes s" task]
    by (cases "boxes s task") (auto simp del: fun_upd_apply)
next
  case (resolve send st err now s x t)
  let ?f = "\<lambda>r. if sd_id r = send then retire st (clip_error err) now r else r"
  from resolve have st: "st \<notin> {SPending, SDelivering}" and t: "pending_sends t = map ?f (pending_sends s)"
    by (auto simp: resolve_pending_send_def update_where_def split: if_splits)
  have "mail_step (boxes s) (boxes t)"
    by (rule cleared_boxes[OF resolve(2) t]) (simp add: retired_closed[OF st])
  then show ?case by (rule r_into_rtranclp[where r = mail_step])
next
  case (sweep stale now s gone t)
  then have t: "pending_sends t = map (swept stale now) (pending_sends s)" by (auto simp: sweep_eq)
  have "mail_step (boxes s) (boxes t)"
    by (rule cleared_boxes[OF sweep(2) t]) (auto simp: swept_def retired_closed)
  then show ?case by (rule r_into_rtranclp[where r = mail_step])
qed

section \<open>Properties\<close>



text \<open>
  A claim is exactly a take.  It returns the text that waits in the task's mailbox and marks it
  taken, changing no other mailbox; when nothing waits (the mailbox is empty, or its text is with
  another deliverer) it returns nothing and changes nothing.
\<close>

theorem claim_takes_the_waiting_text:
  assumes "send_step\<^sup>*\<^sup>* empty_store s" and "claim_pending_send task s = Inr (c, t)"
  shows "case boxes s task of
      Waiting send payload \<Rightarrow> (\<exists>row. c = Some row \<and> sd_id row = send \<and> sd_payload row = payload)
        \<and> boxes t = (boxes s)(task := Taken send payload)
    | _ \<Rightarrow> c = None \<and> t = s"
  by (rule claim_boxes[OF reachable_sends[OF assms(1)] assms(2)])

lemma claim_takes_the_waiting_text_witness:
  "\<exists>row t. claim_pending_send ''t1'' queued_once = Inr (Some row, t) \<and> sd_payload row = ''go''
    \<and> boxes t ''t1'' = Taken ''p1'' ''go''"
proof -
  obtain c t where run: "claim_pending_send ''t1'' queued_once = Inr (c, t)"
    by (simp add: claim_pending_send_def queued_once_def)
  have "boxes queued_once ''t1'' = Waiting ''p1'' ''go''"
    by (simp add: boxes_def mail_of_def open_row_def queued_once_def is_open_send_def)
  with claim_takes_the_waiting_text[OF reach_queued_once run] run show ?thesis by auto
qed

end
