(* ===== verification/Protocol.thy ===== *)
theory Protocol
  imports Store_Events_Facts
begin

text \<open>
  \<open>lib/rozoro_monitor/protocol.py\<close>: validation and framing of protocol v1.

  A message is a JSON value; an object is an association list in member order.  A Python string
  is a HOL string, so its characters are code points up to 255; nothing here looks at a character
  except the identifier test (ASCII) and the printer (escapes).  A number that is not an integer
  keeps its literal: no check accepts one.  Failures carry the code and the field, not the prose.
\<close>

section \<open>Values and failures\<close>

datatype json =
    JNull | JBool bool | JInt int | JFloat string | JStr string
  | JArr "json list" | JObj "(string \<times> json) list"

record protocol_error =
  pe_code :: string
  pe_field :: "string option"

type_synonym 'a checked = "protocol_error + 'a"

definition fail :: "string \<Rightarrow> string option \<Rightarrow> 'a checked" where
  "fail code field = Inl \<lparr>pe_code = code, pe_field = field\<rparr>"

definition VERSION :: int where "VERSION = 1"

definition MAX_INTEGER :: int where "MAX_INTEGER = 9007199254740991"

definition MAX_FRAME_BYTES :: nat where "MAX_FRAME_BYTES = 1048576"

section \<open>Checks of one field\<close>

type_synonym check = "json \<Rightarrow> string \<Rightarrow> unit checked"

definition demand :: "(json \<Rightarrow> bool) \<Rightarrow> check" where
  "demand p = (\<lambda>value field. if p value then Inr () else fail ''invalid-field'' (Some field))"

definition is_letter_or_digit :: "char \<Rightarrow> bool" where
  "is_letter_or_digit c \<longleftrightarrow> (CHR ''A'' \<le> c \<and> c \<le> CHR ''Z'') \<or> (CHR ''a'' \<le> c \<and> c \<le> CHR ''z'')
     \<or> (CHR ''0'' \<le> c \<and> c \<le> CHR ''9'')"

definition id_text :: "string \<Rightarrow> bool" where
  "id_text s \<longleftrightarrow> s \<noteq> [] \<and> length s \<le> 128 \<and> is_letter_or_digit (hd s)
     \<and> list_all (\<lambda>c. is_letter_or_digit c \<or> c \<in> set ''._:@+-'') (tl s)"

definition is_id :: "json \<Rightarrow> bool" where
  "is_id v = (case v of JStr s \<Rightarrow> id_text s | _ \<Rightarrow> False)"

definition is_array :: "json \<Rightarrow> bool" where
  "is_array v = (case v of JArr _ \<Rightarrow> True | _ \<Rightarrow> False)"

definition is_text :: "nat \<Rightarrow> json \<Rightarrow> bool" where
  "is_text limit v = (case v of JStr s \<Rightarrow> s \<noteq> [] \<and> length s \<le> limit | _ \<Rightarrow> False)"

definition is_between :: "int \<Rightarrow> json \<Rightarrow> bool" where
  "is_between low v = (case v of JInt n \<Rightarrow> low \<le> n \<and> n \<le> MAX_INTEGER | _ \<Rightarrow> False)"

definition is_boolean :: "json \<Rightarrow> bool" where
  "is_boolean v = (case v of JBool _ \<Rightarrow> True | _ \<Rightarrow> False)"

definition is_object :: "json \<Rightarrow> bool" where
  "is_object v = (case v of JObj _ \<Rightarrow> True | _ \<Rightarrow> False)"

definition is_one_of :: "string list \<Rightarrow> json \<Rightarrow> bool" where
  "is_one_of allowed v = (case v of JStr s \<Rightarrow> s \<in> set allowed | _ \<Rightarrow> False)"

definition ID :: check where "ID = demand is_id"
definition POSITIVE :: check where "POSITIVE = demand (is_between 1)"
definition NONNEGATIVE :: check where "NONNEGATIVE = demand (is_between 0)"
definition BOOL :: check where "BOOL = demand is_boolean"
definition STRING :: check where "STRING = demand (is_text 128)"
definition ARRAY :: check where "ARRAY = demand is_array"
definition OBJECT :: check where "OBJECT = demand is_object"
definition BOUNDED_STRING :: "nat \<Rightarrow> check" where "BOUNDED_STRING limit = demand (is_text limit)"
definition KNOWN_OR_UNKNOWN :: check where
  "KNOWN_OR_UNKNOWN = demand (\<lambda>v. v = JNull \<or> is_boolean v)"
definition ENUM :: "string list \<Rightarrow> check" where "ENUM allowed = demand (is_one_of allowed)"

definition NULLABLE :: "check \<Rightarrow> check" where
  "NULLABLE c = (\<lambda>value field. if value = JNull then Inr () else c value field)"

definition HARNESSES :: "string list" where
  "HARNESSES = [''claude'', ''pi'', ''codex'', ''copilot'']"
definition ROLES :: "string list" where "ROLES = [''crew'', ''watchtower'']"
definition PRIORITIES :: "string list" where "PRIORITIES = [''normal'', ''urgent'']"
definition RESULTS :: "string list" where
  "RESULTS = [''success'', ''failed'', ''cancelled'', ''unknown'']"
definition AVAILABILITIES :: "string list" where
  "AVAILABILITIES = [''busy'', ''waiting-background'', ''quiescent'', ''blocked'', ''gone'', ''unknown'']"
definition FOREGROUNDS :: "string list" where
  "FOREGROUNDS = [''running'', ''stopped'', ''unknown'']"
definition BACKGROUNDS :: "string list" where
  "BACKGROUNDS = [''active'', ''clear'', ''unknown'']"
definition VERDICT_WORDS :: "string list" where
  "VERDICT_WORDS = [''done'', ''waiting'', ''needs-action'', ''failed'', ''blocked'']"
definition REPORT_STATES :: "string list" where
  "REPORT_STATES = [''missing'', ''malformed'', ''valid'']"
definition SEND_PAYLOAD :: check where "SEND_PAYLOAD = BOUNDED_STRING 65536"
definition SEND_ENQUEUE_STATES :: "string list" where
  "SEND_ENQUEUE_STATES = [''delivered'', ''pending'', ''failed'']"
definition SEND_STATES :: "string list" where
  "SEND_STATES = [''pending'', ''delivering'', ''delivered'', ''failed'', ''cancelled'']"
definition ACTIONABLE_REASONS :: "string list" where
  "ACTIONABLE_REASONS = [''none'', ''quiescent'', ''missing-report'', ''malformed-report'',
     ''waiting-background'', ''native-turn-ended-report'', ''blocked'', ''failed'', ''needs-action'',
     ''gone'', ''unknown'']"

section \<open>Reports\<close>

definition member :: "string \<Rightarrow> json \<Rightarrow> json option" where
  "member name v = (case v of JObj fs \<Rightarrow> map_of fs name | _ \<Rightarrow> None)"

definition names :: "json \<Rightarrow> string list" where
  "names v = (case v of JObj fs \<Rightarrow> keys fs | _ \<Rightarrow> [])"

definition WIRE_TUPLES :: "(string \<times> string option \<times> string) list" where
  "WIRE_TUPLES = [
     (''missing'', None, ''missing-report''), (''malformed'', None, ''malformed-report''),
     (''valid'', Some ''done'', ''none''), (''valid'', Some ''done'', ''quiescent''),
     (''valid'', Some ''done'', ''gone''), (''valid'', Some ''waiting'', ''waiting-background''),
     (''valid'', Some ''waiting'', ''unknown''), (''valid'', Some ''waiting'', ''gone''),
     (''valid'', Some ''needs-action'', ''needs-action''), (''valid'', Some ''needs-action'', ''gone''),
     (''valid'', Some ''failed'', ''failed''), (''valid'', Some ''failed'', ''gone''),
     (''valid'', Some ''blocked'', ''blocked''), (''valid'', Some ''blocked'', ''gone'')]"

definition REPORT_SCHEMA :: "(string \<times> check) list" where
  "REPORT_SCHEMA = [(''task_id'', ID), (''generation'', POSITIVE), (''availability'', ENUM AVAILABILITIES),
     (''report_state'', ENUM REPORT_STATES), (''verdict'', NULLABLE (ENUM VERDICT_WORDS)),
     (''actionable_reason'', ENUM ACTIONABLE_REASONS)]"

definition REPORT_OPTIONAL_SCHEMA :: "(string \<times> check) list" where
  "REPORT_OPTIONAL_SCHEMA = [(''projection'', OBJECT)]"

text \<open>The checks of a table on the members that are there, in the table's order.\<close>

fun check_members :: "(string \<times> check) list \<Rightarrow> string \<Rightarrow> json \<Rightarrow> unit checked" where
  "check_members [] path v = Inr ()"
| "check_members ((name, c) # rest) path v =
     and_then (case member name v of None \<Rightarrow> Inr () | Some x \<Rightarrow> c x (path @ name))
       (\<lambda>_. check_members rest path v)"

definition text_or_null :: "json \<Rightarrow> string option" where
  "text_or_null v = (case v of JStr s \<Rightarrow> Some s | _ \<Rightarrow> None)"

definition wire_tuple :: "json \<Rightarrow> string option \<times> string option \<times> string option" where
  "wire_tuple v = (Option.bind (member ''report_state'' v) text_or_null,
     Option.bind (member ''verdict'' v) text_or_null, Option.bind (member ''actionable_reason'' v) text_or_null)"

definition digit_char :: "nat \<Rightarrow> char" where
  "digit_char d = char_of (48 + d)"

fun show_nat :: "nat \<Rightarrow> string" where
  "show_nat n = (if n < 10 then [digit_char n] else show_nat (n div 10) @ [digit_char (n mod 10)])"

declare show_nat.simps [simp del]

definition item_field :: "string \<Rightarrow> nat \<Rightarrow> string" where
  "item_field field index = field @ ''['' @ show_nat index @ '']''"

definition check_report :: "string \<Rightarrow> json \<Rightarrow> unit checked" where
  "check_report item rep =
     (if \<not> is_object rep then fail ''invalid-field'' (Some item)
      else if \<not> list_all (\<lambda>n. n \<in> set (names rep)) (keys REPORT_SCHEMA)
      then fail ''invalid-field'' (Some item)
      else if \<not> list_all (\<lambda>n. n \<in> set (keys REPORT_SCHEMA @ keys REPORT_OPTIONAL_SCHEMA)) (names rep)
      then fail ''invalid-field'' (Some item)
      else
        and_then (check_members REPORT_SCHEMA (item @ ''.'') rep) (\<lambda>_.
        and_then (check_members REPORT_OPTIONAL_SCHEMA (item @ ''.'') rep) (\<lambda>_.
          if wire_tuple rep \<in> (\<lambda>(st, v, why). (Some st, v, Some why)) ` set WIRE_TUPLES then Inr ()
          else fail ''invalid-field'' (Some item))))"

fun check_reports :: "string \<Rightarrow> nat \<Rightarrow> json list \<Rightarrow> unit checked" where
  "check_reports field index [] = Inr ()"
| "check_reports field index (r # rs) =
     and_then (check_report (item_field field index) r) (\<lambda>_. check_reports field (index + 1) rs)"

definition REPORTS :: check where
  "REPORTS = (\<lambda>value field. case value of
       JArr rs \<Rightarrow> check_reports field 0 rs
     | _ \<Rightarrow> fail ''invalid-field'' (Some field))"

section \<open>Messages\<close>

text \<open>Every message type with its required and its optional fields.\<close>

definition EVENT_FIELDS :: "(string \<times> check) list" where
  "EVENT_FIELDS = [(''event_id'', ID), (''producer_seq'', POSITIVE), (''session_id'', ID),
     (''harness'', ENUM HARNESSES), (''role'', ENUM ROLES)]"

definition IDENTITY_FIELDS :: "(string \<times> check) list" where
  "IDENTITY_FIELDS = [(''task_id'', ID), (''driver_id'', ID)]"

definition SCHEMAS :: "(string \<times> (string \<times> check) list \<times> (string \<times> check) list) list" where
  "SCHEMAS = [
     (''session.register'', EVENT_FIELDS, IDENTITY_FIELDS),
     (''turn.start'', EVENT_FIELDS @ [(''turn_id'', ID)], IDENTITY_FIELDS),
     (''background.start'', EVENT_FIELDS @ [(''job_id'', ID), (''job_kind'', STRING)],
        IDENTITY_FIELDS),
     (''background.stop'', EVENT_FIELDS @ [(''job_id'', ID), (''result'', ENUM RESULTS)],
        IDENTITY_FIELDS),
     (''background.snapshot'', EVENT_FIELDS @ [(''active_count'', NONNEGATIVE)], IDENTITY_FIELDS),
     (''turn.stop'', EVENT_FIELDS @ [(''background_active'', KNOWN_OR_UNKNOWN)], IDENTITY_FIELDS
        @ [(''turn_id'', ID)]),
     (''session.end'', EVENT_FIELDS, IDENTITY_FIELDS),
     (''health'', [(''request_id'', ID)], []),
     (''task.status'', [(''request_id'', ID), (''task_id'', ID)], []),
     (''task.status.result'', [(''request_id'', ID), (''task_id'', ID), (''found'', BOOL)],
        [(''availability'', ENUM AVAILABILITIES), (''foreground'', ENUM FOREGROUNDS),
        (''background'', ENUM BACKGROUNDS), (''background_count'', NULLABLE NONNEGATIVE),
        (''report_state'', ENUM REPORT_STATES), (''verdict'', NULLABLE (ENUM VERDICT_WORDS)),
        (''actionable_reason'', ENUM ACTIONABLE_REASONS)]),
     (''driver.snapshot'', [(''request_id'', ID), (''driver_id'', ID)], []),
     (''driver.disable'', [(''request_id'', ID), (''driver_id'', ID)], []),
     (''driver.authority'', [(''request_id'', ID), (''driver_id'', ID)], []),
     (''driver.authority.result'', [(''request_id'', ID), (''driver_id'', ID),
        (''authority'', ENUM [''active'', ''disabled'', ''unknown''])], []),
     (''driver.snapshot.result'', [(''request_id'', ID), (''driver_id'', ID),
        (''generation'', NONNEGATIVE), (''delivered_generation'', NONNEGATIVE),
        (''acked_generation'', NONNEGATIVE)], []),
     (''reconcile.pending'', [(''request_id'', ID), (''driver_id'', ID)],
        [(''scope'', ENUM [''delta'', ''full''])]),
     (''reconcile.pending.result'', [(''request_id'', ID), (''through'', NONNEGATIVE),
        (''reports'', REPORTS)], [(''since'', NONNEGATIVE), (''unchanged_count'', NONNEGATIVE)]),
     (''reconcile.ack'', [(''request_id'', ID), (''driver_id'', ID), (''through'', POSITIVE)],
        []),
     (''health.result'', [(''request_id'', ID), (''running'', BOOL), (''socket'', STRING),
        (''schema_version'', POSITIVE), (''last_durable_seq'', NONNEGATIVE),
        (''clients'', NONNEGATIVE), (''task_count'', NONNEGATIVE), (''driver_count'', NONNEGATIVE),
        (''generation'', NONNEGATIVE), (''delivered_generation'', NONNEGATIVE),
        (''acked_generation'', NONNEGATIVE), (''pending_count'', NONNEGATIVE),
        (''spool_backlog'', NONNEGATIVE), (''spool_errors'', NONNEGATIVE), (''pid'', POSITIVE)],
        [(''last_durable_time'', NULLABLE STRING), (''last_spool_error'', NULLABLE STRING),
        (''herdr_connected'', BOOL), (''herdr_last_error'', NULLABLE STRING),
        (''herdr_inventory_errors'', NONNEGATIVE), (''herdr_task_count'', NONNEGATIVE),
        (''drivers'', ARRAY)]),
     (''send.enqueue'', [(''request_id'', ID), (''task_id'', ID), (''payload'', SEND_PAYLOAD),
        (''timeout_ms'', POSITIVE)], []),
     (''send.enqueue.result'', [(''request_id'', ID), (''task_id'', ID),
        (''state'', ENUM SEND_ENQUEUE_STATES)], [(''error'', NULLABLE STRING)]),
     (''send.status'', [(''request_id'', ID), (''task_id'', ID)], []),
     (''send.status.result'', [(''request_id'', ID), (''task_id'', ID), (''found'', BOOL)],
        [(''state'', ENUM SEND_STATES), (''error'', NULLABLE STRING)]),
     (''monitor.stop'', [(''request_id'', ID)], []),
     (''watchtower.register'', [(''request_id'', ID), (''session_id'', ID),
        (''harness'', ENUM HARNESSES), (''driver_id'', ID)], []),
     (''watchtower.availability'', [(''request_id'', ID), (''driver_id'', ID)], []),
     (''watchtower.availability.result'', [(''request_id'', ID), (''driver_id'', ID),
        (''availability'', ENUM AVAILABILITIES)], []),
     (''notification.pending'', [(''request_id'', ID), (''driver_id'', ID)], []),
     (''notification'', [(''generation'', POSITIVE), (''priority'', ENUM PRIORITIES),
        (''task_count'', NONNEGATIVE)], []),
     (''notification.delivered'', [(''request_id'', ID), (''driver_id'', ID),
        (''generation'', POSITIVE)], []),
     (''reconcile'', [(''request_id'', ID), (''driver_id'', ID), (''through'', POSITIVE)], []),
     (''reconcile.result'', [(''request_id'', ID), (''through'', POSITIVE),
        (''reports'', REPORTS)], []),
     (''ack-generation'', [(''request_id'', ID), (''driver_id'', ID), (''through'', POSITIVE)],
        []),
     (''ok'', [(''request_id'', ID)], []),
     (''ack'', [(''event_id'', ID), (''durable_seq'', POSITIVE)], []),
     (''frame.error'',
        [(''code'', ENUM [''invalid-json'', ''frame-too-large'', ''invalid-message'', ''invalid-version'', ''invalid-event'', ''invalid-field'', ''unsupported-type'', ''read-timeout'', ''server-busy'', ''internal-error''])],
        []),
     (''event.error'', [(''event_id'', ID),
        (''code'', ENUM [''invalid-event'', ''invalid-field'', ''unsupported-type''])], []),
     (''request.error'', [(''request_id'', ID),
        (''code'', ENUM [''invalid-message'', ''invalid-field'', ''unsupported-type''])], [])]"

definition requires_producer_seq :: "string \<Rightarrow> bool" where
  "requires_producer_seq t = (case map_of SCHEMAS t of
       None \<Rightarrow> False | Some (required, _) \<Rightarrow> ''producer_seq'' \<in> set (keys required))"

definition LIFECYCLE_TYPES :: "string list" where
  "LIFECYCLE_TYPES = [''session.register'', ''turn.start'', ''background.start'', ''background.stop'',
     ''background.snapshot'', ''turn.stop'', ''session.end'']"

text \<open>A crew session names its task and no driver, a watchtower session its driver and no task.\<close>

definition check_identity :: "json \<Rightarrow> unit checked" where
  "check_identity m =
     (let identity = (if member ''role'' m = Some (JStr ''crew'') then ''task_id'' else ''driver_id'');
          other = (if identity = ''task_id'' then ''driver_id'' else ''task_id'')
      in if member identity m = None \<or> member other m \<noteq> None
         then fail ''invalid-event'' (Some identity) else Inr ())"

definition int_member :: "string \<Rightarrow> json \<Rightarrow> int" where
  "int_member name v = (case member name v of Some (JInt n) \<Rightarrow> n | _ \<Rightarrow> 0)"

fun check_snapshot :: "int \<Rightarrow> nat \<Rightarrow> json option list \<Rightarrow> json list \<Rightarrow> unit checked" where
  "check_snapshot through index seen [] = Inr ()"
| "check_snapshot through index seen (r # rs) =
     (if int_member ''generation'' r > through
      then fail ''invalid-field'' (Some (item_field ''reports'' index @ ''.generation''))
      else if member ''task_id'' r \<in> set seen
      then fail ''invalid-field'' (Some (item_field ''reports'' index @ ''.task_id''))
      else check_snapshot through (index + 1) (member ''task_id'' r # seen) rs)"

definition validate :: "json \<Rightarrow> json checked" where
  "validate m =
     (if \<not> is_object m then fail ''invalid-message'' None
      else if member ''v'' m \<noteq> Some (JInt VERSION) then fail ''invalid-version'' (Some ''v'')
      else case member ''type'' m of
        Some (JStr t) \<Rightarrow>
          (case map_of SCHEMAS t of
             None \<Rightarrow> fail ''unsupported-type'' (Some ''type'')
           | Some (required, optional) \<Rightarrow>
               let allowed = [''v'', ''type''] @ keys required @ keys optional;
                   unknown = sort (filter (\<lambda>n. n \<notin> set allowed) (names m));
                   missing = sort (filter (\<lambda>n. n \<notin> set (names m)) (keys required))
               in if unknown \<noteq> [] then fail ''invalid-field'' (Some (hd unknown))
                  else if missing \<noteq> []
                  then fail (if ''event_id'' \<in> set (keys required) then ''invalid-event'' else ''invalid-message'')
                         (Some (hd missing))
                  else
                    and_then (check_members (required @ optional) [] m) (\<lambda>_.
                    and_then (if t \<in> set LIFECYCLE_TYPES then check_identity m else Inr ()) (\<lambda>_.
                    and_then (if t \<in> {''reconcile.result'', ''reconcile.pending.result''}
                              then (case member ''reports'' m of
                                  Some (JArr rs) \<Rightarrow> check_snapshot (int_member ''through'' m) 0 [] rs
                                | _ \<Rightarrow> Inr ())
                              else Inr ()) (\<lambda>_. Inr m))))
      | _ \<Rightarrow> fail ''invalid-message'' (Some ''type''))"

section \<open>Lifecycle messages as events\<close>

text \<open>The reducer and the store read the message by member; \<open>event_of\<close> is that reading.\<close>

definition text_of :: "string \<Rightarrow> json \<Rightarrow> string option" where
  "text_of name m = Option.bind (member name m) text_or_null"

definition str_member :: "string \<Rightarrow> json \<Rightarrow> string" where
  "str_member name m = (case text_of name m of None \<Rightarrow> [] | Some s \<Rightarrow> s)"

definition harness_of :: "string \<Rightarrow> harness" where
  "harness_of s = (if s = ''claude'' then Claude else if s = ''pi'' then Pi
     else if s = ''codex'' then Codex else Copilot)"

definition role_of :: "string \<Rightarrow> role" where
  "role_of s = (if s = ''crew'' then Crew else Watchtower)"

definition kind_of :: "string \<Rightarrow> json \<Rightarrow> event_kind" where
  "kind_of t m =
     (if t = ''session.register'' then SessionRegister
      else if t = ''turn.start'' then TurnStart (str_member ''turn_id'' m)
      else if t = ''background.start''
      then BackgroundStart (str_member ''job_id'' m) (str_member ''job_kind'' m)
      else if t = ''background.stop''
      then BackgroundStop (str_member ''job_id'' m) (str_member ''result'' m)
      else if t = ''background.snapshot'' then BackgroundSnapshot (int_member ''active_count'' m)
      else if t = ''turn.stop''
      then TurnStop (case member ''background_active'' m of Some (JBool b) \<Rightarrow> Some b | _ \<Rightarrow> None)
             (text_of ''turn_id'' m)
      else if t = ''session.end'' then SessionEnd
      else OtherKind t)"

definition event_of :: "json \<Rightarrow> event" where
  "event_of m = \<lparr>ev_id = str_member ''event_id'' m,
     ev_session = str_member ''session_id'' m,
     ev_harness = harness_of (str_member ''harness'' m),
     ev_role = role_of (str_member ''role'' m),
     ev_task = text_of ''task_id'' m, ev_driver = text_of ''driver_id'' m,
     producer_no = int_member ''producer_seq'' m,
     ev_kind = kind_of (str_member ''type'' m) m\<rparr>"

section \<open>Framing\<close>

text \<open>The object hook of \<open>json.loads\<close>, which the parser calls for every object, innermost first.\<close>

definition unique_object :: "(string \<times> json) list \<Rightarrow> py_error + json" where
  "unique_object pairs =
     (if distinct (keys pairs) then Inr (JObj pairs)
      else Inl (ValueError ''duplicate object member''))"

text \<open>\<open>json.dumps\<close> with sorted keys, no spaces and ASCII output.\<close>

definition hex_char :: "nat \<Rightarrow> char" where
  "hex_char d = (if d < 10 then char_of (48 + d) else char_of (87 + d))"

definition escape_char :: "char \<Rightarrow> string" where
  "escape_char c = (let n = (of_char c :: nat) in
     if n = 34 then [CHR 0x5C, CHR 0x22]
     else if n = 92 then [CHR 0x5C, CHR 0x5C]
     else if n = 10 then [CHR 0x5C, CHR ''n'']
     else if n = 13 then [CHR 0x5C, CHR ''r'']
     else if n = 9 then [CHR 0x5C, CHR ''t'']
     else if n = 12 then [CHR 0x5C, CHR ''f'']
     else if n = 8 then [CHR 0x5C, CHR ''b'']
     else if 32 \<le> n \<and> n \<le> 126 then [c]
     else [CHR 0x5C] @ ''u00'' @ [hex_char (n div 16), hex_char (n mod 16)])"

definition quoted :: "string \<Rightarrow> string" where
  "quoted s = [CHR 0x22] @ concat (map escape_char s) @ [CHR 0x22]"

definition show_int :: "int \<Rightarrow> string" where
  "show_int n = (if n < 0 then ''-'' @ show_nat (nat (- n)) else show_nat (nat n))"

fun joined :: "string list \<Rightarrow> string" where
  "joined [] = []"
| "joined [x] = x"
| "joined (x # y # ys) = x @ '','' @ joined (y # ys)"

fun dumps :: "json \<Rightarrow> string" where
  "dumps JNull = ''null''"
| "dumps (JBool b) = (if b then ''true'' else ''false'')"
| "dumps (JInt n) = show_int n"
| "dumps (JFloat lit) = lit"
| "dumps (JStr s) = quoted s"
| "dumps (JArr vs) = ''['' @ joined (map dumps vs) @ '']''"
| "dumps (JObj fs) = ''{'' @ joined (map snd (sort_key fst
       (map (\<lambda>(k, v). (k, quoted k @ '':'' @ dumps v)) fs))) @ ''}''"

definition encode :: "json \<Rightarrow> string checked" where
  "encode m = and_then (validate m) (\<lambda>_.
     let frame = dumps m @ [CHR 0x0A]
     in if length frame > MAX_FRAME_BYTES then fail ''frame-too-large'' None else Inr frame)"

text \<open>
  \<open>decode\<close> of a frame of so many bytes.  \<open>parsed\<close> is what the parser of the standard library makes
  of its bytes with the object hook in place: a value, or nothing when it raises.
\<close>

definition decode :: "nat \<Rightarrow> json option \<Rightarrow> json checked" where
  "decode bytes parsed =
     (if bytes > MAX_FRAME_BYTES then fail ''frame-too-large'' None
      else case parsed of None \<Rightarrow> fail ''invalid-json'' None | Some m \<Rightarrow> validate m)"

end
