(* ===== verification/Replies.thy ===== *)
theory Replies
  imports Protocol Pending_Sends Coalescer
begin

text \<open>
  The rows of the store as the daemon puts them on the wire: the words of the enumerations, the
  health snapshot of \<open>store.py\<close>, and one JSON value per kind of row.  How a projection's detail
  is laid out inside its JSON object is left open (\<open>render\<close>): the daemon's own statements hold
  for any layout.  The bridge reads it; \<open>Bridge.detail_json\<close> is the layout of the code.
\<close>

section \<open>Words\<close>

definition availability_word :: "availability \<Rightarrow> string" where
  "availability_word a = (case a of Busy \<Rightarrow> ''busy'' | WaitingBackground \<Rightarrow> ''waiting-background''
     | Quiescent \<Rightarrow> ''quiescent'' | AvBlocked \<Rightarrow> ''blocked'' | Gone \<Rightarrow> ''gone'' | AvUnknown \<Rightarrow> ''unknown'')"

definition foreground_word :: "foreground \<Rightarrow> string" where
  "foreground_word f = (case f of FgRunning \<Rightarrow> ''running'' | FgStopped \<Rightarrow> ''stopped'' | FgUnknown \<Rightarrow> ''unknown'')"

definition background_word :: "background \<Rightarrow> string" where
  "background_word b = (case b of BgActive \<Rightarrow> ''active'' | BgClear \<Rightarrow> ''clear'' | BgUnknown \<Rightarrow> ''unknown'')"

definition status_word :: "report_status \<Rightarrow> string" where
  "status_word r = (case r of Missing \<Rightarrow> ''missing'' | Malformed \<Rightarrow> ''malformed'' | Valid \<Rightarrow> ''valid'')"

definition verdict_word :: "verdict \<Rightarrow> string" where
  "verdict_word v = (case v of VDone \<Rightarrow> ''done'' | VWaiting \<Rightarrow> ''waiting'' | VNeedsAction \<Rightarrow> ''needs-action''
     | VFailed \<Rightarrow> ''failed'' | VBlocked \<Rightarrow> ''blocked'' | VOther w \<Rightarrow> map char_of w)"

definition reason_word :: "reason \<Rightarrow> string" where
  "reason_word r = (case r of RNone \<Rightarrow> ''none'' | RQuiescent \<Rightarrow> ''quiescent''
     | RMissingReport \<Rightarrow> ''missing-report'' | RMalformedReport \<Rightarrow> ''malformed-report''
     | RWaitingBackground \<Rightarrow> ''waiting-background'' | RNativeTurnEnded \<Rightarrow> ''native-turn-ended-report''
     | RBlocked \<Rightarrow> ''blocked'' | RFailed \<Rightarrow> ''failed'' | RNeedsAction \<Rightarrow> ''needs-action''
     | RGone \<Rightarrow> ''gone'' | RUnknown \<Rightarrow> ''unknown'')"

definition harness_word :: "harness \<Rightarrow> string" where
  "harness_word h = (case h of Claude \<Rightarrow> ''claude'' | Pi \<Rightarrow> ''pi'' | Codex \<Rightarrow> ''codex'' | Copilot \<Rightarrow> ''copilot'')"

definition priority_word :: "priority \<Rightarrow> string" where
  "priority_word p = (case p of Normal \<Rightarrow> ''normal'' | Urgent \<Rightarrow> ''urgent'')"

definition delivery_word :: "delivery_state \<Rightarrow> string" where
  "delivery_word d = (case d of DPending \<Rightarrow> ''pending'' | DDelivered \<Rightarrow> ''delivered''
     | DDeferred \<Rightarrow> ''deferred'' | DError \<Rightarrow> ''error'')"

definition send_word :: "send_state \<Rightarrow> string" where
  "send_word st = (case st of SPending \<Rightarrow> ''pending'' | SDelivering \<Rightarrow> ''delivering''
     | SDelivered \<Rightarrow> ''delivered'' | SFailed \<Rightarrow> ''failed'' | SCancelled \<Rightarrow> ''cancelled'')"

definition authority_word :: "authority \<Rightarrow> string" where
  "authority_word a = (case a of AuthDisabled \<Rightarrow> ''disabled'' | AuthActive \<Rightarrow> ''active'' | AuthUnknown \<Rightarrow> ''unknown'')"

definition nullable_str :: "string option \<Rightarrow> json" where
  "nullable_str x = (case x of None \<Rightarrow> JNull | Some s \<Rightarrow> JStr s)"

definition JNat :: "nat \<Rightarrow> json" where
  "JNat n = JInt (int n)"

section \<open>Reports\<close>

type_synonym renderer = "projection_detail \<Rightarrow> (string \<times> json) list"

definition report_json :: "renderer \<Rightarrow> snapshot \<Rightarrow> json" where
  "report_json render p = (let row = sn_row p in JObj
     [(''task_id'', JStr (sn_task p)), (''generation'', JNat (sn_generation p)),
      (''availability'', JStr (availability_word (pr_availability row))),
      (''report_state'', JStr (status_word (pr_report_state row))),
      (''verdict'', nullable_str (map_option verdict_word (pr_verdict row))),
      (''actionable_reason'', JStr (reason_word (pr_reason row))),
      (''projection'', JObj (render (pr_detail row)))])"

section \<open>Health\<close>

record driver_health =
  dh_driver :: ident
  dh_registration :: "registration option"
  dh_delivery :: delivery
  dh_pending :: bool
  dh_unacked :: bool
  dh_adapter :: string
  dh_retrying :: bool

record health =
  hs_schema_version :: nat
  hs_last_seq :: nat
  hs_task_count :: nat
  hs_driver_count :: nat
  hs_generation :: nat
  hs_delivered :: nat
  hs_acked :: nat
  hs_pending :: nat
  hs_drivers :: "driver_health list"

definition SCHEMA_VERSION :: nat where "SCHEMA_VERSION = 7"

definition max_or_0 :: "nat list \<Rightarrow> nat" where
  "max_or_0 ns = (if ns = [] then 0 else Max (set ns))"

definition min_or_0 :: "nat list \<Rightarrow> nat" where
  "min_or_0 ns = (if ns = [] then 0 else Min (set ns))"

definition count_distinct :: "'a option list \<Rightarrow> nat" where
  "count_distinct xs = length (remdups (List.map_filter id xs))"

definition driver_health_of :: "store \<Rightarrow> ident \<times> delivery \<Rightarrow> driver_health" where
  "driver_health_of s = (\<lambda>(drv, d). let reg = map_of (registrations s) drv in
     \<lparr>dh_driver = drv, dh_registration = reg, dh_delivery = d, dh_pending = (d_latest d > d_acked d),
      dh_unacked = (d_delivered d > d_acked d),
      dh_adapter = (if reg = None then ''disconnected'' else ''registered''),
      dh_retrying = (d_state d \<in> {DDeferred, DError})\<rparr>)"

definition pending_count :: "store \<Rightarrow> nat" where
  "pending_count s =
     (let slowest = min_or_0 (map (d_acked \<circ> snd) (deliveries s)) in
      length (remdups (map (\<lambda>(_, task, _). task) (filter (\<lambda>(g, _, _). g > slowest) (generation_tasks s)))))"

definition health_snapshot :: "store \<Rightarrow> health" where
  "health_snapshot s =
     \<lparr>hs_schema_version = SCHEMA_VERSION,
      hs_last_seq = max_or_0 (map er_durable_seq (events s)),
      hs_task_count = count_distinct (map (se_task \<circ> snd) (sessions s)),
      hs_driver_count = count_distinct (map (se_driver \<circ> snd) (sessions s)),
      hs_generation = latest_generation s,
      hs_delivered = max_or_0 (map (d_delivered \<circ> snd) (deliveries s)),
      hs_acked = max_or_0 (map (d_acked \<circ> snd) (deliveries s)),
      hs_pending = pending_count s,
      hs_drivers = map (driver_health_of s) (sort_key fst (deliveries s))\<rparr>"

text \<open>
  A driver's entry in the reply; the daemon replaces the adapter state by what its own
  connections say.
\<close>

definition driver_json :: "ident list \<Rightarrow> driver_health \<Rightarrow> json" where
  "driver_json active h = (let d = dh_delivery h in JObj
     [(''driver_id'', JStr (dh_driver h)),
      (''harness'', nullable_str (map_option (harness_word \<circ> r_harness) (dh_registration h))),
      (''session_id'', nullable_str (map_option r_session (dh_registration h))),
      (''generation'', JNat (d_latest d)), (''delivered_generation'', JNat (d_delivered d)),
      (''acked_generation'', JNat (d_acked d)), (''delivery_state'', JStr (delivery_word (d_state d))),
      (''last_error'', nullable_str (d_error d)), (''pending'', JBool (dh_pending h)),
      (''delivered_unacked'', JBool (dh_unacked h)),
      (''adapter_state'', JStr (if dh_driver h \<in> set active then ''connected'' else ''disconnected'')),
      (''retrying'', JBool (dh_retrying h))])"

end
