(* ===== verification/Server.thy ===== *)
theory Server
  imports Replies
begin

text \<open>
  \<open>lib/rozoro_monitor/server.py\<close>: what the daemon does with a frame, with the spool directory and
  with the follow-up queue.  Sockets, locks, file checks and the event loop are not modelled: a
  handler is a function of the message, the connection's state, the server's state and a
  \<open>world\<close>, which holds what the handler asks its surroundings (clocks, fresh ids, task files, the
  Herdr socket).  Between the awaits of one handler nothing else runs here; the interleavings that
  matter are the runs of \<open>send_step\<close>, \<open>poll_step\<close> and \<open>daemon_step\<close>.
\<close>

section \<open>Surroundings and state\<close>

record pane_level =
  pl_status :: string
  pl_exists :: "bool option"

text \<open>\<open>hl_prompt\<close> is the text of the exception that the RPC \<open>agent.prompt\<close> raises, if it raises.\<close>

record herdr_link =
  hl_members :: "(ident \<times> ident) list"
  hl_level :: "ident \<Rightarrow> pane_level"
  hl_prompt :: "ident \<Rightarrow> string \<Rightarrow> string option"
  hl_connected :: bool
  hl_last_error :: "string option"
  hl_inventory_errors :: nat

record world =
  wd_now_ms :: int
  wd_clock :: rat
  wd_send_id :: ident
  wd_tasks :: tasks_dir
  wd_herdr :: "herdr_link option"
  wd_render :: renderer
  wd_pid :: nat
  wd_socket :: string
  wd_last_time :: "string option"

record server =
  sv_store :: store
  sv_active :: "(ident \<times> nat) list"
  sv_clients :: nat
  sv_spool_backlog :: nat
  sv_spool_errors :: nat
  sv_last_spool_error :: "string option"

record connection =
  cn_driver :: "(ident \<times> ident \<times> nat) option"
  cn_coalescer :: "coalescer option"

definition new_connection :: connection where
  "new_connection = \<lparr>cn_driver = None, cn_coalescer = None\<rparr>"

definition DELIVERABLE_STATUS :: "string list" where
  "DELIVERABLE_STATUS = [''idle'', ''done'']"

section \<open>Delivering follow-ups\<close>

definition claim_deliverable :: "int \<Rightarrow> ident \<Rightarrow> pane_level \<Rightarrow> store \<Rightarrow> send_row option op_result" where
  "claim_deliverable now task level s =
     (if pl_exists level = Some False then
        and_then (claim_pending_send task s) (\<lambda>(row, s1). case row of
            None \<Rightarrow> Inr (None, s1)
          | Some r \<Rightarrow> and_then (resolve_pending_send (sd_id r) SFailed (Some ''pane is gone'') now s1)
              (\<lambda>(_, s2). Inr (None, s2)))
      else if pl_status level \<notin> set DELIVERABLE_STATUS then Inr (None, s)
      else claim_pending_send task s)"

definition deliver :: "herdr_link \<Rightarrow> int \<Rightarrow> send_row \<Rightarrow> ident \<Rightarrow> store \<Rightarrow> unit op_result" where
  "deliver link now row pane s = (case hl_prompt link pane (sd_payload row) of
       Some err \<Rightarrow> resolve_pending_send (sd_id row) SFailed (Some err) now s
     | None \<Rightarrow> resolve_pending_send (sd_id row) SDelivered None now s)"

definition deliver_if_ready :: "world \<Rightarrow> ident \<Rightarrow> store \<Rightarrow> py_error + store" where
  "deliver_if_ready w task s = (case wd_herdr w of
       None \<Rightarrow> Inr s
     | Some link \<Rightarrow> (case map_of (hl_members link) task of
           None \<Rightarrow> Inr s
         | Some pane \<Rightarrow>
             and_then (claim_deliverable (wd_now_ms w) task (hl_level link pane) s) (\<lambda>(row, s1). case row of
                 None \<Rightarrow> Inr s1
               | Some r \<Rightarrow> and_then (deliver link (wd_now_ms w) r pane s1) (\<lambda>(_, s2). Inr s2))))"

text \<open>One turn of the loop that expires follow-ups: a last live check first, then the sweep.\<close>

definition pending_send_tick :: "world \<Rightarrow> store \<Rightarrow> send_row list op_result" where
  "pending_send_tick w s =
     and_then (fold_res (deliver_if_ready w) (expired_pending_send_tasks (wd_now_ms w) s) s)
       (sweep_expired_pending_sends STALE_DELIVERING (wd_now_ms w))"

text \<open>A pane's level: liveness, then the claim; the claimed row is delivered in the background.\<close>

definition apply_level :: "int \<Rightarrow> ident \<Rightarrow> pane_level \<Rightarrow> store \<Rightarrow> send_row option op_result" where
  "apply_level now task level s =
     and_then (reconcile_herdr_liveness task (pl_exists level) None s)
       (\<lambda>(_, s1). claim_deliverable now task level s1)"

section \<open>Errors on the wire\<close>

definition frame_error :: "string \<Rightarrow> json" where
  "frame_error code = JObj [(''v'', JInt 1), (''type'', JStr ''frame.error''), (''code'', JStr code)]"

definition REQUEST_TYPES :: "string list" where
  "REQUEST_TYPES = [''health'', ''task.status'', ''driver.snapshot'', ''driver.disable'', ''driver.authority'',
     ''reconcile.pending'', ''reconcile.ack'', ''monitor.stop'', ''watchtower.register'',
     ''watchtower.availability'', ''notification.pending'', ''notification.delivered'', ''reconcile'',
     ''ack-generation'', ''send.enqueue'', ''send.status'']"

text \<open>
  \<open>raw\<close> is the frame parsed without the object hook, or nothing when that raises.  A type that is an
  array or an object cannot be looked up in a set, which raises where nobody catches it.
\<close>

definition unhashable :: "json option \<Rightarrow> bool" where
  "unhashable v = (case v of Some (JArr _) \<Rightarrow> True | Some (JObj _) \<Rightarrow> True | _ \<Rightarrow> False)"

definition checked_error :: "string \<Rightarrow> string \<Rightarrow> json \<Rightarrow> string \<Rightarrow> json" where
  "checked_error t name i code =
     (let candidate = JObj [(''v'', JInt 1), (''type'', JStr t), (name, i), (''code'', JStr code)]
      in case validate candidate of Inr _ \<Rightarrow> candidate | Inl _ \<Rightarrow> frame_error code)"

definition echo_error :: "string \<Rightarrow> string \<Rightarrow> string list \<Rightarrow> json \<Rightarrow> string \<Rightarrow> json" where
  "echo_error t name codes m code = (case member name m of
       None \<Rightarrow> frame_error code
     | Some i \<Rightarrow> if code \<in> set codes then checked_error t name i code else frame_error code)"

definition correlated_error :: "json option \<Rightarrow> string \<Rightarrow> py_error + json" where
  "correlated_error raw code = (case raw of
       Some (JObj fs) \<Rightarrow>
         let m = JObj fs; t = text_of ''type'' m in
         if (case t of Some ty \<Rightarrow> requires_producer_seq ty | None \<Rightarrow> False)
         then Inr (echo_error ''event.error'' ''event_id''
                [''invalid-event'', ''invalid-field'', ''unsupported-type''] m code)
         else if unhashable (member ''type'' m) then Inl TypeError
         else if (case t of Some ty \<Rightarrow> ty \<in> set REQUEST_TYPES | None \<Rightarrow> False)
         then Inr (echo_error ''request.error'' ''request_id''
                [''invalid-message'', ''invalid-field'', ''unsupported-type''] m code)
         else Inr (frame_error code)
     | _ \<Rightarrow> Inr (frame_error code))"

section \<open>Handlers\<close>

text \<open>What can end a handler early: a protocol error, a ValueError, or an exception nobody catches.\<close>

datatype failure = ProtocolFailure string | ValueFailure | Escape py_error

record response =
  rp_reply :: json
  rp_notification :: "json option"
  rp_shutdown :: bool

type_synonym outcome = "(failure + response) \<times> connection \<times> server"

definition caught :: "py_error \<Rightarrow> failure" where
  "caught e = (case e of ValueError _ \<Rightarrow> ValueFailure | _ \<Rightarrow> Escape e)"

definition plain_reply :: "json \<Rightarrow> response" where
  "plain_reply j = \<lparr>rp_reply = j, rp_notification = None, rp_shutdown = False\<rparr>"

definition answer_with :: "'a op_result \<Rightarrow> ('a \<Rightarrow> json) \<Rightarrow> connection \<Rightarrow> server \<Rightarrow> outcome" where
  "answer_with r f cn sv = (case r of
       Inl e \<Rightarrow> (Inl (caught e), cn, sv)
     | Inr (x, t) \<Rightarrow> (Inr (plain_reply (f x)), cn, sv\<lparr>sv_store := t\<rparr>))"

definition reply_json :: "string \<Rightarrow> string \<Rightarrow> (string \<times> json) list \<Rightarrow> json" where
  "reply_json t rid extra = JObj ([(''v'', JInt 1), (''type'', JStr t), (''request_id'', JStr rid)] @ extra)"

definition request_id :: "json \<Rightarrow> string" where
  "request_id m = str_member ''request_id'' m"

definition ok_reply :: "json \<Rightarrow> json" where
  "ok_reply m = reply_json ''ok'' (request_id m) []"

definition herdr_health :: "herdr_link option \<Rightarrow> (string \<times> json) list" where
  "herdr_health link = (case link of
       None \<Rightarrow> [(''herdr_connected'', JBool False), (''herdr_last_error'', JStr ''Herdr socket unavailable''),
          (''herdr_inventory_errors'', JInt 0), (''herdr_task_count'', JInt 0)]
     | Some l \<Rightarrow> [(''herdr_connected'', JBool (hl_connected l)), (''herdr_last_error'', nullable_str (hl_last_error l)),
          (''herdr_inventory_errors'', JNat (hl_inventory_errors l)),
          (''herdr_task_count'', JNat (length (hl_members l)))])"

definition handle_health :: "world \<Rightarrow> json \<Rightarrow> server \<Rightarrow> json" where
  "handle_health w m sv = (let h = health_snapshot (sv_store sv) in
     reply_json ''health.result'' (request_id m)
      ([(''running'', JBool True), (''socket'', JStr (wd_socket w)), (''clients'', JNat (sv_clients sv)),
        (''schema_version'', JNat (hs_schema_version h)), (''last_durable_seq'', JNat (hs_last_seq h)),
        (''last_durable_time'', nullable_str (wd_last_time w)), (''task_count'', JNat (hs_task_count h)),
        (''driver_count'', JNat (hs_driver_count h)), (''generation'', JNat (hs_generation h)),
        (''delivered_generation'', JNat (hs_delivered h)), (''acked_generation'', JNat (hs_acked h)),
        (''pending_count'', JNat (hs_pending h)),
        (''drivers'', JArr (map (driver_json (keys (sv_active sv))) (hs_drivers h))),
        (''spool_backlog'', JNat (sv_spool_backlog sv)), (''spool_errors'', JNat (sv_spool_errors sv)),
        (''pid'', JNat (wd_pid w)), (''last_spool_error'', nullable_str (sv_last_spool_error sv))]
       @ herdr_health (wd_herdr w)))"

definition handle_task_status :: "json \<Rightarrow> store \<Rightarrow> json" where
  "handle_task_status m s = (let task = str_member ''task_id'' m in
     reply_json ''task.status.result'' (request_id m)
       ([(''task_id'', JStr task)] @ (case task_projection task s of
            None \<Rightarrow> [(''found'', JBool False)]
          | Some row \<Rightarrow> [(''found'', JBool True),
              (''availability'', JStr (availability_word (pr_availability row))),
              (''foreground'', JStr (foreground_word (pd_foreground (pr_detail row)))),
              (''background'', JStr (background_word (pd_background (pr_detail row)))),
              (''background_count'', (case pd_background_count (pr_detail row) of None \<Rightarrow> JNull | Some n \<Rightarrow> JInt n)),
              (''report_state'', JStr (status_word (pr_report_state row))),
              (''verdict'', nullable_str (map_option verdict_word (pr_verdict row))),
              (''actionable_reason'', JStr (reason_word (pr_reason row)))])))"

definition enqueue_reply :: "json \<Rightarrow> (string \<times> json) list \<Rightarrow> json" where
  "enqueue_reply m extra = reply_json ''send.enqueue.result'' (request_id m)
     ([(''task_id'', JStr (str_member ''task_id'' m))] @ extra)"

definition enqueue_failed :: "string \<Rightarrow> (string \<times> json) list" where
  "enqueue_failed err = [(''state'', JStr ''failed''), (''error'', JStr err)]"

text \<open>A pane that can take the text at once gets it in the same round trip.\<close>

definition handle_send_enqueue :: "world \<Rightarrow> json \<Rightarrow> store \<Rightarrow> json op_result" where
  "handle_send_enqueue w m s =
     (let task = str_member ''task_id'' m; now = wd_now_ms w;
          reply = (\<lambda>extra t. Inr (enqueue_reply m extra, t))
      in case wd_herdr w of
         None \<Rightarrow> reply (enqueue_failed ''Herdr integration is not configured'') s
       | Some link \<Rightarrow> (case map_of (hl_members link) task of
           None \<Rightarrow> reply (enqueue_failed ''task has no known pane'') s
         | Some pane \<Rightarrow>
             let level = hl_level link pane in
             if pl_exists level = Some False then reply (enqueue_failed ''pane is gone'') s
             else if pl_status level \<notin> set DELIVERABLE_STATUS \<and> pl_exists level = None
             then reply (enqueue_failed ''pane status is unknown'') s
             else
               and_then (enqueue_pending_send (wd_send_id w) task (str_member ''payload'' m)
                           (int_member ''timeout_ms'' m) now s) (\<lambda>(_, s1).
               and_then (claim_deliverable now task level s1) (\<lambda>(row, s2). case row of
                   None \<Rightarrow> reply [(''state'', JStr ''pending'')] s2
                 | Some r \<Rightarrow> and_then (deliver link now r pane s2) (\<lambda>(_, s3).
                     let current = pending_send task s3 in
                     if map_option sd_state current = Some SDelivered
                     then reply [(''state'', JStr ''delivered'')] s3
                     else reply [(''state'', JStr ''failed''),
                            (''error'', nullable_str (Option.bind current sd_error))] s3)))))"

definition handle_send_status :: "json \<Rightarrow> store \<Rightarrow> json" where
  "handle_send_status m s = (let task = str_member ''task_id'' m in
     reply_json ''send.status.result'' (request_id m)
       ([(''task_id'', JStr task)] @ (case pending_send task s of
            None \<Rightarrow> [(''found'', JBool False)]
          | Some row \<Rightarrow> [(''found'', JBool True), (''state'', JStr (send_word (sd_state row))),
              (''error'', nullable_str (sd_error row))])))"

definition handle_driver_snapshot :: "json \<Rightarrow> store \<Rightarrow> json" where
  "handle_driver_snapshot m s = (case driver_snapshot (str_member ''driver_id'' m) s of
     (g, d, a) \<Rightarrow> reply_json ''driver.snapshot.result'' (request_id m)
       [(''driver_id'', JStr (str_member ''driver_id'' m)), (''generation'', JNat g),
        (''delivered_generation'', JNat d), (''acked_generation'', JNat a)])"

definition handle_driver_authority :: "json \<Rightarrow> store \<Rightarrow> json" where
  "handle_driver_authority m s = reply_json ''driver.authority.result'' (request_id m)
     [(''driver_id'', JStr (str_member ''driver_id'' m)),
      (''authority'', JStr (authority_word (driver_authority (str_member ''driver_id'' m) s)))]"

definition reconcile_reply :: "renderer \<Rightarrow> json \<Rightarrow> reconciliation \<Rightarrow> json" where
  "reconcile_reply render m rc = reply_json ''reconcile.pending.result'' (request_id m)
     [(''through'', JNat (rc_through rc)), (''reports'', JArr (map (report_json render) (rc_reports rc))),
      (''since'', JNat (rc_since rc)), (''unchanged_count'', JInt (rc_unchanged rc))]"

definition handle_register :: "json \<Rightarrow> connection \<Rightarrow> server \<Rightarrow> outcome" where
  "handle_register m cn sv =
     (let drv = str_member ''driver_id'' m; sess = str_member ''session_id'' m in
      case register_driver drv sess (harness_of (str_member ''harness'' m)) (sv_store sv) of
        Inl e \<Rightarrow> (Inl (caught e), cn, sv)
      | Inr (ep, t) \<Rightarrow>
          (Inr (plain_reply (ok_reply m)),
           \<lparr>cn_driver = Some (drv, sess, ep),
            cn_coalescer = (case new_coalescer drv sess ep DEFAULT_COLLECTION_WINDOW of
                Inr c \<Rightarrow> Some c | Inl _ \<Rightarrow> None)\<rparr>,
           sv\<lparr>sv_store := t, sv_active := AList.update drv
             ((case map_of (sv_active sv) drv of Some n \<Rightarrow> n | None \<Rightarrow> 0) + 1) (sv_active sv)\<rparr>))"

definition notification_json :: "notice \<Rightarrow> json" where
  "notification_json n = JObj [(''v'', JInt 1), (''type'', JStr ''notification''),
     (''generation'', JNat (n_generation n)), (''priority'', JStr (priority_word (n_priority n))),
     (''task_count'', JNat (n_task_count n))]"

text \<open>The requests that only the connection which registered the driver may make.\<close>

definition BOUND_TYPES :: "string list" where
  "BOUND_TYPES = [''watchtower.availability'', ''notification.pending'', ''notification.delivered'',
     ''reconcile'', ''ack-generation'']"

definition handle_bound :: "world \<Rightarrow> string \<Rightarrow> json \<Rightarrow> connection \<Rightarrow> server \<Rightarrow> outcome" where
  "handle_bound w t m cn sv = (case cn_driver cn of
       None \<Rightarrow> (Inl (ProtocolFailure ''invalid-field''), cn, sv)
     | Some (drv, sess, ep) \<Rightarrow>
         if drv \<noteq> str_member ''driver_id'' m then (Inl (ProtocolFailure ''invalid-field''), cn, sv)
         else if t = ''watchtower.availability'' then
           answer_with (and_then (watchtower_availability drv sess ep (sv_store sv)) (\<lambda>a. Inr (a, sv_store sv)))
             (\<lambda>a. reply_json ''watchtower.availability.result'' (request_id m)
                [(''driver_id'', JStr drv), (''availability'', JStr (availability_word a))]) cn sv
         else if t = ''notification.pending'' then
           (case cn_coalescer cn of
              None \<Rightarrow> (Inl (ProtocolFailure ''invalid-field''), cn, sv)
            | Some c \<Rightarrow> (case offer_pending (wd_clock w) c (sv_store sv) of
                (Inl e, c', s') \<Rightarrow> (Inl (caught e), cn\<lparr>cn_coalescer := Some c'\<rparr>, sv\<lparr>sv_store := s'\<rparr>)
              | (Inr offered, c', s') \<Rightarrow>
                  (Inr \<lparr>rp_reply = ok_reply m, rp_notification = map_option notification_json offered,
                        rp_shutdown = False\<rparr>,
                   cn\<lparr>cn_coalescer := Some c'\<rparr>, sv\<lparr>sv_store := s'\<rparr>)))
         else if t = ''notification.delivered'' then
           answer_with (confirm_delivery drv sess ep (nat (int_member ''generation'' m)) (sv_store sv))
             (\<lambda>_. ok_reply m) cn sv
         else if t = ''reconcile'' then
           answer_with (and_then (reconcile drv sess ep (nat (int_member ''through'' m)) (sv_store sv))
               (\<lambda>rows. Inr (rows, sv_store sv)))
             (\<lambda>rows. reply_json ''reconcile.result'' (request_id m)
                [(''through'', JInt (int_member ''through'' m)),
                 (''reports'', JArr (map (report_json (wd_render w)) rows))]) cn sv
         else
           answer_with (ack_generation drv sess ep (nat (int_member ''through'' m)) (sv_store sv))
             (\<lambda>_. ok_reply m) cn sv)"

definition event_error :: "json \<Rightarrow> json" where
  "event_error m = JObj [(''v'', JInt 1), (''type'', JStr ''event.error''),
     (''event_id'', JStr (str_member ''event_id'' m)), (''code'', JStr ''invalid-event'')]"

definition ack_json :: "json \<Rightarrow> accepted \<Rightarrow> json" where
  "ack_json m a = JObj [(''v'', JInt 1), (''type'', JStr ''ack''),
     (''event_id'', JStr (str_member ''event_id'' m)), (''durable_seq'', JNat (ac_seq a))]"

definition handle_event :: "world \<Rightarrow> json \<Rightarrow> server \<Rightarrow> json \<times> server" where
  "handle_event w m sv = (case accept_event (wd_tasks w) (event_of m) (sv_store sv) of
       Inl (ValueError _) \<Rightarrow> (event_error m, sv)
     | Inl _ \<Rightarrow> (frame_error ''internal-error'', sv)
     | Inr (a, t) \<Rightarrow> (ack_json m a, sv\<lparr>sv_store := t\<rparr>))"

text \<open>One validated message.\<close>

definition dispatch :: "world \<Rightarrow> json \<Rightarrow> connection \<Rightarrow> server \<Rightarrow> outcome" where
  "dispatch w m cn sv =
     (let t = str_member ''type'' m; s = sv_store sv; drv = str_member ''driver_id'' m;
          read_only = (\<lambda>j. (Inr (plain_reply j), cn, sv))
      in if t = ''health'' then read_only (handle_health w m sv)
      else if t = ''task.status'' then read_only (handle_task_status m s)
      else if t = ''send.enqueue'' then answer_with (handle_send_enqueue w m s) id cn sv
      else if t = ''send.status'' then read_only (handle_send_status m s)
      else if t = ''driver.snapshot'' then read_only (handle_driver_snapshot m s)
      else if t = ''driver.disable'' then answer_with (disable_driver_authority drv s) (\<lambda>_. ok_reply m) cn sv
      else if t = ''driver.authority'' then read_only (handle_driver_authority m s)
      else if t = ''reconcile.pending'' then
        answer_with (reconcile_delivered drv (member ''scope'' m = Some (JStr ''full'')) s)
          (reconcile_reply (wd_render w) m) cn sv
      else if t = ''reconcile.ack'' then
        answer_with (ack_delivered drv (nat (int_member ''through'' m)) s) (\<lambda>_. ok_reply m) cn sv
      else if t = ''monitor.stop'' then
        (Inr \<lparr>rp_reply = ok_reply m, rp_notification = None, rp_shutdown = True\<rparr>, cn, sv)
      else if t = ''watchtower.register'' then handle_register m cn sv
      else if t \<in> set BOUND_TYPES then handle_bound w t m cn sv
      else if member ''event_id'' m \<noteq> None \<and> requires_producer_seq t then
        (case handle_event w m sv of (j, sv') \<Rightarrow> (Inr (plain_reply j), cn, sv'))
      else (Inl (ProtocolFailure ''unsupported-type''), cn, sv))"

section \<open>A connection\<close>

record served =
  out_frames :: "string list"
  out_closed :: bool
  out_shutdown :: bool

text \<open>
  Writing a response: the reply, then the notification.  A message that cannot be encoded raises
  where nobody catches it, and the connection is closed.
\<close>

definition write_response :: "response \<Rightarrow> served" where
  "write_response r = (case encode (rp_reply r) of
       Inl _ \<Rightarrow> \<lparr>out_frames = [], out_closed = True, out_shutdown = False\<rparr>
     | Inr frame \<Rightarrow> (case rp_notification r of
           Some n \<Rightarrow> (case encode n of
               Inl _ \<Rightarrow> \<lparr>out_frames = [frame], out_closed = True, out_shutdown = False\<rparr>
             | Inr frame' \<Rightarrow> \<lparr>out_frames = [frame, frame'],
                 out_closed = (rp_shutdown r \<or> member ''code'' (rp_reply r) = Some (JStr ''read-timeout'')),
                 out_shutdown = rp_shutdown r\<rparr>)
         | None \<Rightarrow> \<lparr>out_frames = [frame],
             out_closed = (rp_shutdown r \<or> member ''code'' (rp_reply r) = Some (JStr ''read-timeout'')),
             out_shutdown = rp_shutdown r\<rparr>))"

definition dropped :: served where
  "dropped = \<lparr>out_frames = [], out_closed = True, out_shutdown = False\<rparr>"

text \<open>A frame that could not be read carries no identifier to answer to.\<close>

definition read_failed :: "string \<Rightarrow> served" where
  "read_failed code = write_response (plain_reply (frame_error code))"

definition answer_error :: "json option \<Rightarrow> string \<Rightarrow> served" where
  "answer_error raw code = (case correlated_error raw code of
       Inl _ \<Rightarrow> dropped | Inr j \<Rightarrow> write_response (plain_reply j))"

definition serve_frame ::
  "world \<Rightarrow> nat \<Rightarrow> json option \<Rightarrow> json option \<Rightarrow> connection \<Rightarrow> server \<Rightarrow> served \<times> connection \<times> server" where
  "serve_frame w bytes parsed raw cn sv =
     (case decode bytes parsed of
        Inl e \<Rightarrow> (answer_error raw (pe_code e), cn, sv)
      | Inr m \<Rightarrow> (case dispatch w m cn sv of
          (Inr r, cn', sv') \<Rightarrow> (write_response r, cn', sv')
        | (Inl (ProtocolFailure code), cn', sv') \<Rightarrow> (answer_error raw code, cn', sv')
        | (Inl ValueFailure, cn', sv') \<Rightarrow> (answer_error raw ''invalid-field'', cn', sv')
        | (Inl (Escape _), cn', sv') \<Rightarrow> (dropped, cn', sv')))"

text \<open>The end of a connection gives back the driver it registered last.\<close>

definition disconnect :: "connection \<Rightarrow> server \<Rightarrow> server" where
  "disconnect cn sv = (let sv1 = sv\<lparr>sv_clients := sv_clients sv - 1\<rparr> in case cn_driver cn of
       None \<Rightarrow> sv1
     | Some (drv, _, _) \<Rightarrow>
         let remaining = int (case map_of (sv_active sv) drv of Some n \<Rightarrow> n | None \<Rightarrow> 1) - 1 in
         sv1\<lparr>sv_active := (if remaining > 0 then AList.update drv (nat remaining) (sv_active sv)
                           else AList.delete drv (sv_active sv))\<rparr>)"

section \<open>The spool\<close>

text \<open>
  An entry of the spool directory: whether it is a private regular file, and what is in it (its
  size and what the parser makes of it).  \<open>reread\<close> is what reading the entry again yields after
  the event was committed; nothing when that raises.  \<open>last_error\<close> is the prose of the last error.
\<close>

record spool_entry =
  sp_name :: string
  sp_private :: bool
  sp_bytes :: nat
  sp_parsed :: "json option"

type_synonym spool = "spool_entry list"

definition spool_message :: "spool_entry \<Rightarrow> json option" where
  "spool_message e =
     (if \<not> suffix ''.json'' (sp_name e) \<or> \<not> sp_private e \<or> sp_bytes e > MAX_FRAME_BYTES then None
      else case decode (sp_bytes e) (sp_parsed e) of
          Inl _ \<Rightarrow> None
        | Inr m \<Rightarrow>
            if requires_producer_seq (str_member ''type'' m) \<and> sp_name e = str_member ''event_id'' m @ ''.json''
            then Some m else None)"

record import_state =
  im_store :: store
  im_spool :: spool
  im_backlog :: nat
  im_errors :: nat

definition import_one ::
  "tasks_dir \<Rightarrow> (string \<Rightarrow> spool_entry option) \<Rightarrow> spool_entry \<times> json \<Rightarrow> import_state \<Rightarrow> import_state" where
  "import_one tasks reread = (\<lambda>(e, m) st.
     case accept_event tasks (event_of m) (im_store st) of
       Inl _ \<Rightarrow> st\<lparr>im_errors := im_errors st + 1\<rparr>
     | Inr (_, s) \<Rightarrow>
         if reread (sp_name e) = Some e
         then st\<lparr>im_store := s, im_spool := filter (\<lambda>f. sp_name f \<noteq> sp_name e) (im_spool st),
                 im_backlog := im_backlog st - 1\<rparr>
         else st\<lparr>im_store := s, im_errors := im_errors st + 1\<rparr>)"

text \<open>The valid entries in the order of their producer numbers, then of their names.\<close>

definition import_order :: "spool \<Rightarrow> (spool_entry \<times> json) list" where
  "import_order entries = sort_key (\<lambda>(_, m). int_member ''producer_seq'' m)
     (sort_key (\<lambda>(e, _). sp_name e)
       (List.map_filter (\<lambda>e. map_option (Pair e) (spool_message e)) entries))"

definition import_spool ::
  "tasks_dir \<Rightarrow> (string \<Rightarrow> spool_entry option) \<Rightarrow> string \<Rightarrow> spool \<Rightarrow> server \<Rightarrow> spool \<times> server" where
  "import_spool tasks reread last_error entries sv =
     (let valid = import_order entries;
          start = \<lparr>im_store = sv_store sv, im_spool = entries, im_backlog = length entries,
                   im_errors = length entries - length valid\<rparr>;
          done = fold (import_one tasks reread) valid start
      in (im_spool done, sv\<lparr>sv_store := im_store done, sv_spool_backlog := im_backlog done,
            sv_spool_errors := im_errors done,
            sv_last_spool_error := (if im_errors done = 0 then None else Some (take 128 last_error))\<rparr>))"

end
