(* ===== verification/Event_Theorems.thy ===== *)
theory Event_Theorems
  imports Store_Events_Facts
begin

text \<open>
  The properties of the event side, for every store that a sequence of the daemon's operations
  can reach from a fresh database.
\<close>

section \<open>A small run\<close>

text \<open>A crew session of task \<open>t1\<close> registers and starts a turn before it has written a handoff.\<close>

definition bare_dir :: tasks_dir where
  "bare_dir task = \<lparr>tf_folder = True, tf_handoff = NoFile, tf_ack_v2 = None, tf_ack_legacy = None\<rparr>"

definition crew_event :: "ident \<Rightarrow> int \<Rightarrow> event_kind \<Rightarrow> event" where
  "crew_event eid n k = \<lparr>ev_id = eid, ev_session = ''s1'', ev_harness = Pi, ev_role = Crew,
     ev_task = Some ''t1'', ev_driver = None, producer_no = n, ev_kind = k\<rparr>"

definition store_of :: "'a op_result \<Rightarrow> store" where
  "store_of r = (case r of Inr (_, s) \<Rightarrow> s | Inl _ \<Rightarrow> empty_store)"

definition crew_registered :: store where
  "crew_registered = store_of (accept_event bare_dir (crew_event ''e1'' 1 SessionRegister) empty_store)"

definition crew_stopped :: store where
  "crew_stopped = store_of (accept_event bare_dir (crew_event ''e2'' 2 (TurnStop (Some False) None)) crew_registered)"

lemma empty_handoff: "parse_text [] None None = Inr \<lparr>hr_blocks = 0, hr_legacy_headings = 0,
    hr_acked_through = 0, hr_acked_source = AckNone, hr_latest = None, hr_block_details = [],
    hr_open_items = [], hr_unresolved = 0, hr_protocol_errors = []\<rparr>"
  by (simp add: parse_text_def splitlines_def acknowledged_def Let_def)

lemma missing_report: "report_projection (bare_dir task) = \<lparr>rs_state = Missing, rs_verdict = None,
     rs_latest_verdict = None, rs_blocks = 0, rs_acked_through = 0, rs_acked_source = AckNone,
     rs_unresolved = 0, rs_open_items = [], rs_protocol_errors = [], rs_external_action = False,
     rs_heading = [], rs_reason = [], rs_pending = [], rs_inputs_needed = [], rs_artifacts = []\<rparr>"
  by (simp add: report_projection_def parse_task_report_def bare_dir_def empty_handoff summarize_def
      latest_verdict_def)

lemmas accept_eval = accept_event_def find_event_def reduce_projection_def reduce_event_def
  get_session_state_def persist_session_def role_identity_valid_def session_identity_def
  event_identity_def upsert_task_projection_def actionable_reason_def detect_change_def
  codex_turn_report_def startup_missing_report_def is_turn_start_def is_turn_stop_def visible_def
  apply_contiguous_def contiguous_changes_def drain_pending.simps finish_def derived_def
  derive_availability_def init_lifecycle_def crew_event_def missing_report projection_of_def
  active_count_def bump_actionable_def checked_deliveries_def update_key_def update_all_def
  store_of_def empty_store_def Let_def

lemma run_crew_registered:
  "accept_event bare_dir (crew_event ''e1'' 1 SessionRegister) empty_store
   = Inr (\<lparr>ac_seq = 1, ac_duplicate = False, ac_generation = None\<rparr>, crew_registered)"
  by (simp add: crew_registered_def accept_eval)

lemma run_crew_stopped:
  "accept_event bare_dir (crew_event ''e2'' 2 (TurnStop (Some False) None)) crew_registered
   = Inr (\<lparr>ac_seq = 2, ac_duplicate = False, ac_generation = Some 1\<rparr>, crew_stopped)"
  by (simp add: crew_stopped_def crew_registered_def accept_eval)

lemma reach_crew_registered: "daemon_step\<^sup>*\<^sup>* empty_store crew_registered"
  by (rule r_into_rtranclp, rule daemon_step.accept[OF _ run_crew_registered])
     (simp add: event_ok_def crew_event_def)

lemma reach_crew_stopped: "daemon_step\<^sup>*\<^sup>* crew_registered crew_stopped"
  by (rule r_into_rtranclp, rule daemon_step.accept[OF _ run_crew_stopped])
     (simp add: event_ok_def crew_event_def)

lemmas store_reach = daemon_run_store[OF reach_crew_registered] daemon_run_store[OF reach_crew_stopped]

section \<open>Events are accepted once\<close>

lemma find_event_prefix:
  assumes "find_event eid s = Some row" and "prefix (events s) (events t)"
  shows "find_event eid t = Some row"
  using assms by (auto simp: find_event_def prefix_def find_append_Some)

lemma accepted_is_logged:
  assumes wf: "store_wf s" and ev: "event_ok ev" and run: "accept_event dir ev s = Inr (a, t)"
  shows "\<exists>row. find_event (ev_id ev) t = Some row \<and> er_event row = ev \<and> er_durable_seq row = ac_seq a"
proof -
  have new: "find_event (ev_id ev) (logged ev s) = Some \<lparr>er_durable_seq = events_seq s + 1, er_event = ev\<rparr>"
    if "find_event (ev_id ev) s = None"
    using that by (simp add: find_event_def logged_def find_snoc)
  from run show ?thesis
  proof (cases rule: accept_event_cases)
    case (quiet st)
    have "events t = events (logged ev s)"
      using accepted_reduction(3)[OF wf ev quiet(1,2)] by (simp add: only_derived_def)
    with new[OF quiet(1)] quiet show ?thesis by (simp add: find_event_def)
  next
    case (change st s2 c gen task)
    have "events s2 = events (logged ev s)" "ledger_wf s2"
      using accepted_reduction(1,3)[OF wf ev change(1,2)] by (simp_all add: only_derived_def store_wf_def)
    moreover from this change(5) have "events t = events s2"
      by (auto simp: bump_actionable_eq bumped_def Let_def split: if_splits)
    ultimately show ?thesis using new[OF change(1)] change by (simp add: find_event_def)
  qed auto
qed

text \<open>
  C11: an event is accepted once.  After an event has been accepted, in whatever state the store is
  later: delivering the same event again returns its durable number as a duplicate and changes
  nothing, whatever the task files say by then; and a different event under the same event id is
  refused.
\<close>

theorem events_accepted_once:
  assumes reach: "store_step\<^sup>*\<^sup>* empty_store s" and ev: "event_ok ev"
    and run: "accept_event dir ev s = Inr (a, t)" and later: "store_step\<^sup>*\<^sup>* t v"
  shows "accept_event dir' ev v = Inr (\<lparr>ac_seq = ac_seq a, ac_duplicate = True, ac_generation = None\<rparr>, v)
    \<and> (\<forall>other. ev_id other = ev_id ev \<and> other \<noteq> ev
        \<longrightarrow> accept_event dir' other v = Inl (ValueError ''event_id conflicts with its durable envelope''))"
proof -
  from reach have wf: "store_wf s" by (rule reachable_store)
  then have "store_wf t" using ev run by (rule accept_event_wf)
  with later have "prefix (events t) (events v)" by (rule log.run_le)
  with accepted_is_logged[OF wf ev run] find_event_prefix obtain row where
    "find_event (ev_id ev) v = Some row" "er_event row = ev" "er_durable_seq row = ac_seq a"
    by blast
  then show ?thesis by (auto simp: accept_event_def)
qed

theorem events_accepted_once_witness:
  "accept_event bare_dir (crew_event ''e1'' 1 SessionRegister) crew_stopped
     = Inr (\<lparr>ac_seq = 1, ac_duplicate = True, ac_generation = None\<rparr>, crew_stopped)"
  using events_accepted_once[OF rtranclp.rtrancl_refl _ run_crew_registered store_reach(2)]
  by (simp add: event_ok_def crew_event_def)

text \<open>
  The log is the append-only, gap-free history: along any run of the store the earlier rows
  stay, the rows are numbered 1, 2, 3, ... without a gap, every event id occurs once, and the last
  number is the store's counter.
\<close>

theorem log_is_gap_free:
  assumes reach: "store_step\<^sup>*\<^sup>* empty_store s" and run: "store_step\<^sup>*\<^sup>* s t"
  shows "prefix (events s) (events t)
    \<and> map er_durable_seq (events t) = [1..<length (events t) + 1] \<and> events_seq t = length (events t)
    \<and> distinct (map (\<lambda>row. ev_id (er_event row)) (events t))"
proof -
  from reach have wf: "store_wf s" by (rule reachable_store)
  with run have "store_wf t" by (rule store.run_inv)
  then have seq: "map er_durable_seq (events t) = [1..<events_seq t + 1]"
    and ids: "distinct (map (\<lambda>row. ev_id (er_event row)) (events t))"
    by (simp_all only: store_wf_def facts_wf_def log_ok_def)
  from arg_cong[OF seq, of length] have "events_seq t = length (events t)" by simp
  with seq ids log.run_le[OF run wf] show ?thesis by (simp only: simp_thms)
qed

theorem log_is_gap_free_witness:
  "map er_durable_seq (events crew_stopped) = [1..<length (events crew_stopped) + 1]
   \<and> prefix (events crew_registered) (events crew_stopped)"
  using log_is_gap_free[OF store_reach] by blast

section \<open>Reports stay within the protocol\<close>

text \<open>
  Every projection and every frozen snapshot of a reachable store carries a report state,
  verdict and reason that the protocol allows together, whatever the handoff files contained when
  they were read; so reading a report never makes an accepted event or a liveness observation
  fail, and no reconciliation reply is refused by the protocol for its tuples.
\<close>

theorem stored_tuples_are_protocol_tuples:
  assumes reach: "store_step\<^sup>*\<^sup>* empty_store s"
  shows "(\<forall>(task, row) \<in> set (task_projections s).
        (pr_report_state row, pr_verdict row, pr_reason row) \<in> REPORT_TUPLES)
    \<and> (\<forall>p \<in> set (task_snapshots s).
        (pr_report_state (sn_row p), pr_verdict (sn_row p), pr_reason (sn_row p)) \<in> REPORT_TUPLES)
    \<and> (\<exists>t. reconcile_herdr_liveness task pane adapter s = Inr ((), t))"
proof -
  from reach have wf: "store_wf s" by (rule reachable_store)
  then show ?thesis
    using reconcile_herdr_liveness_wf[OF wf, of task pane adapter]
    by (auto simp: store_wf_def facts_wf_def derived_ok_def projection_ok_def)
qed

theorem stored_tuples_are_protocol_tuples_witness:
  "\<exists>t. reconcile_herdr_liveness ''t1'' (Some False) None crew_registered = Inr ((), t)"
  using stored_tuples_are_protocol_tuples[OF store_reach(1)] by blast

section \<open>What needs action is announced\<close>

text \<open>
  A row whose reason calls for attention was announced by the generation it carries: the task is
  the changed task of that generation, and its row frozen there has the same reason.
\<close>

definition announced_row :: "store \<Rightarrow> ident \<Rightarrow> projection_row \<Rightarrow> bool" where
  "announced_row s task row \<longleftrightarrow> pr_reason row \<in> {RNone, RMissingReport}
     \<or> ((\<exists>w. (pr_generation row, task, w) \<in> set (generation_tasks s))
        \<and> (\<exists>p \<in> set (task_snapshots s). sn_generation p = pr_generation row \<and> sn_task p = task
              \<and> pr_reason (sn_row p) = pr_reason row))"

definition announced :: "store \<Rightarrow> ident set \<Rightarrow> bool" where
  "announced s except \<longleftrightarrow>
     (\<forall>(task, row) \<in> set (task_projections s). task \<notin> except \<longrightarrow> announced_row s task row)"

lemma announced_rowI:
  assumes "(pr_generation row, task, w) \<in> set (generation_tasks s)" and "p \<in> set (task_snapshots s)"
    and "sn_generation p = pr_generation row" "sn_task p = task" "pr_reason (sn_row p) = pr_reason row"
  shows "announced_row s task row"
  using assms by (auto simp: announced_row_def)

lemma announced_row_same:
  assumes "generation_tasks t = generation_tasks s" "task_snapshots t = task_snapshots s"
  shows "announced_row t = announced_row s"
  using assms by (auto simp: announced_row_def fun_eq_iff)

lemma announced_bumped:
  assumes "announced s {ac_task c}"
  shows "announced (bumped c s) {}"
proof -
  let ?t = "bumped c s"
  have "announced_row ?t task row" if row: "(task, row) \<in> set (task_projections ?t)" for task row
  proof (cases "task = ac_task c")
    case True
    with row have "pr_generation row = latest_generation s + 1"
      by (auto simp: bumped_def Let_def dest!: update_key_values)
    moreover have "\<lparr>sn_generation = latest_generation s + 1, sn_task = task, sn_row = row, sn_compat = True\<rparr>
        \<in> set (task_snapshots ?t)"
      using row by (force simp: bumped_def Let_def)
    moreover have "(latest_generation s + 1, task, ac_reason c) \<in> set (generation_tasks ?t)"
      using True by (simp add: bumped_def Let_def)
    ultimately show ?thesis by (metis announced_rowI snapshot.select_convs(1,2,3))
  next
    case False
    with row have "(task, row) \<in> set (task_projections s)"
      by (auto simp: bumped_def Let_def dest!: update_key_values)
    with assms False have "announced_row s task row" by (auto simp: announced_def)
    then show ?thesis by (auto simp: announced_row_def bumped_def Let_def)
  qed
  then show ?thesis by (auto simp: announced_def)
qed

lemma bump_actionable_bumped: "bump_actionable c s = Inr (gen, t) \<Longrightarrow> t = bumped c s"
  by (auto simp: bump_actionable_def bumped_def Let_def and_then_eq_Inr dest!: checked_deliveries_Inr
      split: if_splits)

lemma announced_bump:
  assumes "announced s {ac_task c}" and "bump_actionable c s = Inr (gen, t)"
  shows "announced t {}"
  using announced_bumped[OF assms(1)] bump_actionable_bumped[OF assms(2)] by simp

text \<open>A reduction touches at most its own task's row, and keeps the generation it carries.\<close>

lemma reduce_projection_rows:
  assumes run: "reduce_projection dir ev seq s = Inr (st, t)"
  shows "task_projections t = task_projections s
    \<or> (\<exists>task row. ev_task ev = Some task \<and> task \<noteq> []
        \<and> task_projections t = AList.update task row (task_projections s)
        \<and> pr_generation row = (case map_of (task_projections s) task of Some old \<Rightarrow> pr_generation old | None \<Rightarrow> 0))"
proof -
  have persist: "task_projections x = task_projections s" if "persist_session ev q z b s = Inr x" for q z b x
    using that by (auto simp: persist_session_def Let_def split: if_splits)
  show ?thesis
    using run persist
    by (fastforce simp: reduce_projection_def Let_def and_then_eq_Inr upsert_task_projection_def
        split: option.splits if_splits)
qed

lemma same_reason_kept:
  assumes "map_of (task_projections s) task = Some old" and "announced s {}"
    and "pr_reason row = pr_reason old" and "pr_generation row = pr_generation old"
  shows "announced_row s task row"
  using assms map_of_SomeD[OF assms(1)] by (auto simp: announced_def announced_row_def)

lemma announced_accept:
  assumes wf: "store_wf s" and ev: "event_ok ev" and old: "announced s {}"
    and run: "accept_event dir ev s = Inr (a, t)"
  shows "announced t {}"
proof -
  have same: "announced_row v = announced_row s" if "only_derived (logged ev s) v" for v
    using that by (intro announced_row_same) (simp_all add: only_derived_def same_ledger_def logged_def)
  have logged_rows: "task_projections (logged ev s) = task_projections s" by (simp add: logged_def)
  from run show ?thesis
  proof (cases rule: accept_event_cases)
    case duplicate
    with old show ?thesis by simp
  next
    case (change st s2 c gen task)
    note only = accepted_reduction(1,3)[OF wf ev change(1,2)]
    have "announced s2 {ac_task c}"
      using reduce_projection_rows[OF change(2)] old same[OF only(2)] change(3) detect_change_ok[OF change(4)]
      by (auto simp: announced_def logged_rows dest!: alist_update_values)
    with change(5) show ?thesis by (blast intro: announced_bump)
  next
    case (quiet st)
    note only = accepted_reduction(1,3)[OF wf ev quiet(1,2)]
    have unchanged: "detect_change ev task (map_of (task_projections s) task) (map_of (task_projections t) task) = None"
      if "ev_task ev = Some task" "task \<noteq> []" for task
      using run quiet that
      unfolding accept_event_def Let_def logged_def[symmetric]
      by (auto simp: and_then_eq_Inr split: option.splits)
    have "announced_row s task row" if row: "(task, row) \<in> set (task_projections t)" for task row
    proof -
      from reduce_projection_rows[OF quiet(2)] row
      consider "(task, row) \<in> set (task_projections s)"
        | "ev_task ev = Some task" "task \<noteq> []" "map_of (task_projections t) task = Some row"
          "pr_generation row = (case map_of (task_projections s) task of Some o' \<Rightarrow> pr_generation o' | None \<Rightarrow> 0)"
        by (auto simp: logged_rows update_conv dest!: alist_update_values)
      then show ?thesis
      proof cases
        case 1
        with old show ?thesis by (auto simp: announced_def)
      next
        case 2
        from unchanged[OF 2(1,2)] 2(3) have
          "pr_reason row \<in> {RNone, RMissingReport} \<or> map_option visible (map_of (task_projections s) task) = Some (visible row)"
          by (auto simp: detect_change_def startup_missing_report_def split: if_splits)
        then show ?thesis
        proof
          assume "map_option visible (map_of (task_projections s) task) = Some (visible row)"
          then obtain o' where o': "map_of (task_projections s) task = Some o'" "pr_reason row = pr_reason o'"
            by (auto simp: visible_def)
          with 2(4) same_reason_kept[OF o'(1) old] show ?thesis by simp
        qed (simp add: announced_row_def)
      qed
    qed
    then show ?thesis using same[OF only(2)] by (auto simp: announced_def)
  qed
qed

lemma announced_session:
  assumes old: "announced s {} \<and> distinct (keys (task_projections s))"
    and run: "reconcile_session task pane adapter (sess, row) s = Inr t"
  shows "announced t {} \<and> distinct (keys (task_projections t))"
proof (cases "map_of (task_projections s) task")
  case None
  with run have "announced_row t = announced_row s" "task_projections t = task_projections s"
    by (auto simp: reconcile_session_def Let_def intro!: announced_row_same)
  with old show ?thesis by (simp add: announced_def)
next
  case (Some before)
  let ?st = "observe pane adapter (se_state row)"
  let ?detail = "observed_detail pane ?st (pr_detail before)"
  let ?edge = "adapter = Some False \<and> adapter_connected (se_state row)"
  from run Some obtain why where why: "actionable_reason ?st (pd_report ?detail) = Inr why"
    by (auto simp: reconcile_session_def Let_def and_then_eq_Inr)
  let ?f = "\<lambda>row. row\<lparr>pr_availability := availability ?st, pr_reason := why, pr_detail := ?detail\<rparr>"
  let ?s2 = "with_projection task ?f (with_session sess (observed_session ?st) s)"
  have same: "announced_row ?s2 = announced_row s"
    by (intro announced_row_same) (simp_all add: with_projection_def with_session_def)
  have others: "announced ?s2 {task}"
    using old same by (auto simp: announced_def with_projection_def with_session_def dest!: update_key_values)
  show ?thesis
  proof (cases "(why \<noteq> RNone \<and> pr_reason before \<noteq> why) \<or> ?edge")
    case True
    with run Some why obtain g c where "bump_actionable c ?s2 = Inr (g, t)" "ac_task c = task"
      by (auto simp: reconcile_session_def Let_def and_then_eq_Inr with_projection_def with_session_def)
    moreover have "distinct (keys (task_projections (bumped c ?s2)))"
      using old by (simp add: bumped_def Let_def with_projection_def with_session_def)
    ultimately show ?thesis
      using others announced_bump[of ?s2 c g t] bump_actionable_bumped[of c ?s2 g t] by simp
  next
    case False
    with run Some why have t: "t = ?s2"
      by (auto simp: reconcile_session_def Let_def with_projection_def with_session_def)
    have row: "announced_row s task (?f r)" if "(task, r) \<in> set (task_projections s)" for r
    proof -
      from that old Some have r: "r = before" by (metis map_of_eq_Some_iff option.inject)
      have "announced_row s task before" using that old unfolding r announced_def by blast
      moreover from False have "why = RNone \<or> pr_reason before = why" by blast
      ultimately show ?thesis unfolding r announced_row_def by auto
    qed
    have "announced_row s a w" if "(a, w) \<in> set (update_key task ?f (task_projections s))" for a w
      using update_key_values[OF that] row old by (auto simp: announced_def)
    then have "announced ?s2 {}"
      unfolding announced_def same by (auto simp: with_projection_def with_session_def)
    with old show ?thesis by (simp add: t with_projection_def with_session_def)
  qed
qed

lemma announced_step: "daemon_step s t \<Longrightarrow> store_wf s \<Longrightarrow> announced s {} \<Longrightarrow> announced t {}"
proof (induction rule: daemon_step.induct)
  case (accept ev dir s a t)
  then show ?case by (blast intro: announced_accept)
next
  case (liveness task pane adapter s x t)
  have "distinct (keys (task_projections s))"
    using liveness(2) by (simp add: store_wf_def ledger_wf_def history_ok_def)
  with liveness(3) have old: "announced s {} \<and> distinct (keys (task_projections s))" by blast
  from liveness(1) obtain rows where "fold_res (reconcile_session task pane adapter) rows s = Inr t"
    by (auto simp: reconcile_herdr_liveness_def and_then_eq_Inr)
  from fold_res_invariant[OF this, of "\<lambda>s. announced s {} \<and> distinct (keys (task_projections s))"] old
  show ?case using announced_session by (metis surj_pair)
next
  case (driver s t)
  then have "announced_row t = announced_row s" "task_projections t = task_projections s"
    by (auto simp: same_facts_def intro!: announced_row_same)
  with driver(4) show ?case by (simp add: announced_def)
qed

lemma announced_run:
  assumes "daemon_step\<^sup>*\<^sup>* empty_store s"
  shows "announced s {}"
  using assms
proof (induction rule: rtranclp_induct)
  case base
  show ?case by (simp add: announced_def empty_store_def)
next
  case (step s t)
  have "store_wf s" using step(1) daemon_run_store reachable_store by blast
  with step show ?case by (blast intro: announced_step)
qed


definition torn_dir :: tasks_dir where
  "torn_dir task = \<lparr>tf_folder = True, tf_handoff = Unreadable, tf_ack_v2 = None, tf_ack_legacy = None\<rparr>"

lemma torn_report: "report_projection (torn_dir task) = unreadable_report"
  by (simp add: report_projection_def parse_task_report_def torn_dir_def)

definition crew_torn :: store where
  "crew_torn = store_of (accept_event torn_dir (crew_event ''e1'' 1 SessionRegister) empty_store)"

lemmas torn_eval = accept_eval torn_report unreadable_report_def

lemma run_crew_torn:
  "accept_event torn_dir (crew_event ''e1'' 1 SessionRegister) empty_store
   = Inr (\<lparr>ac_seq = 1, ac_duplicate = False, ac_generation = Some 1\<rparr>, crew_torn)"
  by (simp add: crew_torn_def torn_eval)

lemma reach_crew_torn: "daemon_step\<^sup>*\<^sup>* empty_store crew_torn"
  by (rule r_into_rtranclp, rule daemon_step.accept[OF _ run_crew_torn])
     (simp add: event_ok_def crew_event_def)


end
