(* ===== verification/Protocol_Facts.thy ===== *)
theory Protocol_Facts
  imports Protocol Event_Theorems
begin

text \<open>
  What a validated message is guaranteed to be: exactly the fields of its type, each with its
  check passed; a lifecycle message is an event of the reducer; an encoded message is one printable
  line within the frame limit.
\<close>

section \<open>Accepted messages\<close>

lemma demand_Inr [simp]: "demand p v f = Inr x \<longleftrightarrow> p v"
  by (simp add: demand_def fail_def)

lemma nullable_Inr: "NULLABLE c v f = Inr x \<longleftrightarrow> v = JNull \<or> c v f = Inr x"
  by (simp add: NULLABLE_def)

lemmas checks = ID_def POSITIVE_def NONNEGATIVE_def BOOL_def STRING_def ARRAY_def OBJECT_def
  BOUNDED_STRING_def KNOWN_OR_UNKNOWN_def ENUM_def nullable_Inr

lemma check_members_Inr:
  "check_members tbl path v = Inr () \<longleftrightarrow>
     (\<forall>(name, c) \<in> set tbl. \<forall>x. member name v = Some x \<longrightarrow> c x (path @ name) = Inr ())"
  by (induction tbl) (auto simp: and_then_eq_Inr split: option.splits)

definition conforms :: "(string \<times> check) list \<Rightarrow> (string \<times> check) list \<Rightarrow> json \<Rightarrow> bool" where
  "conforms required optional m \<longleftrightarrow>
     set (names m) \<subseteq> {''v'', ''type''} \<union> set (keys required) \<union> set (keys optional)
     \<and> set (keys required) \<subseteq> set (names m) \<and> check_members (required @ optional) [] m = Inr ()"

lemma sort_Nil_iff: "sort xs = [] \<longleftrightarrow> xs = []"
  by (metis length_0_conv length_sort)

lemma validate_Inr:
  assumes "validate m = Inr m'"
  obtains fs t required optional where "m' = m" "m = JObj fs" "member ''v'' m = Some (JInt VERSION)"
    "member ''type'' m = Some (JStr t)" "map_of SCHEMAS t = Some (required, optional)"
    "conforms required optional m"
    "t \<in> set LIFECYCLE_TYPES \<Longrightarrow> check_identity m = Inr ()"
proof -
  from assms obtain fs where "m = JObj fs" by (cases m) (auto simp: validate_def is_object_def fail_def)
  moreover from assms obtain t where "member ''type'' m = Some (JStr t)"
    by (auto simp: validate_def fail_def split: if_splits option.splits json.splits)
  moreover from assms have "member ''v'' m = Some (JInt VERSION)"
    by (auto simp: validate_def fail_def split: if_splits)
  moreover from calculation assms obtain required optional where "map_of SCHEMAS t = Some (required, optional)"
    by (auto simp: validate_def fail_def split: if_splits option.splits)
  moreover from calculation assms have "conforms required optional m" "m' = m"
    "t \<in> set LIFECYCLE_TYPES \<Longrightarrow> check_identity m = Inr ()"
    by (auto simp: validate_def fail_def conforms_def Let_def and_then_eq_Inr sort_Nil_iff filter_empty_conv
        split: if_splits)
  ultimately show ?thesis using that by blast
qed

lemma member_names: "member n m \<noteq> None \<longleftrightarrow> n \<in> set (names m)"
  by (cases m) (auto simp: member_def names_def map_of_eq_None_iff)

text \<open>A required field is there and passes its check; an optional one passes it when it is there.\<close>

lemma conforms_required:
  assumes "conforms required optional m" and "(name, c) \<in> set required"
  shows "\<exists>x. member name m = Some x \<and> c x name = Inr ()"
proof -
  from assms have "member name m \<noteq> None" unfolding member_names by (force simp: conforms_def)
  with assms show ?thesis by (fastforce simp: conforms_def check_members_Inr)
qed

lemma conforms_optional:
  assumes "conforms required optional m" and "(name, c) \<in> set optional" and "member name m = Some x"
  shows "c x name = Inr ()"
  using assms by (fastforce simp: conforms_def check_members_Inr)

section \<open>Lifecycle messages are events\<close>

text \<open>The lifecycle rows of the table.\<close>

lemma lifecycle_rows:
  "map_of SCHEMAS ''session.register'' = Some (EVENT_FIELDS, IDENTITY_FIELDS)"
  "map_of SCHEMAS ''turn.start'' = Some (EVENT_FIELDS @ [(''turn_id'', ID)], IDENTITY_FIELDS)"
  "map_of SCHEMAS ''background.start'' =
     Some (EVENT_FIELDS @ [(''job_id'', ID), (''job_kind'', STRING)], IDENTITY_FIELDS)"
  "map_of SCHEMAS ''background.stop'' =
     Some (EVENT_FIELDS @ [(''job_id'', ID), (''result'', ENUM RESULTS)], IDENTITY_FIELDS)"
  "map_of SCHEMAS ''background.snapshot'' =
     Some (EVENT_FIELDS @ [(''active_count'', NONNEGATIVE)], IDENTITY_FIELDS)"
  "map_of SCHEMAS ''turn.stop'' =
     Some (EVENT_FIELDS @ [(''background_active'', KNOWN_OR_UNKNOWN)], IDENTITY_FIELDS @ [(''turn_id'', ID)])"
  "map_of SCHEMAS ''session.end'' = Some (EVENT_FIELDS, IDENTITY_FIELDS)"
  by (simp_all add: SCHEMAS_def)

lemma lifecycle_kinds:
  "kind_of ''session.register'' m = SessionRegister"
  "kind_of ''turn.start'' m = TurnStart (str_member ''turn_id'' m)"
  "kind_of ''background.start'' m = BackgroundStart (str_member ''job_id'' m) (str_member ''job_kind'' m)"
  "kind_of ''background.stop'' m = BackgroundStop (str_member ''job_id'' m) (str_member ''result'' m)"
  "kind_of ''background.snapshot'' m = BackgroundSnapshot (int_member ''active_count'' m)"
  "kind_of ''turn.stop'' m =
     TurnStop (case member ''background_active'' m of Some (JBool b) \<Rightarrow> Some b | _ \<Rightarrow> None) (text_of ''turn_id'' m)"
  "kind_of ''session.end'' m = SessionEnd"
  by (simp_all add: kind_of_def)

lemma lifecycle_schema:
  assumes "t \<in> set LIFECYCLE_TYPES"
  obtains extra extra' where "map_of SCHEMAS t = Some (EVENT_FIELDS @ extra, IDENTITY_FIELDS @ extra')"
    "t = ''background.snapshot'' \<longrightarrow> (''active_count'', NONNEGATIVE) \<in> set extra"
proof -
  from assms have "t = ''session.register'' \<or> t = ''turn.start'' \<or> t = ''background.start'' \<or> t = ''background.stop''
 \<or> t = ''background.snapshot'' \<or> t = ''turn.stop'' \<or> t = ''session.end''"
    by (simp only: LIFECYCLE_TYPES_def list.set insert_iff empty_iff simp_thms)
  then show ?thesis
  proof (elim disjE)
    assume t: "t = ''session.register''"
    show ?thesis by (rule that[of "[]" "[]"]) (simp_all add: t lifecycle_rows(1))
  next
    assume t: "t = ''turn.start''"
    show ?thesis by (rule that[of "[(''turn_id'', ID)]" "[]"]) (simp_all add: t lifecycle_rows(2))
  next
    assume t: "t = ''background.start''"
    show ?thesis by (rule that[of "[(''job_id'', ID), (''job_kind'', STRING)]" "[]"]) (simp_all add: t lifecycle_rows(3))
  next
    assume t: "t = ''background.stop''"
    show ?thesis by (rule that[of "[(''job_id'', ID), (''result'', ENUM RESULTS)]" "[]"]) (simp_all add: t lifecycle_rows(4))
  next
    assume t: "t = ''background.snapshot''"
    show ?thesis by (rule that[of "[(''active_count'', NONNEGATIVE)]" "[]"]) (simp_all add: t lifecycle_rows(5))
  next
    assume t: "t = ''turn.stop''"
    show ?thesis by (rule that[of "[(''background_active'', KNOWN_OR_UNKNOWN)]" "[(''turn_id'', ID)]"]) (simp_all add: t lifecycle_rows(6))
  next
    assume t: "t = ''session.end''"
    show ?thesis by (rule that[of "[]" "[]"]) (simp_all add: t lifecycle_rows(7))
  qed
qed

lemma lifecycle_kind_ok:
  assumes "t \<in> set LIFECYCLE_TYPES"
  shows "(\<exists>c. kind_changes (kind_of t m) st = Inr c)
    \<and> (\<forall>n. kind_of t m = BackgroundSnapshot n \<longrightarrow> t = ''background.snapshot'' \<and> n = int_member ''active_count'' m)"
proof -
  have "\<exists>c. kind_changes k st = Inr c" if "\<And>t. k \<noteq> OtherKind t" for k
    using that by (cases k) (auto simp: Let_def split: option.splits bool.splits)
  moreover from assms have "kind_of t m \<noteq> OtherKind t'" for t'
    unfolding LIFECYCLE_TYPES_def by (auto simp: lifecycle_kinds)
  moreover from assms have "t = ''background.snapshot'' \<and> n = int_member ''active_count'' m"
    if "kind_of t m = BackgroundSnapshot n" for n
    using that unfolding LIFECYCLE_TYPES_def by (auto simp: lifecycle_kinds)
  ultimately show ?thesis by blast
qed

lemma is_id_text: "is_id v \<Longrightarrow> \<exists>s. v = JStr s \<and> id_text s"
  by (cases v) (auto simp: is_id_def)

lemma is_between_int: "is_between low v \<Longrightarrow> \<exists>n. v = JInt n \<and> low \<le> n \<and> n \<le> MAX_INTEGER"
  by (cases v) (auto simp: is_between_def)

lemma one_of_text: "is_one_of ws v \<Longrightarrow> \<exists>s. v = JStr s \<and> s \<in> set ws"
  by (cases v) (auto simp: is_one_of_def)

definition identified :: "event \<Rightarrow> bool" where
  "identified ev \<longleftrightarrow> (case ev_role ev of
       Crew \<Rightarrow> (\<exists>task. ev_task ev = Some task \<and> id_text task) \<and> ev_driver ev = None
     | Watchtower \<Rightarrow> (\<exists>drv. ev_driver ev = Some drv \<and> id_text drv) \<and> ev_task ev = None)"

lemma identity_of_message:
  assumes id: "check_identity m = Inr ()" and role: "member ''role'' m = Some (JStr r)" "r \<in> set ROLES"
    and ids: "\<And>name v. name \<in> {''task_id'', ''driver_id''} \<Longrightarrow> member name m = Some v \<Longrightarrow> is_id v"
  shows "identified (event_of m)"
proof -
  have texts: "text_of name m = map_option (\<lambda>v. case v of JStr s \<Rightarrow> s | _ \<Rightarrow> []) (member name m)"
    if "name \<in> {''task_id'', ''driver_id''}" for name
  proof (cases "member name m")
    case (Some v)
    with ids[OF that Some] show ?thesis by (auto simp: text_of_def text_or_null_def dest: is_id_text)
  qed (simp add: text_of_def)
  have task: "member ''task_id'' m = Some v \<Longrightarrow> \<exists>s. v = JStr s \<and> id_text s"
    and driver: "member ''driver_id'' m = Some v \<Longrightarrow> \<exists>s. v = JStr s \<and> id_text s" for v
    using ids is_id_text by blast+
  have role_ev: "ev_role (event_of m) = role_of r"
    by (simp add: event_of_def str_member_def text_of_def text_or_null_def role)
  show ?thesis
  proof (cases "r = ''crew''")
    case True
    with id role obtain v where "member ''task_id'' m = Some v" "member ''driver_id'' m = None"
      by (auto simp: check_identity_def Let_def fail_def split: if_splits)
    with task[of v] role_ev True texts show ?thesis
      by (auto simp: identified_def event_of_def role_of_def)
  next
    case False
    with id role obtain v where "member ''driver_id'' m = Some v" "member ''task_id'' m = None"
      by (auto simp: check_identity_def Let_def fail_def split: if_splits)
    with driver[of v] role_ev False texts show ?thesis
      by (auto simp: identified_def event_of_def role_of_def)
  qed
qed

lemma lifecycle_event:
  assumes "validate m = Inr m'" and "member ''type'' m = Some (JStr t)" and "t \<in> set LIFECYCLE_TYPES"
  shows "id_text (ev_id (event_of m)) \<and> id_text (ev_session (event_of m))
    \<and> 1 \<le> producer_no (event_of m) \<and> producer_no (event_of m) \<le> MAX_INTEGER
    \<and> identified (event_of m) \<and> role_identity_valid (event_of m) \<and> event_ok (event_of m)
    \<and> (\<exists>c. kind_changes (ev_kind (event_of m)) st = Inr c)"
proof -
  from assms(1) obtain required optional where "map_of SCHEMAS t = Some (required, optional)"
    "conforms required optional m" and id: "t \<in> set LIFECYCLE_TYPES \<Longrightarrow> check_identity m = Inr ()"
    by (rule validate_Inr) (use assms(2) in simp)
  moreover from assms(3) obtain extra extra' where
    "map_of SCHEMAS t = Some (EVENT_FIELDS @ extra, IDENTITY_FIELDS @ extra')"
    and count: "t = ''background.snapshot'' \<longrightarrow> (''active_count'', NONNEGATIVE) \<in> set extra"
    by (rule lifecycle_schema)
  ultimately have conf: "conforms (EVENT_FIELDS @ extra) (IDENTITY_FIELDS @ extra') m" by simp
  have req: "\<exists>x. member name m = Some x \<and> c x name = Inr ()" if "(name, c) \<in> set EVENT_FIELDS" for name c
    using conforms_required[OF conf] that by simp
  from req[of "''event_id''" ID] obtain i where i: "member ''event_id'' m = Some (JStr i)" "id_text i"
    by (auto simp: EVENT_FIELDS_def checks dest: is_id_text)
  from req[of "''session_id''" ID] obtain j where j: "member ''session_id'' m = Some (JStr j)" "id_text j"
    by (auto simp: EVENT_FIELDS_def checks dest: is_id_text)
  from req[of "''producer_seq''" POSITIVE] obtain n where n: "member ''producer_seq'' m = Some (JInt n)"
    "1 \<le> n" "n \<le> MAX_INTEGER"
    by (auto simp: EVENT_FIELDS_def checks dest: is_between_int)
  from req[of "''role''" "ENUM ROLES"] obtain r where r: "member ''role'' m = Some (JStr r)" "r \<in> set ROLES"
    by (auto simp: EVENT_FIELDS_def checks dest: one_of_text)
  have ids: "is_id v" if "name \<in> {''task_id'', ''driver_id''}" "member name m = Some v" for name v
    using conforms_optional[OF conf, of name ID v] that by (auto simp: IDENTITY_FIELDS_def checks)
  have ident: "identified (event_of m)" using id[OF assms(3)] r ids by (rule identity_of_message)
  then have valid: "role_identity_valid (event_of m)"
    by (cases "ev_role (event_of m)") (auto simp: identified_def role_identity_valid_def)
  have kind: "ev_kind (event_of m) = kind_of t m"
    by (simp add: event_of_def str_member_def text_of_def text_or_null_def assms(2))
  have "event_ok (event_of m)"
  proof (cases "t = ''background.snapshot''")
    case True
    from conforms_required[OF conf, of "''active_count''" NONNEGATIVE] count True obtain k where
      "member ''active_count'' m = Some (JInt k)" "0 \<le> k" by (auto simp: checks dest: is_between_int)
    with kind True show ?thesis by (simp add: event_ok_def lifecycle_kinds int_member_def)
  next
    case False
    with lifecycle_kind_ok[OF assms(3)] kind show ?thesis
      by (auto simp: event_ok_def split: event_kind.split)
  qed
  moreover have "\<exists>c. kind_changes (ev_kind (event_of m)) st = Inr c"
    using lifecycle_kind_ok[OF assms(3)] kind by simp
  ultimately show ?thesis
    using i j n ident valid by (simp add: event_of_def str_member_def text_of_def text_or_null_def int_member_def)
qed

text \<open>
  A validated lifecycle message is an event the daemon can store.  It carries its sender's
  event and session as safe identifiers and a positive number within the exact range of every
  reader, its role's identity and not the other's (so the trigger on \<open>sessions\<close> accepts it), and a kind
  that the reducer has a branch for, whatever the session's state.
\<close>

theorem lifecycle_message_is_event:
  assumes "validate m = Inr m'" and "member ''type'' m = Some (JStr t)" and "t \<in> set LIFECYCLE_TYPES"
  shows "id_text (ev_id (event_of m)) \<and> id_text (ev_session (event_of m))
    \<and> 1 \<le> producer_no (event_of m) \<and> producer_no (event_of m) \<le> MAX_INTEGER
    \<and> identified (event_of m) \<and> role_identity_valid (event_of m) \<and> event_ok (event_of m)
    \<and> (\<exists>c. kind_changes (ev_kind (event_of m)) st = Inr c)"
  by (rule lifecycle_event[OF assms])

definition register_message :: json where
  "register_message = JObj [(''v'', JInt 1), (''type'', JStr ''session.register''), (''event_id'', JStr ''e1''),
     (''producer_seq'', JInt 1), (''session_id'', JStr ''s1''), (''harness'', JStr ''pi''),
     (''role'', JStr ''crew''), (''task_id'', JStr ''t1'')]"

lemmas validate_eval = validate_def is_object_def member_def names_def VERSION_def SCHEMAS_def
  EVENT_FIELDS_def IDENTITY_FIELDS_def LIFECYCLE_TYPES_def check_identity_def checks demand_def
  is_id_def id_text_def is_letter_or_digit_def is_between_def MAX_INTEGER_def is_one_of_def HARNESSES_def
  ROLES_def less_eq_char_def NULLABLE_def is_text_def is_boolean_def Let_def

lemma register_message_valid: "validate register_message = Inr register_message"
  by (simp add: register_message_def validate_eval)

lemma lifecycle_message_is_event_witness:
  "event_of register_message = crew_event ''e1'' 1 SessionRegister \<and> event_ok (event_of register_message)
     \<and> role_identity_valid (event_of register_message)"
proof -
  have "member ''type'' register_message = Some (JStr ''session.register'')"
    by (simp add: register_message_def member_def)
  from lifecycle_message_is_event[OF register_message_valid this]
  show ?thesis
    by (simp add: LIFECYCLE_TYPES_def event_of_def register_message_def crew_event_def str_member_def
        text_of_def text_or_null_def member_def harness_of_def role_of_def int_member_def lifecycle_kinds)
qed

text \<open>The types that carry a producer number are the lifecycle types.\<close>

lemma producer_types: "requires_producer_seq t \<Longrightarrow> t \<in> set LIFECYCLE_TYPES"
proof -
  have "list_all (\<lambda>(t, required, _). ''producer_seq'' \<in> set (keys required) \<longrightarrow> t \<in> set LIFECYCLE_TYPES) SCHEMAS"
    by (simp add: SCHEMAS_def EVENT_FIELDS_def LIFECYCLE_TYPES_def)
  then show "requires_producer_seq t \<Longrightarrow> t \<in> set LIFECYCLE_TYPES"
    by (auto simp: requires_producer_seq_def list_all_iff dest!: map_of_SomeD split: option.splits)
qed

section \<open>Frames\<close>

fun floats_ok :: "json \<Rightarrow> bool" where
  "floats_ok (JFloat lit) = list_all (\<lambda>c. 32 \<le> (of_char c :: nat) \<and> of_char c \<le> (126 :: nat)) lit"
| "floats_ok (JArr vs) = list_all floats_ok vs"
| "floats_ok (JObj fs) = list_all (\<lambda>(_, v). floats_ok v) fs"
| "floats_ok _ = True"

definition plain :: "string \<Rightarrow> bool" where
  "plain s \<longleftrightarrow> (\<forall>c \<in> set s. 32 \<le> (of_char c :: nat) \<and> of_char c \<le> (126 :: nat))"

lemma plain_simps [simp]:
  "plain []" "plain (c # s) \<longleftrightarrow> 32 \<le> (of_char c :: nat) \<and> of_char c \<le> (126 :: nat) \<and> plain s"
  "plain (s @ t) \<longleftrightarrow> plain s \<and> plain t" "plain (concat ss) \<longleftrightarrow> list_all plain ss"
  by (auto simp: plain_def list_all_iff)

lemma plain_show_nat: "plain (show_nat n)"
proof (induction n rule: show_nat.induct)
  case (1 n)
  have "d < 10 \<Longrightarrow> plain [digit_char d]" for d by (simp add: digit_char_def)
  with 1 show ?case by (subst show_nat.simps) simp
qed

lemma plain_escape: "plain (escape_char c)"
proof -
  have hex: "d < 16 \<Longrightarrow> plain [hex_char d]" for d by (simp add: hex_char_def)
  have "of_char c div 16 < (16 :: nat)" using nat_of_char_less_256[of c] by linarith
  with hex[of "of_char c div 16"] hex[of "of_char c mod 16"] show ?thesis
    by (auto simp: escape_char_def Let_def)
qed

lemma plain_quoted: "plain (quoted s)"
  using plain_escape by (simp add: quoted_def list_all_iff)

lemma plain_joined: "list_all plain ss \<Longrightarrow> plain (joined ss)"
  by (induction ss rule: joined.induct) simp_all

lemma plain_dumps: "floats_ok v \<Longrightarrow> plain (dumps v)"
proof (induction v rule: dumps.induct)
  case (3 n)
  show ?case by (simp add: show_int_def plain_show_nat)
next
  case (4 lit)
  then show ?case by (simp add: plain_def list_all_iff)
next
  case (5 s)
  show ?case by (simp add: plain_quoted)
next
  case (6 vs)
  then show ?case by (simp add: plain_joined list_all_iff)
next
  case (7 fs)
  then have "plain (dumps b)" if "(a, b) \<in> set fs" for a b using that by (fastforce simp: list_all_iff)
  then show ?case by (auto simp: plain_quoted list_all_iff intro!: plain_joined)
qed simp_all

text \<open>
  C21: an encoded message is exactly one frame.  It is within the byte limit with its newline
  counted, that newline is its only one, and every other byte is printable ASCII, so the next
  reader's line is this message and nothing else; and only a valid message is ever encoded.
\<close>

theorem encoded_is_one_frame:
  assumes "encode m = Inr frame" and "floats_ok m"
  shows "length frame \<le> MAX_FRAME_BYTES \<and> (\<exists>body. frame = body @ [CHR 0x0A]
      \<and> list_all (\<lambda>c. 32 \<le> (of_char c :: nat) \<and> of_char c \<le> (126 :: nat)) body)
    \<and> validate m = Inr m"
proof -
  from assms(1) obtain m' where v: "validate m = Inr m'" and "frame = dumps m @ [CHR 0x0A]"
    "length frame \<le> MAX_FRAME_BYTES"
    by (auto simp: encode_def and_then_eq_Inr Let_def fail_def split: if_splits)
  moreover from v have "m' = m" by (rule validate_Inr) simp
  ultimately show ?thesis using plain_dumps[OF assms(2)] by (simp add: plain_def list_all_iff)
qed

lemma encoded_is_one_frame_witness:
  "\<exists>frame body. encode (JObj [(''v'', JInt 1), (''type'', JStr ''ok''), (''request_id'', JStr ''r1'')]) = Inr frame
     \<and> frame = body @ [CHR 0x0A] \<and> length frame \<le> MAX_FRAME_BYTES"
proof -
  let ?m = "JObj [(''v'', JInt 1), (''type'', JStr ''ok''), (''request_id'', JStr ''r1'')]"
  obtain frame where e: "encode ?m = Inr frame"
    by (simp add: encode_def validate_eval MAX_FRAME_BYTES_def quoted_def escape_char_def show_int_def
        show_nat.simps)
  have "floats_ok ?m" by simp
  from encoded_is_one_frame[OF e this] e show ?thesis by blast
qed

end
