(* ===== verification/Server_Facts.thy ===== *)
theory Server_Facts
  imports Server Protocol_Facts Event_Theorems
begin

text \<open>
  What the daemon promises its clients: which failures can reach them, that an error reply is
  always a valid message that echoes nothing unchecked, that the spool only loses what the log
  holds, and that the replies it builds from its store are valid messages.
\<close>

section \<open>Which exceptions a handler can end with\<close>

definition refusal :: "py_error \<Rightarrow> bool" where
  "refusal e \<longleftrightarrow> (\<exists>m. e = ValueError m)"

lemma caught_refusal: "refusal e \<Longrightarrow> caught e = ValueFailure"
  by (auto simp: refusal_def caught_def)

lemma refusal_simps [simp]: "refusal (ValueError m)" "\<not> refusal (IntegrityError m)" "\<not> refusal TypeError"
  "\<not> refusal (RuntimeError m)" "\<not> refusal (KeyError m)"
  by (simp_all add: refusal_def)

lemma checked_errors: "checked_deliveries s = Inl e \<Longrightarrow> \<exists>m. e = IntegrityError m"
  by (auto simp: checked_deliveries_def split: if_splits)

text \<open>In a well-formed ledger every failure of a driver's operation is a ValueError.\<close>

lemma require_refuses: "require_registration drv sess ep s = Inl e \<Longrightarrow> refusal e"
  by (auto simp: require_registration_def split: option.splits if_splits)

lemma ledger_of_refuses:
  "ledger_wf s \<Longrightarrow> require_registration drv sess ep s = Inr () \<Longrightarrow> ledger_of drv s \<noteq> Inl e"
  using ledger_of_registered by fastforce

lemma register_refuses:
  assumes "ledger_wf s" and "register_driver drv sess harn s = Inl e"
  shows "refusal e"
proof -
  from assms(1) have "registry_ok s" by (simp add: ledger_wf_def)
  then have "map_of (registrations s) drv = None \<longleftrightarrow> map_of (deliveries s) drv = None"
    by (rule registered_iff_ledger)
  with assms(2) show ?thesis by (auto simp: register_driver_def Let_def split: option.splits if_splits)
qed

lemma disable_refuses: "disable_driver_authority drv s = Inl e \<Longrightarrow> refusal e"
  by (auto simp: disable_driver_authority_def split: option.splits if_splits)

lemma availability_refuses: "watchtower_availability drv sess ep s = Inl e \<Longrightarrow> refusal e"
  by (auto simp: watchtower_availability_def and_then_eq_Inl dest: require_refuses)

lemma snapshot_rows_refuses: "snapshot_rows n a s = Inl e \<Longrightarrow> refusal e"
  by (auto simp: snapshot_rows_def Let_def split: if_splits)

lemma reconcile_refuses:
  "reconcile drv sess ep n s = Inl e \<Longrightarrow> refusal e"
  "reconcile_delivered drv full s = Inl e \<Longrightarrow> refusal e"
  by (auto simp: reconcile_def reconcile_delivered_def and_then_eq_Inl Let_def
      dest: require_refuses snapshot_rows_refuses split: option.splits if_splits)

lemma confirm_refuses:
  assumes "ledger_wf s" and "confirm_delivery drv sess ep gen s = Inl e"
  shows "refusal e"
proof -
  have "refusal e \<or> (\<exists>m. e = IntegrityError m)"
    using assms(2)
    by (auto simp: confirm_delivery_def and_then_eq_Inl Let_def dest: require_refuses checked_errors split: if_splits)
  with assms confirm_never_integrity[OF assms(1)] show ?thesis by blast
qed

lemma ack_refuses:
  assumes "ledger_wf s"
  shows "ack_delivered drv n s = Inl e \<Longrightarrow> refusal e" and "ack_generation drv sess ep n s = Inl e \<Longrightarrow> refusal e"
proof -
  assume a: "ack_delivered drv n s = Inl e"
  then have "refusal e \<or> (\<exists>m. e = IntegrityError m)"
    by (auto simp: ack_delivered_def set_acked_def and_then_eq_Inl dest: checked_errors split: option.splits if_splits)
  with a ack_never_integrity(1)[OF assms] show "refusal e" by blast
next
  assume a: "ack_generation drv sess ep n s = Inl e"
  then have "refusal e \<or> (\<exists>m. e = IntegrityError m)"
    using ledger_of_refuses[OF assms, of drv sess ep]
    by (auto simp: ack_generation_def set_acked_def and_then_eq_Inl dest: require_refuses checked_errors split: if_splits)
  with a ack_never_integrity(2)[OF assms] show "refusal e" by blast
qed

lemma frontier_refuses:
  assumes "ledger_wf s" and "notification_frontier drv sess ep s = Inl e"
  shows "refusal e"
  using assms(2) ledger_of_refuses[OF assms(1), of drv sess ep]
  by (auto simp: notification_frontier_def and_then_eq_Inl Let_def dest: require_refuses
      split: option.splits if_splits)

lemma offer_pending_refuses:
  assumes "ledger_wf s" and "offer_pending now c s = (Inl e, c', s')"
  shows "refusal e"
proof -
  have "co_frontier c s = Inl e \<or> co_offer c s = Inl e"
    using assms(2)
    by (auto simp: offer_pending_def Let_def split: sum.splits option.splits prod.splits if_splits)
  then show ?thesis
    unfolding co_frontier_def co_offer_def
    using frontier_refuses[OF assms(1)] offer_never_integrity[OF assms(1)] refusal_simps(1) by metis
qed

text \<open>The queue's operations.\<close>

lemma claim_total: "claim_pending_send task s \<noteq> Inl e"
  by (auto simp: claim_pending_send_def split: option.splits)

lemma claim_deliverable_total: "claim_deliverable now task level s \<noteq> Inl e"
  using claim_total[of task s e]
  by (auto simp: claim_deliverable_def and_then_eq_Inl claim_total resolve_pending_send_def split: option.splits)

lemma deliver_total: "deliver link now row pane s \<noteq> Inl e"
  by (auto simp: deliver_def resolve_pending_send_def split: option.splits)

lemma enqueue_handler_errors:
  assumes "sends_ok (pending_sends s)" and "handle_send_enqueue w m s = Inl e"
  shows "\<exists>what. e = IntegrityError what \<and> (wd_now_ms w + int_member ''timeout_ms'' m > MAX_INSTANT
    \<or> wd_send_id w \<in> sd_id ` set (pending_sends s))"
proof -
  from assms(2) have "enqueue_pending_send (wd_send_id w) (str_member ''task_id'' m) (str_member ''payload'' m)
      (int_member ''timeout_ms'' m) (wd_now_ms w) s = Inl e"
    by (auto simp: handle_send_enqueue_def Let_def and_then_eq_Inl claim_deliverable_total deliver_total
        split: option.splits if_splits)
  then show ?thesis by (auto simp: enqueue_eq split: if_splits)
qed

section \<open>The daemon as a state machine\<close>

text \<open>Every operation of a handler is a step of the store's machine and of the queue's.\<close>

definition safe_tasks :: "store \<Rightarrow> bool" where
  "safe_tasks s \<longleftrightarrow> (\<forall>task \<in> set (keys (task_projections s)). id_text task)"

definition system_step :: "store \<Rightarrow> store \<Rightarrow> bool" where
  "system_step s t \<longleftrightarrow> daemon_step s t \<and> send_step s t \<and> (safe_tasks s \<longrightarrow> safe_tasks t)"

definition system_ok :: "store \<Rightarrow> bool" where
  "system_ok s \<longleftrightarrow> store_wf s \<and> sends_ok (pending_sends s) \<and> safe_tasks s"

lemma system_step_ok: "system_ok s \<Longrightarrow> system_step s t \<Longrightarrow> system_ok t"
  using daemon_step_wf send_step_ok by (auto simp: system_step_def system_ok_def send_table_ok_def)

interpretation system: preserved system_step system_ok
  by unfold_locales (rule system_step_ok)

lemma same_sends:
  "register_driver drv sess harn s = Inr (ep', t) \<Longrightarrow> pending_sends t = pending_sends s"
  "disable_driver_authority drv s = Inr (x, t) \<Longrightarrow> pending_sends t = pending_sends s"
  "offer_notification drv sess ep s = Inr (n, t) \<Longrightarrow> pending_sends t = pending_sends s"
  "confirm_delivery drv sess ep gen s = Inr (b, t) \<Longrightarrow> pending_sends t = pending_sends s"
  "reconcile_delivered drv full s = Inr (rc, t) \<Longrightarrow> pending_sends t = pending_sends s"
  "ack_delivered drv gen s = Inr (b, t) \<Longrightarrow> pending_sends t = pending_sends s"
  "ack_generation drv sess ep gen s = Inr (b, t) \<Longrightarrow> pending_sends t = pending_sends s"
  by (auto simp: register_driver_def disable_driver_authority_def
        offer_notification_def confirm_delivery_def reconcile_delivered_def ack_delivered_def ack_generation_def
        insert_offer_def set_acked_def and_then_eq_Inr Let_def dest!: checked_deliveries_Inr
        split: option.splits if_splits)

lemma driver_operations_system:
  "register_driver drv sess harn s = Inr (ep', t) \<Longrightarrow> system_step s t"
  "disable_driver_authority drv s = Inr (x, t) \<Longrightarrow> system_step s t"
  "offer_notification drv sess ep s = Inr (n, t) \<Longrightarrow> system_step s t"
  "confirm_delivery drv sess ep gen s = Inr (b, t) \<Longrightarrow> system_step s t"
  "reconcile_delivered drv full s = Inr (rc, t) \<Longrightarrow> system_step s t"
  "ack_delivered drv gen s = Inr (b, t) \<Longrightarrow> system_step s t"
  "ack_generation drv sess ep gen s = Inr (b, t) \<Longrightarrow> system_step s t"
proof -
  have same: "same_facts s t \<Longrightarrow> safe_tasks s \<longrightarrow> safe_tasks t" by (simp add: safe_tasks_def same_facts_def)
  show "register_driver drv sess harn s = Inr (ep', t) \<Longrightarrow> system_step s t"
    "disable_driver_authority drv s = Inr (x, t) \<Longrightarrow> system_step s t"
    "offer_notification drv sess ep s = Inr (n, t) \<Longrightarrow> system_step s t"
    "confirm_delivery drv sess ep gen s = Inr (b, t) \<Longrightarrow> system_step s t"
    "reconcile_delivered drv full s = Inr (rc, t) \<Longrightarrow> system_step s t"
    "ack_delivered drv gen s = Inr (b, t) \<Longrightarrow> system_step s t"
    "ack_generation drv sess ep gen s = Inr (b, t) \<Longrightarrow> system_step s t"
    unfolding system_step_def
    by (rule conjI, erule driver_operations_step, rule conjI, rule send_step.elsewhere, erule same_sends,
        rule same, erule driver_operations_facts)+
qed

lemma send_system:
  assumes ok: "system_ok s" and step: "send_step s t" and t: "t = s\<lparr>pending_sends := rows\<rparr>"
  shows "system_step s t"
proof -
  from ok have "history_ok s" by (simp add: system_ok_def store_wf_def ledger_wf_def)
  then have "distinct (keys (task_projections t))" "sn_task ` set (task_snapshots s) \<subseteq> set (keys (task_projections t))"
    unfolding history_ok_def t by auto
  then have "delivery_step s t" by (intro delivery_step.elsewhere) (simp_all add: same_ledger_def t)
  then have "daemon_step s t" by (rule daemon_step.driver) (simp add: same_facts_def t)
  with step show ?thesis by (simp add: system_step_def safe_tasks_def t)
qed

text \<open>What a validated message says of its event.\<close>

definition sound :: "event \<Rightarrow> bool" where
  "sound ev \<longleftrightarrow> event_ok ev \<and> (\<forall>task. ev_task ev = Some task \<longrightarrow> id_text task)"

lemma safe_row: "safe_tasks s \<Longrightarrow> id_text task \<Longrightarrow> task_projections t = AList.update task row (task_projections s)
    \<Longrightarrow> safe_tasks t"
  by (auto simp: safe_tasks_def dest!: alist_update_values)

lemma reduced_safe:
  assumes "reduce_projection dir ev seq s = Inr (st, t)" and "sound ev" and "safe_tasks s"
  shows "safe_tasks t"
  using reduce_projection_rows[OF assms(1)]
proof
  assume "task_projections t = task_projections s"
  with assms(3) show ?thesis by (simp add: safe_tasks_def)
next
  assume "\<exists>task row. ev_task ev = Some task \<and> task \<noteq> []
    \<and> task_projections t = AList.update task row (task_projections s)
    \<and> pr_generation row = (case map_of (task_projections s) task of Some old \<Rightarrow> pr_generation old | None \<Rightarrow> 0)"
  then obtain task row where "ev_task ev = Some task"
    and t: "task_projections t = AList.update task row (task_projections s)" by blast
  with assms(2) have "id_text task" by (simp add: sound_def)
  from safe_row[OF assms(3) this t] show ?thesis .
qed

lemma accept_system:
  assumes ok: "system_ok s" and sound: "sound ev" and run: "accept_event dir ev s = Inr (a, t)"
  shows "system_step s t"
proof -
  from sound have ev: "event_ok ev" by (simp add: sound_def)
  from ok have wf: "store_wf s" by (simp add: system_ok_def)
  from ok have safe: "safe_tasks (logged ev s)" by (simp add: system_ok_def safe_tasks_def logged_def)
  from run have "safe_tasks t"
  proof (cases rule: accept_event_cases)
    case duplicate
    with ok show ?thesis by (simp add: system_ok_def)
  next
    case (quiet st)
    from reduced_safe[OF quiet(2) sound safe] show ?thesis .
  next
    case (change st s2 c gen task)
    from reduced_safe[OF change(2) sound safe] bump_actionable_bumped[OF change(5)] show ?thesis
      by (simp add: safe_tasks_def bumped_def Let_def)
  qed
  from run have "pending_sends t = pending_sends s"
  proof (cases rule: accept_event_cases)
    case (quiet st)
    from accepted_reduction(3)[OF wf ev quiet(1,2)] show ?thesis by (simp add: only_derived_def logged_def)
  next
    case (change st s2 c gen task)
    from accepted_reduction(3)[OF wf ev change(1,2)] bump_actionable_bumped[OF change(5)]
    show ?thesis by (simp add: only_derived_def logged_def bumped_def Let_def)
  qed simp
  with daemon_step.accept[OF ev run] send_step.elsewhere \<open>safe_tasks t\<close> show ?thesis
    by (simp add: system_step_def)
qed

lemma reconcile_session_sends:
  "reconcile_session task pane adapter row s = Inr t
    \<Longrightarrow> pending_sends t = pending_sends s \<and> keys (task_projections t) = keys (task_projections s)"
  by (auto simp: reconcile_session_def Let_def and_then_eq_Inr bumped_def dest!: bump_actionable_bumped
      split: prod.splits option.splits if_splits)

lemma liveness_system:
  assumes "reconcile_herdr_liveness task pane adapter s = Inr (x, t)"
  shows "system_step s t"
proof -
  from assms obtain rows where "fold_res (reconcile_session task pane adapter) rows s = Inr t"
    by (auto simp: reconcile_herdr_liveness_def and_then_eq_Inr)
  from fold_res_invariant[OF this, of "\<lambda>x. pending_sends x = pending_sends s
      \<and> keys (task_projections x) = keys (task_projections s)"] reconcile_session_sends
  have same: "pending_sends t = pending_sends s" "keys (task_projections t) = keys (task_projections s)"
    by force+
  then have "safe_tasks s \<longrightarrow> safe_tasks t" unfolding safe_tasks_def by (simp only:) blast
  with assms same(1) show ?thesis by (auto simp: system_step_def intro: daemon_step.liveness send_step.elsewhere)
qed

lemma queue_system:
  assumes "system_ok s"
  shows "enqueue_pending_send send task payload timeout_ms now s = Inr (x, t) \<Longrightarrow> system_step s t"
    and "claim_pending_send task s = Inr (c, t) \<Longrightarrow> system_step s t"
    and "resolve_pending_send send st err now s = Inr (x, t) \<Longrightarrow> system_step s t"
    and "sweep_expired_pending_sends stale now s = Inr (gone, t) \<Longrightarrow> system_step s t"
proof -
  assume a: "enqueue_pending_send send task payload timeout_ms now s = Inr (x, t)"
  then obtain rows where "t = s\<lparr>pending_sends := rows\<rparr>" by (auto simp: enqueue_eq split: if_splits)
  with send_step.enqueue[OF a] show "system_step s t" by (rule send_system[OF assms])
next
  assume a: "claim_pending_send task s = Inr (c, t)"
  then obtain rows where "t = s\<lparr>pending_sends := rows\<rparr>"
    by (cases "find (\<lambda>r. sd_task r = task \<and> sd_state r = SPending) (pending_sends s)")
       (auto simp: claim_pending_send_def intro: that[of "pending_sends s"])
  with send_step.claim[OF a] show "system_step s t" by (rule send_system[OF assms])
next
  assume a: "resolve_pending_send send st err now s = Inr (x, t)"
  then obtain rows where "t = s\<lparr>pending_sends := rows\<rparr>"
    by (auto simp: resolve_pending_send_def split: if_splits)
  with send_step.resolve[OF a] show "system_step s t" by (rule send_system[OF assms])
next
  assume a: "sweep_expired_pending_sends stale now s = Inr (gone, t)"
  then obtain rows where "t = s\<lparr>pending_sends := rows\<rparr>"
    by (auto simp: sweep_expired_pending_sends_def Let_def)
  with send_step.sweep[OF a] show "system_step s t" by (rule send_system[OF assms])
qed

text \<open>A composed operation is a run of such steps.\<close>

definition leads :: "store \<Rightarrow> store \<Rightarrow> bool" where
  "leads s t \<longleftrightarrow> system_step\<^sup>*\<^sup>* s t"

lemma leads_refl [simp]: "leads s s"
  by (simp add: leads_def)

lemma leads_step: "system_step s t \<Longrightarrow> leads s t"
  by (auto simp: leads_def)

lemma leads_trans: "leads s t \<Longrightarrow> leads t v \<Longrightarrow> leads s v"
  by (auto simp: leads_def)

lemma leads_ok: "leads s t \<Longrightarrow> system_ok s \<Longrightarrow> system_ok t"
  unfolding leads_def by (rule system.run_inv)

lemma claim_deliverable_leads:
  assumes ok: "system_ok s" and run: "claim_deliverable now task level s = Inr (row, t)"
  shows "leads s t"
proof (cases "pl_exists level = Some False")
  case True
  with run obtain c s1 where c: "claim_pending_send task s = Inr (c, s1)"
    and rest: "(case c of None \<Rightarrow> Inr (None, s1) | Some r \<Rightarrow>
      and_then (resolve_pending_send (sd_id r) SFailed (Some ''pane is gone'') now s1) (\<lambda>(_, s2). Inr (None, s2)))
      = Inr (row, t)"
    by (auto simp: claim_deliverable_def and_then_eq_Inr)
  from queue_system(2)[OF ok c] have s1: "leads s s1" by (rule leads_step)
  from rest have "leads s1 t"
    using queue_system(3)[OF leads_ok[OF s1 ok]]
    by (auto simp: and_then_eq_Inr intro: leads_step split: option.splits)
  with s1 show ?thesis by (rule leads_trans)
next
  case False
  with run queue_system(2)[OF ok] show ?thesis
    by (auto simp: claim_deliverable_def intro: leads_step split: if_splits)
qed

lemma deliver_leads:
  assumes "system_ok s" and "deliver link now row pane s = Inr (x, t)"
  shows "leads s t"
  using assms(2) queue_system(3)[OF assms(1)] by (auto simp: deliver_def intro: leads_step split: option.splits)

lemma deliver_if_ready_leads:
  assumes ok: "system_ok s" and run: "deliver_if_ready w task s = Inr t"
  shows "leads s t"
proof (cases "\<exists>link pane. wd_herdr w = Some link \<and> map_of (hl_members link) task = Some pane")
  case True
  then obtain link pane where l: "wd_herdr w = Some link" "map_of (hl_members link) task = Some pane" by blast
  with run obtain row s1 where c: "claim_deliverable (wd_now_ms w) task (hl_level link pane) s = Inr (row, s1)"
    and rest: "(case row of None \<Rightarrow> Inr s1
      | Some r \<Rightarrow> and_then (deliver link (wd_now_ms w) r pane s1) (\<lambda>(_, s2). Inr s2)) = Inr t"
    by (auto simp: deliver_if_ready_def and_then_eq_Inr)
  from claim_deliverable_leads[OF ok c] have s1: "leads s s1" .
  from rest have "leads s1 t"
    using deliver_leads[OF leads_ok[OF s1 ok]] by (auto simp: and_then_eq_Inr split: option.splits)
  with s1 show ?thesis by (rule leads_trans)
next
  case False
  with run have "t = s" by (auto simp: deliver_if_ready_def split: option.splits)
  then show ?thesis by simp
qed

lemma tick_leads:
  assumes ok: "system_ok s" and run: "pending_send_tick w s = Inr (gone, t)"
  shows "leads s t"
proof -
  from run obtain s1 where f: "fold_res (deliver_if_ready w) (expired_pending_send_tasks (wd_now_ms w) s) s = Inr s1"
    and sweep: "sweep_expired_pending_sends STALE_DELIVERING (wd_now_ms w) s1 = Inr (gone, t)"
    by (auto simp: pending_send_tick_def and_then_eq_Inr)
  have s1: "leads s s1"
    using fold_res_invariant[OF f, of "leads s"] deliver_if_ready_leads leads_ok[OF _ ok] leads_trans
    by (metis leads_refl)
  with queue_system(4)[OF leads_ok[OF s1 ok] sweep] show ?thesis by (blast intro: leads_trans leads_step)
qed

lemma enqueue_leads:
  assumes ok: "system_ok s" and run: "handle_send_enqueue w m s = Inr (j, t)"
  shows "leads s t"
proof (cases "t = s")
  case False
  let ?now = "wd_now_ms w" and ?task = "str_member ''task_id'' m"
  from run False obtain link pane where l: "wd_herdr w = Some link" "map_of (hl_members link) ?task = Some pane"
    by (auto simp: handle_send_enqueue_def Let_def split: option.splits)
  note run = run[unfolded handle_send_enqueue_def Let_def l option.case]
  from run False obtain s1 where
    e: "enqueue_pending_send (wd_send_id w) ?task (str_member ''payload'' m) (int_member ''timeout_ms'' m) ?now s
      = Inr ((), s1)"
    and "and_then (claim_deliverable ?now ?task (hl_level link pane) s1) (\<lambda>(row, s2). case row of
        None \<Rightarrow> Inr (enqueue_reply m [(''state'', JStr ''pending'')], s2)
      | Some r \<Rightarrow> and_then (deliver link ?now r pane s2) (\<lambda>(_, s3).
          if map_option sd_state (pending_send ?task s3) = Some SDelivered
          then Inr (enqueue_reply m [(''state'', JStr ''delivered'')], s3)
          else Inr (enqueue_reply m [(''state'', JStr ''failed''),
            (''error'', nullable_str (Option.bind (pending_send ?task s3) sd_error))], s3))) = Inr (j, t)"
    (is "and_then _ ?after = _")
    by (auto simp: and_then_eq_Inr simp del: split_paired_Ex split: if_splits)
  then obtain row s2 where c: "claim_deliverable ?now ?task (hl_level link pane) s1 = Inr (row, s2)"
    and after: "?after (row, s2) = Inr (j, t)"
    by (auto simp only: and_then_eq_Inr)
  from after have more: "s2 = t \<or> (\<exists>r x. deliver link ?now r pane s2 = Inr (x, t))"
    by (auto simp: and_then_eq_Inr split: option.splits if_splits)
  from queue_system(1)[OF ok e] have s1: "leads s s1" by (rule leads_step)
  from claim_deliverable_leads[OF leads_ok[OF s1 ok] c] s1 have s2: "leads s s2" by (blast intro: leads_trans)
  from more show ?thesis
  proof
    assume "\<exists>r x. deliver link ?now r pane s2 = Inr (x, t)"
    then obtain r x where "deliver link ?now r pane s2 = Inr (x, t)" by blast
    from deliver_leads[OF leads_ok[OF s2 ok] this] s2 show ?thesis by (blast intro: leads_trans)
  qed (use s2 in simp)
qed simp

lemma offer_pending_leads:
  assumes "offer_pending now c s = (r, c', t)"
  shows "leads s t"
proof -
  have "t = s \<or> (\<exists>n. co_offer c s = Inr (n, t))"
    using assms by (auto simp: offer_pending_def Let_def split: sum.splits option.splits prod.splits if_splits)
  then show ?thesis
    using driver_operations_system(3) by (auto simp: co_offer_def intro: leads_step)
qed

lemma answer_with_leads:
  assumes "answer_with r f cn sv = (out, cn', sv')" and "\<And>x t. r = Inr (x, t) \<Longrightarrow> leads (sv_store sv) t"
  shows "leads (sv_store sv) (sv_store sv')"
  using assms by (cases r) (auto simp: answer_with_def)

lemma handle_bound_leads:
  assumes run: "handle_bound w t m cn sv = (out, cn', sv')"
  shows "leads (sv_store sv) (sv_store sv')"
proof (cases "cn_driver cn")
  case (Some b)
  obtain drv sess ep where b: "b = (drv, sess, ep)" by (cases b)
  note run = run[unfolded handle_bound_def Some b option.case prod.case]
  show ?thesis
  proof (cases "drv = str_member ''driver_id'' m \<and> t = ''notification.pending''")
    case True
    with run show ?thesis
      using offer_pending_leads by (auto split: option.splits prod.splits sum.splits)
  next
    case False
    with run show ?thesis
      by (auto simp: and_then_eq_Inr split: if_splits
          elim!: answer_with_leads intro: leads_step driver_operations_system)
  qed
qed (use run in \<open>simp add: handle_bound_def\<close>)

lemma handle_event_leads:
  assumes ok: "system_ok (sv_store sv)" and ev: "sound (event_of m)" and run: "handle_event w m sv = (j, sv')"
  shows "leads (sv_store sv) (sv_store sv')"
  using run accept_system[OF ok ev]
  by (auto simp: handle_event_def intro: leads_step split: sum.splits prod.splits py_error.splits)

lemma validated_sound:
  assumes "validate m = Inr m'" and "requires_producer_seq (str_member ''type'' m)"
  shows "sound (event_of m)"
proof -
  from assms(1) obtain t where t: "member ''type'' m = Some (JStr t)" by (rule validate_Inr)
  then have "str_member ''type'' m = t" by (simp add: str_member_def text_of_def text_or_null_def)
  with assms(2) producer_types have "t \<in> set LIFECYCLE_TYPES" by blast
  from lifecycle_event[OF assms(1) t this] show ?thesis
    by (cases "ev_role (event_of m)") (auto simp: sound_def identified_def)
qed

lemma dispatch_leads:
  assumes ok: "system_ok (sv_store sv)" and v: "validate m = Inr m'" and run: "dispatch w m cn sv = (out, cn', sv')"
  shows "leads (sv_store sv) (sv_store sv')"
proof -
  have reg: "handle_register m cn sv = (out, cn', sv') \<Longrightarrow> leads (sv_store sv) (sv_store sv')"
    using driver_operations_system(1)
    by (auto simp: handle_register_def Let_def intro: leads_step split: sum.splits prod.splits)
  have ev: "handle_event w m sv = (j, sv'') \<Longrightarrow> requires_producer_seq (str_member ''type'' m)
      \<Longrightarrow> leads (sv_store sv) (sv_store sv'')" for j sv''
    using handle_event_leads[OF ok validated_sound[OF v]] by blast
  note a1 = answer_with_leads[of "handle_send_enqueue w m (sv_store sv)"]
    and a2 = answer_with_leads[of "disable_driver_authority d (sv_store sv)" for d]
    and a3 = answer_with_leads[of "reconcile_delivered d b (sv_store sv)" for d b]
    and a4 = answer_with_leads[of "ack_delivered d n (sv_store sv)" for d n]
  from run show ?thesis
    unfolding dispatch_def Let_def
    using reg ev handle_bound_leads enqueue_leads[OF ok]
    by (auto split: if_splits prod.splits elim!: a1 a2 a3 a4 intro: leads_step driver_operations_system)
qed

lemma level_leads:
  assumes ok: "system_ok s" and run: "apply_level now task level s = Inr (row, t)"
  shows "leads s t"
proof -
  from run obtain x s1 where l: "reconcile_herdr_liveness task (pl_exists level) None s = Inr (x, s1)"
    and c: "claim_deliverable now task level s1 = Inr (row, t)"
    by (auto simp: apply_level_def and_then_eq_Inr)
  from liveness_system[OF l] have s1: "leads s s1" by (rule leads_step)
  with claim_deliverable_leads[OF leads_ok[OF s1 ok] c] show ?thesis by (blast intro: leads_trans)
qed

section \<open>The spool\<close>

lemma spool_message_valid:
  assumes "spool_message e = Some m"
  shows "validate m = Inr m" and "sound (event_of m)"
proof -
  from assms have d: "decode (sp_bytes e) (sp_parsed e) = Inr m" and r: "requires_producer_seq (str_member ''type'' m)"
    by (auto simp: spool_message_def split: if_splits sum.splits)
  from d obtain m0 where "validate m0 = Inr m" by (auto simp: decode_def fail_def split: if_splits option.splits)
  then show v: "validate m = Inr m" by (metis validate_Inr)
  show "sound (event_of m)" using v r by (rule validated_sound)
qed

lemma import_order_valid: "(e, m) \<in> set (import_order entries) \<longleftrightarrow> e \<in> set entries \<and> spool_message e = Some m"
  by (force simp: import_order_def map_filter_def image_iff)

definition committed :: "store \<Rightarrow> spool_entry \<Rightarrow> bool" where
  "committed s e \<longleftrightarrow> (\<exists>m row. spool_message e = Some m
     \<and> find_event (ev_id (event_of m)) s = Some row \<and> er_event row = event_of m)"

lemma accept_keeps_committed:
  assumes ok: "system_ok s" and ev: "sound ev" and run: "accept_event dir ev s = Inr (a, t)" and c: "committed s e"
  shows "committed t e"
proof -
  have "store_step s t" using ev run by (auto simp: sound_def intro: store_step.daemon daemon_step.accept)
  then have "prefix (events s) (events t)" using ok by (auto simp: system_ok_def intro: store_step_events)
  with c show ?thesis by (auto simp: committed_def dest: find_event_prefix)
qed

text \<open>While the import runs: what has left the directory is in the log.\<close>

definition import_ok :: "store \<Rightarrow> spool \<Rightarrow> import_state \<Rightarrow> bool" where
  "import_ok s entries st \<longleftrightarrow> leads s (im_store st) \<and> set (im_spool st) \<subseteq> set entries
     \<and> distinct (map sp_name (im_spool st)) \<and> im_backlog st = length (im_spool st)
     \<and> (\<forall>e \<in> set entries - set (im_spool st). committed (im_store st) e)"

lemma import_one_ok:
  assumes ok: "system_ok s" and d: "distinct (map sp_name entries)" and e: "e \<in> set entries"
    and m: "spool_message e = Some m" and st: "import_ok s entries st" and in_spool: "e \<in> set (im_spool st)"
  shows "import_ok s entries (import_one tasks reread (e, m) st)"
    and "int (im_errors (import_one tasks reread (e, m) st)) - int (length (im_spool (import_one tasks reread (e, m) st)))
      = int (im_errors st) - int (length (im_spool st)) + 1"
    and "set (im_spool st) - {e} \<subseteq> set (im_spool (import_one tasks reread (e, m) st))"
proof -
  note ev = spool_message_valid(2)[OF m]
  from st have now: "system_ok (im_store st)" using leads_ok ok by (auto simp: import_ok_def)
  have same: "f = e" if "f \<in> set entries" "sp_name f = sp_name e" for f
    using d e that by (auto simp: distinct_map inj_on_def)
  have spool: "filter (\<lambda>f. sp_name f \<noteq> sp_name e) (im_spool st) = remove1 e (im_spool st)"
    using st in_spool same distinct_remove1_removeAll[of "im_spool st" e]
    by (auto simp: import_ok_def distinct_map removeAll_filter_not_eq intro!: filter_cong)
  have acc: "leads s t \<and> committed t e \<and> (\<forall>f. committed (im_store st) f \<longrightarrow> committed t f)"
    if "accept_event tasks (event_of m) (im_store st) = Inr (a, t)" for a t
  proof -
    have "leads s t"
      using st accept_system[OF now ev that] by (auto simp: import_ok_def intro: leads_trans leads_step)
    moreover have "committed t e"
      using accepted_is_logged[OF _ _ that] ev now m by (auto simp: committed_def system_ok_def sound_def)
    ultimately show ?thesis using accept_keeps_committed[OF now ev that] by blast
  qed
  have len: "length (remove1 e (im_spool st)) = length (im_spool st) - 1" "length (im_spool st) \<ge> 1"
    using in_spool by (auto simp: length_remove1 Suc_le_eq)
  show "import_ok s entries (import_one tasks reread (e, m) st)"
  proof (cases "accept_event tasks (event_of m) (im_store st)")
    case (Inl err)
    with st show ?thesis by (simp add: import_one_def import_ok_def)
  next
    case (Inr r)
    obtain a t where r: "r = (a, t)" by (cases r)
    note acc = acc[OF Inr[unfolded r]]
    from st have d': "distinct (im_spool st)" by (simp add: import_ok_def distinct_map)
    then have left: "set (remove1 e (im_spool st)) = set (im_spool st) - {e}" by (rule set_remove1_eq)
    have "distinct (map sp_name (remove1 e (im_spool st)))"
      using st d' left by (auto simp: import_ok_def distinct_map inj_on_def)
    with st acc Inr r left len show ?thesis
      by (simp add: import_one_def import_ok_def spool) blast
  qed
  show "int (im_errors (import_one tasks reread (e, m) st)) - int (length (im_spool (import_one tasks reread (e, m) st)))
      = int (im_errors st) - int (length (im_spool st)) + 1"
    using len by (auto simp: import_one_def spool split: sum.splits)
  show "set (im_spool st) - {e} \<subseteq> set (im_spool (import_one tasks reread (e, m) st))"
    by (auto simp: import_one_def spool split: sum.splits dest: notin_set_remove1) (metis in_set_remove1)
qed

lemma import_fold:
  assumes ok: "system_ok s" and d: "distinct (map sp_name entries)"
    and "distinct (map fst xs)" and "\<forall>(e, m) \<in> set xs. e \<in> set (im_spool st) \<and> spool_message e = Some m"
    and "import_ok s entries st"
  shows "import_ok s entries (fold (import_one tasks reread) xs st)
    \<and> int (im_errors (fold (import_one tasks reread) xs st)) - int (length (im_spool (fold (import_one tasks reread) xs st)))
      = int (im_errors st) - int (length (im_spool st)) + int (length xs)"
  using assms(3-5)
proof (induction xs arbitrary: st)
  case (Cons x xs)
  obtain e m where x: "x = (e, m)" by (cases x)
  from Cons.prems(2,3) have e: "e \<in> set (im_spool st)" "spool_message e = Some m" "e \<in> set entries"
    by (auto simp: x import_ok_def)
  note one = import_one_ok[OF ok d e(3,2) Cons.prems(3) e(1), of tasks reread]
  have "\<forall>(f, n) \<in> set xs. f \<in> set (im_spool (import_one tasks reread (e, m) st)) \<and> spool_message f = Some n"
    using Cons.prems(1,2) one(3) by (fastforce simp: x)
  with Cons.IH[of "import_one tasks reread (e, m) st"] one(1,2) Cons.prems(1) show ?case by (simp add: x)
qed simp

lemma import_order_distinct: "distinct (map sp_name entries) \<Longrightarrow> distinct (map fst (import_order entries))"
proof -
  assume "distinct (map sp_name entries)"
  then have "distinct entries" by (simp add: distinct_map)
  moreover have "map fst (List.map_filter (\<lambda>e. map_option (Pair e) (spool_message e)) entries)
      = filter (\<lambda>e. spool_message e \<noteq> None) entries" for entries
    by (induction entries) (auto simp: map_filter_simps)
  ultimately have d: "distinct (map fst (List.map_filter (\<lambda>e. map_option (Pair e) (spool_message e)) entries))"
    by simp
  then show ?thesis by (simp add: import_order_def distinct_map)
qed

lemma import_done:
  assumes ok: "system_ok (sv_store sv)" and d: "distinct (map sp_name entries)"
    and run: "import_spool tasks reread err entries sv = (left, sv')"
  shows "leads (sv_store sv) (sv_store sv') \<and> set left \<subseteq> set entries \<and> sv_spool_backlog sv' = length left
    \<and> sv_spool_errors sv' = length left \<and> (\<forall>e \<in> set entries - set left. committed (sv_store sv') e)"
proof -
  let ?valid = "import_order entries"
  let ?st = "\<lparr>im_store = sv_store sv, im_spool = entries, im_backlog = length entries,
      im_errors = length entries - length ?valid\<rparr>"
  let ?final = "fold (import_one tasks reread) ?valid ?st"
  have start: "import_ok (sv_store sv) entries ?st" using d by (simp add: import_ok_def)
  have "\<forall>(e, m) \<in> set ?valid. e \<in> set (im_spool ?st) \<and> spool_message e = Some m"
    using import_order_valid by auto
  note folded = import_fold[OF ok d import_order_distinct[OF d] this start, of tasks reread]
  then have fin: "import_ok (sv_store sv) entries ?final"
    and count: "int (im_errors ?final) - int (length (im_spool ?final))
      = int (im_errors ?st) - int (length (im_spool ?st)) + int (length ?valid)"
    by blast+
  have "set (map fst ?valid) \<subseteq> set entries" using import_order_valid by auto
  then have "length ?valid \<le> length entries"
    using import_order_distinct[OF d] d
    by (metis card_mono distinct_card distinct_map length_map List.finite_set)
  with count have "im_errors ?final = length (im_spool ?final)" by simp
  with fin run show ?thesis by (auto simp: import_spool_def Let_def import_ok_def)
qed

section \<open>Reachable servers\<close>

definition initial_server :: server where
  "initial_server = \<lparr>sv_store = empty_store, sv_active = [], sv_clients = 0, sv_spool_backlog = 0,
     sv_spool_errors = 0, sv_last_spool_error = None\<rparr>"

inductive server_step :: "server \<Rightarrow> server \<Rightarrow> bool" where
  connect: "server_step sv (sv\<lparr>sv_clients := sv_clients sv + 1\<rparr>)"
| request: "serve_frame w bytes parsed raw cn sv = (out, cn', sv') \<Longrightarrow> server_step sv sv'"
| disconnected: "server_step sv (disconnect cn sv)"
| spool: "distinct (map sp_name entries) \<Longrightarrow> import_spool tasks reread err entries sv = (left, sv')
    \<Longrightarrow> server_step sv sv'"
| tick: "pending_send_tick w (sv_store sv) = Inr (gone, t) \<Longrightarrow> server_step sv (sv\<lparr>sv_store := t\<rparr>)"
| level: "apply_level now task lv (sv_store sv) = Inr (row, t) \<Longrightarrow> server_step sv (sv\<lparr>sv_store := t\<rparr>)"
| delivered: "deliver link now row pane (sv_store sv) = Inr (x, t) \<Longrightarrow> server_step sv (sv\<lparr>sv_store := t\<rparr>)"

definition server_ok :: "server \<Rightarrow> bool" where
  "server_ok sv \<longleftrightarrow> leads empty_store (sv_store sv)"

lemma empty_system_ok: "system_ok empty_store"
  using empty_facts_wf by (simp add: system_ok_def sends_ok_def safe_tasks_def empty_store_def)

lemma server_system_ok: "server_ok sv \<Longrightarrow> system_ok (sv_store sv)"
  using leads_ok empty_system_ok by (simp add: server_ok_def)

lemma serve_frame_leads:
  assumes ok: "system_ok (sv_store sv)" and run: "serve_frame w bytes parsed raw cn sv = (out, cn', sv')"
  shows "leads (sv_store sv) (sv_store sv')"
proof (cases "decode bytes parsed")
  case (Inr m)
  then obtain m0 where "validate m0 = Inr m" by (auto simp: decode_def fail_def split: if_splits option.splits)
  then have v: "validate m = Inr m" by (metis validate_Inr)
  obtain r cn1 sv1 where d: "dispatch w m cn sv = (r, cn1, sv1)" by (cases "dispatch w m cn sv")
  with run Inr have "sv' = sv1" by (auto simp: serve_frame_def split: sum.splits failure.splits)
  with dispatch_leads[OF ok v d] show ?thesis by simp
qed (use run in \<open>simp add: serve_frame_def\<close>)

lemma server_step_leads: "server_step sv sv' \<Longrightarrow> server_ok sv \<Longrightarrow> leads (sv_store sv) (sv_store sv')"
proof (induction rule: server_step.induct)
  case (request w bytes parsed raw cn sv out cn' sv')
  then show ?case using serve_frame_leads server_system_ok by blast
next
  case (disconnected sv cn)
  then show ?case by (auto simp: disconnect_def Let_def split: option.splits)
next
  case (spool entries tasks reread err sv left sv')
  then show ?case using import_done server_system_ok by blast
next
  case (tick w sv gone t)
  then show ?case using tick_leads server_system_ok by auto
next
  case (level now task lv sv row t)
  then show ?case using level_leads server_system_ok by auto
next
  case (delivered link now row pane sv x t)
  then show ?case using deliver_leads server_system_ok by auto
qed simp

lemma server_step_ok: "server_step sv sv' \<Longrightarrow> server_ok sv \<Longrightarrow> server_ok sv'"
  using server_step_leads leads_trans unfolding server_ok_def by blast

interpretation servers: preserved server_step server_ok
  by unfold_locales (blast dest: server_step_ok)

lemma reachable_server: "server_step\<^sup>*\<^sup>* initial_server sv \<Longrightarrow> server_ok sv"
  using servers.run_inv[of initial_server sv] by (simp add: server_ok_def initial_server_def)

lemma reachable_system: "server_step\<^sup>*\<^sup>* initial_server sv \<Longrightarrow> system_ok (sv_store sv)"
  using reachable_server server_system_ok by blast

text \<open>What the log holds stays there, whatever the daemon does next.\<close>

lemma leads_events:
  assumes "leads s t" and "system_ok s"
  shows "prefix (events s) (events t)"
proof -
  have "system_step\<^sup>*\<^sup>* s t" using assms(1) by (simp add: leads_def)
  then have "prefix (events s) (events t) \<and> system_ok t"
  proof induction
    case (step t u)
    then have "prefix (events t) (events u)"
      by (auto simp: system_step_def system_ok_def intro: store_step_events store_step.daemon)
    with step system_step_ok show ?case by (blast intro: prefix_order.trans)
  qed (use assms(2) in simp)
  then show ?thesis ..
qed

lemma server_events:
  assumes "server_step\<^sup>*\<^sup>* sv later" and "server_ok sv"
  shows "prefix (events (sv_store sv)) (events (sv_store later))"
proof -
  from assms have "prefix (events (sv_store sv)) (events (sv_store later)) \<and> server_ok later"
  proof induction
    case (step t u)
    with leads_events server_step_leads server_system_ok server_step_ok show ?case
      by (blast intro: prefix_order.trans)
  qed simp
  then show ?thesis ..
qed

lemma committed_prefix: "committed s e \<Longrightarrow> prefix (events s) (events t) \<Longrightarrow> committed t e"
  by (auto simp: committed_def dest: find_event_prefix)

end
