(* ===== verification/Server_Theorems.thy ===== *)
theory Server_Theorems
  imports Server_Facts "HOL-Library.Multiset"
begin

text \<open>
  What the daemon promises its clients, over every state it can reach: requests are answered,
  error replies echo nothing unchecked, the spool loses only what the log holds, an acknowledged
  event stays in the log, and reconciliations are valid messages.
\<close>

section \<open>No request crashes its connection\<close>

lemma answer_with_escape:
  assumes "answer_with r f cn sv = (Inl (Escape e), cn', sv')" and "\<And>e. r = Inl e \<Longrightarrow> refusal e"
  shows False
  using assms by (cases r) (auto simp: answer_with_def caught_refusal)

lemma handle_bound_escape:
  assumes "ledger_wf (sv_store sv)"
  shows "handle_bound w t m cn sv \<noteq> (Inl (Escape e), cn', sv')"
proof
  assume bad: "handle_bound w t m cn sv = (Inl (Escape e), cn', sv')"
  then obtain drv sess ep where cn: "cn_driver cn = Some (drv, sess, ep)" "drv = str_member ''driver_id'' m"
    by (auto simp: handle_bound_def split: option.splits if_splits)
  note bad = bad[unfolded handle_bound_def cn option.case prod.case, simplified]
  show False
  proof (cases "t = ''notification.pending''")
    case True
    with bad offer_pending_refuses[OF assms] show False
      by (auto simp: caught_refusal split: option.splits sum.splits prod.splits)
  next
    case False
    with bad show False
      using availability_refuses reconcile_refuses(1) confirm_refuses[OF assms] ack_refuses(2)[OF assms]
      by (auto simp: and_then_eq_Inl split: if_splits elim!: answer_with_escape)
  qed
qed


text \<open>A daemon whose one task has an idle pane, and a follow-up that would never expire.\<close>

definition demo_link :: herdr_link where
  "demo_link = \<lparr>hl_members = [(''t1'', ''p1'')], hl_level = (\<lambda>_. \<lparr>pl_status = ''idle'', pl_exists = Some True\<rparr>),
     hl_prompt = (\<lambda>_ _. None), hl_connected = True, hl_last_error = None, hl_inventory_errors = 0\<rparr>"

definition demo_world :: "int \<Rightarrow> world" where
  "demo_world now = \<lparr>wd_now_ms = now, wd_clock = 0, wd_send_id = ''x1'', wd_tasks = bare_dir,
     wd_herdr = Some demo_link, wd_render = (\<lambda>_. []), wd_pid = 7, wd_socket = ''bus.sock'', wd_last_time = None\<rparr>"

definition enqueue_message :: json where
  "enqueue_message = JObj [(''v'', JInt 1), (''type'', JStr ''send.enqueue''), (''request_id'', JStr ''r1''),
     (''task_id'', JStr ''t1''), (''payload'', JStr ''go on''), (''timeout_ms'', JInt 1)]"

lemmas read_member = str_member_def text_of_def text_or_null_def member_def int_member_def


section \<open>Every refused frame is answered\<close>

text \<open>The sizes of what the daemon writes.\<close>

lemma length_escape: "length (escape_char c) \<le> 6"
  by (simp add: escape_char_def Let_def)

lemma length_quoted: "length (quoted s) \<le> 6 * length s + 2"
proof -
  have "length (concat (map escape_char s)) \<le> 6 * length s"
    using length_escape by (induction s) (auto intro: add_mono)
  then show ?thesis by (simp add: quoted_def)
qed

lemma length_joined: "length (joined xs) \<le> sum_list (map length xs) + length xs"
  by (induction xs rule: joined.induct) auto

lemma sum_list_sort_key: "sum_list (map f (sort_key g xs)) = sum_list (map f xs)" for f :: "'a \<Rightarrow> nat"
  by (metis mset_map mset_sort sum_mset_sum_list)

lemma length_members:
  "length (dumps (JObj fs)) \<le> 2 + (\<Sum>(k, v) \<leftarrow> fs. 6 * length k + 4 + length (dumps v))"
proof -
  let ?pairs = "map (\<lambda>(k, v). (k, quoted k @ '':'' @ dumps v)) fs"
  have "sum_list (map (\<lambda>(k, v). length (quoted k @ '':'' @ dumps v) + 1) fs)
      \<le> (\<Sum>(k, v) \<leftarrow> fs. 6 * length k + 4 + length (dumps v))"
    using length_quoted by (intro sum_list_mono) (auto simp: algebra_simps)
  moreover have "sum_list (map length (map snd (sort_key fst ?pairs))) + length fs
      = sum_list (map (\<lambda>(k, v). length (quoted k @ '':'' @ dumps v) + 1) fs)"
    by (simp only: map_map sum_list_sort_key) (induction fs; auto)
  ultimately show ?thesis
    using length_joined[of "map snd (sort_key fst ?pairs)"] by simp
qed

text \<open>The codes a message can be refused with.\<close>

definition field_check :: "check \<Rightarrow> bool" where
  "field_check c \<longleftrightarrow> (\<forall>v f e. c v f = Inl e \<longrightarrow> pe_code e = ''invalid-field'')"

lemma field_checks [simp]: "field_check (demand p)" "field_check c \<Longrightarrow> field_check (NULLABLE c)"
  by (auto simp: field_check_def demand_def NULLABLE_def fail_def)

lemma check_members_code:
  "list_all (field_check \<circ> snd) tbl \<Longrightarrow> check_members tbl path v = Inl e \<Longrightarrow> pe_code e = ''invalid-field''"
  by (induction tbl) (auto simp: and_then_eq_Inl field_check_def split: option.splits)

lemmas check_kinds = ID_def POSITIVE_def NONNEGATIVE_def BOOL_def STRING_def ARRAY_def OBJECT_def
  BOUNDED_STRING_def KNOWN_OR_UNKNOWN_def ENUM_def

lemma report_code:
  assumes "check_report item r = Inl e"
  shows "pe_code e = ''invalid-field''"
proof -
  have "list_all (field_check \<circ> snd) REPORT_SCHEMA" "list_all (field_check \<circ> snd) REPORT_OPTIONAL_SCHEMA"
    by (simp_all add: REPORT_SCHEMA_def REPORT_OPTIONAL_SCHEMA_def check_kinds)
  note tables = check_members_code[OF this(1)] check_members_code[OF this(2)]
  show ?thesis
    using assms unfolding check_report_def by (auto simp: fail_def and_then_eq_Inl dest: tables split: if_splits)
qed

lemma field_reports [simp]: "field_check REPORTS"
proof -
  have "check_reports f n rs = Inl e \<Longrightarrow> pe_code e = ''invalid-field''" for f n rs e
    by (induction rs arbitrary: n) (auto simp: and_then_eq_Inl report_code)
  then show ?thesis by (auto simp: field_check_def REPORTS_def fail_def split: json.splits)
qed

lemma schema_checks: "map_of SCHEMAS t = Some (required, optional) \<Longrightarrow> list_all (field_check \<circ> snd) (required @ optional)"
proof -
  have "list_all (\<lambda>(_, required, optional). list_all (field_check \<circ> snd) (required @ optional)) SCHEMAS"
    unfolding SCHEMAS_def EVENT_FIELDS_def IDENTITY_FIELDS_def check_kinds SEND_PAYLOAD_def by simp
  then show "map_of SCHEMAS t = Some (required, optional) \<Longrightarrow> list_all (field_check \<circ> snd) (required @ optional)"
    by (fastforce simp: list_all_iff dest: map_of_SomeD)
qed

lemma snapshot_code: "check_snapshot n i seen rs = Inl e \<Longrightarrow> pe_code e = ''invalid-field''"
  by (induction rs arbitrary: i seen) (auto simp: fail_def split: if_splits)

definition MESSAGE_CODES :: "string list" where
  "MESSAGE_CODES = [''invalid-message'', ''invalid-version'', ''invalid-event'', ''invalid-field'', ''unsupported-type'']"

lemma validate_code:
  assumes "validate m = Inl e"
  shows "pe_code e \<in> set MESSAGE_CODES"
proof -
  have codes: "c \<in> {''invalid-message'', ''invalid-version'', ''invalid-event'', ''invalid-field'', ''unsupported-type''}
      \<Longrightarrow> fail c f = Inl e \<Longrightarrow> pe_code e \<in> set MESSAGE_CODES" for c f
    by (auto simp: fail_def MESSAGE_CODES_def)
  show ?thesis
  proof (cases "\<exists>t required optional. is_object m \<and> member ''v'' m = Some (JInt VERSION)
      \<and> member ''type'' m = Some (JStr t) \<and> map_of SCHEMAS t = Some (required, optional)")
    case False
    with assms codes show ?thesis unfolding validate_def
      by (cases "is_object m"; cases "member ''v'' m = Some (JInt VERSION)")
         (auto split: option.splits json.splits)
  next
    case True
    then obtain t required optional where m: "is_object m" "member ''v'' m = Some (JInt VERSION)"
      "member ''type'' m = Some (JStr t)" and t: "map_of SCHEMAS t = Some (required, optional)" by blast
    define snap where "snap = (if t \<in> {''reconcile.result'', ''reconcile.pending.result''}
        then (case member ''reports'' m of Some (JArr rs) \<Rightarrow> check_snapshot (int_member ''through'' m) 0 [] rs | _ \<Rightarrow> Inr ())
        else Inr ())"
    define identity where "identity = (if t \<in> set LIFECYCLE_TYPES then check_identity m else Inr ())"
    have id_code: "identity = Inl e \<Longrightarrow> pe_code e = ''invalid-event''"
      by (auto simp: identity_def check_identity_def Let_def fail_def split: if_splits)
    have snap_code: "snap = Inl e \<Longrightarrow> pe_code e = ''invalid-field''"
      by (auto simp: snap_def dest: snapshot_code split: if_splits option.splits json.splits)
    let ?allowed = "[''v'', ''type''] @ keys required @ keys optional"
    let ?unknown = "sort (filter (\<lambda>n. n \<notin> set ?allowed) (names m))"
    let ?missing = "sort (filter (\<lambda>n. n \<notin> set (names m)) (keys required))"
    from assms have "(if ?unknown \<noteq> [] then fail ''invalid-field'' (Some (hd ?unknown))
        else if ?missing \<noteq> []
        then fail (if ''event_id'' \<in> set (keys required) then ''invalid-event'' else ''invalid-message'') (Some (hd ?missing))
        else and_then (check_members (required @ optional) [] m) (\<lambda>_.
          and_then identity (\<lambda>_. and_then snap (\<lambda>_. Inr m)))) = Inl e"
      by (simp only: validate_def snap_def identity_def m t Let_def option.case json.case prod.case not_True_eq_False if_False simp_thms)
    then consider (word) c f where "fail c f = (Inl e :: json checked)"
        "c \<in> {''invalid-message'', ''invalid-version'', ''invalid-event'', ''invalid-field'', ''unsupported-type''}"
      | (field) "check_members (required @ optional) [] m = Inl e"
      | (id) "identity = Inl e" | (snap) "snap = Inl e"
      by (simp only: and_then_eq_Inl sum.distinct(2) simp_thms split: if_split_asm) blast+
    then show ?thesis
    proof cases
      case word
      then show ?thesis by (auto simp: fail_def MESSAGE_CODES_def)
    next
      case field
      from check_members_code[OF schema_checks[OF t] this] show ?thesis by (simp add: MESSAGE_CODES_def)
    next
      case id
      from id_code[OF this] show ?thesis by (simp add: MESSAGE_CODES_def)
    next
      case snap
      from snap_code[OF this] show ?thesis by (simp add: MESSAGE_CODES_def)
    qed
  qed
qed

definition DECODE_CODES :: "string list" where
  "DECODE_CODES = ''frame-too-large'' # ''invalid-json'' # MESSAGE_CODES"

lemma decode_code: "decode bytes parsed = Inl e \<Longrightarrow> pe_code e \<in> set DECODE_CODES"
  using validate_code by (auto simp: decode_def fail_def DECODE_CODES_def split: if_splits option.splits)

text \<open>An error reply is valid, small enough to send, and echoes an identifier only.\<close>

lemma frame_error_encodes:
  assumes "code \<in> set DECODE_CODES"
  shows "\<exists>frame. encode (frame_error code) = Inr frame"
  using assms unfolding DECODE_CODES_def MESSAGE_CODES_def
  by (auto simp: frame_error_def encode_def validate_eval MAX_FRAME_BYTES_def quoted_def escape_char_def
      show_int_def show_nat.simps)

definition error_message :: "string \<Rightarrow> string \<Rightarrow> string \<Rightarrow> string \<Rightarrow> json" where
  "error_message t name i code = JObj [(''v'', JInt 1), (''type'', JStr t), (name, JStr i), (''code'', JStr code)]"

lemma checked_error_cases:
  assumes "(t, name) \<in> {(''event.error'', ''event_id''), (''request.error'', ''request_id'')}"
  shows "checked_error t name v code = frame_error code
    \<or> (\<exists>i. v = JStr i \<and> id_text i \<and> checked_error t name v code = error_message t name i code
         \<and> validate (error_message t name i code) = Inr (error_message t name i code))"
proof (cases "validate (JObj [(''v'', JInt 1), (''type'', JStr t), (name, v), (''code'', JStr code)])")
  case (Inr m)
  then obtain fs t' required optional where m: "m = JObj [(''v'', JInt 1), (''type'', JStr t), (name, v), (''code'', JStr code)]"
    and t': "member ''type'' (JObj [(''v'', JInt 1), (''type'', JStr t), (name, v), (''code'', JStr code)]) = Some (JStr t')"
      "map_of SCHEMAS t' = Some (required, optional)"
    and conf: "conforms required optional (JObj [(''v'', JInt 1), (''type'', JStr t), (name, v), (''code'', JStr code)])"
    by (rule validate_Inr) metis
  from t' assms have "(name, ID) \<in> set required" by (auto simp: member_def SCHEMAS_def)
  from conforms_required[OF conf this] assms obtain i where "v = JStr i" "id_text i"
    by (auto simp: member_def checks dest: is_id_text)
  with Inr m show ?thesis by (simp add: checked_error_def error_message_def Let_def)
qed (simp add: checked_error_def Let_def)

lemma error_message_encodes:
  assumes "validate (error_message t name i code) = Inr (error_message t name i code)" and "id_text i"
    and "(t, name) \<in> {(''event.error'', ''event_id''), (''request.error'', ''request_id'')}" and "code \<in> set DECODE_CODES"
  shows "\<exists>frame. encode (error_message t name i code) = Inr frame"
proof -
  from assms(2) have "length (dumps (JStr i)) \<le> 770" using length_quoted[of i] by (simp add: id_text_def)
  moreover from assms(3) have "length (dumps (JStr t)) \<le> 100" "length name \<le> 20"
    using length_quoted[of t] by auto
  moreover from assms(4) have "length (dumps (JStr code)) \<le> 200"
    using length_quoted[of code] by (auto simp: DECODE_CODES_def MESSAGE_CODES_def)
  moreover have "length (dumps (JInt 1)) = 1" by (simp add: show_int_def show_nat.simps)
  ultimately have "length (dumps (error_message t name i code)) \<le> 2000"
    unfolding error_message_def by (intro order_trans[OF length_members]) simp
  with assms(1) show ?thesis by (simp add: encode_def MAX_FRAME_BYTES_def Let_def)
qed

definition answers :: "json option \<Rightarrow> string \<Rightarrow> json \<Rightarrow> bool" where
  "answers raw code reply \<longleftrightarrow> reply = frame_error code
     \<or> (\<exists>t name i. (t, name) \<in> {(''event.error'', ''event_id''), (''request.error'', ''request_id'')}
          \<and> Option.bind raw (member name) = Some (JStr i) \<and> id_text i \<and> reply = error_message t name i code)"

lemma echo_error_cases:
  assumes "(t, name) \<in> {(''event.error'', ''event_id''), (''request.error'', ''request_id'')}"
  shows "echo_error t name codes m code = frame_error code
    \<or> (\<exists>i. member name m = Some (JStr i) \<and> id_text i \<and> echo_error t name codes m code = error_message t name i code
         \<and> validate (error_message t name i code) = Inr (error_message t name i code))"
  using checked_error_cases[OF assms] by (cases "member name m") (auto simp: echo_error_def)

lemma correlated_error_cases:
  assumes "\<not> unhashable (Option.bind raw (member ''type''))"
  shows "correlated_error raw code = Inr (frame_error code)
    \<or> (\<exists>m t name codes. raw = Some m \<and> correlated_error raw code = Inr (echo_error t name codes m code)
        \<and> (t, name) \<in> {(''event.error'', ''event_id''), (''request.error'', ''request_id'')})"
proof (cases "\<exists>fs. raw = Some (JObj fs)")
  case True
  then obtain fs where raw: "raw = Some (JObj fs)" by blast
  with assms have h: "\<not> unhashable (member ''type'' (JObj fs))" by simp
  show ?thesis unfolding raw correlated_error_def Let_def option.case json.case if_not_P[OF h] by auto
qed (auto simp: correlated_error_def split: option.splits json.splits)

lemma answer_error_answers:
  assumes code: "code \<in> set DECODE_CODES" and h: "\<not> unhashable (Option.bind raw (member ''type''))"
  shows "\<exists>reply frame. encode reply = Inr frame \<and> answers raw code reply
    \<and> answer_error raw code = \<lparr>out_frames = [frame], out_closed = False, out_shutdown = False\<rparr>"
proof -
  have "\<exists>reply. correlated_error raw code = Inr reply \<and> answers raw code reply \<and> (\<exists>frame. encode reply = Inr frame)"
    using correlated_error_cases[OF h, of code]
  proof (elim disjE exE conjE)
    fix m t name codes
    assume raw: "raw = Some m" and run: "correlated_error raw code = Inr (echo_error t name codes m code)"
      and tn: "(t, name) \<in> {(''event.error'', ''event_id''), (''request.error'', ''request_id'')}"
    from echo_error_cases[OF tn, of codes m code] show ?thesis
    proof (elim disjE exE conjE)
      fix i assume i: "member name m = Some (JStr i)" "id_text i"
        and e: "echo_error t name codes m code = error_message t name i code"
        and v: "validate (error_message t name i code) = Inr (error_message t name i code)"
      have "answers raw code (error_message t name i code)" using raw tn i unfolding answers_def by auto
      with run e error_message_encodes[OF v i(2) tn code] show ?thesis by auto
    qed (use run frame_error_encodes[OF code] in \<open>auto simp: answers_def\<close>)
  qed (use frame_error_encodes[OF code] in \<open>auto simp: answers_def\<close>)
  then obtain reply where reply: "correlated_error raw code = Inr reply" "answers raw code reply"
    "\<exists>frame. encode reply = Inr frame" by blast
  then obtain frame where frame: "encode reply = Inr frame" by blast
  from code have "code \<noteq> ''read-timeout''" by (auto simp: DECODE_CODES_def MESSAGE_CODES_def)
  with reply(2) have "member ''code'' reply \<noteq> Some (JStr ''read-timeout'')"
    by (auto simp: answers_def frame_error_def error_message_def member_def)
  with reply(1) frame have "answer_error raw code = \<lparr>out_frames = [frame], out_closed = False, out_shutdown = False\<rparr>"
    by (simp add: answer_error_def write_response_def plain_reply_def)
  with reply(2) frame show ?thesis by blast
qed

text \<open>A refused request leaves the server as it was, and names one of two codes.\<close>

definition refused_with :: "failure \<Rightarrow> server \<Rightarrow> server \<Rightarrow> bool" where
  "refused_with f sv sv' \<longleftrightarrow> sv' = sv \<and> (f = ValueFailure \<or> (\<exists>e. f = Escape e)
     \<or> f = ProtocolFailure ''invalid-field'' \<or> f = ProtocolFailure ''unsupported-type'')"

lemma caught_cases: "caught e = ValueFailure \<or> (\<exists>e'. caught e = Escape e')"
  by (simp add: caught_def split: py_error.split)

lemma answer_with_refused: "answer_with r f cn sv = (Inl g, cn', sv') \<Longrightarrow> refused_with g sv sv'"
  using caught_cases by (auto simp: answer_with_def refused_with_def split: sum.splits prod.splits)

lemma offer_pending_same: "offer_pending now c s = (Inl e, c', s') \<Longrightarrow> s' = s"
  by (auto simp: offer_pending_def Let_def split: sum.splits option.splits prod.splits if_splits)

lemma handle_bound_refused:
  assumes "handle_bound w t m cn sv = (Inl f, cn', sv')"
  shows "refused_with f sv sv'"
proof (cases "cn_driver cn")
  case (Some b)
  obtain drv sess ep where b: "b = (drv, sess, ep)" by (cases b)
  note run = assms[unfolded handle_bound_def Some b option.case prod.case]
  show ?thesis
  proof (cases "drv = str_member ''driver_id'' m \<and> t = ''notification.pending''")
    case True
    with run show ?thesis
      using caught_cases offer_pending_same
      by (auto simp: refused_with_def split: option.splits prod.splits sum.splits)
  next
    case False
    with run show ?thesis
      by (auto simp: refused_with_def[of "ProtocolFailure ''invalid-field''"] split: if_splits
          elim!: answer_with_refused)
  qed
qed (use assms in \<open>auto simp: handle_bound_def refused_with_def\<close>)

lemma dispatch_refused:
  assumes "dispatch w m cn sv = (Inl f, cn', sv')"
  shows "refused_with f sv sv'"
proof -
  have reg: "handle_register m cn sv = (Inl f, cn', sv') \<Longrightarrow> refused_with f sv sv'"
    using caught_cases by (auto simp: handle_register_def refused_with_def Let_def split: sum.splits prod.splits)
  have none: "refused_with (ProtocolFailure ''unsupported-type'') sv sv" by (simp add: refused_with_def)
  show ?thesis
    using assms reg none unfolding dispatch_def Let_def
    by (auto split: if_splits prod.splits elim!: answer_with_refused handle_bound_refused)
qed



text \<open>
  A frame whose type is an array or an object is not answered: looking the type up in the set of
  the request types raises, and the connection is closed without a reply, whatever else the frame
  holds.  (Every other malformed frame is answered, above.)
\<close>

theorem unhashable_type_drops_connection:
  assumes "validate m = Inl e" and "member ''type'' m = Some (JArr vs) \<or> member ''type'' m = Some (JObj fs)"
    and "bytes \<le> MAX_FRAME_BYTES"
  shows "serve_frame w bytes (Some m) (Some m) cn sv = (dropped, cn, sv)"
proof -
  from assms(2) obtain ms where m: "m = JObj ms" by (cases m) (auto simp: member_def)
  from assms(2) have "text_of ''type'' m = None" by (auto simp: text_of_def text_or_null_def)
  with assms(2) have "correlated_error (Some m) code = Inl TypeError" for code
    unfolding m correlated_error_def by (auto simp: Let_def unhashable_def)
  with assms(1,3) show ?thesis by (simp add: serve_frame_def decode_def answer_error_def)
qed

lemma unhashable_type_drops_connection_witness:
  "serve_frame (demo_world 0) 20 (Some (JObj [(''v'', JInt 1), (''type'', JArr [])]))
      (Some (JObj [(''v'', JInt 1), (''type'', JArr [])])) new_connection initial_server
    = (dropped, new_connection, initial_server)"
proof -
  have "\<exists>e. validate (JObj [(''v'', JInt 1), (''type'', JArr [])]) = Inl e"
    by (simp add: validate_def is_object_def member_def VERSION_def fail_def)
  then obtain e where "validate (JObj [(''v'', JInt 1), (''type'', JArr [])]) = Inl e" by blast
  from unhashable_type_drops_connection[OF this] show ?thesis by (simp add: member_def MAX_FRAME_BYTES_def)
qed

section \<open>Acknowledged events\<close>

text \<open>
  C17: an acknowledged event is durable.  Once a lifecycle message has been answered with \<open>ack\<close>, its
  event is in the log with exactly the contents of the message and the number the reply gives, and
  it is so in every state the daemon can reach from there; the reply names the message's event.
\<close>

theorem ack_means_durable:
  assumes "server_step\<^sup>*\<^sup>* initial_server sv" and v: "validate m = Inr m'"
    and p: "requires_producer_seq (str_member ''type'' m)"
    and run: "dispatch w m cn sv = (Inr r, cn', sv')" and ack: "member ''type'' (rp_reply r) = Some (JStr ''ack'')"
    and later: "server_step\<^sup>*\<^sup>* sv' later"
  shows "\<exists>row. find_event (ev_id (event_of m)) (sv_store later) = Some row \<and> er_event row = event_of m
    \<and> member ''durable_seq'' (rp_reply r) = Some (JNat (er_durable_seq row))
    \<and> member ''event_id'' (rp_reply r) = Some (JStr (ev_id (event_of m)))"
proof -
  note ok = reachable_server[OF assms(1)]
  note sys = server_system_ok[OF ok]
  note ev = validated_sound[OF v p]
  let ?t = "str_member ''type'' m"
  have "\<not> requires_producer_seq t" if "t \<in> set (REQUEST_TYPES @ BOUND_TYPES)" for t
    using that producer_types[of t] by (auto simp: REQUEST_TYPES_def BOUND_TYPES_def LIFECYCLE_TYPES_def)
  with p have "?t \<notin> set (REQUEST_TYPES @ BOUND_TYPES)" by blast
  with run obtain j where "handle_event w m sv = (j, sv')" "r = plain_reply j"
    by (auto simp: dispatch_def Let_def REQUEST_TYPES_def BOUND_TYPES_def split: if_splits prod.splits)
  with ack obtain a t where acc: "accept_event (wd_tasks w) (event_of m) (sv_store sv) = Inr (a, t)"
    "rp_reply r = ack_json m a" "sv' = sv\<lparr>sv_store := t\<rparr>"
    by (auto simp: handle_event_def plain_reply_def event_error_def frame_error_def member_def
        split: sum.splits py_error.splits prod.splits)
  with accepted_is_logged[OF _ _ acc(1)] sys ev obtain row where
    row: "find_event (ev_id (event_of m)) (sv_store sv') = Some row" "er_event row = event_of m" "er_durable_seq row = ac_seq a"
    by (auto simp: system_ok_def sound_def)
  from leads_step[OF accept_system[OF sys ev acc(1)]] ok acc(3) have "server_ok sv'"
    unfolding server_ok_def by (auto intro: leads_trans)
  from find_event_prefix[OF row(1) server_events[OF later this]] row acc(2) show ?thesis
    by (auto simp: ack_json_def member_def event_of_def)
qed

lemma ack_means_durable_witness:
  "\<exists>r cn' sv' row. dispatch (demo_world 0) register_message new_connection initial_server = (Inr r, cn', sv')
    \<and> find_event ''e1'' (sv_store sv') = Some row \<and> member ''durable_seq'' (rp_reply r) = Some (JNat (er_durable_seq row))"
proof -
  have ev: "event_of register_message = crew_event ''e1'' 1 SessionRegister"
    by (simp add: event_of_def register_message_def crew_event_def read_member harness_of_def role_of_def lifecycle_kinds)
  have type: "str_member ''type'' register_message = ''session.register''" "member ''event_id'' register_message = Some (JStr ''e1'')"
    by (simp_all add: register_message_def read_member)
  have p: "requires_producer_seq ''session.register''"
    by (simp add: requires_producer_seq_def lifecycle_rows EVENT_FIELDS_def)
  let ?j = "ack_json register_message \<lparr>ac_seq = 1, ac_duplicate = False, ac_generation = None\<rparr>"
  have run: "dispatch (demo_world 0) register_message new_connection initial_server
      = (Inr (plain_reply ?j), new_connection, initial_server\<lparr>sv_store := crew_registered\<rparr>)"
    using run_crew_registered
    by (simp add: dispatch_def type Let_def BOUND_TYPES_def p handle_event_def ev demo_world_def initial_server_def)
  have "member ''type'' (rp_reply (plain_reply ?j)) = Some (JStr ''ack'')"
    by (simp add: plain_reply_def ack_json_def member_def)
  from ack_means_durable[OF rtranclp.rtrancl_refl register_message_valid _ run this rtranclp.rtrancl_refl] run
  show ?thesis by (auto simp: type p ev crew_event_def)
qed

section \<open>The spool\<close>

text \<open>
  C18: the spool loses nothing.  After an import every entry that has left the directory is a valid
  lifecycle message under its own name whose event is in the log, now and in every later state; the
  entries that stay were there before, and the backlog and the error count the daemon reports are
  both exactly their number.
\<close>

theorem spool_removal_is_committed:
  assumes reach: "server_step\<^sup>*\<^sup>* initial_server sv" and d: "distinct (map sp_name entries)"
    and run: "import_spool tasks reread err entries sv = (left, sv')" and later: "server_step\<^sup>*\<^sup>* sv' later"
  shows "set left \<subseteq> set entries \<and> (\<forall>e \<in> set entries - set left. committed (sv_store later) e)
    \<and> sv_spool_backlog sv' = length left \<and> sv_spool_errors sv' = length left"
proof -
  note ok = reachable_server[OF reach]
  note fin = import_done[OF server_system_ok[OF ok] d run]
  from server_step_ok[OF server_step.spool[OF d run] ok] have "server_ok sv'" .
  from server_events[OF later this] fin committed_prefix show ?thesis by blast
qed

definition spooled_entry :: spool_entry where
  "spooled_entry = \<lparr>sp_name = ''e1.json'', sp_private = True, sp_bytes = 100, sp_parsed = Some register_message\<rparr>"

lemma spool_removal_is_committed_witness:
  "\<exists>sv'. import_spool bare_dir (\<lambda>_. Some spooled_entry) [] [spooled_entry] initial_server = ([], sv')
    \<and> committed (sv_store sv') spooled_entry \<and> sv_spool_backlog sv' = 0"
proof -
  have ev: "event_of register_message = crew_event ''e1'' 1 SessionRegister"
    by (simp add: event_of_def register_message_def crew_event_def read_member harness_of_def role_of_def lifecycle_kinds)
  have "requires_producer_seq ''session.register''"
    by (simp add: requires_producer_seq_def lifecycle_rows EVENT_FIELDS_def)
  then have "spool_message spooled_entry = Some register_message"
    using register_message_valid
    by (simp add: spool_message_def spooled_entry_def decode_def MAX_FRAME_BYTES_def suffix_def)
       (simp add: register_message_def read_member)
  then have "import_order [spooled_entry] = [(spooled_entry, register_message)]"
    by (simp add: import_order_def map_filter_simps)
  then have "\<exists>sv'. import_spool bare_dir (\<lambda>_. Some spooled_entry) [] [spooled_entry] initial_server = ([], sv')"
    using run_crew_registered
    by (simp add: import_spool_def import_one_def ev initial_server_def)
  then obtain sv' where run: "import_spool bare_dir (\<lambda>_. Some spooled_entry) [] [spooled_entry] initial_server = ([], sv')"
    by blast
  have "distinct (map sp_name [spooled_entry])" by simp
  from spool_removal_is_committed[OF rtranclp.rtrancl_refl this run rtranclp.rtrancl_refl] run show ?thesis by simp
qed

section \<open>Connections and their drivers\<close>

definition counted :: "server \<Rightarrow> bool" where
  "counted sv \<longleftrightarrow> 0 \<notin> snd ` set (sv_active sv)"

lemma same_active:
  "answer_with r f cn sv = (out, cn', sv') \<Longrightarrow> sv_active sv' = sv_active sv"
  "handle_event w m sv = (j, sv') \<Longrightarrow> sv_active sv' = sv_active sv"
  "import_spool tasks reread err entries sv = (left, sv') \<Longrightarrow> sv_active sv' = sv_active sv"
  by (auto simp: answer_with_def handle_event_def import_spool_def Let_def split: sum.splits py_error.splits prod.splits)

lemma handle_bound_active:
  assumes "handle_bound w t m cn sv = (out, cn', sv')"
  shows "sv_active sv' = sv_active sv"
proof (cases "cn_driver cn")
  case (Some b)
  obtain drv sess ep where b: "b = (drv, sess, ep)" by (cases b)
  note run = assms[unfolded handle_bound_def Some b option.case prod.case]
  show ?thesis
  proof (cases "drv = str_member ''driver_id'' m \<and> t = ''notification.pending''")
    case True
    with run show ?thesis by (auto split: option.splits prod.splits sum.splits)
  next
    case False
    with run show ?thesis by (auto dest: same_active(1) split: if_splits)
  qed
qed (use assms in \<open>simp add: handle_bound_def\<close>)

lemma counted_update: "0 < n \<Longrightarrow> 0 \<notin> snd ` set tbl \<Longrightarrow> 0 \<notin> snd ` set (AList.update d n tbl)" for n :: nat
  by (force dest: alist_update_values)

lemma registered_connection:
  assumes "handle_register m cn sv = (Inr r, cn', sv')"
  obtains sess ep t where "cn_driver cn' = Some (str_member ''driver_id'' m, sess, ep)"
    "sv' = sv\<lparr>sv_store := t, sv_active := AList.update (str_member ''driver_id'' m)
       ((case map_of (sv_active sv) (str_member ''driver_id'' m) of Some n \<Rightarrow> n | None \<Rightarrow> 0) + 1) (sv_active sv)\<rparr>"
  using assms by (auto simp: handle_register_def Let_def split: sum.splits prod.splits)

lemma register_counted:
  assumes "handle_register m cn sv = (out, cn', sv')" and "counted sv"
  shows "counted sv'"
proof (cases out)
  case (Inl f)
  with assms show ?thesis by (auto simp: handle_register_def Let_def split: sum.splits prod.splits)
next
  case (Inr r)
  let ?d = "str_member ''driver_id'' m"
  let ?n = "(case map_of (sv_active sv) ?d of Some n \<Rightarrow> n | None \<Rightarrow> 0) + 1"
  from registered_connection[OF assms(1)[unfolded Inr]] obtain t where
    "sv' = sv\<lparr>sv_store := t, sv_active := AList.update ?d ?n (sv_active sv)\<rparr>" by metis
  with assms(2) counted_update[of ?n "sv_active sv" ?d] show ?thesis by (simp add: counted_def)
qed

lemma dispatch_counted:
  assumes "dispatch w m cn sv = (out, cn', sv')" and "counted sv"
  shows "counted sv'"
proof -
  have same: "sv_active sv'' = sv_active sv \<Longrightarrow> counted sv''" for sv'' using assms(2) by (simp add: counted_def)
  show ?thesis
    using assms(1) assms(2) unfolding dispatch_def Let_def
    by (auto split: if_splits prod.splits intro: register_counted
        dest: same[OF same_active(1)] same[OF same_active(2)] same[OF handle_bound_active])
qed

lemma server_step_counted: "server_step sv sv' \<Longrightarrow> counted sv \<Longrightarrow> counted sv'"
proof (induction rule: server_step.induct)
  case (request w bytes parsed raw cn sv out cn' sv')
  then show ?case
    by (auto simp: serve_frame_def split: sum.splits prod.splits failure.splits intro: dispatch_counted)
next
  case (disconnected sv cn)
  show ?case
  proof (cases "cn_driver cn")
    case (Some b)
    obtain drv sess ep where b: "b = (drv, sess, ep)" by (cases b)
    let ?n = "int (case map_of (sv_active sv) drv of Some n \<Rightarrow> n | None \<Rightarrow> 1) - 1"
    have "0 \<notin> snd ` set (AList.delete drv (sv_active sv))"
      using disconnected by (auto simp: counted_def AList.delete_eq)
    moreover have "0 < ?n \<Longrightarrow> 0 \<notin> snd ` set (AList.update drv (nat ?n) (sv_active sv))"
      using disconnected counted_update[of "nat ?n" "sv_active sv" drv] by (simp add: counted_def)
    ultimately show ?thesis by (simp add: disconnect_def Some b Let_def counted_def)
  qed (use disconnected in \<open>simp add: disconnect_def Let_def counted_def\<close>)
next
  case (spool entries tasks reread err sv left sv')
  then show ?case using same_active(3) by (simp add: counted_def)
qed (simp_all add: counted_def)

interpretation active_counts: preserved server_step counted
  by unfold_locales (rule server_step_counted)

lemma reachable_counted: "server_step\<^sup>*\<^sup>* initial_server sv \<Longrightarrow> counted sv"
  using active_counts.run_inv[of initial_server sv] by (simp add: counted_def initial_server_def)

text \<open>
  A connection gives back what it took.  In every reachable daemon, a connection that registers
  once and then ends leaves the table of connected drivers exactly as it was: no driver is reported
  connected that has no connection, and no driver is lost that has another one.
\<close>

theorem registration_is_returned:
  assumes "server_step\<^sup>*\<^sup>* initial_server sv" and "handle_register m new_connection sv = (Inr r, cn', sv')"
  shows "map_of (sv_active (disconnect cn' sv')) = map_of (sv_active sv)"
proof -
  let ?d = "str_member ''driver_id'' m"
  from reachable_counted[OF assms(1)] have pos: "map_of (sv_active sv) ?d \<noteq> Some 0"
    by (auto simp: counted_def image_iff dest!: map_of_SomeD)
  from registered_connection[OF assms(2)] obtain sess ep t where "cn_driver cn' = Some (?d, sess, ep)"
    "sv' = sv\<lparr>sv_store := t, sv_active := AList.update ?d
       ((case map_of (sv_active sv) ?d of Some n \<Rightarrow> n | None \<Rightarrow> 0) + 1) (sv_active sv)\<rparr>" by blast
  with pos show ?thesis
    by (cases "map_of (sv_active sv) ?d")
       (auto simp: disconnect_def Let_def update_conv' delete_conv' fun_eq_iff)
qed

definition watch_message :: json where
  "watch_message = JObj [(''v'', JInt 1), (''type'', JStr ''watchtower.register''), (''request_id'', JStr ''r1''),
     (''session_id'', JStr ''w1''), (''harness'', JStr ''pi''), (''driver_id'', JStr ''drv'')]"

lemma registration_runs:
  "\<exists>r cn' sv'. handle_register watch_message new_connection initial_server = (Inr r, cn', sv')"
  "\<exists>r cn1 sv1 r' cn2 sv2. handle_register watch_message new_connection initial_server = (Inr r, cn1, sv1)
     \<and> handle_register watch_message cn1 sv1 = (Inr r', cn2, sv2)"
  by (simp_all add: handle_register_def watch_message_def read_member initial_server_def register_driver_def
      empty_store_def harness_of_def new_coalescer_def DEFAULT_COLLECTION_WINDOW_def Let_def)

lemma registration_is_returned_witness:
  "\<exists>r cn' sv'. handle_register watch_message new_connection initial_server = (Inr r, cn', sv')
     \<and> map_of (sv_active (disconnect cn' sv')) = Map.empty"
proof -
  from registration_runs(1) obtain r cn' sv' where
    run: "handle_register watch_message new_connection initial_server = (Inr r, cn', sv')" by blast
  from registration_is_returned[OF rtranclp.rtrancl_refl run] run show ?thesis by (simp add: initial_server_def)
qed

text \<open>
  A connection that registers twice does not.  The daemon counts each registration but gives
  back only one, so a driver registered twice by the same connection is reported connected after
  that connection has ended, whether or not any other connection ever existed.
\<close>

theorem second_registration_leaks:
  assumes "handle_register m cn sv = (Inr r, cn1, sv1)" and "handle_register m' cn1 sv1 = (Inr r', cn2, sv2)"
    and "str_member ''driver_id'' m' = str_member ''driver_id'' m"
  shows "str_member ''driver_id'' m \<in> set (keys (sv_active (disconnect cn2 sv2)))"
proof -
  let ?d = "str_member ''driver_id'' m"
  from registered_connection[OF assms(1)] obtain t where one: "sv1 = sv\<lparr>sv_store := t, sv_active := AList.update ?d
       ((case map_of (sv_active sv) ?d of Some n \<Rightarrow> n | None \<Rightarrow> 0) + 1) (sv_active sv)\<rparr>" by metis
  from registered_connection[OF assms(2)] obtain sess ep t' where two: "cn_driver cn2 = Some (?d, sess, ep)"
    "sv2 = sv1\<lparr>sv_store := t', sv_active := AList.update ?d
       ((case map_of (sv_active sv1) ?d of Some n \<Rightarrow> n | None \<Rightarrow> 0) + 1) (sv_active sv1)\<rparr>"
    unfolding assms(3) by metis
  show ?thesis unfolding two(2) one
    by (simp add: disconnect_def two(1) Let_def update_conv' update_keys)
qed

lemma second_registration_leaks_witness:
  "\<exists>cn2 sv2. ''drv'' \<in> set (keys (sv_active (disconnect cn2 sv2))) \<and> cn_driver cn2 \<noteq> None"
proof -
  from registration_runs(2) obtain r cn1 sv1 r' cn2 sv2 where
    runs: "handle_register watch_message new_connection initial_server = (Inr r, cn1, sv1)"
      "handle_register watch_message cn1 sv1 = (Inr r', cn2, sv2)" by blast
  have "str_member ''driver_id'' watch_message = ''drv''" by (simp add: watch_message_def read_member)
  with second_registration_leaks[OF runs refl] have "''drv'' \<in> set (keys (sv_active (disconnect cn2 sv2)))" by simp
  moreover have "cn_driver cn2 \<noteq> None" by (rule registered_connection[OF runs(2)]) simp
  ultimately show ?thesis by blast
qed

section \<open>The health of the store\<close>

text \<open>
  The pending count is zero exactly when there is nothing left to see.  The number of pending
  tasks that \<open>health\<close> reports is zero iff nothing ever changed, or there are drivers and every one of
  them has acknowledged the latest generation.
\<close>

theorem pending_zero_iff_acknowledged:
  assumes "server_step\<^sup>*\<^sup>* initial_server sv"
  shows "hs_pending (health_snapshot (sv_store sv)) = 0 \<longleftrightarrow>
    latest_generation (sv_store sv) = 0 \<or>
    (deliveries (sv_store sv) \<noteq> [] \<and> (\<forall>(drv, d) \<in> set (deliveries (sv_store sv)). d_acked d = latest_generation (sv_store sv)))"
proof -
  let ?s = "sv_store sv"
  have wf: "ledger_wf ?s" using reachable_system[OF assms] by (simp add: system_ok_def store_wf_def)
  then have h: "map fst (generation_tasks ?s) = [1..<latest_generation ?s + 1]"
    by (simp add: ledger_wf_def history_ok_def)
  let ?slow = "min_or_0 (map (d_acked \<circ> snd) (deliveries ?s))"
  have "pending_count ?s = 0 \<longleftrightarrow> (\<forall>g \<in> set (map fst (generation_tasks ?s)). g \<le> ?slow)"
    by (auto simp: pending_count_def Let_def remdups_eq_nil_iff filter_empty_conv not_less)
  also have "\<dots> \<longleftrightarrow> latest_generation ?s \<le> ?slow" unfolding h by (auto simp: Suc_le_eq intro: leI)
  finally have zero: "pending_count ?s = 0 \<longleftrightarrow> latest_generation ?s \<le> ?slow" .
  have bound: "d_acked d \<le> latest_generation ?s" if "(drv, d) \<in> set (deliveries ?s)" for drv d
  proof -
    from wf have r: "registry_ok ?s" by (simp add: ledger_wf_def)
    then have "map_of (deliveries ?s) drv = Some d" using that by (simp add: registry_ok_def)
    from entry_okD[OF r this] obtain r0 where "driver_ok (latest_generation ?s) r0 d (offers_of drv ?s)" .
    then show ?thesis by (auto simp: driver_ok_def delivery_check_def)
  qed
  show ?thesis
  proof (cases "deliveries ?s = []")
    case True
    with zero show ?thesis by (simp add: health_snapshot_def min_or_0_def)
  next
    case False
    then have "latest_generation ?s \<le> ?slow \<longleftrightarrow> (\<forall>(drv, d) \<in> set (deliveries ?s). latest_generation ?s \<le> d_acked d)"
      by (auto simp: min_or_0_def)
    with zero bound False show ?thesis by (fastforce simp: health_snapshot_def)
  qed
qed

lemma pending_zero_iff_acknowledged_witness:
  "hs_pending (health_snapshot (sv_store initial_server)) = 0"
  using pending_zero_iff_acknowledged[OF rtranclp.rtrancl_refl] by (simp add: initial_server_def empty_store_def)

section \<open>Reconciliations on the wire\<close>

definition tuple_words :: "report_status \<times> verdict option \<times> reason \<Rightarrow> string \<times> string option \<times> string" where
  "tuple_words = (\<lambda>(st, v, why). (status_word st, map_option verdict_word v, reason_word why))"

lemma wire_tuples_words: "set WIRE_TUPLES = tuple_words ` REPORT_TUPLES"
  by (simp add: WIRE_TUPLES_def REPORT_TUPLES_def tuple_words_def status_word_def verdict_word_def reason_word_def)

lemma reason_words:
  assumes "(st, v, why) \<in> REPORT_TUPLES"
  shows "(Some (status_word st), map_option verdict_word v, Some (reason_word why))
      \<in> (\<lambda>(st, v, why). (Some st, v, Some why)) ` set WIRE_TUPLES"
proof -
  from assms have "(status_word st, map_option verdict_word v, reason_word why) \<in> set WIRE_TUPLES"
    unfolding wire_tuples_words by (force simp: tuple_words_def)
  then show ?thesis by force
qed

lemma word_enums [simp]:
  "availability_word a \<in> set AVAILABILITIES" "status_word st \<in> set REPORT_STATES" "reason_word why \<in> set ACTIONABLE_REASONS"
  by (simp_all add: availability_word_def AVAILABILITIES_def status_word_def REPORT_STATES_def reason_word_def
      ACTIONABLE_REASONS_def split: availability.split report_status.split reason.split)

lemma verdict_words: "(st, Some v, why) \<in> REPORT_TUPLES \<Longrightarrow> verdict_word v \<in> set VERDICT_WORDS"
  by (auto simp: REPORT_TUPLES_def verdict_word_def VERDICT_WORDS_def)

lemma report_json_checks:
  assumes "id_text (sn_task p)" and "1 \<le> sn_generation p" and "int (sn_generation p) \<le> MAX_INTEGER"
    and "projection_ok (sn_row p)"
  shows "check_report item (report_json render p) = Inr ()"
proof -
  let ?row = "sn_row p"
  have t: "(pr_report_state ?row, pr_verdict ?row, pr_reason ?row) \<in> REPORT_TUPLES"
    using assms(4) unfolding projection_ok_def by blast
  have v: "is_one_of VERDICT_WORDS (nullable_str (map_option verdict_word (pr_verdict ?row)))
      \<or> nullable_str (map_option verdict_word (pr_verdict ?row)) = JNull"
    using verdict_words t by (cases "pr_verdict ?row") (auto simp: nullable_str_def is_one_of_def)
  have "wire_tuple (report_json render p) = (Some (status_word (pr_report_state ?row)),
      map_option verdict_word (pr_verdict ?row), Some (reason_word (pr_reason ?row)))"
    by (cases "pr_verdict ?row")
       (simp_all add: wire_tuple_def report_json_def Let_def member_def text_or_null_def nullable_str_def)
  with reason_words[OF t] have tuple: "wire_tuple (report_json render p)
      \<in> (\<lambda>(st, v, why). (Some st, v, Some why)) ` set WIRE_TUPLES" by simp
  have mem: "member ''task_id'' (report_json render p) = Some (JStr (sn_task p))"
    "member ''generation'' (report_json render p) = Some (JNat (sn_generation p))"
    "member ''availability'' (report_json render p) = Some (JStr (availability_word (pr_availability ?row)))"
    "member ''report_state'' (report_json render p) = Some (JStr (status_word (pr_report_state ?row)))"
    "member ''verdict'' (report_json render p) = Some (nullable_str (map_option verdict_word (pr_verdict ?row)))"
    "member ''actionable_reason'' (report_json render p) = Some (JStr (reason_word (pr_reason ?row)))"
    by (simp_all add: report_json_def Let_def member_def)
  have "check_members REPORT_SCHEMA path (report_json render p) = Inr ()" for path
    using assms(1-3) v
    by (simp add: REPORT_SCHEMA_def mem checks is_id_def is_between_def JNat_def is_one_of_def demand_def
        NULLABLE_def) auto?
  moreover have "check_members REPORT_OPTIONAL_SCHEMA path (report_json render p) = Inr ()" for path
    unfolding check_members_Inr REPORT_OPTIONAL_SCHEMA_def
    by (simp add: report_json_def Let_def member_def checks is_object_def)
  moreover have "names (report_json render p) = [''task_id'', ''generation'', ''availability'', ''report_state'',
      ''verdict'', ''actionable_reason'', ''projection'']" "is_object (report_json render p)"
    by (simp_all add: report_json_def Let_def names_def is_object_def)
  ultimately show ?thesis
    using tuple by (simp add: check_report_def REPORT_SCHEMA_def REPORT_OPTIONAL_SCHEMA_def)
qed

lemma reports_json_check:
  assumes "\<forall>p \<in> set rows. id_text (sn_task p) \<and> 1 \<le> sn_generation p \<and> int (sn_generation p) \<le> MAX_INTEGER
      \<and> projection_ok (sn_row p)"
  shows "check_reports field n (map (report_json render) rows) = Inr ()"
  using assms by (induction rows arbitrary: n) (simp_all add: report_json_checks)

lemma snapshot_json_check:
  assumes "\<forall>p \<in> set rows. sn_generation p \<le> through" and "distinct (map sn_task rows)"
    and "\<forall>p \<in> set rows. Some (JStr (sn_task p)) \<notin> set seen"
  shows "check_snapshot (int through) n seen (map (report_json render) rows) = Inr ()"
  using assms
proof (induction rows arbitrary: n seen)
  case (Cons p rows)
  have "int_member ''generation'' (report_json render p) = int (sn_generation p)"
    "member ''task_id'' (report_json render p) = Some (JStr (sn_task p))"
    by (simp_all add: int_member_def report_json_def Let_def member_def JNat_def)
  moreover have "check_snapshot (int through) (n + 1) (Some (JStr (sn_task p)) # seen) (map (report_json render) rows) = Inr ()"
    using Cons.prems by (intro Cons.IH) (auto simp: image_iff)
  ultimately show ?case using Cons.prems by simp
qed simp

definition fits :: "store \<Rightarrow> bool" where
  "fits s \<longleftrightarrow> int (latest_generation s) \<le> MAX_INTEGER \<and> int (length (task_projections s)) \<le> MAX_INTEGER"

lemma reconciliation_sound:
  assumes sys: "system_ok s" and "fits s" and run: "reconcile_delivered drv full s = Inr (rc, t)"
  shows "int (rc_through rc) \<le> MAX_INTEGER \<and> int (rc_since rc) \<le> MAX_INTEGER
    \<and> 0 \<le> rc_unchanged rc \<and> rc_unchanged rc \<le> MAX_INTEGER \<and> distinct (map sn_task (rc_reports rc))
    \<and> (\<forall>p \<in> set (rc_reports rc). id_text (sn_task p) \<and> 1 \<le> sn_generation p \<and> sn_generation p \<le> rc_through rc
      \<and> projection_ok (sn_row p))"
proof -
  from sys have wf: "ledger_wf s" and safe: "safe_tasks s" and facts: "facts_wf s"
    by (simp_all add: system_ok_def store_wf_def)
  then have h: "history_ok s" and reg: "registry_ok s" by (simp_all add: ledger_wf_def)
  from run obtain d r where d: "map_of (deliveries s) drv = Some d" "map_of (registrations s) drv = Some r"
    by (auto simp: reconcile_delivered_def split: option.splits)
  have ok: "driver_ok (latest_generation s) r d (offers_of drv s)"
    using entry_okD[OF reg d(1)] d(2) by auto
  then have le: "d_acked d \<le> latest_generation s" "d_delivered d \<le> latest_generation s"
    by (auto simp: driver_ok_def delivery_check_def)
  have max: "0 \<le> MAX_INTEGER" by (simp add: MAX_INTEGER_def)
  have frozen: "1 \<le> sn_generation p \<and> id_text (sn_task p) \<and> projection_ok (sn_row p)" if "p \<in> set (task_snapshots s)" for p
  proof -
    from that h have "sn_task p \<in> set (keys (task_projections s))" "1 \<le> sn_generation p"
      unfolding history_ok_def by auto
    with safe facts that show ?thesis unfolding safe_tasks_def facts_wf_def by blast
  qed
  show ?thesis
  proof (cases "d_delivered d \<le> d_acked d")
    case True
    with run d have rc: "rc = \<lparr>rc_through = d_acked d, rc_reports = [], rc_since = d_acked d, rc_unchanged = 0\<rparr>"
      by (simp add: reconcile_delivered_def Let_def)
    show ?thesis
      using assms(2) le max by (simp_all add: rc fits_def)
  next
    case False
    then have pending: "d_acked d < d_delivered d" by simp
    from reconcile_delivered_run[OF wf d(2,1) pending, of full] run obtain rows where
      rc: "rc = \<lparr>rc_through = d_delivered d, rc_reports = rows, rc_since = d_acked d,
        rc_unchanged = int (snapshot_task_count (d_delivered d) s) - int (length rows)\<rparr>"
      and rows: "snapshot_rows (d_delivered d) (if full then None else Some (d_acked d)) s = Inr rows"
      by force
    note exact = reconciled_rows[OF h pending le(2) rows]
    have "snapshot_task_count (d_delivered d) s \<le> length (task_projections s)"
    proof -
      have "sn_task ` set (task_snapshots s) \<subseteq> set (keys (task_projections s))" using h by (auto simp: history_ok_def)
      then have "card (sn_task ` {p \<in> set (task_snapshots s). sn_generation p \<le> d_delivered d})
          \<le> card (set (keys (task_projections s)))" by (intro card_mono) auto
      also have "\<dots> \<le> length (task_projections s)" using card_length[of "keys (task_projections s)"] by simp
      finally show ?thesis by (simp add: snapshot_task_count_def length_remdups_card_conv)
    qed
    with exact frozen le assms(2) max pending
    show ?thesis by (auto simp: rc fits_def)
  qed
qed

lemma reply_validates:
  assumes "system_ok (sv_store sv)" and "fits (sv_store sv)" and v: "validate m = Inr m'"
    and t: "str_member ''type'' m = ''reconcile.pending''" and run: "dispatch w m cn sv = (Inr r, cn', sv')"
  shows "validate (rp_reply r) = Inr (rp_reply r)"
proof -
  from run t have "answer_with (reconcile_delivered (str_member ''driver_id'' m) (member ''scope'' m = Some (JStr ''full''))
      (sv_store sv)) (reconcile_reply (wd_render w) m) cn sv = (Inr r, cn', sv')" by (simp add: dispatch_def Let_def)
  then obtain rc s' where rc: "reconcile_delivered (str_member ''driver_id'' m) (member ''scope'' m = Some (JStr ''full''))
      (sv_store sv) = Inr (rc, s')" and r: "rp_reply r = reconcile_reply (wd_render w) m rc"
    by (auto simp: answer_with_def plain_reply_def split: sum.splits prod.splits)
  from reconciliation_sound[OF assms(1) assms(2) rc] have rc: "int (rc_through rc) \<le> MAX_INTEGER"
    "int (rc_since rc) \<le> MAX_INTEGER" "0 \<le> rc_unchanged rc" "rc_unchanged rc \<le> MAX_INTEGER"
    "distinct (map sn_task (rc_reports rc))"
    "\<forall>p \<in> set (rc_reports rc). id_text (sn_task p) \<and> 1 \<le> sn_generation p \<and> sn_generation p \<le> rc_through rc
      \<and> projection_ok (sn_row p)" by blast+
  have id: "id_text (request_id m)"
  proof -
    from v obtain t' required optional where "member ''type'' m = Some (JStr t')" "map_of SCHEMAS t' = Some (required, optional)"
      "conforms required optional m" by (metis validate_Inr)
    moreover from this t have "t' = ''reconcile.pending''" by (simp add: read_member)
    ultimately have "\<exists>x. member ''request_id'' m = Some x \<and> ID x ''request_id'' = Inr ()"
      using conforms_required[of required optional m "''request_id''" ID] by (auto simp: SCHEMAS_def)
    then show ?thesis by (auto simp: request_id_def read_member checks dest!: is_id_text)
  qed
  let ?rs = "map (report_json (wd_render w)) (rc_reports rc)"
  let ?m = "JObj [(''v'', JInt 1), (''type'', JStr ''reconcile.pending.result''), (''request_id'', JStr (request_id m)),
    (''through'', JNat (rc_through rc)), (''reports'', JArr ?rs), (''since'', JNat (rc_since rc)),
    (''unchanged_count'', JInt (rc_unchanged rc))]"
  have reply: "rp_reply r = ?m" by (simp add: r reconcile_reply_def reply_json_def)
  have "int (sn_generation p) \<le> MAX_INTEGER" if "p \<in> set (rc_reports rc)" for p
    using rc(1,6) that by fastforce
  with rc(6) have reports: "check_reports ''reports'' 0 ?rs = Inr ()" by (intro reports_json_check) blast
  have snap: "check_snapshot (int (rc_through rc)) 0 [] ?rs = Inr ()"
    using rc(5,6) by (intro snapshot_json_check) auto
  have type: "map_of SCHEMAS ''reconcile.pending.result'' = Some ([(''request_id'', ID), (''through'', NONNEGATIVE),
        (''reports'', REPORTS)], [(''since'', NONNEGATIVE), (''unchanged_count'', NONNEGATIVE)])"
    by (simp add: SCHEMAS_def)
  have "validate ?m = Inr ?m"
    using rc(1-4) id reports snap
    by (simp add: validate_def is_object_def member_def names_def VERSION_def type Let_def checks demand_def
        is_id_def is_between_def JNat_def REPORTS_def LIFECYCLE_TYPES_def int_member_def)
  then show ?thesis by (simp only: reply)
qed

text \<open>
  C19: a reconciliation is always a valid message.  In every reachable daemon whose generations and
  tasks can still be counted exactly by all readers, the answer to \<open>reconcile.pending\<close> passes the
  protocol's own validation: every report in it has a safe identifier, a generation within the range
  and not beyond the cursor, and one of the tuples the protocol allows, no task occurs twice, and
  the counters are in range.
\<close>

theorem reconciliation_validates:
  assumes "server_step\<^sup>*\<^sup>* initial_server sv" and "fits (sv_store sv)" and v: "validate m = Inr m'"
    and t: "str_member ''type'' m = ''reconcile.pending''" and run: "dispatch w m cn sv = (Inr r, cn', sv')"
  shows "validate (rp_reply r) = Inr (rp_reply r)"
  by (rule reply_validates[OF reachable_system[OF assms(1)] assms(2-5)])

definition pending_message :: json where
  "pending_message = JObj [(''v'', JInt 1), (''type'', JStr ''reconcile.pending''), (''request_id'', JStr ''r2''),
     (''driver_id'', JStr ''drv'')]"

text \<open>The daemon after its first watchtower has connected.\<close>

definition watched :: server where
  "watched = snd (snd (handle_register watch_message new_connection initial_server))"

lemma watched_reachable: "server_step\<^sup>*\<^sup>* initial_server watched"
proof -
  have valid: "validate watch_message = Inr watch_message" by (simp add: watch_message_def validate_eval)
  from registration_runs(1) obtain r cn' sv' where
    run: "handle_register watch_message new_connection initial_server = (Inr r, cn', sv')" by blast
  have "str_member ''type'' watch_message = ''watchtower.register''" by (simp add: watch_message_def read_member)
  with run have "dispatch (demo_world 0) watch_message new_connection initial_server = (Inr r, cn', watched)"
    by (simp add: dispatch_def Let_def watched_def)
  with valid have "serve_frame (demo_world 0) 0 (Some watch_message) (Some watch_message) new_connection initial_server
      = (write_response r, cn', watched)"
    by (simp add: serve_frame_def decode_def)
  from server_step.request[OF this] show ?thesis by (rule r_into_rtranclp)
qed

lemma reconciliation_validates_witness:
  "\<exists>r cn' sv'. dispatch (demo_world 0) pending_message new_connection watched = (Inr r, cn', sv')
     \<and> validate (rp_reply r) = Inr (rp_reply r)"
proof -
  have type: "str_member ''type'' pending_message = ''reconcile.pending''"
    by (simp add: pending_message_def read_member)
  have valid: "validate pending_message = Inr pending_message"
    by (simp add: pending_message_def validate_eval)
  have store: "map_of (deliveries (sv_store watched)) ''drv''
      = Some \<lparr>d_latest = 0, d_delivered = 0, d_acked = 0, d_state = DPending, d_error = None\<rparr>"
    "map_of (registrations (sv_store watched)) ''drv'' \<noteq> None" "latest_generation (sv_store watched) = 0"
    "task_projections (sv_store watched) = []"
    by (simp_all add: watched_def handle_register_def watch_message_def read_member initial_server_def
        register_driver_def empty_store_def Let_def)
  then have fits: "fits (sv_store watched)" by (simp add: fits_def MAX_INTEGER_def)
  have "\<exists>r cn' sv'. dispatch (demo_world 0) pending_message new_connection watched = (Inr r, cn', sv')"
    using store by (auto simp: dispatch_def type Let_def answer_with_def reconcile_delivered_def pending_message_def read_member)
  then obtain r cn' sv' where run: "dispatch (demo_world 0) pending_message new_connection watched = (Inr r, cn', sv')"
    by blast
  from reconciliation_validates[OF watched_reachable fits valid type run] run show ?thesis by blast
qed

section \<open>An error without a text\<close>

text \<open>
  A follow-up that failed with an empty error text cannot be asked about.  Such a text is what a
  timeout of the prompt leaves in the row (its exception prints as nothing); the protocol demands a
  non-empty string, so the answer to \<open>send.status\<close> cannot be encoded and the connection is closed
  without a reply, on every request until the task gets its next follow-up.
\<close>

theorem empty_error_text_is_unanswerable:
  assumes "pending_send (str_member ''task_id'' m) s = Some row" and "sd_error row = Some []"
  shows "write_response (plain_reply (handle_send_status m s)) = dropped"
proof -
  let ?reply = "handle_send_status m s"
  have reply: "?reply = JObj [(''v'', JInt 1), (''type'', JStr ''send.status.result''), (''request_id'', JStr (request_id m)),
      (''task_id'', JStr (str_member ''task_id'' m)), (''found'', JBool True), (''state'', JStr (send_word (sd_state row))),
      (''error'', JStr [])]"
    by (simp add: handle_send_status_def Let_def assms reply_json_def nullable_str_def)
  have type: "map_of SCHEMAS ''send.status.result'' = Some ([(''request_id'', ID), (''task_id'', ID), (''found'', BOOL)],
        [(''state'', ENUM SEND_STATES), (''error'', NULLABLE STRING)])"
    by (simp add: SCHEMAS_def)
  have "validate ?reply \<noteq> Inr m'" for m'
  proof
    assume "validate ?reply = Inr m'"
    then obtain t required optional where "member ''type'' ?reply = Some (JStr t)" "map_of SCHEMAS t = Some (required, optional)"
      "conforms required optional ?reply" by (metis validate_Inr)
    with type have "conforms [(''request_id'', ID), (''task_id'', ID), (''found'', BOOL)]
        [(''state'', ENUM SEND_STATES), (''error'', NULLABLE STRING)] ?reply" by (simp add: reply member_def)
    from conforms_optional[OF this, of "''error''" "NULLABLE STRING" "JStr []"] show False
      by (simp add: reply member_def checks is_text_def)
  qed
  then obtain e where "validate ?reply = Inl e" by (cases "validate ?reply") auto
  then have "\<exists>e. encode ?reply = Inl e" by (simp add: encode_def)
  then show ?thesis by (auto simp: write_response_def plain_reply_def dropped_def)
qed

text \<open>An idle pane whose prompt times out.\<close>

definition mute_world :: world where
  "mute_world = (demo_world 0)\<lparr>wd_herdr := Some (demo_link\<lparr>hl_prompt := \<lambda>_ _. Some []\<rparr>)\<rparr>"

lemma empty_error_text_is_unanswerable_witness:
  "\<exists>j t. handle_send_enqueue mute_world enqueue_message empty_store = Inr (j, t)
    \<and> write_response (plain_reply (handle_send_status enqueue_message t)) = dropped"
proof -
  have m: "str_member ''task_id'' enqueue_message = ''t1''" "int_member ''timeout_ms'' enqueue_message = 1"
    "str_member ''payload'' enqueue_message = ''go on''"
    by (simp_all add: enqueue_message_def read_member)
  have "\<exists>j t row. handle_send_enqueue mute_world enqueue_message empty_store = Inr (j, t)
      \<and> pending_send ''t1'' t = Some row \<and> sd_error row = Some []"
    by (simp add: handle_send_enqueue_def mute_world_def demo_world_def demo_link_def m Let_def DELIVERABLE_STATUS_def
        enqueue_eq empty_store_def MAX_INSTANT_def supersede_def claim_deliverable_def claim_pending_send_def
        deliver_def resolve_pending_send_def pending_send_def retire_def clip_error_def update_where_def)
  then obtain j t row where "handle_send_enqueue mute_world enqueue_message empty_store = Inr (j, t)"
    "pending_send (str_member ''task_id'' enqueue_message) t = Some row" "sd_error row = Some []" by (auto simp: m)
  with empty_error_text_is_unanswerable show ?thesis by blast
qed

end
