(* ===== verification/Codec.thy ===== *)
theory Codec
  imports Text
begin

text \<open>
  The byte codecs of the standard library that the attention ledger uses: strict UTF-8, and the
  URL-safe base64 alphabet with the lenient decoder of \<open>binascii\<close> (characters outside the alphabet
  are skipped, parsing stops at a completed padding).  Bytes are numbers below 256.
\<close>

type_synonym bytes = "nat list"

section \<open>UTF-8\<close>

definition is_scalar :: "nat \<Rightarrow> bool" where
  "is_scalar c \<longleftrightarrow> c < 55296 \<or> (57344 \<le> c \<and> c < 1114112)"

definition utf8_char :: "nat \<Rightarrow> bytes" where
  "utf8_char c =
     (if c < 128 then [c]
      else if c < 2048 then [192 + c div 64, 128 + c mod 64]
      else if c < 65536 then [224 + c div 4096, 128 + c div 64 mod 64, 128 + c mod 64]
      else [240 + c div 262144, 128 + c div 4096 mod 64, 128 + c div 64 mod 64, 128 + c mod 64])"

text \<open>\<open>str.encode("utf-8")\<close>; a surrogate raises.\<close>

definition utf8_encode :: "ucs \<Rightarrow> bytes option" where
  "utf8_encode t = (if list_all is_scalar t then Some (concat (map utf8_char t)) else None)"

definition is_cont :: "nat \<Rightarrow> bool" where
  "is_cont b \<longleftrightarrow> 128 \<le> b \<and> b < 192"

text \<open>\<open>bytes.decode("utf-8")\<close>: shortest forms of scalar values only.\<close>

fun utf8_decode :: "bytes \<Rightarrow> ucs option" where
  "utf8_decode [] = Some []"
| "utf8_decode (b # bs) =
     (if b < 128 then map_option (Cons b) (utf8_decode bs)
      else if 194 \<le> b \<and> b < 224 then
        (case bs of
           b1 # r \<Rightarrow> if is_cont b1 then map_option (Cons ((b - 192) * 64 + (b1 - 128))) (utf8_decode r) else None
         | _ \<Rightarrow> None)
      else if 224 \<le> b \<and> b < 240 then
        (case bs of
           b1 # b2 # r \<Rightarrow>
             let c = (b - 224) * 4096 + (b1 - 128) * 64 + (b2 - 128) in
             if is_cont b1 \<and> is_cont b2 \<and> 2048 \<le> c \<and> is_scalar c
             then map_option (Cons c) (utf8_decode r) else None
         | _ \<Rightarrow> None)
      else if 240 \<le> b \<and> b < 245 then
        (case bs of
           b1 # b2 # b3 # r \<Rightarrow>
             let c = (b - 240) * 262144 + (b1 - 128) * 4096 + (b2 - 128) * 64 + (b3 - 128) in
             if is_cont b1 \<and> is_cont b2 \<and> is_cont b3 \<and> 65536 \<le> c \<and> is_scalar c
             then map_option (Cons c) (utf8_decode r) else None
         | _ \<Rightarrow> None)
      else None)"

declare utf8_decode.simps(2) [simp del]

lemma div_parts: "(c::nat) div 4096 * 4096 + c div 64 mod 64 * 64 + c mod 64 = c"
proof -
  have "c div 64 = c div 4096 * 64 + c div 64 mod 64"
    using div_mult_mod_eq[of "c div 64" 64] by (simp add: div_mult2_eq[symmetric])
  then show ?thesis using div_mult_mod_eq[of c 64] by linarith
qed

lemma div_parts4: "(c::nat) div 262144 * 262144 + c div 4096 mod 64 * 4096 + c div 64 mod 64 * 64 + c mod 64 = c"
proof -
  have "c div 4096 = c div 262144 * 64 + c div 4096 mod 64"
    using div_mult_mod_eq[of "c div 4096" 64] by (simp add: div_mult2_eq[symmetric])
  then show ?thesis using div_parts[of c] by linarith
qed

lemma utf8_decode_char:
  assumes "is_scalar c"
  shows "utf8_decode (utf8_char c @ rest) = map_option (Cons c) (utf8_decode rest)"
proof -
  have cont: "is_cont (128 + n mod 64)" for n by (simp add: is_cont_def)
  consider "c < 128" | "128 \<le> c" "c < 2048" | "2048 \<le> c" "c < 65536" | "65536 \<le> c" by linarith
  then show ?thesis
  proof cases
    case 1
    then show ?thesis by (simp add: utf8_char_def utf8_decode.simps(2))
  next
    case 2
    then have lead: "\<not> 192 + c div 64 < 128" "194 \<le> 192 + c div 64" "192 + c div 64 < 224" by linarith+
    have "(192 + c div 64 - 192) * 64 + (128 + c mod 64 - 128) = c" by simp
    with 2 lead cont[of c] show ?thesis by (simp add: utf8_char_def utf8_decode.simps(2))
  next
    case 3
    then have lead: "\<not> 224 + c div 4096 < 128" "\<not> 224 + c div 4096 < 224" "224 \<le> 224 + c div 4096" "224 + c div 4096 < 240"
      by linarith+
    have "(224 + c div 4096 - 224) * 4096 + (128 + c div 64 mod 64 - 128) * 64 + (128 + c mod 64 - 128) = c"
      using div_parts[of c] by simp
    with 3 lead cont[of c] cont[of "c div 64"] assms show ?thesis
      by (simp add: utf8_char_def utf8_decode.simps(2) Let_def)
  next
    case 4
    with assms have "c < 1114112" by (simp add: is_scalar_def)
    then have lead: "\<not> 240 + c div 262144 < 128" "\<not> 240 + c div 262144 < 240" "240 \<le> 240 + c div 262144"
      "240 + c div 262144 < 245" by linarith+
    have "(240 + c div 262144 - 240) * 262144 + (128 + c div 4096 mod 64 - 128) * 4096
        + (128 + c div 64 mod 64 - 128) * 64 + (128 + c mod 64 - 128) = c"
      using div_parts4[of c] by simp
    with 4 lead cont[of c] cont[of "c div 64"] cont[of "c div 4096"] assms show ?thesis
      by (simp add: utf8_char_def utf8_decode.simps(2) Let_def)
  qed
qed

lemma utf8_roundtrip: "utf8_encode t = Some bs \<Longrightarrow> utf8_decode bs = Some t"
proof -
  have "list_all is_scalar t \<Longrightarrow> utf8_decode (concat (map utf8_char t)) = Some t"
    by (induction t) (simp_all add: utf8_decode_char)
  then show "utf8_encode t = Some bs \<Longrightarrow> utf8_decode bs = Some t" by (auto simp: utf8_encode_def split: if_splits)
qed

text \<open>What was decoded can be encoded.\<close>

lemma utf8_decode_step:
  assumes "utf8_decode (b # bs) = Some t"
  shows "\<exists>c r t'. t = c # t' \<and> is_scalar c \<and> utf8_decode r = Some t' \<and> length r < length (b # bs)"
proof -
  consider "b < 128" | "194 \<le> b" "b < 224" | "224 \<le> b" "b < 240" | "240 \<le> b" "b < 245"
    using assms by (fastforce simp: utf8_decode.simps(2) split: if_splits)
  then show ?thesis
  proof cases
    case 1
    with assms show ?thesis by (auto simp: utf8_decode.simps(2) is_scalar_def)
  next
    case 2
    with assms obtain b1 r t' where "bs = b1 # r" "b1 < 192" "utf8_decode r = Some t'"
      "t = ((b - 192) * 64 + (b1 - 128)) # t'"
      by (auto simp: utf8_decode.simps(2) is_cont_def split: list.splits if_splits)
    moreover from this 2 have "is_scalar ((b - 192) * 64 + (b1 - 128))" unfolding is_scalar_def by linarith
    ultimately show ?thesis by auto
  next
    case 3
    with assms obtain c r t' where "t = c # t'" "is_scalar c" "utf8_decode r = Some t'" "length r < length bs"
      by (fastforce simp: utf8_decode.simps(2) Let_def split: list.splits if_splits)
    then show ?thesis by (intro exI conjI) auto
  next
    case 4
    with assms obtain c r t' where "t = c # t'" "is_scalar c" "utf8_decode r = Some t'" "length r < length bs"
      by (fastforce simp: utf8_decode.simps(2) Let_def split: list.splits if_splits)
    then show ?thesis by (intro exI conjI) auto
  qed
qed

lemma utf8_decode_scalar: "utf8_decode bs = Some t \<Longrightarrow> list_all is_scalar t"
proof (induction bs arbitrary: t rule: length_induct)
  case (1 bs)
  show ?case
  proof (cases bs)
    case (Cons b r)
    with 1 utf8_decode_step[of b r t] show ?thesis by auto
  qed (use 1 in simp)
qed

section \<open>Base64\<close>

definition b64_char :: "nat \<Rightarrow> nat" where
  "b64_char v = (if v < 26 then 65 + v else if v < 52 then 71 + v else if v < 62 then v - 4 else if v = 62 then 45 else 95)"

fun b64_encode :: "bytes \<Rightarrow> ucs" where
  "b64_encode [] = []"
| "b64_encode [a] = [b64_char (a div 4), b64_char (a mod 4 * 16), 61, 61]"
| "b64_encode [a, b] = [b64_char (a div 4), b64_char (a mod 4 * 16 + b div 16), b64_char (b mod 16 * 4), 61]"
| "b64_encode (a # b # c # r) = [b64_char (a div 4), b64_char (a mod 4 * 16 + b div 16),
     b64_char (b mod 16 * 4 + c div 64), b64_char (c mod 64)] @ b64_encode r"

definition b64_value :: "nat \<Rightarrow> nat option" where
  "b64_value c = (if 65 \<le> c \<and> c \<le> 90 then Some (c - 65) else if 97 \<le> c \<and> c \<le> 122 then Some (c - 71)
     else if 48 \<le> c \<and> c \<le> 57 then Some (c + 4) else if c = 45 \<or> c = 43 then Some 62
     else if c = 95 \<or> c = 47 then Some 63 else None)"

text \<open>The decoder's loop: the position in the quad, the pads seen, and the bits left over.\<close>

fun b64_run :: "nat \<Rightarrow> nat \<Rightarrow> nat \<Rightarrow> ucs \<Rightarrow> bytes option" where
  "b64_run quad pads left [] = (if quad = 0 then Some [] else None)"
| "b64_run quad pads left (c # cs) =
     (if c = 61 then
        (if quad \<ge> 2 then (if quad + pads + 1 \<ge> 4 then Some [] else b64_run quad (pads + 1) left cs)
         else b64_run quad pads left cs)
      else case b64_value c of
        None \<Rightarrow> b64_run quad pads left cs
      | Some v \<Rightarrow>
          if quad = 0 then b64_run 1 0 v cs
          else if quad = 1 then map_option (Cons (left * 4 + v div 16)) (b64_run 2 0 (v mod 16) cs)
          else if quad = 2 then map_option (Cons (left * 16 + v div 4)) (b64_run 3 0 (v mod 4) cs)
          else map_option (Cons (left * 64 + v)) (b64_run 0 0 0 cs))"

definition b64_decode :: "ucs \<Rightarrow> bytes option" where
  "b64_decode t = (if list_all (\<lambda>c. c < 128) t then b64_run 0 0 0 t else None)"

lemma b64_char_facts:
  assumes "v < 64"
  shows "b64_value (b64_char v) = Some v" "b64_char v \<noteq> 61" "b64_char v < 128"
  using assms by (auto simp: b64_char_def b64_value_def)

lemma b64_run_encode: "list_all (\<lambda>b. b < 256) bs \<Longrightarrow> b64_run 0 0 0 (b64_encode bs) = Some bs"
proof (induction bs rule: b64_encode.induct)
  case (2 a)
  then have "a div 4 < 64" "a mod 4 * 16 < 64" by auto
  then show ?case by (simp add: b64_char_facts)
next
  case (3 a b)
  then have "a div 4 < 64" "a mod 4 * 16 + b div 16 < 64" "b mod 16 * 4 < 64"
    "(a mod 4 * 16 + b div 16) div 16 = a mod 4" "(a mod 4 * 16 + b div 16) mod 16 = b div 16" by auto
  then show ?case by (simp add: b64_char_facts)
next
  case (4 a b c r)
  then have "a div 4 < 64" "a mod 4 * 16 + b div 16 < 64" "b mod 16 * 4 + c div 64 < 64" "c mod 64 < 64"
    "(a mod 4 * 16 + b div 16) div 16 = a mod 4" "(a mod 4 * 16 + b div 16) mod 16 = b div 16"
    "(b mod 16 * 4 + c div 64) div 4 = b mod 16" "(b mod 16 * 4 + c div 64) mod 4 = c div 64" by auto
  with 4 show ?case by (simp add: b64_char_facts)
qed simp

lemma b64_encode_ascii: "list_all (\<lambda>b. b < 256) bs \<Longrightarrow> list_all (\<lambda>c. c < 128) (b64_encode bs)"
proof (induction bs rule: b64_encode.induct)
  case (2 a)
  then have "a div 4 < 64" "a mod 4 * 16 < 64" by auto
  then show ?case by (simp add: b64_char_facts)
next
  case (3 a b)
  then have "a div 4 < 64" "a mod 4 * 16 + b div 16 < 64" "b mod 16 * 4 < 64" by auto
  then show ?case by (simp add: b64_char_facts)
next
  case (4 a b c r)
  then have "a div 4 < 64" "a mod 4 * 16 + b div 16 < 64" "b mod 16 * 4 + c div 64 < 64" "c mod 64 < 64" by auto
  with 4 show ?case by (simp add: b64_char_facts)
qed simp

lemma b64_roundtrip: "list_all (\<lambda>b. b < 256) bs \<Longrightarrow> b64_decode (b64_encode bs) = Some bs"
  by (simp add: b64_decode_def b64_encode_ascii b64_run_encode)

lemma utf8_char_bytes: "is_scalar c \<Longrightarrow> list_all (\<lambda>b. b < 256) (utf8_char c)"
proof -
  assume "is_scalar c"
  then have "c < 1114112" by (auto simp: is_scalar_def)
  then have "c div 262144 < 16" by linarith
  moreover have "c < 2048 \<Longrightarrow> c div 64 < 64" "c < 65536 \<Longrightarrow> c div 4096 < 32" by linarith+
  moreover have "n mod 64 < 128" for n :: nat using mod_less_divisor[of 64 n] by linarith
  ultimately show ?thesis by (simp add: utf8_char_def)
qed

lemma utf8_bytes: "utf8_encode t = Some bs \<Longrightarrow> list_all (\<lambda>b. b < 256) bs"
proof -
  have "list_all is_scalar t \<Longrightarrow> list_all (\<lambda>b. b < 256) (concat (map utf8_char t))"
    using utf8_char_bytes by (induction t) auto
  then show "utf8_encode t = Some bs \<Longrightarrow> list_all (\<lambda>b. b < 256) bs" by (auto simp: utf8_encode_def split: if_splits)
qed

end
