(* ===== verification/Ledger_Item.thy ===== *)
theory Ledger_Item
  imports Codec "HOL-Library.List_Lexorder"
begin

text \<open>
  \<open>watchtower-attention-ledger/scripts/ledger.py\<close>, first part: one attention item as a file.  A file
  is its bytes; parsing and serialising are modelled down to them.  A violation of the file format
  is a value of \<open>malformed\<close>, one constructor per message of the code.
\<close>

section \<open>Text helpers\<close>

text \<open>\<open>str.split(c)\<close> and \<open>sep.join(parts)\<close>.\<close>

fun split_on :: "nat \<Rightarrow> ucs \<Rightarrow> ucs list" where
  "split_on c [] = [[]]"
| "split_on c (x # xs) = (if x = c then [] # split_on c xs
     else case split_on c xs of l # ls \<Rightarrow> (x # l) # ls | [] \<Rightarrow> [[x]])"

fun join_with :: "ucs \<Rightarrow> ucs list \<Rightarrow> ucs" where
  "join_with sep [] = []"
| "join_with sep [l] = l"
| "join_with sep (l # m # ls) = l @ sep @ join_with sep (m # ls)"

definition blank :: "ucs \<Rightarrow> bool" where
  "blank l \<longleftrightarrow> strip l = []"

text \<open>\<open>str.split()\<close>: the maximal runs of characters that are no whitespace.\<close>

fun words_from :: "ucs \<Rightarrow> ucs \<Rightarrow> ucs list" where
  "words_from cur [] = (if cur = [] then [] else [cur])"
| "words_from cur (c # cs) =
     (if is_space c then (if cur = [] then words_from [] cs else cur # words_from [] cs)
      else words_from (cur @ [c]) cs)"

definition sanitize_line :: "ucs \<Rightarrow> ucs" where
  "sanitize_line t = join_with [32] (words_from [] (map (\<lambda>c. if c = 13 \<or> c = 10 then 32 else c) t))"

definition outer_trimmed :: "ucs list \<Rightarrow> ucs list" where
  "outer_trimmed ls = rev (dropWhile blank (rev (dropWhile blank ls)))"

definition strip_outer_blanks :: "ucs list \<Rightarrow> ucs" where
  "strip_outer_blanks ls = join_with [10] (outer_trimmed ls)"

section \<open>Vocabulary\<close>

definition SCHEMA :: ucs where "SCHEMA = u ''rozoro.watchtower-attention-ledger/v1''"

definition safe_char :: "nat \<Rightarrow> bool" where
  "safe_char c \<longleftrightarrow> is_letter c \<or> is_digit c \<or> c = 46 \<or> c = 95 \<or> c = 45"

definition safe_token :: "ucs \<Rightarrow> bool" where
  "safe_token t \<longleftrightarrow> t \<noteq> [] \<and> length t \<le> 120 \<and> list_all safe_char t"

text \<open>\<open>\d\<close> of \<open>re\<close> on text: the decimal digits of every script, ten to a block (Unicode 14).\<close>

definition DECIMAL_BLOCKS :: "nat list" where
  "DECIMAL_BLOCKS = [48, 1632, 1776, 1984, 2406, 2534, 2662, 2790, 2918, 3046, 3174, 3302, 3430, 3558, 3664,
     3792, 3872, 4160, 4240, 6112, 6160, 6470, 6608, 6784, 6800, 6992, 7088, 7232, 7248, 42528, 43216, 43264,
     43472, 43504, 43600, 44016, 65296, 66720, 68912, 69734, 69872, 69942, 70096, 70384, 70736, 70864, 71248,
     71360, 71472, 71904, 72016, 72784, 73040, 73120, 92768, 92864, 93008, 120782, 120792, 120802, 120812,
     120822, 123200, 123632, 125264, 130032]"

definition is_decimal :: "nat \<Rightarrow> bool" where
  "is_decimal c \<longleftrightarrow> list_ex (\<lambda>s. s \<le> c \<and> c < s + 10) DECIMAL_BLOCKS"

definition is_timestamp :: "ucs \<Rightarrow> bool" where
  "is_timestamp t \<longleftrightarrow> length t = 20 \<and> list_all (\<lambda>(i, c).
     if i = 4 \<or> i = 7 then c = 45 else if i = 10 then c = 84 else if i = 13 \<or> i = 16 then c = 58
     else if i = 19 then c = 90 else is_decimal c) (enumerate 0 t)"

definition is_generation :: "ucs \<Rightarrow> bool" where
  "is_generation t \<longleftrightarrow> t \<noteq> [] \<and> length t \<le> 18 \<and> list_all is_decimal t"

definition LEDGER_REASONS :: "ucs list" where
  "LEDGER_REASONS = map u [''needs-action'', ''failed'', ''blocked'', ''quiescent'', ''missing-report'',
     ''malformed-report'', ''gone'', ''waiting-background'', ''no-mistakes'', ''operator'', ''other'']"

definition LEDGER_PRIORITIES :: "ucs list" where "LEDGER_PRIORITIES = map u [''urgent'', ''normal'']"

definition STATUSES :: "ucs list" where
  "STATUSES = map u [''open'', ''handled'', ''deferred'', ''superseded'']"

definition SOURCES :: "ucs list" where
  "SOURCES = map u [''reconcile'', ''status'', ''operator'', ''manual'']"

definition FRONTMATTER_ORDER :: "ucs list" where
  "FRONTMATTER_ORDER = map u [''schema'', ''id'', ''task'', ''reason'', ''priority'', ''status'', ''created_utc'',
     ''updated_utc'', ''generation'', ''source'', ''superseded_by'', ''resume_when'', ''tags'']"

datatype body_section = SnapshotSection | LogSection | ContextSection

definition section_named :: "ucs \<Rightarrow> body_section option" where
  "section_named t = (if t = u ''Snapshot'' then Some SnapshotSection
     else if t = u ''Handling log'' then Some LogSection
     else if t = u ''Context'' then Some ContextSection else None)"

section \<open>Items\<close>

datatype malformed =
    NotUtf8 | NoOpening | NoClosing
  | BadLine ucs | DuplicateKey ucs | MissingKeys "ucs list" | ExtraKeys "ucs list" | BadSchema
  | Unsafe ucs ucs | StemMismatch ucs ucs | Unrecognized ucs ucs | BadTimestamp ucs ucs
  | BadGeneration ucs | BadSupersededBy ucs | TagsNotAList | BadTag ucs
  | NoTitle | EmptyTitle | UnknownSection ucs | EarlyContent

type_synonym 'a parsed = "malformed + 'a"

record frontmatter =
  fm_schema :: ucs
  fm_id :: ucs
  fm_task :: ucs
  fm_reason :: ucs
  fm_priority :: ucs
  fm_status :: ucs
  fm_created :: ucs
  fm_updated :: ucs
  fm_generation :: ucs
  fm_source :: ucs
  fm_superseded_by :: ucs
  fm_resume_when :: ucs
  fm_tags :: "ucs list"

record item_header =
  ih_fm :: frontmatter
  ih_summary :: ucs

record item =
  it_fm :: frontmatter
  it_summary :: ucs
  it_snapshot :: ucs
  it_log :: "ucs list"
  it_context :: ucs

section \<open>Parsing\<close>

definition split_frontmatter :: "bytes \<Rightarrow> (ucs list \<times> ucs list) parsed" where
  "split_frontmatter raw = (case utf8_decode raw of
       None \<Rightarrow> Inl NotUtf8
     | Some t \<Rightarrow> (case split_on 10 t of
           [] \<Rightarrow> Inl NoOpening
         | first # rest \<Rightarrow>
             if first \<noteq> u ''---'' then Inl NoOpening
             else let head = takeWhile (\<lambda>l. l \<noteq> u ''---'') rest in
               if length head = length rest then Inl NoClosing
               else Inr (head, drop (length head + 1) rest)))"

fun parse_tag_list :: "ucs list \<Rightarrow> ucs list parsed" where
  "parse_tag_list [] = Inr []"
| "parse_tag_list (t # ts) =
     (if \<not> safe_token (strip t) then Inl (BadTag (strip t))
      else and_then (parse_tag_list ts) (\<lambda>rest. Inr (strip t # rest)))"

definition parse_tags :: "ucs \<Rightarrow> ucs list parsed" where
  "parse_tags v =
     (if \<not> (v \<noteq> [] \<and> hd v = 91 \<and> last v = 93) then Inl TagsNotAList
      else let inner = strip (butlast (tl v)) in
        if inner = [] then Inr [] else parse_tag_list (split_on 44 inner))"

definition key_char :: "nat \<Rightarrow> bool" where
  "key_char c \<longleftrightarrow> (97 \<le> c \<and> c \<le> 122) \<or> c = 95"

definition key_value :: "ucs \<Rightarrow> (ucs \<times> ucs) option" where
  "key_value l = (let k = takeWhile key_char l; rest = dropWhile key_char l in
     if k \<noteq> [] \<and> take 2 rest = [58, 32] then Some (k, drop 2 rest) else None)"

fun collect_lines :: "(ucs \<times> ucs) list \<Rightarrow> ucs list \<Rightarrow> (ucs \<times> ucs) list parsed" where
  "collect_lines seen [] = Inr seen"
| "collect_lines seen (l # ls) = (case key_value l of
       None \<Rightarrow> Inl (BadLine l)
     | Some (k, v) \<Rightarrow> if k \<in> set (keys seen) then Inl (DuplicateKey k) else collect_lines (seen @ [(k, v)]) ls)"

definition entry :: "(ucs \<times> ucs) list \<Rightarrow> string \<Rightarrow> ucs" where
  "entry fm k = (case map_of fm (u k) of Some v \<Rightarrow> v | None \<Rightarrow> [])"

definition check_frontmatter :: "(string \<Rightarrow> ucs) \<Rightarrow> ucs option \<Rightarrow> unit parsed" where
  "check_frontmatter g stem =
     (if g ''schema'' \<noteq> SCHEMA then Inl BadSchema
      else if \<not> safe_token (g ''id'') then Inl (Unsafe (u ''id'') (g ''id''))
      else if \<not> safe_token (g ''task'') then Inl (Unsafe (u ''task'') (g ''task''))
      else if stem \<noteq> None \<and> stem \<noteq> Some (g ''id'') then Inl (StemMismatch (the stem) (g ''id''))
      else if g ''reason'' \<notin> set LEDGER_REASONS then Inl (Unrecognized (u ''reason'') (g ''reason''))
      else if g ''priority'' \<notin> set LEDGER_PRIORITIES then Inl (Unrecognized (u ''priority'') (g ''priority''))
      else if g ''status'' \<notin> set STATUSES then Inl (Unrecognized (u ''status'') (g ''status''))
      else if \<not> is_timestamp (g ''created_utc'') then Inl (BadTimestamp (u ''created_utc'') (g ''created_utc''))
      else if \<not> is_timestamp (g ''updated_utc'') then Inl (BadTimestamp (u ''updated_utc'') (g ''updated_utc''))
      else if g ''generation'' \<noteq> u ''none'' \<and> \<not> is_generation (g ''generation'')
      then Inl (BadGeneration (g ''generation''))
      else if g ''source'' \<notin> set SOURCES then Inl (Unrecognized (u ''source'') (g ''source''))
      else if g ''superseded_by'' \<noteq> u ''none'' \<and> \<not> safe_token (g ''superseded_by'')
      then Inl (BadSupersededBy (g ''superseded_by''))
      else Inr ())"

definition parse_frontmatter :: "ucs list \<Rightarrow> ucs option \<Rightarrow> frontmatter parsed" where
  "parse_frontmatter fm_lines stem =
     and_then (collect_lines [] fm_lines) (\<lambda>fm.
     let missing = sort (filter (\<lambda>k. k \<notin> set (keys fm)) FRONTMATTER_ORDER);
         extra = sort (filter (\<lambda>k. k \<notin> set FRONTMATTER_ORDER) (keys fm));
         g = entry fm
     in if missing \<noteq> [] then Inl (MissingKeys missing)
        else if extra \<noteq> [] then Inl (ExtraKeys extra)
        else and_then (check_frontmatter g stem) (\<lambda>_.
          and_then (parse_tags (g ''tags'')) (\<lambda>tags.
            Inr \<lparr>fm_schema = g ''schema'', fm_id = g ''id'', fm_task = g ''task'', fm_reason = g ''reason'',
              fm_priority = g ''priority'', fm_status = g ''status'', fm_created = g ''created_utc'',
              fm_updated = g ''updated_utc'', fm_generation = g ''generation'', fm_source = g ''source'',
              fm_superseded_by = g ''superseded_by'', fm_resume_when = g ''resume_when'', fm_tags = tags\<rparr>)))"

definition parse_title :: "ucs list \<Rightarrow> (ucs \<times> ucs list) parsed" where
  "parse_title body = (case dropWhile blank body of
       [] \<Rightarrow> Inl NoTitle
     | l # rest \<Rightarrow>
         if take 2 l \<noteq> u ''# '' then Inl NoTitle
         else if strip (drop 2 l) = [] then Inl EmptyTitle else Inr (strip (drop 2 l), rest))"

definition header_name :: "ucs \<Rightarrow> ucs option" where
  "header_name l = (if take 3 l = u ''## '' \<and> length l > 3 then Some (strip (drop 3 l)) else None)"

fun fill_sections :: "body_section option \<Rightarrow> (body_section \<Rightarrow> ucs list) \<Rightarrow> ucs list \<Rightarrow> (body_section \<Rightarrow> ucs list) parsed" where
  "fill_sections cur buckets [] = Inr buckets"
| "fill_sections cur buckets (l # ls) = (case header_name l of
       Some name \<Rightarrow> (case section_named name of
           None \<Rightarrow> Inl (UnknownSection name)
         | Some sec \<Rightarrow> fill_sections (Some sec) buckets ls)
     | None \<Rightarrow> (case cur of
           None \<Rightarrow> if blank l then fill_sections cur buckets ls else Inl EarlyContent
         | Some sec \<Rightarrow> fill_sections cur (buckets(sec := buckets sec @ [l])) ls))"

definition parse_sections :: "ucs list \<Rightarrow> (ucs \<times> ucs list \<times> ucs) parsed" where
  "parse_sections rest = and_then (fill_sections None (\<lambda>_. []) rest) (\<lambda>buckets.
     Inr (strip_outer_blanks (buckets SnapshotSection),
          filter (\<lambda>l. \<not> blank l) (buckets LogSection),
          strip_outer_blanks (buckets ContextSection)))"

definition parse_header :: "bytes \<Rightarrow> ucs option \<Rightarrow> item_header parsed" where
  "parse_header raw stem = and_then (split_frontmatter raw) (\<lambda>(fm_lines, body).
     and_then (parse_frontmatter fm_lines stem) (\<lambda>fm.
     and_then (parse_title body) (\<lambda>(summary, _). Inr \<lparr>ih_fm = fm, ih_summary = summary\<rparr>)))"

definition parse_full :: "bytes \<Rightarrow> ucs option \<Rightarrow> item parsed" where
  "parse_full raw stem = and_then (split_frontmatter raw) (\<lambda>(fm_lines, body).
     and_then (parse_frontmatter fm_lines stem) (\<lambda>fm.
     and_then (parse_title body) (\<lambda>(summary, rest).
     and_then (parse_sections rest) (\<lambda>(snapshot, handling, context).
       Inr \<lparr>it_fm = fm, it_summary = summary, it_snapshot = snapshot, it_log = handling, it_context = context\<rparr>))))"

section \<open>Serialising\<close>

definition fm_line :: "string \<Rightarrow> ucs \<Rightarrow> ucs" where
  "fm_line k v = u k @ u '': '' @ v"

definition fm_lines_of :: "frontmatter \<Rightarrow> ucs list" where
  "fm_lines_of fm = [fm_line ''schema'' (fm_schema fm), fm_line ''id'' (fm_id fm), fm_line ''task'' (fm_task fm),
     fm_line ''reason'' (fm_reason fm), fm_line ''priority'' (fm_priority fm), fm_line ''status'' (fm_status fm),
     fm_line ''created_utc'' (fm_created fm), fm_line ''updated_utc'' (fm_updated fm),
     fm_line ''generation'' (fm_generation fm), fm_line ''source'' (fm_source fm),
     fm_line ''superseded_by'' (fm_superseded_by fm), fm_line ''resume_when'' (fm_resume_when fm),
     fm_line ''tags'' (u ''['' @ join_with (u '', '') (fm_tags fm) @ u '']'')]"

definition item_lines :: "item \<Rightarrow> ucs list" where
  "item_lines it = [u ''---''] @ fm_lines_of (it_fm it) @ [u ''---'', u ''# '' @ it_summary it, [],
     u ''## Snapshot'', [], it_snapshot it, [], u ''## Handling log'', []] @ it_log it
     @ [[], u ''## Context'', [], it_context it, []]"

text \<open>Encoding raises when a character is a surrogate.\<close>

definition serialize_item :: "item \<Rightarrow> bytes option" where
  "serialize_item it = utf8_encode (join_with [10] (item_lines it) @ [10])"

section \<open>Times\<close>

text \<open>A moment in UTC, to the second: all the ledger prints of it.\<close>

record instant =
  at_year :: nat
  at_month :: nat
  at_day :: nat
  at_hour :: nat
  at_minute :: nat
  at_second :: nat

fun decimal :: "nat \<Rightarrow> ucs" where
  "decimal n = (if n < 10 then [48 + n] else decimal (n div 10) @ [48 + n mod 10])"

declare decimal.simps [simp del]

definition two_digits :: "nat \<Rightarrow> ucs" where
  "two_digits n = [48 + n div 10, 48 + n mod 10]"

definition stamp_seconds :: "instant \<Rightarrow> ucs" where
  "stamp_seconds now = decimal (at_year now) @ u ''-'' @ two_digits (at_month now) @ u ''-'' @ two_digits (at_day now)
     @ u ''T'' @ two_digits (at_hour now) @ u '':'' @ two_digits (at_minute now) @ u '':''
     @ two_digits (at_second now) @ u ''Z''"

definition stamp_compact :: "instant \<Rightarrow> ucs" where
  "stamp_compact now = decimal (at_year now) @ two_digits (at_month now) @ two_digits (at_day now)
     @ u ''T'' @ two_digits (at_hour now) @ two_digits (at_minute now) @ two_digits (at_second now)"

definition log_line :: "instant \<Rightarrow> ucs \<Rightarrow> ucs \<Rightarrow> ucs \<Rightarrow> ucs" where
  "log_line now old new note =
     u ''- '' @ stamp_seconds now @ u '' '' @ old @ u ''->'' @ new @ u '': '' @ sanitize_line note"

end
