(* ===== verification/Ledger.thy ===== *)
theory Ledger
  imports Ledger_Item "HOL-Library.Product_Lexorder"
begin

text \<open>
  \<open>watchtower-attention-ledger/scripts/ledger.py\<close>, second part: the directory of items and the
  commands.  The directory is an association list from file names to files; its location, its lock
  and its permissions are not modelled (one command runs at a time, which the lock is for), nor is
  the parsing of the command line: a command gets its options as a record.  A command returns its
  result or error together with the directory it leaves.
\<close>

section \<open>The directory\<close>

datatype stored = Regular bytes | Irregular

type_synonym items_dir = "(ucs \<times> stored) list"

datatype cmd_error = Exit string | IndexError | EncodeError

type_synonym 'a outcome = "(cmd_error + 'a) \<times> items_dir"

definition is_md :: "ucs \<Rightarrow> bool" where
  "is_md name \<longleftrightarrow> suffix (u ''.md'') name"

definition stem_of :: "ucs \<Rightarrow> ucs" where
  "stem_of name = take (length name - 3) name"

definition md_name :: "ucs \<Rightarrow> ucs" where
  "md_name item_id = item_id @ u ''.md''"

datatype bad_file = UnsafeFile | NotMd | MalformedFile malformed

text \<open>The items in the order of their names, with the file's name, and the files that are none.\<close>

fun load_names :: "(bytes \<Rightarrow> ucs option \<Rightarrow> 'a parsed) \<Rightarrow> items_dir \<Rightarrow> ucs list
    \<Rightarrow> ('a \<times> ucs) list \<times> (ucs \<times> bad_file) list" where
  "load_names parser dir [] = ([], [])"
| "load_names parser dir (name # names) =
     (case load_names parser dir names of (records, bad) \<Rightarrow>
       (case map_of dir name of
          Some (Regular raw) \<Rightarrow>
            if \<not> is_md name then (records, (name, NotMd) # bad)
            else (case parser raw (Some (stem_of name)) of
                Inr x \<Rightarrow> ((x, name) # records, bad)
              | Inl e \<Rightarrow> (records, (name, MalformedFile e) # bad))
        | _ \<Rightarrow> (records, (name, UnsafeFile) # bad)))"

definition load_items :: "items_dir \<Rightarrow> (bytes \<Rightarrow> ucs option \<Rightarrow> 'a parsed)
    \<Rightarrow> ('a \<times> ucs) list \<times> (ucs \<times> bad_file) list" where
  "load_items dir parser = load_names parser dir (sort (keys dir))"

section \<open>Adding\<close>

text \<open>The snapshot comes from a file, or from the standard input.\<close>

definition read_snapshot :: "bytes option \<Rightarrow> ucs option \<Rightarrow> bytes \<Rightarrow> cmd_error + ucs" where
  "read_snapshot snapshot_file snapshot stdin =
     (let text_of_bytes = (\<lambda>data. case utf8_decode data of
            None \<Rightarrow> Inl (Exit ''snapshot input is not valid UTF-8'')
          | Some t \<Rightarrow> Inr (strip_outer_blanks (split_on 10 t)))
      in if snapshot_file \<noteq> None \<and> snapshot \<noteq> None
         then Inl (Exit ''use only one of --snapshot-file or --snapshot'')
         else case snapshot of
           Some t \<Rightarrow> if t = u ''-'' then text_of_bytes stdin else Inl (Exit ''--snapshot only accepts '-' '')
         | None \<Rightarrow> (case snapshot_file of Some data \<Rightarrow> text_of_bytes data | None \<Rightarrow> Inr []))"

fun collect_tokens :: "ucs list \<Rightarrow> ucs list \<Rightarrow> cmd_error + ucs list" where
  "collect_tokens tags [] = Inr tags"
| "collect_tokens tags (token # tokens) =
     (let t = strip token in
      if t = [] then collect_tokens tags tokens
      else if \<not> safe_token t then Inl (Exit ''tag not in the safe character class'')
      else collect_tokens (if t \<in> set tags then tags else tags @ [t]) tokens)"

definition collect_tags :: "ucs list \<Rightarrow> cmd_error + ucs list" where
  "collect_tags raw = collect_tokens [] (concat (map (split_on 44) raw))"

definition superseded_item :: "ucs \<Rightarrow> instant \<Rightarrow> item \<Rightarrow> item" where
  "superseded_item new_id now it =
     it\<lparr>it_fm := (it_fm it)\<lparr>fm_status := u ''superseded'', fm_superseded_by := new_id,
          fm_updated := stamp_seconds now\<rparr>,
        it_log := it_log it @ [log_line now (u ''superseded'') (u ''superseded'') (u ''superseded by '' @ new_id)]\<rparr>"

text \<open>What the loop sees under a name: an item it may supersede.\<close>

definition superseding :: "ucs \<Rightarrow> ucs \<Rightarrow> items_dir \<Rightarrow> ucs \<Rightarrow> item option" where
  "superseding task reason dir name = (case map_of dir name of
       Some (Regular raw) \<Rightarrow>
         if \<not> is_md name then None
         else (case parse_full raw (Some (stem_of name)) of
             Inl _ \<Rightarrow> None
           | Inr it \<Rightarrow>
               if fm_task (it_fm it) = task \<and> fm_reason (it_fm it) = reason
                  \<and> fm_status (it_fm it) \<in> {u ''open'', u ''deferred''}
               then Some it else None)
     | _ \<Rightarrow> None)"

definition atomic_write :: "ucs \<Rightarrow> bytes \<Rightarrow> items_dir \<Rightarrow> items_dir" where
  "atomic_write name data dir = AList.update name (Regular data) dir"

fun supersede_names :: "ucs \<Rightarrow> ucs \<Rightarrow> ucs \<Rightarrow> instant \<Rightarrow> ucs list \<Rightarrow> ucs list \<Rightarrow> items_dir \<Rightarrow> ucs list outcome" where
  "supersede_names task reason new_id now gone [] dir = (Inr gone, dir)"
| "supersede_names task reason new_id now gone (name # names) dir =
     (case superseding task reason dir name of
        None \<Rightarrow> supersede_names task reason new_id now gone names dir
      | Some it \<Rightarrow> (case serialize_item (superseded_item new_id now it) of
            None \<Rightarrow> (Inl EncodeError, dir)
          | Some data \<Rightarrow> supersede_names task reason new_id now (gone @ [fm_id (it_fm it)]) names
              (atomic_write name data dir)))"

definition supersede_matches :: "ucs \<Rightarrow> ucs \<Rightarrow> ucs \<Rightarrow> instant \<Rightarrow> items_dir \<Rightarrow> ucs list outcome" where
  "supersede_matches task reason new_id now dir = supersede_names task reason new_id now [] (sort (keys dir)) dir"

record add_args =
  ad_now :: instant
  ad_task :: ucs
  ad_reason :: ucs
  ad_summary :: ucs
  ad_priority :: ucs
  ad_generation :: "int option"
  ad_source :: ucs
  ad_snapshot_file :: "bytes option"
  ad_snapshot :: "ucs option"
  ad_stdin :: bytes
  ad_tags :: "ucs list"
  ad_no_supersede :: bool
  ad_nonce :: "ucs option"

definition hex_nonce :: "ucs \<Rightarrow> bool" where
  "hex_nonce t \<longleftrightarrow> t \<noteq> [] \<and> length t \<le> 16 \<and> list_all (\<lambda>c. is_digit c \<or> (97 \<le> c \<and> c \<le> 102)) t"

definition signed_decimal :: "int \<Rightarrow> ucs" where
  "signed_decimal n = (if n < 0 then u ''-'' @ decimal (nat (- n)) else decimal (nat n))"

text \<open>The item that \<open>add\<close> writes.  \<open>fresh\<close> is the random nonce, used when none was given.\<close>

definition new_item :: "ucs \<Rightarrow> add_args \<Rightarrow> cmd_error + item" where
  "new_item fresh a =
     (let now = ad_now a; task = ad_task a in
      if \<not> safe_token task then Inl (Exit ''--task not in the safe character class'')
      else if ad_reason a \<notin> set LEDGER_REASONS then Inl (Exit ''--reason not recognized'')
      else if ad_source a \<notin> set SOURCES then Inl (Exit ''--source not recognized'')
      else if sanitize_line (ad_summary a) = [] then Inl (Exit ''--summary must not be empty'')
      else if (case ad_generation a of Some g \<Rightarrow> g < 0 | None \<Rightarrow> False)
      then Inl (Exit ''--generation must be non-negative'')
      else
        and_then (read_snapshot (ad_snapshot_file a) (ad_snapshot a) (ad_stdin a)) (\<lambda>snapshot.
        and_then (collect_tags (ad_tags a)) (\<lambda>tags.
        let nonce = (case ad_nonce a of Some n \<Rightarrow> (if n = [] then fresh else n) | None \<Rightarrow> fresh);
            item_id = stamp_compact now @ u ''-'' @ task @ u ''-'' @ nonce
        in if \<not> hex_nonce nonce then Inl (Exit ''--nonce must be lowercase hex'')
           else if \<not> safe_token item_id then Inl (Exit ''derived item id is not a safe token'')
           else Inr \<lparr>it_fm = \<lparr>fm_schema = SCHEMA, fm_id = item_id, fm_task = task, fm_reason = ad_reason a,
                  fm_priority = ad_priority a, fm_status = u ''open'', fm_created = stamp_seconds now,
                  fm_updated = stamp_seconds now,
                  fm_generation = (case ad_generation a of None \<Rightarrow> u ''none'' | Some g \<Rightarrow> signed_decimal g),
                  fm_source = ad_source a, fm_superseded_by = u ''none'', fm_resume_when = u ''none'',
                  fm_tags = tags\<rparr>,
                it_summary = sanitize_line (ad_summary a), it_snapshot = snapshot,
                it_log = [log_line now (u ''new'') (u ''open'') (u ''created via '' @ ad_source a)],
                it_context = []\<rparr>)))"

text \<open>The new file is created exclusively, after the older items were rewritten.\<close>

definition write_new :: "item \<Rightarrow> items_dir \<Rightarrow> unit outcome" where
  "write_new it dir = (let name = md_name (fm_id (it_fm it)) in
     case serialize_item it of
       None \<Rightarrow> (Inl EncodeError, dir)
     | Some data \<Rightarrow>
         if name \<in> set (keys dir) then (Inl (Exit ''item id already exists''), dir)
         else (Inr (), dir @ [(name, Regular data)]))"

definition cmd_add :: "ucs \<Rightarrow> add_args \<Rightarrow> items_dir \<Rightarrow> (ucs \<times> ucs list) outcome" where
  "cmd_add fresh a dir = (case new_item fresh a of
       Inl e \<Rightarrow> (Inl e, dir)
     | Inr it \<Rightarrow>
         let item_id = fm_id (it_fm it) in
         (case (if ad_no_supersede a then (Inr [], dir)
                else supersede_matches (ad_task a) (ad_reason a) item_id (ad_now a) dir) of
            (Inl e, dir1) \<Rightarrow> (Inl e, dir1)
          | (Inr gone, dir1) \<Rightarrow> (case write_new it dir1 of
                (Inl e, dir2) \<Rightarrow> (Inl e, dir2)
              | (Inr _, dir2) \<Rightarrow> (Inr (item_id, gone), dir2))))"

section \<open>Updating\<close>

record update_args =
  up_now :: instant
  up_id :: ucs
  up_note :: ucs
  up_status :: "ucs option"
  up_resume_when :: "ucs option"
  up_priority :: "ucs option"
  up_tags :: "ucs list"

definition NONE_TOKENS :: "ucs list" where
  "NONE_TOKENS = [[], u ''none'']"

text \<open>The item after the update, with its old and its new status.\<close>

definition updated_item :: "update_args \<Rightarrow> item \<Rightarrow> cmd_error + item \<times> ucs \<times> ucs" where
  "updated_item a it =
     (let old = fm_status (it_fm it);
          new = (case up_status a of Some s \<Rightarrow> s | None \<Rightarrow> old);
          given = (case up_resume_when a of
              Some w \<Rightarrow> (if sanitize_line w = [] then u ''none'' else sanitize_line w)
            | None \<Rightarrow> fm_resume_when (it_fm it))
      in if new = u ''deferred'' \<and> given \<in> set NONE_TOKENS
         then Inl (Exit ''--status deferred requires --resume-when'')
         else
           and_then (collect_tags (up_tags a)) (\<lambda>tags.
           let fm = it_fm it;
               resume = (if new \<noteq> u ''deferred'' \<and> up_resume_when a = None then u ''none'' else given)
           in Inr (it\<lparr>it_fm := fm\<lparr>
                fm_priority := (case up_priority a of Some p \<Rightarrow> p | None \<Rightarrow> fm_priority fm),
                fm_tags := fm_tags fm @ filter (\<lambda>t. t \<notin> set (fm_tags fm)) tags,
                fm_status := new, fm_resume_when := resume, fm_updated := stamp_seconds (up_now a)\<rparr>,
              it_log := it_log it @ [log_line (up_now a) old new (sanitize_line (up_note a))]\<rparr>, old, new)))"

definition cmd_update :: "update_args \<Rightarrow> items_dir \<Rightarrow> (ucs \<times> ucs) outcome" where
  "cmd_update a dir =
     (if sanitize_line (up_note a) = [] then (Inl (Exit ''--note must not be empty''), dir)
      else if (case up_status a of Some s \<Rightarrow> s \<notin> {u ''open'', u ''handled'', u ''deferred''} | None \<Rightarrow> False)
      then (Inl (Exit ''--status not settable''), dir)
      else case map_of dir (md_name (up_id a)) of
        None \<Rightarrow> (Inl (Exit ''no such item''), dir)
      | Some Irregular \<Rightarrow> (Inl (Exit ''item is unsafe or unreadable''), dir)
      | Some (Regular raw) \<Rightarrow> (case parse_full raw (Some (up_id a)) of
            Inl _ \<Rightarrow> (Inl (Exit ''refusing to update a malformed item''), dir)
          | Inr it \<Rightarrow>
              if fm_status (it_fm it) = u ''superseded'' then (Inl (Exit ''item is superseded''), dir)
              else (case updated_item a it of
                  Inl e \<Rightarrow> (Inl e, dir)
                | Inr (it', old, new) \<Rightarrow> (case serialize_item it' of
                      None \<Rightarrow> (Inl EncodeError, dir)
                    | Some data \<Rightarrow> (Inr (old, new), atomic_write (md_name (up_id a)) data dir)))))"

section \<open>Listing\<close>

definition sort_records :: "('a \<Rightarrow> frontmatter) \<Rightarrow> 'a list \<Rightarrow> 'a list" where
  "sort_records f records = rev (sort_key (\<lambda>r. (fm_updated (f r), fm_id (f r))) (rev records))"

definition encode_cursor :: "frontmatter \<Rightarrow> ucs option" where
  "encode_cursor fm = map_option b64_encode (utf8_encode (fm_updated fm @ u ''/'' @ fm_id fm))"

definition decode_cursor :: "ucs \<Rightarrow> (ucs \<times> ucs) option" where
  "decode_cursor token = (case Option.bind (b64_decode token) utf8_decode of
       None \<Rightarrow> None
     | Some t \<Rightarrow> (let updated = takeWhile (\<lambda>c. c \<noteq> 47) t in
         if length updated = length t then None else Some (updated, drop (length updated + 1) t)))"

text \<open>\<open>xs[:limit]\<close>, with Python's meaning of a negative limit.\<close>

definition py_prefix :: "int \<Rightarrow> 'a list \<Rightarrow> 'a list" where
  "py_prefix limit xs = (if limit \<ge> 0 then take (nat limit) xs else take (length xs - nat (- limit)) xs)"

definition paginate :: "('a \<Rightarrow> frontmatter) \<Rightarrow> 'a list \<Rightarrow> ucs option \<Rightarrow> int \<Rightarrow> cmd_error + 'a list \<times> ucs option" where
  "paginate f records cursor limit =
     and_then (case cursor of
         None \<Rightarrow> Inr (sort_records f records)
       | Some token \<Rightarrow> (case decode_cursor token of
             None \<Rightarrow> Inl (Exit ''invalid --cursor token'')
           | Some key \<Rightarrow> Inr (filter (\<lambda>r. (fm_updated (f r), fm_id (f r)) < key) (sort_records f records))))
       (\<lambda>ordered. let page = py_prefix limit ordered in
         if int (length ordered) > limit
         then (if page = [] then Inl IndexError
               else case encode_cursor (f (last page)) of
                   None \<Rightarrow> Inl EncodeError | Some c \<Rightarrow> Inr (page, Some c))
         else Inr (page, None))"

definition normalize_multi :: "ucs list \<Rightarrow> ucs list" where
  "normalize_multi values = filter (\<lambda>t. t \<noteq> []) (map strip (concat (map (split_on 44) values)))"

record filter_args =
  fa_status :: "ucs list"
  fa_task :: "ucs option"
  fa_reason :: "ucs list"
  fa_priority :: "ucs option"
  fa_tag :: "ucs list"
  fa_since :: "instant option"
  fa_until :: "instant option"

definition selected :: "filter_args \<Rightarrow> frontmatter \<Rightarrow> bool" where
  "selected a fm =
     (let statuses = (if normalize_multi (fa_status a) = [] then [u ''open'', u ''deferred'']
                      else normalize_multi (fa_status a));
          reasons = normalize_multi (fa_reason a); tags = normalize_multi (fa_tag a)
      in fm_status fm \<in> set statuses
         \<and> (case fa_task a of Some t \<Rightarrow> fm_task fm = t | None \<Rightarrow> True)
         \<and> (reasons = [] \<or> fm_reason fm \<in> set reasons)
         \<and> (case fa_priority a of Some p \<Rightarrow> fm_priority fm = p | None \<Rightarrow> True)
         \<and> (tags = [] \<or> list_ex (\<lambda>t. t \<in> set (fm_tags fm)) tags)
         \<and> (case fa_since a of Some n \<Rightarrow> \<not> fm_updated fm < stamp_seconds n | None \<Rightarrow> True)
         \<and> (case fa_until a of Some n \<Rightarrow> \<not> fm_updated fm > stamp_seconds n | None \<Rightarrow> True))"

definition apply_filters :: "('a \<Rightarrow> frontmatter) \<Rightarrow> 'a list \<Rightarrow> filter_args \<Rightarrow> cmd_error + 'a list" where
  "apply_filters f records a =
     (if list_ex (\<lambda>s. s \<notin> set STATUSES) (normalize_multi (fa_status a)) then Inl (Exit ''--status not recognized'')
      else if list_ex (\<lambda>r. r \<notin> set LEDGER_REASONS) (normalize_multi (fa_reason a))
      then Inl (Exit ''--reason not recognized'')
      else Inr (filter (\<lambda>r. selected a (f r)) records))"

section \<open>Rendering\<close>

datatype cell = TextCell ucs | TagsCell "ucs list"

definition LIST_FIELDS :: "ucs list" where
  "LIST_FIELDS = FRONTMATTER_ORDER @ [u ''summary'']"

definition DEFAULT_FIELDS :: "ucs list" where
  "DEFAULT_FIELDS = map u [''id'', ''task'', ''reason'', ''priority'', ''status'', ''updated_utc'', ''summary'']"

definition column :: "item_header \<Rightarrow> ucs \<Rightarrow> cell" where
  "column h field = (let fm = ih_fm h in
     if field = u ''tags'' then TagsCell (fm_tags fm)
     else TextCell (
       if field = u ''schema'' then fm_schema fm else if field = u ''id'' then fm_id fm
       else if field = u ''task'' then fm_task fm else if field = u ''reason'' then fm_reason fm
       else if field = u ''priority'' then fm_priority fm else if field = u ''status'' then fm_status fm
       else if field = u ''created_utc'' then fm_created fm else if field = u ''updated_utc'' then fm_updated fm
       else if field = u ''generation'' then fm_generation fm else if field = u ''source'' then fm_source fm
       else if field = u ''superseded_by'' then fm_superseded_by fm
       else if field = u ''resume_when'' then fm_resume_when fm
       else if field = u ''summary'' then ih_summary h else []))"

definition display_value :: "item_header \<Rightarrow> ucs \<Rightarrow> ucs" where
  "display_value h field = (case column h field of TextCell t \<Rightarrow> t | TagsCell ts \<Rightarrow> join_with (u '','') ts)"

definition escape_pipes :: "ucs \<Rightarrow> ucs" where
  "escape_pipes t = concat (map (\<lambda>c. if c = 124 then [92, 124] else [c]) t)"

definition table_row :: "ucs list \<Rightarrow> ucs" where
  "table_row cells = u ''| '' @ join_with (u '' | '') cells @ u '' |''"

definition render_md_table :: "item_header list \<Rightarrow> ucs list \<Rightarrow> ucs list" where
  "render_md_table records cols =
     (if records = [] then [u ''_no items_'']
      else [table_row cols, table_row (map (\<lambda>_. u ''---'') cols)]
        @ map (\<lambda>h. table_row (map (\<lambda>f. escape_pipes (display_value h f)) cols)) records)"

definition render_tsv :: "item_header list \<Rightarrow> ucs list \<Rightarrow> ucs list" where
  "render_tsv records cols = join_with [9] cols
     # map (\<lambda>h. join_with [9] (map (\<lambda>f. map (\<lambda>c. if c = 9 then 32 else c) (display_value h f)) cols)) records"

definition project :: "item_header \<Rightarrow> ucs list \<Rightarrow> (ucs \<times> cell) list" where
  "project h cols = map (\<lambda>f. (f, column h f)) (remdups cols)"

definition malformed_line :: "(ucs \<times> bad_file) list \<Rightarrow> ucs" where
  "malformed_line bad = u ''malformed: '' @ decimal (length bad) @ u '' ('' @ join_with (u '', '') (keys bad) @ u '')''"

datatype list_format = MdFormat | JsonFormat | TsvFormat

record list_args =
  la_filter :: filter_args
  la_limit :: int
  la_cursor :: "ucs option"
  la_fields :: "ucs option"
  la_format :: list_format

datatype listing =
    JsonListing "(ucs \<times> cell) list list" "ucs option" "(ucs \<times> bad_file) list"
  | LineListing "ucs list"

definition cmd_list :: "list_args \<Rightarrow> items_dir \<Rightarrow> cmd_error + listing" where
  "cmd_list a dir =
     (let cols = (case la_fields a of
            Some t \<Rightarrow> (if t = [] then DEFAULT_FIELDS else normalize_multi [t])
          | None \<Rightarrow> DEFAULT_FIELDS);
          (records, bad) = load_items dir parse_header
      in if list_ex (\<lambda>f. f \<notin> set LIST_FIELDS) cols then Inl (Exit ''unknown --fields entry'')
         else
           and_then (apply_filters (ih_fm \<circ> fst) records (la_filter a)) (\<lambda>chosen.
           and_then (paginate (ih_fm \<circ> fst) chosen (la_cursor a) (la_limit a)) (\<lambda>(page, nxt).
             Inr (case la_format a of
                 JsonFormat \<Rightarrow> JsonListing (map (\<lambda>r. project (fst r) cols) page) nxt bad
               | form \<Rightarrow> LineListing
                   ((if form = TsvFormat then render_tsv (map fst page) cols else render_md_table (map fst page) cols)
                    @ (case nxt of Some c \<Rightarrow> [u ''next: '' @ c] | None \<Rightarrow> [])
                    @ (if bad = [] then [] else [malformed_line bad]))))))"

section \<open>Reading one item, checking, exporting\<close>

definition read_one :: "items_dir \<Rightarrow> ucs \<Rightarrow> cmd_error + item \<times> bytes" where
  "read_one dir item_id =
     (if \<not> safe_token item_id then Inl (Exit ''item id not in the safe character class'')
      else case map_of dir (md_name item_id) of
        None \<Rightarrow> Inl (Exit ''no such item'')
      | Some Irregular \<Rightarrow> Inl (Exit ''item is unsafe or unreadable'')
      | Some (Regular raw) \<Rightarrow> (case parse_full raw (Some item_id) of
            Inl _ \<Rightarrow> Inl (Exit ''item is malformed'') | Inr it \<Rightarrow> Inr (it, raw)))"

text \<open>\<open>doctor\<close>: the good files with their ids, the bad ones, and the exit code.\<close>

definition cmd_doctor :: "items_dir \<Rightarrow> (ucs \<times> ucs) list \<times> (ucs \<times> bad_file) list \<times> nat" where
  "cmd_doctor dir = (case load_items dir parse_full of
     (records, bad) \<Rightarrow> (map (\<lambda>(it, name). (name, fm_id (it_fm it))) records, bad, if bad = [] then 0 else 1))"

definition cmd_export :: "items_dir \<Rightarrow> (item \<times> ucs) list \<times> (ucs \<times> bad_file) list" where
  "cmd_export dir = (case load_items dir parse_full of
     (records, bad) \<Rightarrow> (sort_records (it_fm \<circ> fst) records, bad))"

section \<open>The digest for a fresh session\<close>

text \<open>The part after the first \<open>": "\<close> of an item's last log line, or all of it.\<close>

fun after_colon :: "ucs \<Rightarrow> ucs option" where
  "after_colon [] = None"
| "after_colon (c # cs) = (if c = 58 \<and> take 1 cs = [32] then Some (tl cs) else after_colon cs)"

definition final_note :: "item \<Rightarrow> ucs" where
  "final_note it = (if it_log it = [] then []
     else case after_colon (last (it_log it)) of Some t \<Rightarrow> t | None \<Rightarrow> last (it_log it))"

definition header_of :: "item \<Rightarrow> item_header" where
  "header_of it = \<lparr>ih_fm = it_fm it, ih_summary = it_summary it\<rparr>"

record digest =
  dg_by_status :: "(ucs \<times> nat) list"
  dg_by_reason :: "(ucs \<times> nat) list"
  dg_urgent :: "item list"
  dg_normal :: "item list"
  dg_next :: "ucs option"
  dg_deferred :: "item list"
  dg_handled :: "item list"
  dg_malformed :: "(ucs \<times> bad_file) list"

definition count_of :: "(item \<Rightarrow> ucs) \<Rightarrow> item list \<Rightarrow> ucs \<Rightarrow> nat" where
  "count_of f items k = length (filter (\<lambda>it. f it = k) items)"

definition prime_digest :: "int \<Rightarrow> items_dir \<Rightarrow> cmd_error + digest" where
  "prime_digest limit dir = (case load_items dir parse_full of (records, bad) \<Rightarrow>
     let items = map fst records;
         status = fm_status \<circ> it_fm; reason = fm_reason \<circ> it_fm;
         opened = filter (\<lambda>it. status it = u ''open'') items;
         urgent = (\<lambda>it. fm_priority (it_fm it) = u ''urgent'')
     in and_then (paginate it_fm (filter (\<lambda>it. \<not> urgent it) opened) None limit) (\<lambda>(page, nxt).
       Inr \<lparr>dg_by_status = map (\<lambda>k. (k, count_of status items k)) [u ''open'', u ''deferred'', u ''handled'', u ''superseded''],
         dg_by_reason = map (\<lambda>k. (k, count_of reason items k)) (sort (remdups (map reason items))),
         dg_urgent = sort_records it_fm (filter urgent opened), dg_normal = page, dg_next = nxt,
         dg_deferred = sort_records it_fm (filter (\<lambda>it. status it = u ''deferred'') items),
         dg_handled = take 5 (sort_records it_fm (filter (\<lambda>it. status it = u ''handled'') items)),
         dg_malformed = bad\<rparr>))"

definition DISCLAIMER :: ucs where
  "DISCLAIMER = u ''These are driver-recorded decisions and observations, not verified system state. `handled` here is not task open-item resolution, generation ACK, a handoff verdict, or operator acceptance.''"

definition count_words :: "(ucs \<times> nat) list \<Rightarrow> ucs" where
  "count_words counts = join_with (u '', '') (map (\<lambda>(k, n). k @ u '' '' @ decimal n) counts)"

definition or_none :: "ucs list \<Rightarrow> ucs list" where
  "or_none ls = (if ls = [] then [u ''_none_''] else ls)"

text \<open>The digest as lines of markdown (the heading has an em dash).\<close>

definition prime_lines :: "int \<Rightarrow> digest \<Rightarrow> ucs list" where
  "prime_lines limit d =
     [u ''# Watchtower attention ledger '' @ [8212] @ u '' prime'', [], u ''_'' @ DISCLAIMER @ u ''_'', [],
      u ''## Counts'', [], u ''- by status: '' @ count_words (dg_by_status d),
      u ''- by reason: '' @ (if dg_by_reason d = [] then u ''none'' else count_words (dg_by_reason d)),
      u ''- malformed: '' @ decimal (length (dg_malformed d)), [], u ''## Urgent open items'', []]
     @ render_md_table (map header_of (dg_urgent d)) DEFAULT_FIELDS
     @ [[], u ''## Normal open items (limit '' @ signed_decimal limit @ u '')'', []]
     @ render_md_table (map header_of (dg_normal d)) DEFAULT_FIELDS
     @ (case dg_next d of Some c \<Rightarrow> [u ''next: '' @ c] | None \<Rightarrow> [])
     @ [[], u ''## Deferred (resume conditions)'', []]
     @ or_none (map (\<lambda>it. u ''- `'' @ fm_id (it_fm it) @ u ''` '' @ fm_task (it_fm it) @ u '': resume_when=''
           @ fm_resume_when (it_fm it)) (dg_deferred d))
     @ [[], u ''## Recently handled (last 5)'', []]
     @ or_none (map (\<lambda>it. u ''- `'' @ fm_id (it_fm it) @ u ''` '' @ fm_task (it_fm it) @ u '': '' @ final_note it)
           (dg_handled d))
     @ (if dg_malformed d = [] then [] else [[], malformed_line (dg_malformed d)])"

end
