(* ===== verification/Ledger_Item_Facts.thy ===== *)
theory Ledger_Item_Facts
  imports Ledger_Item
begin

text \<open>
  A serialised item parses back to itself, and whatever parses is an item that serialises to a file
  that parses to the same item: the ledger never has to touch a file it would not read again.
\<close>

section \<open>Splitting and joining\<close>

lemma split_on_Cons: "\<exists>l ls. split_on c t = l # ls"
proof (induction t)
  case (Cons x t)
  then obtain l ls where "split_on c t = l # ls" by blast
  then show ?case by simp
qed simp

lemma split_on_not_Nil [simp]: "split_on c t \<noteq> []"
  using split_on_Cons[of c t] by auto

lemma split_on_append:
  "split_on c (s @ c # t) = split_on c s @ split_on c t"
proof (induction s)
  case (Cons x s)
  obtain l ls where "split_on c s = l # ls" using split_on_Cons by blast
  with Cons show ?case by simp
qed simp

lemma split_on_plain: "c \<notin> set t \<Longrightarrow> split_on c t = [t]"
  by (induction t) auto

lemma split_join: "ls \<noteq> [] \<Longrightarrow> split_on c (join_with [c] ls) = concat (map (split_on c) ls)"
  by (induction "[c]" ls rule: join_with.induct) (simp_all add: split_on_append)

lemma join_with_Cons: "ls \<noteq> [] \<Longrightarrow> join_with sep (l # ls) = l @ sep @ join_with sep ls"
  by (cases ls) simp_all

lemma join_split: "join_with [c] (split_on c t) = t"
proof (induction t)
  case (Cons x t)
  obtain l ls where s: "split_on c t = l # ls" using split_on_Cons by blast
  with Cons show ?case by (cases ls) (auto simp: join_with_Cons)
qed simp

lemma split_on_pieces: "l \<in> set (split_on c t) \<Longrightarrow> c \<notin> set l"
proof (induction t arbitrary: l)
  case (Cons x t)
  obtain m ms where "split_on c t = m # ms" using split_on_Cons by blast
  with Cons show ?case by (auto split: if_splits)
qed simp

lemma split_on_chars: "l \<in> set (split_on c t) \<Longrightarrow> set l \<subseteq> set t"
proof (induction t arbitrary: l)
  case (Cons x t)
  obtain m ms where m: "split_on c t = m # ms" using split_on_Cons by blast
  have "l = [] \<or> l \<in> set (split_on c t) \<or> l = x # m" using Cons.prems m by (auto split: if_splits)
  moreover have "set m \<subseteq> set t" using Cons.IH[of m] m by simp
  ultimately show ?case using Cons.IH[of l] by auto
qed simp

lemma concat_split_plain: "\<forall>l \<in> set ls. c \<notin> set l \<Longrightarrow> concat (map (split_on c) ls) = ls"
  by (induction ls) (simp_all add: split_on_plain)

lemma split_join_plain: "ls \<noteq> [] \<Longrightarrow> \<forall>l \<in> set ls. c \<notin> set l \<Longrightarrow> split_on c (join_with [c] ls) = ls"
proof -
  assume "ls \<noteq> []" and plain: "\<forall>l \<in> set ls. c \<notin> set l"
  then have "split_on c (join_with [c] ls) = concat (map (split_on c) ls)" by (simp add: split_join)
  with concat_split_plain[OF plain] show ?thesis by simp
qed

section \<open>Blank lines and stripping\<close>

lemma dropWhile_subset: "set (dropWhile P xs) \<subseteq> set xs"
  by (induction xs) auto

lemma last_dropWhile: "dropWhile P xs \<noteq> [] \<Longrightarrow> last (dropWhile P xs) = last xs"
  by (induction xs) (auto split: if_splits)

lemma dropWhile_all: "(\<forall>x \<in> set xs. P x) \<Longrightarrow> dropWhile P xs = []"
  by (induction xs) auto

lemma all_dropWhile_iff: "(\<forall>x \<in> set (dropWhile P xs). P x) \<longleftrightarrow> (\<forall>x \<in> set xs. P x)"
  by (induction xs) auto

lemma strip_Nil_iff: "strip t = [] \<longleftrightarrow> list_all is_space t"
proof -
  have "dropWhile is_space xs = [] \<longleftrightarrow> list_all is_space xs" for xs by (induction xs) auto
  then show ?thesis by (simp add: strip_def lstrip_def list_all_iff all_dropWhile_iff)
qed

lemma blank_iff: "blank l \<longleftrightarrow> list_all is_space l"
  by (simp add: blank_def strip_Nil_iff)

lemma blank_Nil [simp]: "blank []"
  by (simp add: blank_iff)

lemma strip_id:
  assumes "t \<noteq> []" and "\<not> is_space (hd t)" and "\<not> is_space (last t)"
  shows "strip t = t"
proof -
  have "dropWhile is_space t = t" using assms(1,2) by (cases t) auto
  moreover have "dropWhile is_space (rev t) = rev t"
    using assms(1,3) by (metis dropWhile_eq_self_iff hd_rev rev_is_Nil_conv)
  ultimately show ?thesis by (simp add: strip_def lstrip_def)
qed

lemma strip_ends: "strip t \<noteq> [] \<Longrightarrow> \<not> is_space (hd (strip t)) \<and> \<not> is_space (last (strip t))"
proof -
  let ?a = "dropWhile is_space t"
  let ?b = "dropWhile is_space (rev ?a)"
  assume "strip t \<noteq> []"
  then have b: "?b \<noteq> []" by (simp add: strip_def lstrip_def)
  then have a: "?a \<noteq> []" by (metis dropWhile.simps(1) rev.simps(1))
  have "\<not> is_space (hd ?b)" using b by (rule hd_dropWhile)
  moreover from last_dropWhile[OF b] a have "last ?b = hd ?a" by (simp only: last_rev)
  moreover have "\<not> is_space (hd ?a)" using a by (rule hd_dropWhile)
  ultimately show ?thesis using b unfolding strip_def lstrip_def by (simp only: hd_rev last_rev rev_is_Nil_conv simp_thms)
qed

lemma strip_strip [simp]: "strip (strip t) = strip t"
proof (cases "strip t = []")
  case True
  have "strip [] = []" by (simp add: strip_def lstrip_def)
  then show ?thesis by (simp only: True)
next
  case False
  with strip_ends[OF this] show ?thesis by (intro strip_id) simp_all
qed

lemma strip_subset: "set (strip t) \<subseteq> set t"
proof -
  show ?thesis unfolding strip_def lstrip_def set_rev
    using dropWhile_subset[of is_space "rev (dropWhile is_space t)"] dropWhile_subset[of is_space t] by simp
qed

lemma outer_trimmed_Cons_blank: "blank l \<Longrightarrow> outer_trimmed (l # ls) = outer_trimmed ls"
  by (simp add: outer_trimmed_def)

lemma outer_trimmed_snoc_blank: "blank l \<Longrightarrow> outer_trimmed (ls @ [l]) = outer_trimmed ls"
proof (cases "\<forall>x \<in> set ls. blank x")
  case True
  assume "blank l"
  with True have "dropWhile blank (ls @ [l]) = []" "dropWhile blank ls = []" by (simp_all add: dropWhile_all)
  then show ?thesis unfolding outer_trimmed_def by (simp only:)
next
  case False
  assume "blank l"
  with False have "dropWhile blank (ls @ [l]) = dropWhile blank ls @ [l]" by (simp add: dropWhile_append)
  with \<open>blank l\<close> show ?thesis by (simp add: outer_trimmed_def)
qed

lemma outer_trimmed_set: "set (outer_trimmed ls) \<subseteq> set ls"
  unfolding outer_trimmed_def set_rev
  using dropWhile_subset[of blank "rev (dropWhile blank ls)"] dropWhile_subset[of blank ls] by simp

lemma outer_trimmed_idem: "outer_trimmed (outer_trimmed ls) = outer_trimmed ls"
proof -
  let ?a = "dropWhile blank ls"
  let ?b = "rev (dropWhile blank (rev ?a))"
  have "dropWhile blank ?b = ?b"
  proof (cases "?b = []")
    case True
    then show ?thesis by (simp only: dropWhile.simps)
  next
    case False
    then have "?a \<noteq> []" by (metis dropWhile.simps(1) rev.simps(1))
    have "dropWhile blank (rev ?a) \<noteq> []" using False by simp
    from last_dropWhile[OF this] \<open>?a \<noteq> []\<close> this have "hd ?b = hd ?a" by (simp only: last_rev hd_rev)
    moreover have "\<not> blank (hd ?a)" using \<open>?a \<noteq> []\<close> by (rule hd_dropWhile)
    ultimately show ?thesis using False by (metis dropWhile_eq_self_iff)
  qed
  then show ?thesis by (simp add: outer_trimmed_def)
qed

lemma trimmed_text_strip:
  assumes "\<forall>l \<in> set ls. 10 \<notin> set l"
  shows "strip_outer_blanks (split_on 10 (strip_outer_blanks ls)) = strip_outer_blanks ls"
proof (cases "outer_trimmed ls = []")
  case True
  have "outer_trimmed (split_on 10 []) = []" by (simp add: outer_trimmed_def)
  with True show ?thesis unfolding strip_outer_blanks_def by (simp del: split_on.simps)
next
  case False
  have "\<forall>l \<in> set (outer_trimmed ls). 10 \<notin> set l" using assms outer_trimmed_set by blast
  with False have "split_on 10 (strip_outer_blanks ls) = outer_trimmed ls"
    by (simp add: strip_outer_blanks_def split_join_plain)
  then show ?thesis by (simp add: strip_outer_blanks_def outer_trimmed_idem)
qed

section \<open>Well-formed items\<close>

text \<open>What the format asks of a front matter.\<close>

definition fm_ok :: "frontmatter \<Rightarrow> bool" where
  "fm_ok fm \<longleftrightarrow> fm_schema fm = SCHEMA \<and> safe_token (fm_id fm) \<and> safe_token (fm_task fm)
     \<and> fm_reason fm \<in> set LEDGER_REASONS \<and> fm_priority fm \<in> set LEDGER_PRIORITIES \<and> fm_status fm \<in> set STATUSES
     \<and> is_timestamp (fm_created fm) \<and> is_timestamp (fm_updated fm)
     \<and> (fm_generation fm = u ''none'' \<or> is_generation (fm_generation fm)) \<and> fm_source fm \<in> set SOURCES
     \<and> (fm_superseded_by fm = u ''none'' \<or> safe_token (fm_superseded_by fm))
     \<and> 10 \<notin> set (fm_resume_when fm) \<and> list_all safe_token (fm_tags fm)"

text \<open>A body text is trimmed, and no line of it looks like a section header.\<close>

definition body_ok :: "ucs \<Rightarrow> bool" where
  "body_ok t \<longleftrightarrow> strip_outer_blanks (split_on 10 t) = t \<and> (\<forall>l \<in> set (split_on 10 t). header_name l = None)"

definition log_entry_ok :: "ucs \<Rightarrow> bool" where
  "log_entry_ok l \<longleftrightarrow> 10 \<notin> set l \<and> \<not> blank l \<and> header_name l = None"

definition item_text :: "item \<Rightarrow> ucs" where
  "item_text it = fm_resume_when (it_fm it) @ it_summary it @ it_snapshot it @ concat (it_log it) @ it_context it"

definition item_ok :: "item \<Rightarrow> bool" where
  "item_ok it \<longleftrightarrow> list_all is_scalar (item_text it) \<and> fm_ok (it_fm it) \<and> it_summary it \<noteq> [] \<and> strip (it_summary it) = it_summary it
     \<and> 10 \<notin> set (it_summary it) \<and> body_ok (it_snapshot it) \<and> list_all log_entry_ok (it_log it)
     \<and> body_ok (it_context it)"

section \<open>The front matter\<close>

lemma key_value_line:
  assumes "k \<noteq> []" and "list_all key_char (u k)"
  shows "key_value (fm_line k v) = Some (u k, v)"
proof -
  have "takeWhile key_char (u k @ 58 # 32 # v) = u k" "dropWhile key_char (u k @ 58 # 32 # v) = 58 # 32 # v"
    using assms(2) by (induction k) (auto simp: key_char_def)
  with assms(1) show ?thesis by (simp add: key_value_def fm_line_def u_def)
qed

lemma key_chars [simp]:
  "list_all key_char (u ''schema'')" "list_all key_char (u ''id'')" "list_all key_char (u ''task'')"
  "list_all key_char (u ''reason'')" "list_all key_char (u ''priority'')" "list_all key_char (u ''status'')"
  "list_all key_char (u ''created_utc'')" "list_all key_char (u ''updated_utc'')"
  "list_all key_char (u ''generation'')" "list_all key_char (u ''source'')"
  "list_all key_char (u ''superseded_by'')" "list_all key_char (u ''resume_when'')" "list_all key_char (u ''tags'')"
  by (simp_all add: key_char_def)

definition fm_pairs :: "frontmatter \<Rightarrow> (ucs \<times> ucs) list" where
  "fm_pairs fm = zip FRONTMATTER_ORDER [fm_schema fm, fm_id fm, fm_task fm, fm_reason fm, fm_priority fm,
     fm_status fm, fm_created fm, fm_updated fm, fm_generation fm, fm_source fm, fm_superseded_by fm,
     fm_resume_when fm, u ''['' @ join_with (u '', '') (fm_tags fm) @ u '']'']"

lemma collect_fm_lines: "collect_lines [] (fm_lines_of fm) = Inr (fm_pairs fm)"
  by (simp add: fm_lines_of_def fm_pairs_def FRONTMATTER_ORDER_def key_value_line u_eq_iff del: u_simps)

lemma fm_pairs_keys: "keys (fm_pairs fm) = FRONTMATTER_ORDER"
  by (simp add: fm_pairs_def FRONTMATTER_ORDER_def)

lemma entry_fm_pairs:
  "entry (fm_pairs fm) ''schema'' = fm_schema fm" "entry (fm_pairs fm) ''id'' = fm_id fm"
  "entry (fm_pairs fm) ''task'' = fm_task fm" "entry (fm_pairs fm) ''reason'' = fm_reason fm"
  "entry (fm_pairs fm) ''priority'' = fm_priority fm" "entry (fm_pairs fm) ''status'' = fm_status fm"
  "entry (fm_pairs fm) ''created_utc'' = fm_created fm" "entry (fm_pairs fm) ''updated_utc'' = fm_updated fm"
  "entry (fm_pairs fm) ''generation'' = fm_generation fm" "entry (fm_pairs fm) ''source'' = fm_source fm"
  "entry (fm_pairs fm) ''superseded_by'' = fm_superseded_by fm"
  "entry (fm_pairs fm) ''resume_when'' = fm_resume_when fm"
  "entry (fm_pairs fm) ''tags'' = u ''['' @ join_with (u '', '') (fm_tags fm) @ u '']''"
  by (simp_all add: entry_def fm_pairs_def FRONTMATTER_ORDER_def u_eq_iff del: u_simps)

text \<open>Tags.\<close>

lemma safe_char_range: "safe_char c \<Longrightarrow> \<not> is_space c \<and> c \<noteq> 44 \<and> c \<noteq> 10"
  by (auto simp: safe_char_def is_letter_def is_digit_def is_space_def)

lemma safe_token_facts:
  assumes "safe_token t"
  shows "t \<noteq> []" "\<not> is_space (hd t)" "\<not> is_space (last t)" "44 \<notin> set t" "10 \<notin> set t" "strip t = t" "strip (32 # t) = t"
proof -
  from assms have ne: "t \<noteq> []" and all: "\<forall>c \<in> set t. safe_char c" by (auto simp: safe_token_def list_all_iff)
  then have chars: "\<forall>c \<in> set t. \<not> is_space c \<and> c \<noteq> 44 \<and> c \<noteq> 10" using safe_char_range by blast
  show "t \<noteq> []" by (rule ne)
  show hd: "\<not> is_space (hd t)" and last: "\<not> is_space (last t)" using chars ne by simp_all
  show "44 \<notin> set t" "10 \<notin> set t" using chars by auto
  show "strip t = t" using ne hd last by (rule strip_id)
  then show "strip (32 # t) = t" by (simp add: strip_def lstrip_def is_space_def)
qed

lemma split_tags:
  "list_all safe_token ts \<Longrightarrow> ts \<noteq> [] \<Longrightarrow> split_on 44 (join_with [44, 32] ts) = hd ts # map (Cons 32) (tl ts)"
proof (induction "[44, 32] :: ucs" ts rule: join_with.induct)
  case (2 l)
  then show ?case using safe_token_facts(4) by (simp add: split_on_plain)
next
  case (3 l m ls)
  then have "44 \<notin> set l" using safe_token_facts(4) by simp
  with 3 split_on_append[of 44 l] show ?case by (simp add: split_on_plain)
qed simp

lemma parse_tag_list_spaced: "list_all safe_token ts \<Longrightarrow> parse_tag_list (map (Cons 32) ts) = Inr ts"
  by (induction ts) (simp_all add: safe_token_facts(7))

lemma parse_tags_join:
  assumes "list_all safe_token ts"
  shows "parse_tags (u ''['' @ join_with (u '', '') ts @ u '']'') = Inr ts"
proof (cases "ts = []")
  case True
  then show ?thesis by (simp add: parse_tags_def strip_def lstrip_def)
next
  case False
  let ?j = "join_with [44, 32] ts"
  have ends: "?j \<noteq> [] \<and> hd ?j = hd (hd ts) \<and> last ?j = last (last ts)"
    using assms False
  proof (induction "[44, 32] :: ucs" ts rule: join_with.induct)
    case (3 l m ls)
    then show ?case using safe_token_facts(1)[of l] by (auto simp: hd_append)
  qed (simp_all add: safe_token_facts(1))
  from assms False have "safe_token (hd ts)" "safe_token (last ts)" by (auto simp: list_all_iff)
  with ends have "strip ?j = ?j" using safe_token_facts(2,3) by (intro strip_id) auto
  moreover from assms False have "parse_tag_list (hd ts # map (Cons 32) (tl ts)) = Inr ts"
    by (cases ts) (simp_all add: parse_tag_list_spaced safe_token_facts(6))
  ultimately show ?thesis
    using ends split_tags[OF assms False] by (simp add: parse_tags_def Let_def butlast_append)
qed

lemma parse_frontmatter_lines:
  assumes "fm_ok fm" and "stem = None \<or> stem = Some (fm_id fm)"
  shows "parse_frontmatter (fm_lines_of fm) stem = Inr fm"
proof -
  have "check_frontmatter (entry (fm_pairs fm)) stem = Inr ()"
    using assms unfolding check_frontmatter_def entry_fm_pairs fm_ok_def by auto
  moreover have "parse_tags (entry (fm_pairs fm) ''tags'') = Inr (fm_tags fm)"
    using assms(1) parse_tags_join unfolding entry_fm_pairs fm_ok_def by blast
  moreover have "filter (\<lambda>k. k \<notin> set FRONTMATTER_ORDER) FRONTMATTER_ORDER = []" by (simp add: filter_empty_conv)
  ultimately show ?thesis
    unfolding parse_frontmatter_def collect_fm_lines and_then_simps Let_def fm_pairs_keys
    by (simp add: entry_fm_pairs)
qed

section \<open>The body\<close>

lemma fill_plain:
  assumes "\<forall>l \<in> set ls. header_name l = None"
  shows "fill_sections (Some sec) b (ls @ rest) = fill_sections (Some sec) (b(sec := b sec @ ls)) rest"
  using assms by (induction ls arbitrary: b) simp_all

lemma headers:
  "header_name (u ''## Snapshot'') = Some (u ''Snapshot'')"
  "header_name (u ''## Handling log'') = Some (u ''Handling log'')"
  "header_name (u ''## Context'') = Some (u ''Context'')"
  "header_name [] = None"
  by (simp_all add: header_name_def strip_def lstrip_def is_space_def)

lemma sections_named:
  "section_named (u ''Snapshot'') = Some SnapshotSection" "section_named (u ''Handling log'') = Some LogSection"
  "section_named (u ''Context'') = Some ContextSection"
  by (simp_all add: section_named_def u_eq_iff del: u_simps)

lemma trimmed_padding: "strip_outer_blanks ([] # ls @ [[]]) = strip_outer_blanks ls"
  "strip_outer_blanks ([] # ls @ [[], []]) = strip_outer_blanks ls"
proof -
  show one: "strip_outer_blanks ([] # ls @ [[]]) = strip_outer_blanks ls" for ls
    by (simp add: strip_outer_blanks_def outer_trimmed_Cons_blank outer_trimmed_snoc_blank)
  have "outer_trimmed ((ls @ [[]]) @ [[]]) = outer_trimmed ls" by (simp only: outer_trimmed_snoc_blank blank_Nil)
  then show "strip_outer_blanks ([] # ls @ [[], []]) = strip_outer_blanks ls"
    by (simp add: strip_outer_blanks_def outer_trimmed_Cons_blank)
qed

text \<open>The lines after the title.\<close>

definition body_lines :: "item \<Rightarrow> ucs list" where
  "body_lines it = [[], u ''## Snapshot'', []] @ split_on 10 (it_snapshot it) @ [[], u ''## Handling log'', []]
     @ it_log it @ [[], u ''## Context'', []] @ split_on 10 (it_context it) @ [[], []]"

lemma parse_body:
  assumes "body_ok (it_snapshot it)" and "list_all log_entry_ok (it_log it)" and "body_ok (it_context it)"
  shows "parse_sections (body_lines it) = Inr (it_snapshot it, it_log it, it_context it)"
proof -
  let ?snap = "split_on 10 (it_snapshot it)" and ?ctx = "split_on 10 (it_context it)"
  let ?b1 = "(\<lambda>_. [])(SnapshotSection := [] # ?snap @ [[]])"
  let ?b2 = "?b1(LogSection := [] # it_log it @ [[]])"
  let ?b3 = "?b2(ContextSection := [] # ?ctx @ [[], []])"
  have plain: "\<forall>l \<in> set ([] # ?snap @ [[]]). header_name l = None"
    "\<forall>l \<in> set ([] # it_log it @ [[]]). header_name l = None" "\<forall>l \<in> set ([] # ?ctx @ [[], []]). header_name l = None"
    using assms by (auto simp: body_ok_def log_entry_ok_def list_all_iff headers)
  have "fill_sections None (\<lambda>_. []) (body_lines it)
      = fill_sections (Some SnapshotSection) (\<lambda>_. []) (([] # ?snap @ [[]]) @ (u ''## Handling log'' # ([] # it_log it @ [[]])
          @ (u ''## Context'' # ([] # ?ctx @ [[], []]) @ [])))"
    by (simp add: body_lines_def headers sections_named del: u_simps)
  also have "\<dots> = fill_sections (Some LogSection) ?b1 (([] # it_log it @ [[]]) @ (u ''## Context'' # ([] # ?ctx @ [[], []]) @ []))"
    unfolding fill_plain[OF plain(1)] by (simp add: headers sections_named del: u_simps)
  also have "\<dots> = fill_sections (Some ContextSection) ?b2 (([] # ?ctx @ [[], []]) @ [])"
    unfolding fill_plain[OF plain(2)] by (simp add: headers sections_named del: u_simps)
  also have "\<dots> = Inr ?b3" unfolding fill_plain[OF plain(3)] by simp
  finally have fill: "fill_sections None (\<lambda>_. []) (body_lines it) = Inr ?b3" .
  have "filter (\<lambda>l. \<not> blank l) (it_log it) = it_log it"
    using assms(2) by (simp add: filter_id_conv list_all_iff log_entry_ok_def)
  with assms(1,3) show ?thesis
    by (simp add: parse_sections_def fill trimmed_padding body_ok_def)
qed

section \<open>The whole file\<close>

lemma words_plain:
  "list_all (\<lambda>v. 10 \<notin> set v) LEDGER_REASONS" "list_all (\<lambda>v. 10 \<notin> set v) LEDGER_PRIORITIES"
  "list_all (\<lambda>v. 10 \<notin> set v) STATUSES" "list_all (\<lambda>v. 10 \<notin> set v) SOURCES" "10 \<notin> set SCHEMA" "10 \<notin> set (u ''none'')"
  by (simp_all add: LEDGER_REASONS_def LEDGER_PRIORITIES_def STATUSES_def SOURCES_def SCHEMA_def)

lemma decimal_not_newline: "is_decimal c \<Longrightarrow> c \<noteq> 10"
  by (auto simp: is_decimal_def DECIMAL_BLOCKS_def)

lemma timestamp_plain:
  assumes "is_timestamp t"
  shows "10 \<notin> set t"
proof
  assume "10 \<in> set t"
  then obtain i where i: "i < length t" "t ! i = 10" by (auto simp: in_set_conv_nth)
  then have "enumerate 0 t ! i = (i, 10)" by (simp add: nth_enumerate_eq)
  with i(1) have "(i, 10) \<in> set (enumerate 0 t)" by (metis length_enumerate nth_mem)
  with assms decimal_not_newline[of 10] show False by (auto simp: is_timestamp_def list_all_iff split: if_splits)
qed

lemma tags_plain: "list_all safe_token ts \<Longrightarrow> 10 \<notin> set (join_with [44, 32] ts)"
  using safe_token_facts(5) by (induction "[44, 32] :: ucs" ts rule: join_with.induct) auto

lemma fm_line_plain: "10 \<notin> set (u k) \<Longrightarrow> 10 \<notin> set v \<Longrightarrow> 10 \<notin> set (fm_line k v)"
  by (simp add: fm_line_def)

lemma fm_line_no_rule: "k \<noteq> [] \<Longrightarrow> hd (u k) \<noteq> 45 \<Longrightarrow> fm_line k v \<noteq> u ''---''"
  by (cases k) (simp_all add: fm_line_def)

lemma fm_values_plain:
  assumes "fm_ok fm"
  shows "\<forall>l \<in> set (fm_lines_of fm). 10 \<notin> set l" and "\<forall>l \<in> set (fm_lines_of fm). l \<noteq> u ''---''"
proof -
  have word: "v \<in> set ws \<Longrightarrow> list_all (\<lambda>v. 10 \<notin> set v) ws \<Longrightarrow> 10 \<notin> set v" for v :: ucs and ws
    by (auto simp: list_all_iff)
  have gen: "is_generation t \<Longrightarrow> 10 \<notin> set t" for t
    using decimal_not_newline by (auto simp: is_generation_def list_all_iff)
  from assms have plain: "10 \<notin> set (fm_schema fm)" "10 \<notin> set (fm_id fm)" "10 \<notin> set (fm_task fm)"
    "10 \<notin> set (fm_reason fm)" "10 \<notin> set (fm_priority fm)" "10 \<notin> set (fm_status fm)" "10 \<notin> set (fm_created fm)"
    "10 \<notin> set (fm_updated fm)" "10 \<notin> set (fm_generation fm)" "10 \<notin> set (fm_source fm)"
    "10 \<notin> set (fm_superseded_by fm)" "10 \<notin> set (fm_resume_when fm)" "10 \<notin> set (join_with [44, 32] (fm_tags fm))"
    unfolding fm_ok_def
    using words_plain(5,6) word[OF _ words_plain(1)] word[OF _ words_plain(2)] word[OF _ words_plain(3)]
      word[OF _ words_plain(4)] safe_token_facts(5) timestamp_plain gen tags_plain by metis+
  show "\<forall>l \<in> set (fm_lines_of fm). 10 \<notin> set l"
    using plain by (simp add: fm_lines_of_def fm_line_def)
  show "\<forall>l \<in> set (fm_lines_of fm). l \<noteq> u ''---''"
    unfolding fm_lines_of_def by (simp add: fm_line_def)
qed

text \<open>The file of an item whose front matter, title and log are in order, whatever its texts are.\<close>

lemma file_parts:
  assumes fm: "fm_ok (it_fm it)" and title: "it_summary it \<noteq> []" "strip (it_summary it) = it_summary it"
      "10 \<notin> set (it_summary it)" and log: "\<forall>l \<in> set (it_log it). 10 \<notin> set l"
    and bytes: "utf8_decode raw = Some (join_with [10] (item_lines it) @ [10])"
  shows "split_frontmatter raw = Inr (fm_lines_of (it_fm it), (u ''# '' @ it_summary it) # body_lines it)"
    and "parse_title ((u ''# '' @ it_summary it) # body_lines it) = Inr (it_summary it, body_lines it)"
proof -
  let ?fm = "fm_lines_of (it_fm it)" and ?title = "u ''# '' @ it_summary it"
  have "join_with [10] (item_lines it) @ [10] = join_with [10] (item_lines it @ [[]])"
  proof -
    have "ls \<noteq> [] \<Longrightarrow> join_with [10] (ls @ [[]]) = join_with [10] ls @ [10]" for ls
      by (induction "[10] :: ucs" ls rule: join_with.induct) (simp_all add: join_with_Cons)
    moreover have "item_lines it \<noteq> []" by (simp add: item_lines_def)
    ultimately show ?thesis by simp
  qed
  moreover have "concat (map (split_on 10) ?fm) = ?fm" "concat (map (split_on 10) (it_log it)) = it_log it"
    using fm_values_plain(1)[OF fm] log by (simp_all add: concat_split_plain)
  then have "concat (map (split_on 10) (item_lines it @ [[]])) = u ''---'' # ?fm @ u ''---'' # ?title # body_lines it"
    using title(3) by (simp add: item_lines_def body_lines_def split_on_plain)
  ultimately have lines: "split_on 10 (join_with [10] (item_lines it) @ [10]) = u ''---'' # ?fm @ u ''---'' # ?title # body_lines it"
    by (simp add: split_join)
  have head: "takeWhile (\<lambda>l. l \<noteq> u ''---'') (?fm @ u ''---'' # ?title # body_lines it) = ?fm"
    using fm_values_plain(2)[OF fm] by (subst takeWhile_append2) auto
  show "split_frontmatter raw = Inr (?fm, ?title # body_lines it)"
    unfolding split_frontmatter_def bytes option.case lines list.case head Let_def by simp
  have "\<not> blank ?title" "take 2 ?title = u ''# ''" "drop 2 ?title = it_summary it" by (simp_all add: blank_iff is_space_def)
  then show "parse_title (?title # body_lines it) = Inr (it_summary it, body_lines it)"
    using title by (simp add: parse_title_def del: u_simps)
qed

lemma parse_item_lines:
  assumes ok: "item_ok it" and stem: "stem = None \<or> stem = Some (fm_id (it_fm it))"
    and bytes: "utf8_decode raw = Some (join_with [10] (item_lines it) @ [10])"
  shows "parse_full raw stem = Inr it"
    and "parse_header raw stem = Inr \<lparr>ih_fm = it_fm it, ih_summary = it_summary it\<rparr>"
proof -
  from ok have fm: "fm_ok (it_fm it)" and title: "it_summary it \<noteq> []" "strip (it_summary it) = it_summary it"
    "10 \<notin> set (it_summary it)"
    and log: "\<forall>l \<in> set (it_log it). 10 \<notin> set l"
    by (auto simp: item_ok_def list_all_iff log_entry_ok_def)
  from file_parts[OF this bytes] parse_frontmatter_lines[OF fm stem] parse_body[of it] ok
  show "parse_full raw stem = Inr it" "parse_header raw stem = Inr \<lparr>ih_fm = it_fm it, ih_summary = it_summary it\<rparr>"
    by (simp_all add: parse_full_def parse_header_def item_ok_def)
qed

text \<open>A well-formed item can be encoded.\<close>

lemma ascii_scalar: "c < 128 \<Longrightarrow> is_scalar c"
  by (simp add: is_scalar_def)

lemma decimal_scalar: "is_decimal c \<Longrightarrow> is_scalar c"
  by (auto simp: is_decimal_def DECIMAL_BLOCKS_def is_scalar_def)

lemma safe_scalar: "safe_token t \<Longrightarrow> list_all is_scalar t"
  by (auto simp: safe_token_def safe_char_def is_letter_def is_digit_def is_scalar_def list_all_iff)

lemma words_scalar:
  "list_all (list_all is_scalar) LEDGER_REASONS" "list_all (list_all is_scalar) LEDGER_PRIORITIES"
  "list_all (list_all is_scalar) STATUSES" "list_all (list_all is_scalar) SOURCES" "list_all is_scalar SCHEMA"
  "list_all is_scalar (u ''none'')"
  by (simp_all add: LEDGER_REASONS_def LEDGER_PRIORITIES_def STATUSES_def SOURCES_def SCHEMA_def is_scalar_def)

lemma timestamp_scalar:
  assumes "is_timestamp t"
  shows "list_all is_scalar t"
proof -
  have "is_scalar (t ! i)" if "i < length t" for i
  proof -
    have "(i, t ! i) \<in> set (enumerate 0 t)"
      using that by (metis add_0 length_enumerate nth_enumerate_eq nth_mem)
    with assms decimal_scalar[of "t ! i"] show ?thesis
      by (auto simp: is_timestamp_def list_all_iff is_scalar_def split: if_splits)
  qed
  then show ?thesis by (simp add: list_all_length)
qed

lemma join_scalar: "list_all is_scalar sep \<Longrightarrow> list_all (list_all is_scalar) ls \<Longrightarrow> list_all is_scalar (join_with sep ls)"
  by (induction sep ls rule: join_with.induct) simp_all

lemma u_scalar: "list_all is_scalar (u s)"
proof -
  have "is_scalar (of_char c)" for c :: char
    using nat_of_char_less_256[of c] unfolding is_scalar_def by linarith
  then show ?thesis by (simp add: u_def list_all_iff)
qed

lemma fm_scalar:
  assumes "fm_ok fm" and "list_all is_scalar (fm_resume_when fm)"
  shows "list_all (list_all is_scalar) (fm_lines_of fm)"
proof -
  have word: "v \<in> set ws \<Longrightarrow> list_all (list_all is_scalar) ws \<Longrightarrow> list_all is_scalar v" for v ws
    by (auto simp: list_all_iff)
  have gen: "is_generation t \<Longrightarrow> list_all is_scalar t" for t
    using decimal_scalar by (auto simp: is_generation_def list_all_iff)
  have tags: "list_all safe_token ts \<Longrightarrow> list_all is_scalar (join_with [44, 32] ts)" for ts
    using safe_scalar by (intro join_scalar) (auto simp: list_all_iff is_scalar_def)
  have line: "list_all is_scalar v \<Longrightarrow> list_all is_scalar (fm_line k v)" for k v
    using u_scalar[of k] by (simp add: fm_line_def ascii_scalar)
  from assms have "list_all is_scalar (fm_schema fm)" "list_all is_scalar (fm_id fm)" "list_all is_scalar (fm_task fm)"
    "list_all is_scalar (fm_reason fm)" "list_all is_scalar (fm_priority fm)" "list_all is_scalar (fm_status fm)"
    "list_all is_scalar (fm_created fm)" "list_all is_scalar (fm_updated fm)" "list_all is_scalar (fm_generation fm)"
    "list_all is_scalar (fm_source fm)" "list_all is_scalar (fm_superseded_by fm)"
    "list_all is_scalar (join_with [44, 32] (fm_tags fm))"
    unfolding fm_ok_def
    using words_scalar(5,6) word[OF _ words_scalar(1)] word[OF _ words_scalar(2)] word[OF _ words_scalar(3)]
      word[OF _ words_scalar(4)] safe_scalar timestamp_scalar gen tags by metis+
  with assms(2) show ?thesis by (simp add: fm_lines_of_def line ascii_scalar)
qed

lemma text_encodes:
  assumes "fm_ok (it_fm it)" and "list_all is_scalar (item_text it)"
  shows "\<exists>raw. serialize_item it = Some raw \<and> utf8_decode raw = Some (join_with [10] (item_lines it) @ [10])"
proof -
  have ascii: "list_all is_scalar (u s)" for s by (rule u_scalar)
  have "list_all (list_all is_scalar) (it_log it)"
    using assms(2) by (auto simp: item_text_def list_all_iff)
  with assms fm_scalar[of "it_fm it"] have "list_all (list_all is_scalar) (item_lines it)"
    by (simp add: item_text_def item_lines_def ascii_scalar)
  then have "list_all is_scalar (join_with [10] (item_lines it) @ [10])"
    using join_scalar[of "[10]" "item_lines it"] by (simp add: ascii_scalar)
  then obtain raw where "utf8_encode (join_with [10] (item_lines it) @ [10]) = Some raw" by (simp add: utf8_encode_def)
  with utf8_roundtrip[OF this] show ?thesis by (simp add: serialize_item_def)
qed

lemma item_encodes:
  "item_ok it \<Longrightarrow> \<exists>raw. serialize_item it = Some raw \<and> utf8_decode raw = Some (join_with [10] (item_lines it) @ [10])"
  using text_encodes by (simp add: item_ok_def)

lemma serialize_parses:
  assumes "item_ok it"
  shows "\<exists>raw. serialize_item it = Some raw \<and> parse_full raw (Some (fm_id (it_fm it))) = Inr it
    \<and> parse_header raw (Some (fm_id (it_fm it))) = Inr \<lparr>ih_fm = it_fm it, ih_summary = it_summary it\<rparr>"
  using item_encodes[OF assms] parse_item_lines[OF assms, of "Some (fm_id (it_fm it))"] by blast

section \<open>What parses is well-formed\<close>

lemma split_frontmatter_lines:
  assumes "split_frontmatter raw = Inr (fml, body)"
  shows "\<exists>t. list_all is_scalar t \<and> (\<forall>l \<in> set fml \<union> set body. 10 \<notin> set l \<and> set l \<subseteq> set t)"
proof -
  from assms obtain t where t: "utf8_decode raw = Some t" by (auto simp: split_frontmatter_def split: option.splits)
  obtain first rest where s: "split_on 10 t = first # rest" using split_on_Cons by blast
  from assms t s have "set fml \<subseteq> set rest" "set body \<subseteq> set rest"
    by (auto simp: split_frontmatter_def Let_def split: if_splits dest: set_takeWhileD in_set_dropD)
  moreover have "\<forall>l \<in> set rest. 10 \<notin> set l \<and> set l \<subseteq> set t"
    using split_on_pieces[of _ 10 t] split_on_chars[of _ 10 t] s by (metis list.set_intros(2))
  ultimately have "\<forall>l \<in> set fml \<union> set body. 10 \<notin> set l \<and> set l \<subseteq> set t" by blast
  with utf8_decode_scalar[OF t] show ?thesis by blast
qed

lemma collect_lines_values:
  assumes "collect_lines seen ls = Inr fm" and "(k, v) \<in> set fm"
  shows "(k, v) \<in> set seen \<or> (\<exists>l \<in> set ls. set v \<subseteq> set l)"
  using assms
proof (induction seen ls rule: collect_lines.induct)
  case (2 seen l ls)
  from 2(2) obtain k' v' where kv: "key_value l = Some (k', v')" "k' \<notin> set (keys seen)"
    "collect_lines (seen @ [(k', v')]) ls = Inr fm"
    by (auto split: option.splits if_splits)
  then have "set v' \<subseteq> set l"
    by (auto simp: key_value_def Let_def split: if_splits dest!: in_set_dropD) (meson dropWhile_subset subsetD)
  with 2(1)[OF kv(1) refl kv(2,3) 2(3)] show ?case by auto
qed simp

lemma parse_tag_list_safe: "parse_tag_list ts = Inr tags \<Longrightarrow> list_all safe_token tags"
  by (induction ts arbitrary: tags) (auto simp: and_then_eq_Inr split: if_splits)

lemma parse_tags_safe: "parse_tags v = Inr tags \<Longrightarrow> list_all safe_token tags"
  by (auto simp: parse_tags_def Let_def split: if_splits dest: parse_tag_list_safe)

lemma parse_frontmatter_ok:
  assumes run: "parse_frontmatter fml stem = Inr fm" and plain: "\<forall>l \<in> set fml. 10 \<notin> set l"
  shows "fm_ok fm" and "stem \<noteq> None \<Longrightarrow> stem = Some (fm_id fm)"
    and "fm_resume_when fm = [] \<or> (\<exists>l \<in> set fml. set (fm_resume_when fm) \<subseteq> set l)"
proof -
  from run obtain pairs where pairs: "collect_lines [] fml = Inr pairs"
    and check: "check_frontmatter (entry pairs) stem = Inr ()" and tags: "parse_tags (entry pairs ''tags'') = Inr (fm_tags fm)"
    and fm: "fm_schema fm = entry pairs ''schema''" "fm_id fm = entry pairs ''id''" "fm_task fm = entry pairs ''task''"
      "fm_reason fm = entry pairs ''reason''" "fm_priority fm = entry pairs ''priority''"
      "fm_status fm = entry pairs ''status''" "fm_created fm = entry pairs ''created_utc''"
      "fm_updated fm = entry pairs ''updated_utc''" "fm_generation fm = entry pairs ''generation''"
      "fm_source fm = entry pairs ''source''" "fm_superseded_by fm = entry pairs ''superseded_by''"
      "fm_resume_when fm = entry pairs ''resume_when''"
    by (auto simp: parse_frontmatter_def and_then_eq_Inr Let_def split: if_splits)
  show resume: "fm_resume_when fm = [] \<or> (\<exists>l \<in> set fml. set (fm_resume_when fm) \<subseteq> set l)"
    using collect_lines_values[OF pairs] map_of_SomeD[of pairs "u ''resume_when''"]
    by (fastforce simp: fm entry_def split: option.splits)
  then have "10 \<notin> set (fm_resume_when fm)" using plain by auto
  with check parse_tags_safe[OF tags] show "fm_ok fm"
    unfolding fm_ok_def fm check_frontmatter_def by (auto split: if_splits)
  from check show "stem \<noteq> None \<Longrightarrow> stem = Some (fm_id fm)"
    unfolding fm check_frontmatter_def by (auto split: if_splits)
qed

lemma fill_sections_lines:
  assumes "fill_sections cur b ls = Inr b'"
  shows "set (b' sec) \<subseteq> set (b sec) \<union> {l \<in> set ls. header_name l = None}"
  using assms
proof (induction cur b ls rule: fill_sections.induct)
  case (2 cur b l ls)
  show ?case
  proof (cases "header_name l")
    case (Some name)
    with 2 show ?thesis by (auto split: option.splits)
  next
    case None
    show ?thesis
    proof (cases cur)
      case None
      from \<open>header_name l = None\<close> None 2(4) have "blank l" "fill_sections cur b ls = Inr b'"
        by (auto split: if_splits)
      from 2(1)[OF \<open>header_name l = None\<close> None this] show ?thesis by auto
    next
      case (Some s)
      from \<open>header_name l = None\<close> Some 2(4) have "fill_sections cur (b(s := b s @ [l])) ls = Inr b'" by simp
      from 2(2)[OF \<open>header_name l = None\<close> Some this] \<open>header_name l = None\<close> show ?thesis by (auto split: if_splits)
    qed
  qed
qed simp

lemma body_text_ok:
  assumes "\<forall>l \<in> set ls. 10 \<notin> set l \<and> header_name l = None"
  shows "body_ok (strip_outer_blanks ls)"
proof (cases "outer_trimmed ls = []")
  case True
  have "header_name [] = None" by (simp add: header_name_def)
  moreover have "strip_outer_blanks [[]] = []" by (simp add: strip_outer_blanks_def outer_trimmed_def)
  ultimately show ?thesis using True by (simp add: body_ok_def strip_outer_blanks_def[of ls])
next
  case False
  have "\<forall>l \<in> set (outer_trimmed ls). 10 \<notin> set l \<and> header_name l = None" using assms outer_trimmed_set by blast
  with False have "\<forall>l \<in> set (split_on 10 (strip_outer_blanks ls)). header_name l = None"
    by (simp add: strip_outer_blanks_def split_join_plain)
  with trimmed_text_strip[of ls] assms show ?thesis by (simp add: body_ok_def)
qed

lemma join_chars: "set (join_with sep ls) \<subseteq> set sep \<union> \<Union> (set ` set ls)"
  by (induction sep ls rule: join_with.induct) auto

lemma strip_outer_chars:
  "\<forall>l \<in> set ls. list_all is_scalar l \<Longrightarrow> list_all is_scalar (strip_outer_blanks ls)"
  using outer_trimmed_set[of ls] unfolding strip_outer_blanks_def
  by (intro join_scalar) (auto simp: list_all_iff is_scalar_def)

lemma parsed_item_ok:
  assumes "parse_full raw stem = Inr it"
  shows "item_ok it" and "stem \<noteq> None \<Longrightarrow> stem = Some (fm_id (it_fm it))"
proof -
  from assms obtain fml body fm rest b where split: "split_frontmatter raw = Inr (fml, body)"
    and fm: "parse_frontmatter fml stem = Inr fm" "it_fm it = fm"
    and title: "parse_title body = Inr (it_summary it, rest)"
    and fill: "fill_sections None (\<lambda>_. []) rest = Inr b"
    and it: "it_snapshot it = strip_outer_blanks (b SnapshotSection)" "it_log it = filter (\<lambda>l. \<not> blank l) (b LogSection)"
      "it_context it = strip_outer_blanks (b ContextSection)"
    by (auto simp: parse_full_def parse_sections_def and_then_eq_Inr)
  from split_frontmatter_lines[OF split] obtain t where t: "list_all is_scalar t"
    "\<forall>l \<in> set fml \<union> set body. 10 \<notin> set l \<and> set l \<subseteq> set t" by blast
  then have scalar: "list_all is_scalar l" if "l \<in> set fml \<union> set body" for l
    using that by (auto simp: list_all_iff)
  have "\<forall>l \<in> set fml. 10 \<notin> set l" using t(2) by blast
  note fm_ok = parse_frontmatter_ok[OF fm(1) this]
  from fm_ok(2) fm(2) show "stem \<noteq> None \<Longrightarrow> stem = Some (fm_id (it_fm it))" by simp
  from title obtain l where l: "dropWhile blank body = l # rest" "it_summary it = strip (drop 2 l)" "it_summary it \<noteq> []"
    by (auto simp: parse_title_def split: list.splits if_splits)
  then have in_body: "set (l # rest) \<subseteq> set body" using dropWhile_subset[of blank body] by simp
  have lines: "\<forall>x \<in> set (b sec). 10 \<notin> set x \<and> header_name x = None \<and> list_all is_scalar x" for sec
    using fill_sections_lines[OF fill, of sec] in_body t(2) scalar by fastforce
  have summary: "set (it_summary it) \<subseteq> set l"
    using l(2) strip_subset[of "drop 2 l"] set_drop_subset[of 2 l] by simp
  have "list_all is_scalar (fm_resume_when fm)"
    using fm_ok(3) scalar by (auto simp: list_all_iff)
  moreover have "list_all is_scalar (it_summary it)" "10 \<notin> set (it_summary it)"
    using summary in_body scalar[of l] t(2) by (auto simp: list_all_iff)
  moreover have "list_all is_scalar (it_snapshot it)" "list_all is_scalar (it_context it)"
    unfolding it using lines by (auto intro: strip_outer_chars)
  moreover have "list_all is_scalar (concat (it_log it))" unfolding it using lines by (auto simp: list_all_iff)
  moreover have "body_ok (it_snapshot it)" "body_ok (it_context it)" unfolding it using lines by (auto intro: body_text_ok)
  moreover have "list_all log_entry_ok (it_log it)" unfolding it using lines by (auto simp: list_all_iff log_entry_ok_def)
  ultimately show "item_ok it" using fm_ok(1) fm(2) l by (simp add: item_ok_def item_text_def)
qed

section \<open>Properties\<close>

text \<open>
  C22: an item's file reads back as the item.  Every well-formed item can be written, and both the full
  parser and the header parser return exactly what was written: its front matter field by field, its
  title, its snapshot, every line of its log and its context.
\<close>

theorem item_file_roundtrip:
  assumes "item_ok it"
  shows "\<exists>raw. serialize_item it = Some raw \<and> parse_full raw (Some (fm_id (it_fm it))) = Inr it
    \<and> parse_header raw (Some (fm_id (it_fm it))) = Inr \<lparr>ih_fm = it_fm it, ih_summary = it_summary it\<rparr>"
  by (rule serialize_parses[OF assms])

definition sample_item :: item where
  "sample_item = \<lparr>it_fm = \<lparr>fm_schema = SCHEMA, fm_id = u ''i1'', fm_task = u ''t1'', fm_reason = u ''failed'',
     fm_priority = u ''urgent'', fm_status = u ''open'', fm_created = u ''2026-01-02T03:04:05Z'',
     fm_updated = u ''2026-01-02T03:04:05Z'', fm_generation = u ''none'', fm_source = u ''status'',
     fm_superseded_by = u ''none'', fm_resume_when = u ''none'', fm_tags = [u ''a'', u ''b'']\<rparr>,
     it_summary = u ''look here'', it_snapshot = u ''text'', it_log = [u ''- made''], it_context = []\<rparr>"

lemma sample_item_ok: "item_ok sample_item"
proof -
  have "is_timestamp (u ''2026-01-02T03:04:05Z'')" by (simp add: is_timestamp_def is_decimal_def DECIMAL_BLOCKS_def)
  then show ?thesis
    by (simp add: item_ok_def sample_item_def item_text_def is_scalar_def fm_ok_def safe_token_def safe_char_def
        is_letter_def is_digit_def LEDGER_REASONS_def LEDGER_PRIORITIES_def STATUSES_def SOURCES_def body_ok_def
        strip_def lstrip_def is_space_def strip_outer_blanks_def outer_trimmed_def blank_def header_name_def
        log_entry_ok_def)
qed

lemma item_file_roundtrip_witness:
  "\<exists>raw. serialize_item sample_item = Some raw \<and> parse_full raw (Some (u ''i1'')) = Inr sample_item"
  using item_file_roundtrip[OF sample_item_ok] by (auto simp: sample_item_def simp del: u_simps)

end
