(* ===== verification/Ledger_Theorems.thy ===== *)
theory Ledger_Theorems
  imports Ledger Ledger_Item_Facts
begin

text \<open>
  What the commands of the attention ledger keep: every item that reads stays readable and only
  grows at the end of its log, a superseded item is final, an addition leaves one open item for its
  task and reason, and a walk over the pages of a listing meets every record once.
\<close>

section \<open>What the commands write is well-formed\<close>

text \<open>Words and single lines.\<close>

definition word :: "ucs \<Rightarrow> bool" where
  "word w \<longleftrightarrow> w \<noteq> [] \<and> list_all (\<lambda>c. \<not> is_space c) w"

lemma words_from_words:
  "list_all (\<lambda>c. \<not> is_space c) cur \<Longrightarrow> list_all word (words_from cur cs)"
proof (induction cur cs rule: words_from.induct)
  case (1 cur)
  then show ?case by (simp add: word_def)
next
  case (2 cur c cs)
  show ?case
  proof (cases "is_space c")
    case True
    with 2 have "list_all word (words_from [] cs)" by (cases "cur = []") simp_all
    with True 2 show ?thesis by (simp add: word_def)
  next
    case False
    with 2(3)[OF False] 2(4) show ?thesis by simp
  qed
qed

lemma word_ends: "word w \<Longrightarrow> \<not> is_space (hd w) \<and> \<not> is_space (last w)"
  by (simp add: word_def list_all_iff)

lemma join_with_ends:
  assumes "ls \<noteq> []" and "\<forall>l \<in> set ls. l \<noteq> []"
  shows "join_with sep ls \<noteq> [] \<and> hd (join_with sep ls) = hd (hd ls) \<and> last (join_with sep ls) = last (last ls)"
  using assms by (induction sep ls rule: join_with.induct) (auto simp: hd_append)

lemma sanitize_line_facts:
  shows "10 \<notin> set (sanitize_line t)" and "strip (sanitize_line t) = sanitize_line t"
proof -
  define ws where "ws = words_from [] (map (\<lambda>c. if c = 13 \<or> c = 10 then 32 else c) t)"
  have words: "list_all word ws" unfolding ws_def by (rule words_from_words) simp
  have join: "sanitize_line t = join_with [32] ws" by (simp add: sanitize_line_def ws_def)
  have "is_space 10" by (simp add: is_space_def)
  with words have "10 \<notin> \<Union> (set ` set ws)" by (auto simp: list_all_iff word_def)
  with join_chars[of "[32]" ws] show "10 \<notin> set (sanitize_line t)" by (auto simp: join)
  show "strip (sanitize_line t) = sanitize_line t"
  proof (cases "ws = []")
    case True
    then show ?thesis by (simp add: join strip_def lstrip_def)
  next
    case False
    with words have "word (hd ws)" "word (last ws)" and ne: "\<forall>w \<in> set ws. w \<noteq> []"
      by (auto simp: list_all_iff word_def)
    with join_with_ends[OF False ne, of "[32]"] word_ends show ?thesis unfolding join by (intro strip_id) auto
  qed
qed

text \<open>Stamps.\<close>

definition instant_ok :: "instant \<Rightarrow> bool" where
  "instant_ok now \<longleftrightarrow> 1000 \<le> at_year now \<and> at_year now \<le> 9999 \<and> at_month now \<le> 12 \<and> at_day now \<le> 31
     \<and> at_hour now \<le> 23 \<and> at_minute now \<le> 59 \<and> at_second now \<le> 59"

lemma digit_decimal: "n < 10 \<Longrightarrow> is_decimal (48 + n)"
  by (simp add: is_decimal_def DECIMAL_BLOCKS_def)

lemma decimal_four:
  assumes "1000 \<le> n" and "n \<le> 9999"
  shows "decimal n = [48 + n div 1000, 48 + n div 100 mod 10, 48 + n div 10 mod 10, 48 + n mod 10]"
proof -
  have "n div 10 div 10 = n div 100" "n div 100 div 10 = n div 1000" by (simp_all add: div_mult2_eq[symmetric])
  moreover have "\<not> n < 10" "\<not> n div 10 < 10" "\<not> n div 100 < 10" "n div 1000 < 10" using assms by auto
  ultimately show ?thesis by (simp add: decimal.simps[of n] decimal.simps[of "n div 10"]
        decimal.simps[of "n div 100"] decimal.simps[of "n div 1000"])
qed

lemma stamp_is_timestamp:
  assumes "instant_ok now"
  shows "is_timestamp (stamp_seconds now)"
proof -
  from assms have "decimal (at_year now) = [48 + at_year now div 1000, 48 + at_year now div 100 mod 10,
      48 + at_year now div 10 mod 10, 48 + at_year now mod 10]" by (simp add: decimal_four instant_ok_def)
  moreover have "at_year now div 1000 < 10" "at_month now div 10 < 10" "at_day now div 10 < 10" "at_hour now div 10 < 10"
    "at_minute now div 10 < 10" "at_second now div 10 < 10" using assms by (auto simp: instant_ok_def)
  ultimately show ?thesis by (simp add: is_timestamp_def stamp_seconds_def two_digits_def digit_decimal)
qed

lemma decimal_digits: "list_all is_decimal (decimal n) \<and> decimal n \<noteq> []"
proof (induction n rule: decimal.induct)
  case (1 n)
  then show ?case by (cases "n < 10") (simp_all add: decimal.simps[of n] digit_decimal)
qed

lemma decimal_length: "n < 10 ^ Suc k \<Longrightarrow> length (decimal n) \<le> Suc k"
proof (induction k arbitrary: n)
  case (Suc k)
  have "n div 10 < 10 ^ Suc k" using Suc.prems by (simp add: div_less_iff_less_mult mult.commute)
  with Suc.IH show ?case by (simp add: decimal.simps[of n])
qed (simp add: decimal.simps)

lemma log_line_ok:
  assumes "instant_ok now" and "old \<in> set STATUSES \<union> {u ''new''}" and "new \<in> set STATUSES"
  shows "log_entry_ok (log_line now old new msg)"
proof -
  have plain: "10 \<notin> set v" if "v \<in> set STATUSES \<union> {u ''new''}" for v
    using that words_plain(3) by (auto simp: list_all_iff)
  have "10 \<notin> set (stamp_seconds now)" by (rule timestamp_plain) (rule stamp_is_timestamp[OF assms(1)])
  with plain[of old] plain[of new] assms(2,3) sanitize_line_facts(1)[of msg] show ?thesis
    by (simp add: log_entry_ok_def log_line_def blank_iff header_name_def is_space_def)
qed

lemma collect_tokens_safe: "collect_tokens tags ts = Inr tags' \<Longrightarrow> list_all safe_token tags \<Longrightarrow> list_all safe_token tags'"
  by (induction tags ts rule: collect_tokens.induct) (auto simp: Let_def split: if_splits)

section \<open>Writing an item\<close>

text \<open>The file format without the encoding: an item of this shape that can be encoded reads back.\<close>

definition item_shape :: "item \<Rightarrow> bool" where
  "item_shape it \<longleftrightarrow> fm_ok (it_fm it) \<and> it_summary it \<noteq> [] \<and> strip (it_summary it) = it_summary it
     \<and> 10 \<notin> set (it_summary it) \<and> body_ok (it_snapshot it) \<and> list_all log_entry_ok (it_log it)
     \<and> body_ok (it_context it)"

lemma item_ok_shape: "item_ok it \<longleftrightarrow> list_all is_scalar (item_text it) \<and> item_shape it"
  by (auto simp: item_ok_def item_shape_def)

lemma join_with_parts: "l \<in> set ls \<Longrightarrow> set l \<subseteq> set (join_with sep ls)"
  by (induction sep ls rule: join_with.induct) auto

lemma encoded_is_scalar:
  assumes "serialize_item it = Some raw"
  shows "list_all is_scalar (item_text it)"
proof -
  from assms have all: "list_all is_scalar (join_with [10] (item_lines it))"
    by (auto simp: serialize_item_def utf8_encode_def split: if_splits)
  have line: "list_all is_scalar l" if "l \<in> set (item_lines it)" for l
    using join_with_parts[OF that, of "[10]"] all by (auto simp: list_all_iff)
  have "fm_line ''resume_when'' (fm_resume_when (it_fm it)) \<in> set (item_lines it)"
    "u ''# '' @ it_summary it \<in> set (item_lines it)" "it_snapshot it \<in> set (item_lines it)"
    "it_context it \<in> set (item_lines it)"
    by (simp_all add: item_lines_def fm_lines_of_def)
  then have "list_all is_scalar (fm_resume_when (it_fm it))" "list_all is_scalar (it_summary it)"
    "list_all is_scalar (it_snapshot it)" "list_all is_scalar (it_context it)"
    by (auto simp: fm_line_def dest: line)
  moreover have "set (it_log it) \<subseteq> set (item_lines it)" by (auto simp: item_lines_def)
  then have "list_all is_scalar (concat (it_log it))" using line by (auto simp: list_all_iff subset_iff)
  ultimately show ?thesis by (simp add: item_text_def)
qed

lemma written_item_reads:
  assumes "item_shape it" and "serialize_item it = Some raw"
  shows "parse_full raw (Some (fm_id (it_fm it))) = Inr it"
proof -
  have "item_ok it" using assms encoded_is_scalar by (simp add: item_ok_shape)
  from serialize_parses[OF this] assms(2) show ?thesis by auto
qed

section \<open>Items of a directory\<close>

definition item_at :: "items_dir \<Rightarrow> ucs \<Rightarrow> item option" where
  "item_at dir name = (case map_of dir name of
       Some (Regular raw) \<Rightarrow> if is_md name then (case parse_full raw (Some (stem_of name)) of Inr it \<Rightarrow> Some it | Inl _ \<Rightarrow> None)
         else None
     | _ \<Rightarrow> None)"

lemma item_at_Some:
  "item_at dir name = Some it \<longleftrightarrow> (\<exists>raw. map_of dir name = Some (Regular raw) \<and> is_md name
     \<and> parse_full raw (Some (stem_of name)) = Inr it)"
  by (auto simp: item_at_def split: option.splits stored.splits sum.splits)

lemma item_at_facts:
  assumes "item_at dir name = Some it"
  shows "item_ok it" and "fm_id (it_fm it) = stem_of name" and "is_md name"
  using assms parsed_item_ok by (force simp: item_at_Some)+

lemma md_names [simp]: "is_md (md_name n)" "stem_of (md_name n) = n"
  by (simp_all add: is_md_def md_name_def stem_of_def suffix_def)

lemma is_md_name: "is_md name \<Longrightarrow> md_name (stem_of name) = name"
  by (auto simp: is_md_def md_name_def stem_of_def suffix_def)

lemma map_of_write: "map_of (atomic_write name data dir) = (map_of dir)(name \<mapsto> Regular data)"
  by (simp add: atomic_write_def update_conv')

lemma item_at_cong: "map_of dir' name = map_of dir name \<Longrightarrow> item_at dir' name = item_at dir name"
  by (simp add: item_at_def)

lemma item_at_write:
  assumes "item_shape it" and "serialize_item it = Some data" and "fm_id (it_fm it) = stem_of name" and "is_md name"
  shows "item_at (atomic_write name data dir) name = Some it"
  using assms written_item_reads[OF assms(1,2)] by (simp add: item_at_Some map_of_write)

lemma superseding_item:
  "superseding task reason dir name = Some it \<longleftrightarrow> item_at dir name = Some it \<and> fm_task (it_fm it) = task
     \<and> fm_reason (it_fm it) = reason \<and> fm_status (it_fm it) \<in> {u ''open'', u ''deferred''}"
  by (auto simp: superseding_def item_at_def split: option.splits stored.splits sum.splits if_splits)


section \<open>Updating an item\<close>

text \<open>What never changes of an item, and what only grows.\<close>

definition stable :: "item \<Rightarrow> ucs list" where
  "stable it = [fm_schema (it_fm it), fm_id (it_fm it), fm_task (it_fm it), fm_reason (it_fm it), fm_created (it_fm it),
     fm_generation (it_fm it), fm_source (it_fm it), it_summary it, it_snapshot it, it_context it]"

definition keeps :: "item \<Rightarrow> item \<Rightarrow> bool" where
  "keeps it it' \<longleftrightarrow> stable it' = stable it \<and> prefix (fm_tags (it_fm it)) (fm_tags (it_fm it'))
     \<and> prefix (it_log it) (it_log it') \<and> (fm_status (it_fm it) = u ''superseded'' \<longrightarrow> it' = it)"

lemma keeps_refl: "keeps it it"
  by (simp add: keeps_def)

lemma keeps_trans: "keeps a b \<Longrightarrow> keeps b c \<Longrightarrow> keeps a c"
  using prefix_order.trans unfolding keeps_def by (cases "fm_status (it_fm a) = u ''superseded''") (simp_all del: u_simps, blast)

lemma keeps_id: "keeps it it' \<Longrightarrow> fm_id (it_fm it') = fm_id (it_fm it)"
  by (simp add: keeps_def stable_def)

text \<open>What the clock and the command line's choices guarantee.\<close>

definition legal_update :: "update_args \<Rightarrow> bool" where
  "legal_update a \<longleftrightarrow> instant_ok (up_now a) \<and> (case up_priority a of Some p \<Rightarrow> p \<in> set LEDGER_PRIORITIES | None \<Rightarrow> True)"

lemma statuses: "u ''open'' \<in> set STATUSES" "u ''handled'' \<in> set STATUSES" "u ''deferred'' \<in> set STATUSES"
  "u ''superseded'' \<in> set STATUSES"
  by (simp_all add: STATUSES_def)

lemma updated_item_ok:
  assumes run: "updated_item a it = Inr (it', old, new)" and legal: "legal_update a" and shape: "item_shape it"
    and live: "fm_status (it_fm it) \<noteq> u ''superseded''"
    and settable: "up_status a = None \<or> up_status a \<in> Some ` {u ''open'', u ''handled'', u ''deferred''}"
  shows "item_shape it' \<and> keeps it it'"
proof -
  define nu where "nu = (case up_status a of Some s \<Rightarrow> s | None \<Rightarrow> fm_status (it_fm it))"
  define given where "given = (case up_resume_when a of
      Some w \<Rightarrow> (if sanitize_line w = [] then u ''none'' else sanitize_line w) | None \<Rightarrow> fm_resume_when (it_fm it))"
  define resume where "resume = (if nu \<noteq> u ''deferred'' \<and> up_resume_when a = None then u ''none'' else given)"
  define pri where "pri = (case up_priority a of Some p \<Rightarrow> p | None \<Rightarrow> fm_priority (it_fm it))"
  note run' = run[unfolded updated_item_def Let_def, folded nu_def given_def pri_def, folded resume_def]
  have fine: "\<not> (nu = u ''deferred'' \<and> given \<in> set NONE_TOKENS)"
  proof
    assume "nu = u ''deferred'' \<and> given \<in> set NONE_TOKENS"
    with run' show False by (simp only: if_True simp_thms sum.simps)
  qed
  then obtain tags where tags: "collect_tags (up_tags a) = Inr tags"
    using run' by (cases "collect_tags (up_tags a)") (simp_all only: if_False and_then_simps sum.simps)
  let ?fm = "(it_fm it)\<lparr>fm_priority := pri, fm_tags := fm_tags (it_fm it) @ filter (\<lambda>t. t \<notin> set (fm_tags (it_fm it))) tags,
                fm_status := nu, fm_resume_when := resume, fm_updated := stamp_seconds (up_now a)\<rparr>"
  let ?line = "log_line (up_now a) (fm_status (it_fm it)) nu (sanitize_line (up_note a))"
  from run'[unfolded if_not_P[OF fine] tags and_then_simps sum.inject prod.inject]
  have "it\<lparr>it_fm := ?fm, it_log := it_log it @ [?line]\<rparr> = it'" by (rule conjunct1)
  then have it': "it_fm it' = ?fm" "it_log it' = it_log it @ [?line]" "it_summary it' = it_summary it"
    "it_snapshot it' = it_snapshot it" "it_context it' = it_context it" by (auto simp del: u_simps)
  have now: "instant_ok (up_now a)" using legal by (simp add: legal_update_def)
  have fm: "fm_ok (it_fm it)" using shape by (simp add: item_shape_def)
  then have old_ok: "fm_status (it_fm it) \<in> set STATUSES" by (simp add: fm_ok_def)
  have new_ok: "nu \<in> set STATUSES"
  proof (cases "up_status a")
    case None
    with old_ok show ?thesis by (simp add: nu_def)
  next
    case (Some st)
    with settable have "st = u ''open'' \<or> st = u ''handled'' \<or> st = u ''deferred''" by (auto simp del: u_simps)
    with statuses show ?thesis by (elim disjE) (simp_all only: nu_def Some option.case)
  qed
  have "10 \<notin> set given" using fm sanitize_line_facts(1) words_plain(6)
    by (simp add: given_def fm_ok_def del: u_simps split: option.splits)
  then have plain: "10 \<notin> set resume" using words_plain(6) by (simp add: resume_def del: u_simps)
  have pri: "pri \<in> set LEDGER_PRIORITIES"
    using legal fm by (simp add: pri_def legal_update_def fm_ok_def split: option.splits)
  have "list_all safe_token tags" using collect_tokens_safe[of "[]"] tags by (auto simp: collect_tags_def)
  then have "list_all safe_token (fm_tags (it_fm it) @ filter (\<lambda>t. t \<notin> set (fm_tags (it_fm it))) tags)"
    using fm by (auto simp: fm_ok_def list_all_iff)
  then have "fm_ok (it_fm it')" using fm new_ok plain pri stamp_is_timestamp[OF now] by (simp add: fm_ok_def it' del: u_simps)
  moreover have "log_entry_ok ?line"
    using now old_ok new_ok by (intro log_line_ok) auto
  ultimately have "item_shape it'" using shape unfolding item_shape_def by (simp add: it' del: u_simps)
  moreover have "keeps it it'" using live by (simp add: keeps_def stable_def it' del: u_simps)
  ultimately show ?thesis by blast
qed

lemma cmd_update_effect:
  assumes run: "cmd_update a dir = (r, dir')" and legal: "legal_update a"
  shows "dir' = dir \<or> (\<exists>it it' old new. r = Inr (old, new) \<and> item_at dir (md_name (up_id a)) = Some it
    \<and> fm_status (it_fm it) \<noteq> u ''superseded'' \<and> updated_item a it = Inr (it', old, new) \<and> keeps it it'
    \<and> (\<forall>n. map_of dir' n = map_of dir n \<or> n = md_name (up_id a)) \<and> item_at dir' (md_name (up_id a)) = Some it')"
proof (cases "dir' = dir")
  case False
  with run obtain raw it it' old new data where raw: "map_of dir (md_name (up_id a)) = Some (Regular raw)"
    "parse_full raw (Some (up_id a)) = Inr it" and live: "fm_status (it_fm it) \<noteq> u ''superseded''"
    and upd: "updated_item a it = Inr (it', old, new)" and data: "serialize_item it' = Some data"
    and dir': "dir' = atomic_write (md_name (up_id a)) data dir" and r: "r = Inr (old, new)"
    and settable: "\<not> (case up_status a of Some s \<Rightarrow> s \<notin> {u ''open'', u ''handled'', u ''deferred''} | None \<Rightarrow> False)"
    unfolding cmd_update_def by (auto simp del: u_simps split: if_splits option.splits stored.splits sum.splits)
  have at: "item_at dir (md_name (up_id a)) = Some it" using raw by (simp add: item_at_Some)
  from settable have "up_status a = None \<or> up_status a \<in> Some ` {u ''open'', u ''handled'', u ''deferred''}"
    by (auto simp del: u_simps split: option.splits)
  moreover have shape: "item_shape it" using item_at_facts(1)[OF at] by (simp add: item_ok_shape)
  ultimately have ok: "item_shape it'" "keeps it it'" using updated_item_ok[OF upd legal] live by blast+
  then have "fm_id (it_fm it') = stem_of (md_name (up_id a))" using item_at_facts(2)[OF at] by (simp add: keeps_id)
  with ok data have "item_at dir' (md_name (up_id a)) = Some it'" unfolding dir' by (intro item_at_write) simp_all
  moreover have "\<forall>n. map_of dir' n = map_of dir n \<or> n = md_name (up_id a)" by (simp add: dir' map_of_write)
  ultimately show ?thesis using r at live upd ok(2) by blast
qed simp

section \<open>Superseding\<close>

lemma superseded_item_ok:
  assumes "item_shape it" and "instant_ok now" and "safe_token new_id" and "fm_status (it_fm it) \<noteq> u ''superseded''"
  shows "item_shape (superseded_item new_id now it) \<and> keeps it (superseded_item new_id now it)"
proof -
  have "fm_ok (it_fm (superseded_item new_id now it))"
    using assms stamp_is_timestamp[OF assms(2)] statuses by (simp add: item_shape_def fm_ok_def superseded_item_def)
  moreover have "log_entry_ok (log_line now (u ''superseded'') (u ''superseded'') (u ''superseded by '' @ new_id))"
    using assms(2) statuses by (intro log_line_ok) auto
  ultimately show ?thesis using assms(1,4) by (simp add: item_shape_def keeps_def stable_def superseded_item_def)
qed

text \<open>What supersession does to one file.\<close>

definition superseded_or_same :: "ucs \<Rightarrow> ucs \<Rightarrow> ucs \<Rightarrow> instant \<Rightarrow> items_dir \<Rightarrow> items_dir \<Rightarrow> ucs \<Rightarrow> bool" where
  "superseded_or_same task reason new_id now dir dir' n \<longleftrightarrow> map_of dir' n = map_of dir n
     \<or> (\<exists>it. superseding task reason dir n = Some it \<and> item_at dir' n = Some (superseded_item new_id now it))"

lemma superseding_cong: "map_of dir' n = map_of dir n \<Longrightarrow> superseding task reason dir' n = superseding task reason dir n"
  by (simp add: superseding_def)

lemma superseded_no_more:
  "item_at dir n = Some (superseded_item new_id now it) \<Longrightarrow> superseding task reason dir n = None"
  by (cases "superseding task reason dir n") (auto simp: superseding_item superseded_item_def u_eq_iff simp del: u_simps)

lemma superseded_write:
  assumes "superseding task reason dir name = Some it" and "serialize_item (superseded_item new_id now it) = Some data"
    and "instant_ok now" and "safe_token new_id"
  shows "item_at (atomic_write name data dir) name = Some (superseded_item new_id now it)"
proof -
  from assms(1) have at: "item_at dir name = Some it" and "fm_status (it_fm it) \<noteq> u ''superseded''"
    by (auto simp: superseding_item u_eq_iff simp del: u_simps)
  with superseded_item_ok[OF _ assms(3,4), of it] item_at_facts(1)[OF at]
  have "item_shape (superseded_item new_id now it)" by (simp add: item_ok_shape del: u_simps)
  moreover have "fm_id (it_fm (superseded_item new_id now it)) = fm_id (it_fm it)" by (simp add: superseded_item_def)
  ultimately show ?thesis using assms(2) item_at_facts(2,3)[OF at] by (intro item_at_write) simp_all
qed

lemma superseded_or_same_trans:
  assumes "superseded_or_same task reason new_id now dir dir1 n" and "superseded_or_same task reason new_id now dir1 dir2 n"
  shows "superseded_or_same task reason new_id now dir dir2 n"
proof (cases "map_of dir1 n = map_of dir n")
  case True
  with assms(2) superseding_cong[OF True] show ?thesis by (simp add: superseded_or_same_def)
next
  case False
  with assms(1) obtain it where it: "superseding task reason dir n = Some it"
    "item_at dir1 n = Some (superseded_item new_id now it)" by (auto simp: superseded_or_same_def)
  from assms(2) superseded_no_more[OF it(2)] have "map_of dir2 n = map_of dir1 n" by (simp add: superseded_or_same_def)
  from item_at_cong[OF this] it show ?thesis by (simp add: superseded_or_same_def)
qed

lemma superseding_stays_None:
  assumes "superseded_or_same task reason new_id now dir dir' n" and "superseding task reason dir n = None"
  shows "superseding task reason dir' n = None"
proof -
  from assms have "map_of dir' n = map_of dir n" by (simp add: superseded_or_same_def)
  from superseding_cong[OF this] assms(2) show ?thesis by simp
qed

text \<open>One pass over the names: every file is rewritten as superseded or left, and none is left over.\<close>

lemma supersede_names_effect:
  assumes "supersede_names task reason new_id now gone names dir = (r, dir')" and "instant_ok now" and "safe_token new_id"
  shows "superseded_or_same task reason new_id now dir dir' n \<and> (n \<notin> set names \<longrightarrow> map_of dir' n = map_of dir n)
    \<and> ((\<exists>g. r = Inr g) \<longrightarrow> n \<in> set names \<longrightarrow> superseding task reason dir' n = None)"
  using assms(1)
proof (induction names arbitrary: gone dir)
  case Nil
  then show ?case by (simp add: superseded_or_same_def)
next
  case (Cons name names)
  show ?case
  proof (cases "superseding task reason dir name")
    case None
    with Cons.prems have "supersede_names task reason new_id now gone names dir = (r, dir')" by simp
    from Cons.IH[OF this] None superseding_stays_None show ?thesis by auto
  next
    case (Some it)
    show ?thesis
    proof (cases "serialize_item (superseded_item new_id now it)")
      case None
      with Some Cons.prems show ?thesis by (auto simp: superseded_or_same_def)
    next
      case (Some data)
      let ?dir1 = "atomic_write name data dir"
      note wrote = superseded_write[OF \<open>superseding task reason dir name = Some it\<close> Some assms(2,3)]
      from Some \<open>superseding task reason dir name = Some it\<close> Cons.prems
      have "supersede_names task reason new_id now (gone @ [fm_id (it_fm it)]) names ?dir1 = (r, dir')" by simp
      note IH = Cons.IH[OF this]
      have first: "superseded_or_same task reason new_id now dir ?dir1 n"
        using \<open>superseding task reason dir name = Some it\<close> wrote
        by (cases "n = name") (auto simp: superseded_or_same_def map_of_write)
      have "n \<noteq> name \<Longrightarrow> map_of ?dir1 n = map_of dir n" by (simp add: map_of_write)
      moreover have "n = name \<Longrightarrow> superseding task reason dir' n = None"
        using IH superseding_stays_None[of task reason new_id now ?dir1 dir' n] superseded_no_more[OF wrote, of task reason]
        by simp
      ultimately show ?thesis using IH superseded_or_same_trans[OF first] by auto
    qed
  qed
qed

text \<open>The identifiers it returns.\<close>

lemma supersede_names_result:
  assumes "supersede_names task reason new_id now gone names dir = (Inr g, dir')" and "distinct names"
  shows "g = gone @ map stem_of (filter (\<lambda>n. superseding task reason dir n \<noteq> None) names)"
  using assms
proof (induction names arbitrary: gone dir)
  case (Cons name names)
  show ?case
  proof (cases "superseding task reason dir name")
    case None
    with Cons show ?thesis by simp
  next
    case (Some it)
    with Cons.prems obtain data where
      run: "supersede_names task reason new_id now (gone @ [fm_id (it_fm it)]) names (atomic_write name data dir) = (Inr g, dir')"
      by (auto split: option.splits)
    have id: "fm_id (it_fm it) = stem_of name" using Some item_at_facts(2)[of dir name it] by (simp add: superseding_item)
    have "superseding task reason (atomic_write name data dir) n = superseding task reason dir n" if "n \<in> set names" for n
      using that Cons.prems(2) by (intro superseding_cong) (auto simp: map_of_write)
    then have "filter (\<lambda>n. superseding task reason (atomic_write name data dir) n \<noteq> None) names
        = filter (\<lambda>n. superseding task reason dir n \<noteq> None) names" by (intro filter_cong) auto
    with Cons.IH[OF run] Cons.prems(2) Some id show ?thesis by simp
  qed
qed simp

lemma supersede_matches_effect:
  assumes "supersede_matches task reason new_id now dir = (r, dir')" and "instant_ok now" and "safe_token new_id"
  shows "superseded_or_same task reason new_id now dir dir' n"
    and "r = Inr g \<Longrightarrow> superseding task reason dir' n = None"
proof -
  note run = assms(1)[unfolded supersede_matches_def]
  note effect = supersede_names_effect[OF run assms(2,3)]
  show "superseded_or_same task reason new_id now dir dir' n" using effect by blast
  assume "r = Inr g"
  show "superseding task reason dir' n = None"
  proof (cases "n \<in> set (sort (keys dir))")
    case True
    with effect \<open>r = Inr g\<close> show ?thesis by blast
  next
    case False
    with effect have "map_of dir' n = map_of dir n" by blast
    moreover have "map_of dir n = None" using False by (simp add: map_of_eq_None_iff)
    ultimately show ?thesis by (simp add: superseding_def)
  qed
qed

section \<open>Adding an item\<close>

definition legal_add :: "add_args \<Rightarrow> bool" where
  "legal_add a \<longleftrightarrow> instant_ok (ad_now a) \<and> ad_priority a \<in> set LEDGER_PRIORITIES
     \<and> (case ad_generation a of Some g \<Rightarrow> g < 10 ^ 18 | None \<Rightarrow> True)"

lemma guard_eq_Inr: "(if b then Inl e else r) = Inr x \<longleftrightarrow> \<not> b \<and> r = Inr x"
  by simp

lemma read_snapshot_trimmed:
  assumes "read_snapshot file flag stdin = Inr t"
  shows "strip_outer_blanks (split_on 10 t) = t"
proof -
  have trimmed: "strip_outer_blanks (split_on 10 (strip_outer_blanks (split_on 10 x))) = strip_outer_blanks (split_on 10 x)" for x
    using split_on_pieces by (intro trimmed_text_strip) blast
  have "strip_outer_blanks (split_on 10 []) = []" by (simp add: strip_outer_blanks_def outer_trimmed_def)
  with assms trimmed show ?thesis
    by (auto simp: read_snapshot_def Let_def simp del: split_on.simps split: if_splits option.splits)
qed

lemma generation_text:
  assumes "0 \<le> g" and "g < 10 ^ 18"
  shows "is_generation (signed_decimal g)"
proof -
  have "nat g < 10 ^ Suc 17" using assms by (simp add: nat_less_iff)
  from decimal_length[OF this] decimal_digits[of "nat g"] assms(1) show ?thesis
    by (simp add: signed_decimal_def is_generation_def)
qed

text \<open>The new item, field by field.\<close>

lemma new_item_facts:
  assumes run: "new_item fresh a = Inr it" and legal: "legal_add a"
  shows "fm_ok (it_fm it)" and "fm_status (it_fm it) = u ''open''" and "fm_task (it_fm it) = ad_task a"
    and "fm_reason (it_fm it) = ad_reason a" and "it_summary it = sanitize_line (ad_summary a)" and "it_summary it \<noteq> []"
    and "read_snapshot (ad_snapshot_file a) (ad_snapshot a) (ad_stdin a) = Inr (it_snapshot it)"
    and "list_all log_entry_ok (it_log it)" and "it_context it = []" and "safe_token (fm_id (it_fm it))"
proof -
  from run obtain tags item_id snapshot where task: "safe_token (ad_task a)" and reason: "ad_reason a \<in> set LEDGER_REASONS"
    and source: "ad_source a \<in> set SOURCES" and summary: "sanitize_line (ad_summary a) \<noteq> []"
    and gen: "\<not> (case ad_generation a of Some g \<Rightarrow> g < 0 | None \<Rightarrow> False)"
    and snapshot: "read_snapshot (ad_snapshot_file a) (ad_snapshot a) (ad_stdin a) = Inr snapshot"
    and tags: "collect_tags (ad_tags a) = Inr tags" and id: "safe_token item_id"
    and it: "it = \<lparr>it_fm = \<lparr>fm_schema = SCHEMA, fm_id = item_id, fm_task = ad_task a, fm_reason = ad_reason a,
                  fm_priority = ad_priority a, fm_status = u ''open'', fm_created = stamp_seconds (ad_now a),
                  fm_updated = stamp_seconds (ad_now a),
                  fm_generation = (case ad_generation a of None \<Rightarrow> u ''none'' | Some g \<Rightarrow> signed_decimal g),
                  fm_source = ad_source a, fm_superseded_by = u ''none'', fm_resume_when = u ''none'',
                  fm_tags = tags\<rparr>,
                it_summary = sanitize_line (ad_summary a), it_snapshot = snapshot,
                it_log = [log_line (ad_now a) (u ''new'') (u ''open'') (u ''created via '' @ ad_source a)],
                it_context = []\<rparr>"
    unfolding new_item_def Let_def guard_eq_Inr and_then_eq_Inr sum.inject not_not by blast
  have now: "instant_ok (ad_now a)" using legal by (simp add: legal_add_def)
  have "fm_generation (it_fm it) = u ''none'' \<or> is_generation (fm_generation (it_fm it))"
    using gen legal generation_text by (auto simp: it legal_add_def simp del: u_simps split: option.splits)
  moreover have "list_all safe_token tags" using collect_tokens_safe[of "[]"] tags by (auto simp: collect_tags_def)
  ultimately show "fm_ok (it_fm it)"
    using task reason source id statuses(1) legal stamp_is_timestamp[OF now] words_plain(6)
    by (simp add: fm_ok_def it legal_add_def del: u_simps)
  show "list_all log_entry_ok (it_log it)" using now statuses(1) by (simp add: it log_line_ok del: u_simps)
  show "fm_status (it_fm it) = u ''open''" "fm_task (it_fm it) = ad_task a" "fm_reason (it_fm it) = ad_reason a"
    "it_summary it = sanitize_line (ad_summary a)" "it_summary it \<noteq> []"
    "read_snapshot (ad_snapshot_file a) (ad_snapshot a) (ad_stdin a) = Inr (it_snapshot it)"
    "it_context it = []" "safe_token (fm_id (it_fm it))"
    using summary snapshot id by (simp_all add: it)
qed

text \<open>No line of the snapshot reads as a section heading.\<close>

definition plain_text :: "ucs \<Rightarrow> bool" where
  "plain_text t \<longleftrightarrow> (\<forall>l \<in> set (split_on 10 t). header_name l = None)"

lemma new_item_shape:
  assumes "new_item fresh a = Inr it" and "legal_add a" and "plain_text (it_snapshot it)"
  shows "item_shape it"
proof -
  note facts = new_item_facts[OF assms(1,2)]
  have "body_ok (it_snapshot it)"
    using read_snapshot_trimmed[OF facts(7)] assms(3) by (simp add: body_ok_def plain_text_def)
  moreover have "body_ok (it_context it)"
    using headers(4) by (simp add: facts(9) body_ok_def strip_outer_blanks_def outer_trimmed_def)
  moreover have "10 \<notin> set (it_summary it)" "strip (it_summary it) = it_summary it"
    using sanitize_line_facts by (simp_all add: facts(5))
  ultimately show ?thesis using facts(1,6,8) by (simp add: item_shape_def)
qed

text \<open>What an addition does: it supersedes, then creates the new file, or stops with an error.\<close>

lemma cmd_add_effect:
  assumes run: "cmd_add fresh a dir = (r, dir')" and legal: "legal_add a"
  shows "dir' = dir \<or> (\<exists>it dir1 r1. new_item fresh a = Inr it
    \<and> (if ad_no_supersede a then dir1 = dir \<and> r1 = Inr []
       else supersede_matches (ad_task a) (ad_reason a) (fm_id (it_fm it)) (ad_now a) dir = (r1, dir1))
    \<and> (case r1 of Inl e \<Rightarrow> r = Inl e \<and> dir' = dir1
       | Inr gone \<Rightarrow> (\<exists>e. r = Inl e \<and> dir' = dir1
            \<and> (e = EncodeError \<or> md_name (fm_id (it_fm it)) \<in> set (keys dir1)))
         \<or> (\<exists>data. r = Inr (fm_id (it_fm it), gone) \<and> serialize_item it = Some data
            \<and> md_name (fm_id (it_fm it)) \<notin> set (keys dir1)
            \<and> dir' = dir1 @ [(md_name (fm_id (it_fm it)), Regular data)])))"
proof (cases "new_item fresh a")
  case (Inl e)
  with run show ?thesis by (simp add: cmd_add_def)
next
  case (Inr it)
  let ?sup = "if ad_no_supersede a then (Inr [], dir)
      else supersede_matches (ad_task a) (ad_reason a) (fm_id (it_fm it)) (ad_now a) dir"
  obtain r1 dir1 where sup: "?sup = (r1, dir1)" by fastforce
  have "case r1 of Inl e \<Rightarrow> r = Inl e \<and> dir' = dir1
       | Inr gone \<Rightarrow> (\<exists>e. r = Inl e \<and> dir' = dir1
            \<and> (e = EncodeError \<or> md_name (fm_id (it_fm it)) \<in> set (keys dir1)))
         \<or> (\<exists>data. r = Inr (fm_id (it_fm it), gone) \<and> serialize_item it = Some data
            \<and> md_name (fm_id (it_fm it)) \<notin> set (keys dir1)
            \<and> dir' = dir1 @ [(md_name (fm_id (it_fm it)), Regular data)])"
    using run[unfolded cmd_add_def Inr sum.case Let_def sup prod.case]
    by (cases r1; cases "serialize_item it"; cases "md_name (fm_id (it_fm it)) \<in> set (keys dir1)")
      (auto simp: write_new_def)
  moreover have "if ad_no_supersede a then dir1 = dir \<and> r1 = Inr []
       else supersede_matches (ad_task a) (ad_reason a) (fm_id (it_fm it)) (ad_now a) dir = (r1, dir1)"
    using sup by (auto split: if_splits)
  ultimately show ?thesis using Inr by blast
qed

lemma cmd_add_success:
  assumes run: "cmd_add fresh a dir = (Inr (new_id, gone), dir')"
  shows "\<exists>it dir1 data. new_item fresh a = Inr it \<and> new_id = fm_id (it_fm it)
    \<and> (if ad_no_supersede a then dir1 = dir \<and> gone = []
       else supersede_matches (ad_task a) (ad_reason a) new_id (ad_now a) dir = (Inr gone, dir1))
    \<and> serialize_item it = Some data \<and> md_name new_id \<notin> set (keys dir1)
    \<and> dir' = dir1 @ [(md_name new_id, Regular data)]"
proof (cases "new_item fresh a")
  case (Inl e)
  with run show ?thesis by (simp add: cmd_add_def)
next
  case (Inr it)
  let ?sup = "if ad_no_supersede a then (Inr [], dir)
      else supersede_matches (ad_task a) (ad_reason a) (fm_id (it_fm it)) (ad_now a) dir"
  obtain r1 dir1 where sup: "?sup = (r1, dir1)" by fastforce
  from run[unfolded cmd_add_def Inr sum.case Let_def sup prod.case] obtain data where data: "serialize_item it = Some data"
    "r1 = Inr gone" "new_id = fm_id (it_fm it)" "md_name new_id \<notin> set (keys dir1)"
    "dir' = dir1 @ [(md_name new_id, Regular data)]"
    by (auto simp: write_new_def Let_def split: sum.splits option.splits if_splits)
  moreover have "if ad_no_supersede a then dir1 = dir \<and> gone = []
       else supersede_matches (ad_task a) (ad_reason a) new_id (ad_now a) dir = (Inr gone, dir1)"
    using sup data(2,3) by (auto split: if_splits)
  ultimately show ?thesis using Inr by blast
qed

text \<open>Files that are there: superseded or untouched.\<close>

lemma cmd_add_old_files:
  assumes run: "cmd_add fresh a dir = (r, dir')" and legal: "legal_add a" and there: "map_of dir n \<noteq> None"
  shows "\<exists>new_id. safe_token new_id \<and> superseded_or_same (ad_task a) (ad_reason a) new_id (ad_now a) dir dir' n"
proof (cases "dir' = dir")
  case True
  moreover have "safe_token (u ''x'')" by (simp add: safe_token_def safe_char_def is_letter_def)
  ultimately show ?thesis by (auto simp: superseded_or_same_def simp del: u_simps)
next
  case False
  with cmd_add_effect[OF run legal] obtain it dir1 r1 where it: "new_item fresh a = Inr it"
    and sup: "if ad_no_supersede a then dir1 = dir \<and> r1 = Inr []
       else supersede_matches (ad_task a) (ad_reason a) (fm_id (it_fm it)) (ad_now a) dir = (r1, dir1)"
    and dir': "dir' = dir1 \<or> (\<exists>data. md_name (fm_id (it_fm it)) \<notin> set (keys dir1)
            \<and> dir' = dir1 @ [(md_name (fm_id (it_fm it)), Regular data)])"
    by (fastforce split: sum.splits)
  have id: "safe_token (fm_id (it_fm it))" using new_item_facts(10)[OF it legal] .
  have now: "instant_ok (ad_now a)" using legal by (simp add: legal_add_def)
  have one: "superseded_or_same (ad_task a) (ad_reason a) (fm_id (it_fm it)) (ad_now a) dir dir1 n"
    using sup supersede_matches_effect(1)[OF _ now id] by (auto simp: superseded_or_same_def split: if_splits)
  then have "map_of dir1 n \<noteq> None"
    using there by (auto simp: superseded_or_same_def item_at_def split: option.splits)
  with dir' have "map_of dir' n = map_of dir1 n" by (auto simp: map_add_def)
  then have "superseded_or_same (ad_task a) (ad_reason a) (fm_id (it_fm it)) (ad_now a) dir1 dir' n"
    by (simp add: superseded_or_same_def)
  with one id superseded_or_same_trans show ?thesis by blast
qed

section \<open>The life of an item\<close>

inductive ledger_step :: "items_dir \<Rightarrow> items_dir \<Rightarrow> bool" where
  add: "legal_add a \<Longrightarrow> cmd_add fresh a dir = (r, dir') \<Longrightarrow> ledger_step dir dir'"
| update: "legal_update b \<Longrightarrow> cmd_update b dir = (r', dir') \<Longrightarrow> ledger_step dir dir'"

lemma superseded_keeps:
  assumes "superseded_or_same task reason new_id now dir dir' n" and "instant_ok now" and "safe_token new_id"
    and at: "item_at dir n = Some it"
  shows "\<exists>it'. item_at dir' n = Some it' \<and> keeps it it'"
proof (cases "map_of dir' n = map_of dir n")
  case True
  from item_at_cong[OF this] at keeps_refl show ?thesis by auto
next
  case False
  with assms(1) at have sup: "superseding task reason dir n = Some it"
    and at': "item_at dir' n = Some (superseded_item new_id now it)"
    by (auto simp: superseded_or_same_def superseding_item)
  from sup have "fm_status (it_fm it) \<noteq> u ''superseded''" by (auto simp: superseding_item u_eq_iff simp del: u_simps)
  with superseded_item_ok[OF _ assms(2,3)] item_at_facts(1)[OF at] at' show ?thesis by (auto simp: item_ok_shape)
qed

lemma step_keeps:
  assumes "ledger_step dir dir'" and at: "item_at dir n = Some it"
  shows "\<exists>it'. item_at dir' n = Some it' \<and> keeps it it'"
  using assms(1)
proof cases
  case (add a fresh r)
  have "map_of dir n \<noteq> None" using at by (auto simp: item_at_Some)
  from cmd_add_old_files[OF add(2,1) this] superseded_keeps[OF _ _ _ at] add(1) show ?thesis
    by (auto simp: legal_add_def)
next
  case (update b r')
  show ?thesis
  proof (cases "map_of dir' n = map_of dir n")
    case True
    from item_at_cong[OF this] at keeps_refl show ?thesis by auto
  next
    case False
    with cmd_update_effect[OF update(2,1)] obtain it0 it' where "n = md_name (up_id b)"
      "item_at dir (md_name (up_id b)) = Some it0" "keeps it0 it'" "item_at dir' (md_name (up_id b)) = Some it'" by auto
    with at show ?thesis by simp
  qed
qed

text \<open>
  C23: an item is never lost, rewritten or made unreadable.  Whatever additions and updates run on the
  directory, successful or not, a file that reads as an item still does; its identity, its title, its
  snapshot and its context are the same, its tags and its log only grew at the end, and once it is
  superseded it never changes again.
\<close>

theorem items_only_grow:
  assumes "ledger_step\<^sup>*\<^sup>* dir dir'" and "item_at dir name = Some it"
  shows "\<exists>it'. item_at dir' name = Some it' \<and> keeps it it'"
  using assms
proof (induction)
  case base
  with keeps_refl show ?case by blast
next
  case (step mid dir')
  then obtain it1 where "item_at mid name = Some it1" "keeps it it1" by blast
  with step_keeps[OF step(2)] keeps_trans show ?case by blast
qed

definition sample_now :: instant where
  "sample_now = \<lparr>at_year = 2026, at_month = 5, at_day = 6, at_hour = 7, at_minute = 8, at_second = 9\<rparr>"

definition sample_update :: update_args where
  "sample_update = \<lparr>up_now = sample_now, up_id = u ''i1'', up_note = u ''done'', up_status = Some (u ''handled''),
     up_resume_when = None, up_priority = None, up_tags = []\<rparr>"

lemma sample_file: "\<exists>raw. serialize_item sample_item = Some raw
  \<and> item_at [(md_name (u ''i1''), Regular raw)] (md_name (u ''i1'')) = Some sample_item"
  using serialize_parses[OF sample_item_ok] by (auto simp: item_at_Some sample_item_def simp del: u_simps)

lemma items_only_grow_witness:
  "\<exists>raw it'. serialize_item sample_item = Some raw
    \<and> item_at (snd (cmd_update sample_update [(md_name (u ''i1''), Regular raw)])) (md_name (u ''i1'')) = Some it'
    \<and> keeps sample_item it'"
proof -
  obtain raw where raw: "serialize_item sample_item = Some raw"
    "item_at [(md_name (u ''i1''), Regular raw)] (md_name (u ''i1'')) = Some sample_item" using sample_file by blast
  have "legal_update sample_update"
    by (simp add: legal_update_def sample_update_def instant_ok_def sample_now_def)
  then have "ledger_step [(md_name (u ''i1''), Regular raw)] (snd (cmd_update sample_update [(md_name (u ''i1''), Regular raw)]))"
    by (metis ledger_step.update surjective_pairing)
  from items_only_grow[OF r_into_rtranclp[where r = ledger_step, OF this] raw(2)] raw(1) show ?thesis by blast
qed

section \<open>One open item per task and reason\<close>


definition sample_add :: add_args where
  "sample_add = \<lparr>ad_now = sample_now, ad_task = u ''t1'', ad_reason = u ''failed'', ad_summary = u '' x  y'',
     ad_priority = u ''urgent'', ad_generation = Some 7, ad_source = u ''status'', ad_snapshot_file = None,
     ad_snapshot = None, ad_stdin = [], ad_tags = [], ad_no_supersede = False, ad_nonce = Some (u ''b'')\<rparr>"

definition sample_new :: item where
  "sample_new = \<lparr>it_fm = \<lparr>fm_schema = SCHEMA, fm_id = u ''20260506T070809-t1-b'', fm_task = u ''t1'',
     fm_reason = u ''failed'', fm_priority = u ''urgent'', fm_status = u ''open'', fm_created = u ''2026-05-06T07:08:09Z'',
     fm_updated = u ''2026-05-06T07:08:09Z'', fm_generation = u ''7'', fm_source = u ''status'',
     fm_superseded_by = u ''none'', fm_resume_when = u ''none'', fm_tags = []\<rparr>,
     it_summary = u ''x y'', it_snapshot = [],
     it_log = [u ''- 2026-05-06T07:08:09Z new->open: created via status''], it_context = []\<rparr>"

lemma sample_stamps:
  "stamp_seconds sample_now = u ''2026-05-06T07:08:09Z''" "stamp_compact sample_now = u ''20260506T070809''"
  by (simp_all add: stamp_seconds_def stamp_compact_def sample_now_def two_digits_def decimal_four)

lemma sample_ledger_lines:
  "sanitize_line (u '' x  y'') = u ''x y''" "sanitize_line (u ''created via status'') = u ''created via status''"
  "sanitize_line (u ''superseded by '' @ u ''20260506T070809-t1-b'') = u ''superseded by 20260506T070809-t1-b''"
  by (simp_all add: sanitize_line_def is_space_def)

lemma sample_words:
  "safe_token (u ''t1'')" "safe_token (u ''20260506T070809-t1-b'')" "hex_nonce (u ''b'')"
  "u ''failed'' \<in> set LEDGER_REASONS" "u ''status'' \<in> set SOURCES" "signed_decimal 7 = u ''7''"
  by (simp_all add: safe_token_def safe_char_def is_letter_def is_digit_def hex_nonce_def LEDGER_REASONS_def SOURCES_def
      signed_decimal_def decimal.simps)

lemma sample_new_with:
  assumes "read_snapshot None x y = Inr t"
  shows "new_item fresh (sample_add\<lparr>ad_snapshot := x, ad_stdin := y\<rparr>) = Inr (sample_new\<lparr>it_snapshot := t\<rparr>)"
proof -
  have id: "u ''20260506T070809'' @ u ''-'' @ u ''t1'' @ u ''-'' @ u ''b'' = u ''20260506T070809-t1-b''"
    "u ''x y'' \<noteq> []" "u ''b'' \<noteq> []" "u ''created via '' @ u ''status'' = u ''created via status''" by simp_all
  have log: "log_line sample_now (u ''new'') (u ''open'') (u ''created via status'')
      = u ''- 2026-05-06T07:08:09Z new->open: created via status''"
    unfolding log_line_def sample_stamps sample_ledger_lines by simp
  show ?thesis
    unfolding new_item_def Let_def
    by (simp add: sample_add_def sample_new_def sample_stamps sample_ledger_lines sample_words id log assms
        collect_tags_def del: u_simps)
qed

lemma sample_new: "new_item fresh sample_add = Inr sample_new"
  using sample_new_with[of None "[]" "[]" fresh]
  by (simp add: read_snapshot_def sample_add_def sample_new_def del: u_simps)

lemma sample_add_legal: "legal_add sample_add"
  by (simp add: legal_add_def sample_add_def instant_ok_def sample_now_def LEDGER_PRIORITIES_def)

lemma sample_new_ok: "item_ok sample_new"
proof -
  have "plain_text (it_snapshot sample_new)" by (simp add: plain_text_def sample_new_def header_name_def)
  with new_item_shape[OF sample_new sample_add_legal] have "item_shape sample_new" .
  moreover have "list_all is_scalar (item_text sample_new)" by (simp add: item_text_def sample_new_def u_scalar del: u_simps)
  ultimately show ?thesis by (simp add: item_ok_shape)
qed

lemma superseded_sample_ok: "item_ok (superseded_item (u ''20260506T070809-t1-b'') sample_now sample_item)"
proof -
  have "instant_ok sample_now" "fm_status (it_fm sample_item) \<noteq> u ''superseded''"
    by (simp_all add: instant_ok_def sample_now_def sample_item_def)
  with superseded_item_ok sample_item_ok sample_words(2)
  have "item_shape (superseded_item (u ''20260506T070809-t1-b'') sample_now sample_item)" by (simp add: item_ok_shape)
  moreover have "list_all is_scalar (item_text (superseded_item (u ''20260506T070809-t1-b'') sample_now sample_item))"
    by (simp add: item_text_def superseded_item_def sample_item_def log_line_def sample_stamps sample_ledger_lines u_scalar del: u_simps)
  ultimately show ?thesis by (simp add: item_ok_shape)
qed

text \<open>The sample addition on a directory with one open item of its task and reason.\<close>

lemma sample_addition:
  assumes "serialize_item sample_item = Some raw"
  shows "\<exists>dir'. cmd_add [] sample_add [(md_name (u ''i1''), Regular raw)]
    = (Inr (u ''20260506T070809-t1-b'', [u ''i1'']), dir')"
proof -
  let ?dir = "[(md_name (u ''i1''), Regular raw)]" and ?id = "u ''20260506T070809-t1-b''"
  have "item_at ?dir (md_name (u ''i1'')) = Some sample_item" using sample_file assms by auto
  then have sup: "superseding (u ''t1'') (u ''failed'') ?dir (md_name (u ''i1'')) = Some sample_item"
    by (simp add: superseding_item sample_item_def)
  obtain data where data: "serialize_item (superseded_item ?id sample_now sample_item) = Some data"
    using item_encodes[OF superseded_sample_ok] by blast
  have fields: "ad_task sample_add = u ''t1''" "ad_reason sample_add = u ''failed''" "ad_now sample_add = sample_now"
    "\<not> ad_no_supersede sample_add" "fm_id (it_fm sample_new) = ?id" "fm_id (it_fm sample_item) = u ''i1''"
    by (simp_all add: sample_add_def sample_new_def sample_item_def)
  have matches: "supersede_matches (u ''t1'') (u ''failed'') ?id sample_now ?dir
      = (Inr [u ''i1''], atomic_write (md_name (u ''i1'')) data ?dir)"
    using sup data by (simp add: supersede_matches_def fields del: u_simps)
  obtain new where new: "serialize_item sample_new = Some new" using item_encodes[OF sample_new_ok] by blast
  have "md_name ?id \<noteq> md_name (u ''i1'')" by (simp add: md_name_def)
  then have "md_name ?id \<notin> set (keys (atomic_write (md_name (u ''i1'')) data ?dir))"
    by (simp add: atomic_write_def del: u_simps)
  with matches new show ?thesis by (simp add: cmd_add_def sample_new fields write_new_def Let_def del: u_simps)
qed

section \<open>What an addition writes\<close>

lemma new_file:
  assumes "md_name n \<notin> set (keys dir1)"
  shows "map_of (dir1 @ [(md_name n, x)]) (md_name n) = Some x"
proof -
  have "map_of dir1 (md_name n) = None" using assms by (simp add: map_of_eq_None_iff)
  then show ?thesis by (simp add: map_add_def)
qed

text \<open>
  An added item reads back.  When the snapshot has no line that reads as a section heading, the
  file that a successful addition created under a name that was free parses to exactly the item the
  options describe: open, with its task, reason, priority, generation, source and tags, its summary on
  one line, its snapshot, and one log line.
\<close>

theorem added_item_reads_back:
  assumes run: "cmd_add fresh a dir = (Inr (new_id, gone), dir')" and legal: "legal_add a"
    and plain: "read_snapshot (ad_snapshot_file a) (ad_snapshot a) (ad_stdin a) = Inr t" "plain_text t"
  shows "\<exists>it. new_item fresh a = Inr it \<and> item_at dir' (md_name new_id) = Some it \<and> fm_status (it_fm it) = u ''open''
    \<and> fm_task (it_fm it) = ad_task a \<and> fm_reason (it_fm it) = ad_reason a
    \<and> it_summary it = sanitize_line (ad_summary a) \<and> it_snapshot it = t"
proof -
  from cmd_add_success[OF run] obtain it dir1 data where it: "new_item fresh a = Inr it" "new_id = fm_id (it_fm it)"
    and data: "serialize_item it = Some data" and fresh: "md_name new_id \<notin> set (keys dir1)"
    and dir': "dir' = dir1 @ [(md_name new_id, Regular data)]" by blast
  note facts = new_item_facts[OF it(1) legal]
  have t: "it_snapshot it = t" using facts(7) plain(1) by simp
  then have "parse_full data (Some (fm_id (it_fm it))) = Inr it"
    using written_item_reads[OF new_item_shape[OF it(1) legal] data] plain(2) by simp
  then have "item_at dir' (md_name new_id) = Some it"
    using new_file[OF fresh] by (simp add: item_at_Some dir' it(2))
  with it(1) facts(2-5) t show ?thesis by blast
qed

lemma added_item_reads_back_witness:
  "\<exists>raw dir'. serialize_item sample_item = Some raw
    \<and> cmd_add [] sample_add [(md_name (u ''i1''), Regular raw)] = (Inr (u ''20260506T070809-t1-b'', [u ''i1'']), dir')
    \<and> item_at dir' (md_name (u ''20260506T070809-t1-b'')) = Some sample_new"
proof -
  obtain raw where raw: "serialize_item sample_item = Some raw" using sample_file by blast
  obtain dir' where run: "cmd_add [] sample_add [(md_name (u ''i1''), Regular raw)]
    = (Inr (u ''20260506T070809-t1-b'', [u ''i1'']), dir')" using sample_addition[OF raw] by blast
  have "read_snapshot (ad_snapshot_file sample_add) (ad_snapshot sample_add) (ad_stdin sample_add) = Inr []"
    "plain_text []" by (simp_all add: sample_add_def read_snapshot_def plain_text_def header_name_def)
  from added_item_reads_back[OF run sample_add_legal this] sample_new raw run show ?thesis by auto
qed

text \<open>A file with a heading that names no section is malformed.\<close>

lemma fill_sections_known:
  assumes "fill_sections cur b ls = Inr b'" and "l \<in> set ls" and "header_name l = Some name"
  shows "section_named name \<noteq> None"
  using assms
proof (induction cur b ls rule: fill_sections.induct)
  case (2 cur b l' ls)
  show ?case
  proof (cases "header_name l'")
    case (Some name')
    with 2(4) obtain sec where sec: "section_named name' = Some sec" "fill_sections (Some sec) b ls = Inr b'"
      by (auto split: option.splits)
    show ?thesis
    proof (cases "l \<in> set ls")
      case True
      from 2(3)[OF Some sec True 2(6)] show ?thesis .
    next
      case False
      with 2(5,6) Some sec show ?thesis by simp
    qed
  next
    case None
    with 2(5,6) have "l \<in> set ls" by auto
    show ?thesis
    proof (cases cur)
      case None
      with \<open>header_name l' = None\<close> 2(4) have "blank l'" "fill_sections cur b ls = Inr b'" by (auto split: if_splits)
      from 2(1)[OF \<open>header_name l' = None\<close> None this \<open>l \<in> set ls\<close> 2(6)] show ?thesis .
    next
      case (Some sec)
      with \<open>header_name l' = None\<close> 2(4) have "fill_sections cur (b(sec := b sec @ [l'])) ls = Inr b'" by simp
      from 2(2)[OF \<open>header_name l' = None\<close> Some this \<open>l \<in> set ls\<close> 2(6)] show ?thesis .
    qed
  qed
qed simp

text \<open>
  A heading in the snapshot makes the new item unreadable.  When a line of the snapshot is a
  heading that names none of the three sections, the addition succeeds and has superseded the earlier
  items, but the file it created does not parse.
\<close>

theorem foreign_heading_is_unreadable:
  assumes run: "cmd_add fresh a dir = (Inr (new_id, gone), dir')" and legal: "legal_add a"
    and snapshot: "read_snapshot (ad_snapshot_file a) (ad_snapshot a) (ad_stdin a) = Inr t"
    and heading: "l \<in> set (split_on 10 t)" "header_name l = Some name" "section_named name = None"
  shows "item_at dir' (md_name new_id) = None"
proof -
  from cmd_add_success[OF run] obtain it dir1 data where it: "new_item fresh a = Inr it" "new_id = fm_id (it_fm it)"
    and data: "serialize_item it = Some data" and fresh: "md_name new_id \<notin> set (keys dir1)"
    and dir': "dir' = dir1 @ [(md_name new_id, Regular data)]" by blast
  note facts = new_item_facts[OF it(1) legal]
  have log: "\<forall>l \<in> set (it_log it). 10 \<notin> set l" using facts(8) by (auto simp: list_all_iff log_entry_ok_def)
  have "10 \<notin> set (it_summary it)" "strip (it_summary it) = it_summary it" using sanitize_line_facts by (simp_all add: facts(5))
  moreover from data have "utf8_decode data = Some (join_with [10] (item_lines it) @ [10])"
    unfolding serialize_item_def by (rule utf8_roundtrip)
  ultimately have parts: "split_frontmatter data = Inr (fm_lines_of (it_fm it), (u ''# '' @ it_summary it) # body_lines it)"
    "parse_title ((u ''# '' @ it_summary it) # body_lines it) = Inr (it_summary it, body_lines it)"
    using file_parts[OF facts(1) facts(6) _ _ log] by blast+
  have "it_snapshot it = t" using facts(7) snapshot by simp
  then have "l \<in> set (body_lines it)" using heading(1) by (simp add: body_lines_def)
  then have "fill_sections None (\<lambda>_. []) (body_lines it) \<noteq> Inr b" for b
    using fill_sections_known[OF _ _ heading(2)] heading(3) by blast
  then have "parse_full data stem \<noteq> Inr it'" for stem it'
    using parts by (auto simp: parse_full_def parse_sections_def and_then_eq_Inr simp del: u_simps)
  then show ?thesis using new_file[OF fresh, of "Regular data"] by (cases "item_at dir' (md_name new_id)") (auto simp: item_at_Some dir')
qed

definition heading_add :: add_args where
  "heading_add = sample_add\<lparr>ad_snapshot := Some (u ''-''), ad_stdin := u ''## Notes''\<rparr>"

lemma foreign_heading_is_unreadable_witness:
  "\<exists>dir'. cmd_add [] heading_add [] = (Inr (u ''20260506T070809-t1-b'', []), dir')
    \<and> item_at dir' (md_name (u ''20260506T070809-t1-b'')) = None"
proof -
  define hd_text where "hd_text = u ''## Notes''"
  have heads: "utf8_decode hd_text = Some hd_text" "split_on 10 hd_text = [hd_text]" "header_name hd_text = Some (u ''Notes'')"
    "section_named (u ''Notes'') = None" "strip_outer_blanks [hd_text] = hd_text"
    by (simp_all add: hd_text_def utf8_decode.simps(2) header_name_def section_named_def strip_def lstrip_def is_space_def
        strip_outer_blanks_def outer_trimmed_def blank_def)
  have read: "read_snapshot (ad_snapshot_file heading_add) (ad_snapshot heading_add) (ad_stdin heading_add) = Inr hd_text"
    using heads by (simp add: heading_add_def sample_add_def read_snapshot_def hd_text_def del: split_on.simps u_simps)
  then have read': "read_snapshot None (Some (u ''-'')) (u ''## Notes'') = Inr hd_text"
    by (simp add: heading_add_def sample_add_def del: u_simps)
  let ?it = "sample_new\<lparr>it_snapshot := hd_text\<rparr>"
  have new: "new_item [] heading_add = Inr ?it"
    unfolding heading_add_def by (rule sample_new_with[OF read'])
  have legal: "legal_add heading_add" using sample_add_legal by (simp add: legal_add_def heading_add_def)
  have "list_all is_scalar (item_text ?it)" by (simp add: item_text_def sample_new_def hd_text_def u_scalar del: u_simps)
  with text_encodes[of ?it] sample_new_ok obtain raw where "serialize_item ?it = Some raw" by (auto simp: item_ok_def)
  then have run: "cmd_add [] heading_add [] = (Inr (u ''20260506T070809-t1-b'', []), [(md_name (u ''20260506T070809-t1-b''), Regular raw)])"
    using new by (simp add: cmd_add_def supersede_matches_def write_new_def heading_add_def sample_add_def sample_new_def
        Let_def del: u_simps)
  show ?thesis using foreign_heading_is_unreadable[OF run legal read _ heads(3,4)] heads(2) run by simp
qed

text \<open>The only error of a supersession is an item that cannot be encoded.\<close>

lemma supersede_names_error: "fst (supersede_names task reason new_id now gone names dir) = Inl e \<Longrightarrow> e = EncodeError"
  by (induction names arbitrary: gone dir) (auto split: option.splits)

text \<open>
  An addition whose identifier is taken loses the open item.  It stops with an error and creates
  nothing, but no open or deferred item of its task and reason is left: the earlier ones, the one with
  the same identifier among them, were marked as superseded by an item that was never written.
\<close>

theorem colliding_addition_loses_items:
  assumes run: "cmd_add fresh a dir = (Inl e, dir')" and legal: "legal_add a" and new: "new_item fresh a = Inr it"
    and sup: "\<not> ad_no_supersede a" and coded: "e \<noteq> EncodeError"
  shows "md_name (fm_id (it_fm it)) \<in> set (keys dir') \<and> superseding (ad_task a) (ad_reason a) dir' n = None"
proof -
  let ?id = "fm_id (it_fm it)"
  obtain r1 dir1 where matches: "supersede_matches (ad_task a) (ad_reason a) ?id (ad_now a) dir = (r1, dir1)" by fastforce
  obtain gone where "r1 = Inr gone"
  proof (cases r1)
    case (Inl e')
    with matches have "e' = EncodeError" using supersede_names_error unfolding supersede_matches_def by (metis fst_conv)
    with run new sup matches Inl coded show ?thesis by (simp add: cmd_add_def)
  qed
  with run new sup matches coded have "dir' = dir1" "md_name ?id \<in> set (keys dir1)"
    by (auto simp: cmd_add_def write_new_def Let_def split: option.splits if_splits)
  moreover have "superseding (ad_task a) (ad_reason a) dir1 n = None"
    using supersede_matches_effect(2)[OF matches _ new_item_facts(10)[OF new legal] \<open>r1 = Inr gone\<close>] legal
    by (simp add: legal_add_def)
  ultimately show ?thesis by simp
qed

lemma colliding_addition_loses_items_witness:
  "\<exists>raw dir'. serialize_item sample_new = Some raw
    \<and> superseding (u ''t1'') (u ''failed'') [(md_name (fm_id (it_fm sample_new)), Regular raw)] (md_name (fm_id (it_fm sample_new)))
      = Some sample_new
    \<and> cmd_add [] sample_add [(md_name (fm_id (it_fm sample_new)), Regular raw)] = (Inl (Exit ''item id already exists''), dir')
    \<and> superseding (u ''t1'') (u ''failed'') dir' (md_name (fm_id (it_fm sample_new))) = None"
proof -
  define n where "n = md_name (fm_id (it_fm sample_new))"
  obtain raw where raw: "serialize_item sample_new = Some raw" "parse_full raw (Some (fm_id (it_fm sample_new))) = Inr sample_new"
    using serialize_parses[OF sample_new_ok] by blast
  have args: "ad_task sample_add = u ''t1''" "ad_reason sample_add = u ''failed''" "ad_now sample_add = sample_now"
    "\<not> ad_no_supersede sample_add" by (simp_all add: sample_add_def)
  have at: "item_at [(n, Regular raw)] n = Some sample_new" using raw(2) by (simp add: item_at_Some n_def)
  then have sup: "superseding (u ''t1'') (u ''failed'') [(n, Regular raw)] n = Some sample_new"
    by (simp add: superseding_item sample_new_def)
  have "safe_token (fm_id (it_fm sample_new))" using sample_words(2) by (simp add: sample_new_def del: u_simps)
  moreover have "instant_ok sample_now" "fm_status (it_fm sample_new) \<noteq> u ''superseded''"
    by (simp_all add: instant_ok_def sample_now_def sample_new_def)
  ultimately have "item_shape (superseded_item (fm_id (it_fm sample_new)) sample_now sample_new)"
    using superseded_item_ok sample_new_ok by (simp add: item_ok_shape)
  moreover have "list_all is_scalar (item_text (superseded_item (fm_id (it_fm sample_new)) sample_now sample_new))"
    by (simp add: item_text_def superseded_item_def sample_new_def log_line_def sample_stamps sample_ledger_lines u_scalar del: u_simps)
  ultimately obtain data where data: "serialize_item (superseded_item (fm_id (it_fm sample_new)) sample_now sample_new) = Some data"
    using item_encodes by (auto simp: item_ok_shape)
  have run: "cmd_add [] sample_add [(n, Regular raw)] = (Inl (Exit ''item id already exists''), atomic_write n data [(n, Regular raw)])"
    using sup data raw(1) by (simp add: cmd_add_def sample_new args supersede_matches_def write_new_def Let_def
        n_def[symmetric] atomic_write_def del: u_simps)
  have "superseding (ad_task sample_add) (ad_reason sample_add) (atomic_write n data [(n, Regular raw)]) n = None"
    using colliding_addition_loses_items[OF run sample_add_legal sample_new args(4)] by blast
  with raw(1) run sup show ?thesis unfolding args n_def[symmetric] by blast
qed

end
