(* ===== verification/Ledger_Paging.thy ===== *)
theory Ledger_Paging
  imports Ledger_Theorems "HOL-Library.Multiset"
begin

text \<open>
  Reading the ledger: every file of the directory is either an item or reported, and following the
  cursors of a listing meets every selected item exactly once and ends.
\<close>

section \<open>Scanning the directory\<close>

lemma load_names_item:
  assumes "(x, name) \<in> set (fst (load_names parser dir names))"
  shows "\<exists>raw. map_of dir name = Some (Regular raw) \<and> is_md name \<and> parser raw (Some (stem_of name)) = Inr x"
  using assms
proof (induction names)
  case (Cons n names)
  then show ?case
    by (cases "map_of dir n") (auto simp: split_beta split: stored.splits sum.splits if_splits)
qed simp

lemma load_names_complete:
  assumes "name \<in> set names" and "map_of dir name = Some (Regular raw)" and "is_md name"
    and "parser raw (Some (stem_of name)) = Inr x"
  shows "(x, name) \<in> set (fst (load_names parser dir names))"
  using assms(1)
proof (induction names)
  case (Cons n names)
  show ?case
  proof (cases "n = name")
    case True
    with assms show ?thesis by (simp add: split_beta)
  next
    case False
    with Cons show ?thesis by (auto simp: split_beta split: option.splits stored.splits sum.splits)
  qed
qed simp

lemma load_names_names:
  "mset (map snd (fst (load_names parser dir names))) + mset (keys (snd (load_names parser dir names))) = mset names"
  by (induction names) (auto simp: split_beta split: option.splits stored.splits sum.splits)

text \<open>What the header parser accepts.\<close>

lemma parse_header_ok:
  assumes "parse_header raw (Some stem) = Inr h"
  shows "fm_ok (ih_fm h)" and "fm_id (ih_fm h) = stem"
proof -
  from assms obtain fml body where split: "split_frontmatter raw = Inr (fml, body)"
    and fm: "parse_frontmatter fml (Some stem) = Inr (ih_fm h)"
    by (auto simp: parse_header_def and_then_eq_Inr)
  from split_frontmatter_lines[OF split] have "\<forall>l \<in> set fml. 10 \<notin> set l" by blast
  from parse_frontmatter_ok[OF fm this] show "fm_ok (ih_fm h)" "fm_id (ih_fm h) = stem" by auto
qed

lemma scanned_headers:
  assumes "distinct (keys dir)"
  defines "records \<equiv> fst (load_items dir parse_header)"
  shows "\<forall>r \<in> set records. fm_ok (ih_fm (fst r))" and "distinct (map (fm_id \<circ> ih_fm \<circ> fst) records)"
proof -
  have item: "fm_ok (ih_fm (fst r)) \<and> fm_id (ih_fm (fst r)) = stem_of (snd r) \<and> is_md (snd r)" if "r \<in> set records" for r
    using load_names_item[of "fst r" "snd r" parse_header dir] that parse_header_ok
    unfolding records_def load_items_def by (metis prod.collapse)
  then show "\<forall>r \<in> set records. fm_ok (ih_fm (fst r))" by blast
  have "distinct (map snd records)"
    using load_names_names[of parse_header dir "sort (keys dir)"] assms(1) unfolding records_def load_items_def
    by (metis distinct_append distinct_sort mset_append mset_eq_imp_distinct_iff)
  moreover have "map snd records = map md_name (map (fm_id \<circ> ih_fm \<circ> fst) records)"
    using item is_md_name by auto
  ultimately show "distinct (map (fm_id \<circ> ih_fm \<circ> fst) records)" by (metis distinct_map)
qed

section \<open>Cursors\<close>

definition record_key :: "frontmatter \<Rightarrow> ucs \<times> ucs" where
  "record_key fm = (fm_updated fm, fm_id fm)"

lemma timestamp_no_slash:
  assumes "is_timestamp t"
  shows "47 \<notin> set t"
proof
  assume "47 \<in> set t"
  then obtain i where i: "i < length t" "t ! i = 47" by (auto simp: in_set_conv_nth)
  then have "enumerate 0 t ! i = (i, 47)" by (simp add: nth_enumerate_eq)
  with i(1) have "(i, 47) \<in> set (enumerate 0 t)" by (metis length_enumerate nth_mem)
  moreover have "\<not> is_decimal 47" by (simp add: is_decimal_def DECIMAL_BLOCKS_def)
  ultimately show False using assms by (auto simp: is_timestamp_def list_all_iff split: if_splits)
qed

lemma cursor_roundtrip:
  assumes "fm_ok fm"
  shows "\<exists>c. encode_cursor fm = Some c \<and> decode_cursor c = Some (record_key fm)"
proof -
  let ?t = "fm_updated fm @ [47] @ fm_id fm"
  from assms have "list_all is_scalar ?t" and slash: "47 \<notin> set (fm_updated fm)"
    using timestamp_scalar safe_scalar timestamp_no_slash by (auto simp: fm_ok_def ascii_scalar)
  then obtain bs where bs: "utf8_encode ?t = Some bs" by (simp add: utf8_encode_def)
  have "takeWhile (\<lambda>c. c \<noteq> 47) ?t = fm_updated fm"
    using slash by (subst takeWhile_append2) auto
  then have "decode_cursor (b64_encode bs) = Some (record_key fm)"
    using b64_roundtrip[OF utf8_bytes[OF bs]] utf8_roundtrip[OF bs] by (simp add: decode_cursor_def record_key_def)
  with bs show ?thesis by (simp add: encode_cursor_def)
qed

section \<open>Walking the pages\<close>

text \<open>What a reader does: ask for a page, then for the one after its cursor, until there is none.\<close>

fun walk :: "nat \<Rightarrow> ('a \<Rightarrow> frontmatter) \<Rightarrow> 'a list \<Rightarrow> int \<Rightarrow> ucs option \<Rightarrow> 'a list list option" where
  "walk 0 f records limit cursor = None"
| "walk (Suc n) f records limit cursor = (case paginate f records cursor limit of
       Inl _ \<Rightarrow> None
     | Inr (page, None) \<Rightarrow> Some [page]
     | Inr (page, Some c) \<Rightarrow> map_option (Cons page) (walk n f records limit (Some c)))"

lemma sort_records_set: "set (sort_records f records) = set records"
  by (simp add: sort_records_def)

lemma sort_records_strict:
  assumes "distinct (map (\<lambda>r. record_key (f r)) records)"
  shows "sorted_wrt (\<lambda>x y. record_key (f y) < record_key (f x)) (sort_records f records)"
proof -
  let ?k = "\<lambda>r. (fm_updated (f r), fm_id (f r))"
  let ?s = "sort_key ?k (rev records)"
  have "distinct (map ?k (rev records))" using assms by (simp add: record_key_def rev_map[symmetric])
  moreover have "mset (map ?k ?s) = mset (map ?k (rev records))" by simp
  ultimately have "distinct (map ?k ?s)" using mset_eq_imp_distinct_iff by blast
  then have "sorted_wrt (<) (map ?k ?s)" by (simp add: strict_sorted_iff)
  then have "sorted_wrt (\<lambda>x y. ?k x < ?k y) ?s" by (simp only: sorted_wrt_map)
  then show ?thesis by (simp add: sort_records_def sorted_wrt_rev record_key_def)
qed

lemma after_last:
  assumes "sorted_wrt (\<lambda>x y. k y < (k x :: 'b :: order)) (seen @ [p] @ rest)"
  shows "filter (\<lambda>r. k r < k p) (seen @ [p] @ rest) = rest"
proof -
  from assms have "\<forall>x \<in> set seen. k p < k x" "\<forall>x \<in> set rest. k x < k p" by (auto simp: sorted_wrt_append)
  then have "filter (\<lambda>r. k r < k p) seen = []" "filter (\<lambda>r. k r < k p) rest = rest"
    by (auto simp: filter_empty_conv filter_id_conv dest: less_asym)
  then show ?thesis by simp
qed

definition cursor_after :: "('a \<Rightarrow> frontmatter) \<Rightarrow> 'a list \<Rightarrow> ucs option" where
  "cursor_after f seen = (if seen = [] then None else encode_cursor (f (last seen)))"

lemma paginate_after:
  assumes sorted: "sort_records f records = seen @ rest"
    and strict: "sorted_wrt (\<lambda>x y. record_key (f y) < record_key (f x)) (seen @ rest)"
    and ok: "\<forall>r \<in> set (seen @ rest). fm_ok (f r)" and limit: "0 < limit"
  shows "paginate f records (cursor_after f seen) limit
    = Inr (take (nat limit) rest, if length rest > nat limit then cursor_after f (seen @ take (nat limit) rest) else None)"
proof -
  define ordered where "ordered = (case cursor_after f seen of
         None \<Rightarrow> Inr (sort_records f records)
       | Some token \<Rightarrow> (case decode_cursor token of
             None \<Rightarrow> Inl (Exit ''invalid --cursor token'')
           | Some key \<Rightarrow> Inr (filter (\<lambda>r. (fm_updated (f r), fm_id (f r)) < key) (sort_records f records))))"
  have ordered: "ordered = Inr rest"
  proof (cases "seen = []")
    case True
    with sorted show ?thesis by (simp add: ordered_def cursor_after_def)
  next
    case False
    then have split: "seen = butlast seen @ [last seen]" by simp
    from ok False have "fm_ok (f (last seen))" by simp
    from cursor_roundtrip[OF this] obtain c where c: "cursor_after f seen = Some c"
      "decode_cursor c = Some (record_key (f (last seen)))" using False by (auto simp: cursor_after_def)
    have "filter (\<lambda>r. record_key (f r) < record_key (f (last seen))) (butlast seen @ [last seen] @ rest) = rest"
      using strict split by (intro after_last) (metis append.assoc)
    then have "filter (\<lambda>r. record_key (f r) < record_key (f (last seen))) (sort_records f records) = rest"
      using sorted split by (metis append.assoc)
    with c show ?thesis by (simp add: ordered_def record_key_def)
  qed
  have page: "paginate f records (cursor_after f seen) limit = (let page = py_prefix limit rest in
         if int (length rest) > limit
         then (if page = [] then Inl IndexError
               else case encode_cursor (f (last page)) of
                   None \<Rightarrow> Inl EncodeError | Some c \<Rightarrow> Inr (page, Some c))
         else Inr (page, None))"
    unfolding paginate_def ordered_def[symmetric] ordered and_then_simps by (rule refl)
  have prefix: "py_prefix limit rest = take (nat limit) rest" using limit by (simp add: py_prefix_def)
  show ?thesis
  proof (cases "length rest > nat limit")
    case True
    then have ne: "take (nat limit) rest \<noteq> []" using limit by auto
    then have "last (take (nat limit) rest) \<in> set rest" by (meson in_set_takeD last_in_set)
    with ok have "fm_ok (f (last (take (nat limit) rest)))" by simp
    from cursor_roundtrip[OF this] obtain c where c: "encode_cursor (f (last (take (nat limit) rest))) = Some c" by blast
    with ne have "cursor_after f (seen @ take (nat limit) rest) = Some c" by (simp add: cursor_after_def)
    with True ne limit c show ?thesis by (simp add: page prefix Let_def)
  next
    case False
    with limit show ?thesis by (simp add: page prefix)
  qed
qed

lemma walk_after:
  assumes "sort_records f records = seen @ rest"
    and "sorted_wrt (\<lambda>x y. record_key (f y) < record_key (f x)) (seen @ rest)"
    and "\<forall>r \<in> set (seen @ rest). fm_ok (f r)" and "0 < limit" and "length rest < n * nat limit"
  shows "\<exists>pages. walk n f records limit (cursor_after f seen) = Some pages \<and> concat pages = rest
    \<and> (\<forall>page \<in> set pages. length page \<le> nat limit)"
  using assms
proof (induction n arbitrary: seen rest)
  case (Suc n)
  note page = paginate_after[OF Suc.prems(1-4)]
  show ?case
  proof (cases "length rest > nat limit")
    case True
    let ?seen = "seen @ take (nat limit) rest" and ?rest = "drop (nat limit) rest"
    have parts: "seen @ rest = ?seen @ ?rest" by simp
    have "length ?rest < n * nat limit" using Suc.prems(5) True by (simp add: less_diff_conv2)
    with Suc.IH[of ?seen ?rest] Suc.prems(1-4) obtain pages where "walk n f records limit (cursor_after f ?seen) = Some pages"
      "concat pages = ?rest" "\<forall>page \<in> set pages. length page \<le> nat limit" unfolding parts by blast
    moreover have "?seen \<noteq> []" using True Suc.prems(4) by auto
    then obtain c where "cursor_after f ?seen = Some c"
      using cursor_roundtrip[of "f (last ?seen)"] Suc.prems(3) unfolding parts cursor_after_def
      by (metis Un_iff last_in_set set_append)
    ultimately show ?thesis using page True by simp
  next
    case False
    with page show ?thesis by simp
  qed
qed simp

text \<open>
  C25: the pages of a listing meet every selected item exactly once, and there are finitely many.  With
  a positive limit, following the cursors from the first page ends after at most one page more than
  the number of full ones; the pages together are the selected items in their order, newest first, and
  none is longer than the limit.
\<close>

theorem pages_meet_every_item:
  assumes names: "distinct (keys dir)"
    and chosen: "apply_filters (ih_fm \<circ> fst) (fst (load_items dir parse_header)) a = Inr chosen" and limit: "0 < limit"
  shows "\<exists>pages. walk (length chosen div nat limit + 1) (ih_fm \<circ> fst) chosen limit None = Some pages
    \<and> concat pages = sort_records (ih_fm \<circ> fst) chosen \<and> list_all (\<lambda>page. length page \<le> nat limit) pages"
proof -
  let ?f = "ih_fm \<circ> fst" and ?records = "fst (load_items dir parse_header)"
  from chosen have filtered: "chosen = filter (\<lambda>r. selected a (?f r)) ?records"
    by (auto simp: apply_filters_def split: if_splits)
  have ok: "\<forall>r \<in> set chosen. fm_ok (?f r)" using scanned_headers(1)[OF names] by (simp add: filtered)
  have "distinct (map (fm_id \<circ> ?f) chosen)"
    using scanned_headers(2)[OF names] by (simp add: filtered distinct_map_filter comp_assoc)
  then have "distinct (map (\<lambda>r. record_key (?f r)) chosen)"
    by (auto simp: distinct_map record_key_def inj_on_def)
  then have strict: "sorted_wrt (\<lambda>x y. record_key (?f y) < record_key (?f x)) ([] @ sort_records ?f chosen)"
    unfolding append_Nil by (rule sort_records_strict)
  have len: "length (sort_records ?f chosen) = length chosen" by (simp add: sort_records_def)
  define n where "n = length chosen div nat limit + 1"
  have "length chosen < n * nat limit"
    using limit dividend_less_div_times[of "nat limit" "length chosen"] by (simp add: n_def)
  with walk_after[of ?f chosen "[]" "sort_records ?f chosen", OF _ strict _ limit] ok
  show ?thesis unfolding n_def[symmetric] by (simp add: cursor_after_def sort_records_set len list_all_iff)
qed

definition all_filter :: filter_args where
  "all_filter = \<lparr>fa_status = [], fa_task = None, fa_reason = [], fa_priority = None, fa_tag = [], fa_since = None, fa_until = None\<rparr>"

lemma sample_load:
  assumes "serialize_item sample_item = Some raw"
  shows "load_items [(md_name (u ''i1''), Regular raw)] parse_header
    = ([(\<lparr>ih_fm = it_fm sample_item, ih_summary = it_summary sample_item\<rparr>, md_name (u ''i1''))], [])"
proof -
  have "fm_id (it_fm sample_item) = u ''i1''" by (simp add: sample_item_def)
  with serialize_parses[OF sample_item_ok] assms
  have "parse_header raw (Some (u ''i1'')) = Inr \<lparr>ih_fm = it_fm sample_item, ih_summary = it_summary sample_item\<rparr>" by auto
  then show ?thesis by (simp add: load_items_def del: u_simps)
qed

lemma sample_selected: "selected all_filter (it_fm sample_item)"
  by (simp add: selected_def all_filter_def normalize_multi_def sample_item_def)

lemma pages_meet_every_item_witness:
  "\<exists>raw chosen pages. serialize_item sample_item = Some raw
    \<and> apply_filters (ih_fm \<circ> fst) (fst (load_items [(md_name (u ''i1''), Regular raw)] parse_header)) all_filter = Inr chosen
    \<and> length chosen = 1 \<and> walk 2 (ih_fm \<circ> fst) chosen 1 None = Some pages \<and> length (concat pages) = 1"
proof -
  obtain raw where raw: "serialize_item sample_item = Some raw" using sample_file by blast
  let ?dir = "[(md_name (u ''i1''), Regular raw)]"
  let ?r = "(\<lparr>ih_fm = it_fm sample_item, ih_summary = it_summary sample_item\<rparr>, md_name (u ''i1''))"
  have chosen: "apply_filters (ih_fm \<circ> fst) (fst (load_items ?dir parse_header)) all_filter = Inr [?r]"
    using sample_selected by (simp add: sample_load[OF raw] apply_filters_def all_filter_def normalize_multi_def del: u_simps)
  have "distinct (keys ?dir)" by simp
  from pages_meet_every_item[OF this chosen, of 1] obtain pages where "walk 2 (ih_fm \<circ> fst) [?r] 1 None = Some pages"
    "concat pages = sort_records (ih_fm \<circ> fst) [?r]" by (auto simp: numeral_2_eq_2 simp del: u_simps)
  with raw chosen show ?thesis by (intro exI[of _ raw] exI[of _ "[?r]"] exI[of _ pages]) (simp add: sort_records_def)
qed

section \<open>The scan\<close>

text \<open>
  A scan accounts for every file.  \<open>doctor\<close> lists each file of the directory once, among the items
  or among the malformed ones; it lists a file among the items, under the identifier its name gives,
  exactly when the file reads as an item; and its exit code is zero exactly when all of them do.
\<close>

theorem doctor_accounts_for_every_file:
  "case cmd_doctor dir of (good, bad, code) \<Rightarrow>
     mset (map fst good) + mset (keys bad) = mset (keys dir)
     \<and> (\<forall>name item_id. (name, item_id) \<in> set good \<longleftrightarrow> (\<exists>it. item_at dir name = Some it \<and> fm_id (it_fm it) = item_id))
     \<and> (code = 0 \<longleftrightarrow> bad = [])"
proof -
  obtain records bad where load: "load_items dir parse_full = (records, bad)" by fastforce
  define good where "good = map (\<lambda>(it, name). (name, fm_id (it_fm it))) records"
  have doctor: "cmd_doctor dir = (good, bad, if bad = [] then 0 else 1)" by (simp add: cmd_doctor_def load good_def)
  have "map fst good = map snd records" by (auto simp: good_def)
  then have all: "mset (map fst good) + mset (keys bad) = mset (keys dir)"
    using load_names_names[of parse_full dir "sort (keys dir)"] load by (simp add: load_items_def)
  have "(name, item_id) \<in> set good \<longleftrightarrow> (\<exists>it. item_at dir name = Some it \<and> fm_id (it_fm it) = item_id)" for name item_id
  proof
    assume "(name, item_id) \<in> set good"
    then obtain it where "(it, name) \<in> set records" "item_id = fm_id (it_fm it)" by (auto simp: good_def)
    with load_names_item[of it name parse_full dir "sort (keys dir)"] load
    have "item_at dir name = Some it" by (auto simp: item_at_Some load_items_def)
    with \<open>item_id = fm_id (it_fm it)\<close> show "\<exists>it. item_at dir name = Some it \<and> fm_id (it_fm it) = item_id" by blast
  next
    assume "\<exists>it. item_at dir name = Some it \<and> fm_id (it_fm it) = item_id"
    then obtain it raw where it: "map_of dir name = Some (Regular raw)" "is_md name"
      "parse_full raw (Some (stem_of name)) = Inr it" "fm_id (it_fm it) = item_id" by (auto simp: item_at_Some)
    then have "name \<in> set (sort (keys dir))" by (metis map_of_eq_None_iff option.distinct(1) set_map set_sort)
    from load_names_complete[where parser = parse_full, OF this it(1-3)] load it(4) show "(name, item_id) \<in> set good"
      by (force simp: good_def load_items_def)
  qed
  with all show ?thesis by (simp add: doctor)
qed

section \<open>A limit of zero\<close>

text \<open>
  \<open>--limit 0\<close> crashes a listing that selects something.  The first page is empty and its last
  record is asked for a cursor, so the command ends with an uncaught \<open>IndexError\<close> in every format.
\<close>

theorem limit_zero_crashes:
  assumes cols: "la_fields a = None" and limit: "la_limit a = 0" and cursor: "la_cursor a = None"
    and chosen: "apply_filters (ih_fm \<circ> fst) (fst (load_items dir parse_header)) (la_filter a) = Inr chosen" "chosen \<noteq> []"
  shows "cmd_list a dir = Inl IndexError"
proof -
  obtain records bad where load: "load_items dir parse_header = (records, bad)" by fastforce
  have "list_ex (\<lambda>f. f \<notin> set LIST_FIELDS) DEFAULT_FIELDS = False"
    by (simp add: DEFAULT_FIELDS_def LIST_FIELDS_def FRONTMATTER_ORDER_def)
  moreover have "sort_records (ih_fm \<circ> fst) chosen \<noteq> []" using chosen(2) sort_records_set by (metis set_empty)
  then have "paginate (ih_fm \<circ> fst) chosen None 0 = Inl IndexError"
    by (simp add: paginate_def py_prefix_def)
  ultimately show ?thesis using load chosen(1) by (simp add: cmd_list_def cols limit cursor)
qed

definition zero_list :: list_args where
  "zero_list = \<lparr>la_filter = all_filter, la_limit = 0, la_cursor = None, la_fields = None, la_format = MdFormat\<rparr>"

lemma limit_zero_crashes_witness:
  "\<exists>raw. serialize_item sample_item = Some raw \<and> cmd_list zero_list [(md_name (u ''i1''), Regular raw)] = Inl IndexError"
proof -
  obtain raw where raw: "serialize_item sample_item = Some raw" using sample_file by blast
  have "apply_filters (ih_fm \<circ> fst) (fst (load_items [(md_name (u ''i1''), Regular raw)] parse_header)) (la_filter zero_list)
    = Inr [(\<lparr>ih_fm = it_fm sample_item, ih_summary = it_summary sample_item\<rparr>, md_name (u ''i1''))]"
    using sample_selected by (simp add: sample_load[OF raw] apply_filters_def zero_list_def all_filter_def normalize_multi_def del: u_simps)
  from limit_zero_crashes[OF _ _ _ this] raw show ?thesis by (auto simp: zero_list_def)
qed

end
