(* ===== verification/Client.thy ===== *)
theory Client
  imports Protocol
begin

text \<open>
  \<open>lib/rozoro_monitor/client.py\<close>: the producer's side.  An event is reserved in the spool directory
  under the next number of its session before it is sent, and removed when the daemon acknowledged
  it.  The state is what survives a crash: the files of the spool and the counter file of every
  session.  The directories' ownership checks, the locks (one client at a time holds both) and
  \<open>fsync\<close> are not modelled.  \<open>loads\<close> is the parser of the standard library, applied to the text of a
  frame: a value, or nothing when it raises.
\<close>

section \<open>State\<close>

datatype spool_file = PrivateFile string | UnsafeEntry

record client_home =
  hm_spool :: "(string \<times> spool_file) list"
  hm_counters :: "(string \<times> string) list"

datatype client_error = ProtocolFailure protocol_error | ClientFailure string | UnsafePath string

type_synonym loader = "string \<Rightarrow> json option"

definition lift_protocol :: "'a checked \<Rightarrow> client_error + 'a" where
  "lift_protocol r = (case r of Inl e \<Rightarrow> Inl (ProtocolFailure e) | Inr x \<Rightarrow> Inr x)"

text \<open>\<open>dict(message, key=value)\<close>.\<close>

definition put :: "string \<Rightarrow> json \<Rightarrow> json \<Rightarrow> json" where
  "put k v m = (case m of JObj fs \<Rightarrow> JObj (AList.update k v fs) | _ \<Rightarrow> m)"

section \<open>Events\<close>

definition producer_event :: "bool \<Rightarrow> json \<Rightarrow> json checked" where
  "producer_event allow_missing m =
     (if (case text_of ''type'' m of Some t \<Rightarrow> \<not> requires_producer_seq t | None \<Rightarrow> True)
      then fail ''invalid-event'' (Some ''type'')
      else if allow_missing \<and> member ''producer_seq'' m = None
      then and_then (validate (put ''producer_seq'' (JInt 1) m)) (\<lambda>_. Inr m)
      else and_then (validate m) (\<lambda>_. Inr m))"

text \<open>Two dictionaries agree outside the number, and on it when the first one has it.\<close>

definition same_logical_event :: "json \<Rightarrow> json \<Rightarrow> bool" where
  "same_logical_event candidate reserved \<longleftrightarrow>
     list_all (\<lambda>k. k = ''producer_seq'' \<or> member k candidate = member k reserved) (names candidate @ names reserved)
     \<and> (member ''producer_seq'' candidate = None
        \<or> member ''producer_seq'' candidate = member ''producer_seq'' reserved)"

definition event_file :: "json \<Rightarrow> string" where
  "event_file m = str_member ''event_id'' m @ ''.json''"

section \<open>Files\<close>

definition read_file :: "spool_file \<Rightarrow> client_error + string" where
  "read_file f = (case f of
       UnsafeEntry \<Rightarrow> Inl (UnsafePath ''refusing unsafe file'')
     | PrivateFile data \<Rightarrow>
         if length data > MAX_FRAME_BYTES then Inl (ClientFailure ''state file is oversized'') else Inr data)"

text \<open>Publishing: differing content under the same name is refused, equal content is left.\<close>

definition publish :: "json \<Rightarrow> client_home \<Rightarrow> client_error + client_home" where
  "publish m h = and_then (lift_protocol (encode m)) (\<lambda>data.
     case map_of (hm_spool h) (event_file m) of
       Some f \<Rightarrow> and_then (read_file f) (\<lambda>existing.
         if existing \<noteq> data then Inl (ClientFailure ''spool collision'') else Inr h)
     | None \<Rightarrow> Inr (h\<lparr>hm_spool := hm_spool h @ [(event_file m, PrivateFile data)]\<rparr>))"

text \<open>\<open>int(text)\<close> for ASCII text: blanks around, a sign, digits with single underscores between.\<close>

definition blank_char :: "char \<Rightarrow> bool" where
  "blank_char c = (let n = (of_char c :: nat) in (9 \<le> n \<and> n \<le> 13) \<or> (28 \<le> n \<and> n \<le> 32))"

definition stripped :: "string \<Rightarrow> string" where
  "stripped t = rev (dropWhile blank_char (rev (dropWhile blank_char t)))"

fun digits_read :: "nat \<Rightarrow> bool \<Rightarrow> string \<Rightarrow> nat option" where
  "digits_read n after_digit [] = (if after_digit then Some n else None)"
| "digits_read n after_digit (c # cs) = (let d = (of_char c :: nat) in
     if 48 \<le> d \<and> d \<le> 57 then digits_read (10 * n + (d - 48)) True cs
     else if d = 95 \<and> after_digit then digits_read n False cs else None)"

definition int_text :: "string \<Rightarrow> int option" where
  "int_text t = (if list_ex (\<lambda>c. (of_char c :: nat) \<ge> 128) t then None
     else case stripped t of
       [] \<Rightarrow> None
     | c # cs \<Rightarrow>
         if c = CHR ''-'' then map_option (\<lambda>n. - int n) (digits_read 0 False cs)
         else if c = CHR ''+'' then map_option int (digits_read 0 False cs)
         else map_option int (digits_read 0 False (c # cs)))"

definition counter_text :: "string \<Rightarrow> client_home \<Rightarrow> string" where
  "counter_text session h = (case map_of (hm_counters h) session of Some t \<Rightarrow> t | None \<Rightarrow> [])"

definition read_counter :: "string \<Rightarrow> client_error + int" where
  "read_counter text = (let raw = take 64 text in
     if raw = [] then Inr 0
     else case int_text raw of
       None \<Rightarrow> Inl (UnsafePath ''invalid producer sequence state'')
     | Some v \<Rightarrow> if 0 \<le> v \<and> v \<le> MAX_INTEGER then Inr v else Inl (UnsafePath ''invalid producer sequence state''))"

definition save_counter :: "string \<Rightarrow> int \<Rightarrow> client_home \<Rightarrow> client_home" where
  "save_counter session v h = h\<lparr>hm_counters := AList.update session (show_int v) (hm_counters h)\<rparr>"

definition read_envelope :: "loader \<Rightarrow> string \<Rightarrow> json checked" where
  "read_envelope loads data = and_then (decode (length data) (loads data)) (producer_event False)"

text \<open>The largest number of the session in the spool; unreadable evidence stops the client.\<close>

fun max_spooled :: "loader \<Rightarrow> string \<Rightarrow> int \<Rightarrow> (string \<times> spool_file) list \<Rightarrow> client_error + int" where
  "max_spooled loads session best [] = Inr best"
| "max_spooled loads session best ((name, f) # fs) =
     (if \<not> suffix ''.json'' name then max_spooled loads session best fs
      else and_then (read_file f) (\<lambda>data. case read_envelope loads data of
          Inl _ \<Rightarrow> Inl (ClientFailure ''malformed spool evidence must be repaired'')
        | Inr m \<Rightarrow> max_spooled loads session
            (if str_member ''session_id'' m = session then max best (int_member ''producer_seq'' m) else best) fs))"

section \<open>Reserving\<close>

definition reserve :: "loader \<Rightarrow> json \<Rightarrow> client_home \<Rightarrow> client_error + json" where
  "reserve loads candidate h = (let session = str_member ''session_id'' candidate in
     and_then (read_counter (counter_text session h)) (\<lambda>stored.
     and_then (max_spooled loads session 0 (hm_spool h)) (\<lambda>spooled.
       let next_no = max stored spooled + 1 in
       if member ''producer_seq'' candidate \<noteq> None \<and> member ''producer_seq'' candidate \<noteq> Some (JInt next_no)
       then Inl (ClientFailure ''supplied producer_seq is not a new reservation'')
       else if next_no > MAX_INTEGER then Inl (ClientFailure ''producer sequence exhausted'')
       else lift_protocol (producer_event False (put ''producer_seq'' (JInt next_no) candidate)))))"

text \<open>The reservation up to the point where the spool holds the envelope and the counter does not yet.\<close>

definition reserve_published :: "loader \<Rightarrow> json \<Rightarrow> client_home \<Rightarrow> client_error + json \<times> client_home" where
  "reserve_published loads candidate h =
     and_then (reserve loads candidate h) (\<lambda>prepared. and_then (publish prepared h) (\<lambda>h1. Inr (prepared, h1)))"

definition prepare_event :: "loader \<Rightarrow> json \<Rightarrow> client_home \<Rightarrow> client_error + json \<times> client_home" where
  "prepare_event loads event h =
     and_then (lift_protocol (producer_event True event)) (\<lambda>candidate.
     case map_of (hm_spool h) (event_file candidate) of
       Some f \<Rightarrow> and_then (read_file f) (\<lambda>data.
         and_then (lift_protocol (read_envelope loads data)) (\<lambda>existing.
           if \<not> same_logical_event candidate existing then Inl (ClientFailure ''spool collision'')
           else Inr (existing, h)))
     | None \<Rightarrow> and_then (reserve_published loads candidate h) (\<lambda>(prepared, h1).
         Inr (prepared, save_counter (str_member ''session_id'' candidate) (int_member ''producer_seq'' prepared) h1)))"

definition spool_event :: "json \<Rightarrow> client_home \<Rightarrow> client_error + client_home" where
  "spool_event event h = and_then (lift_protocol (producer_event False event)) (\<lambda>m. publish m h)"

definition remove_reserved :: "json \<Rightarrow> client_home \<Rightarrow> client_error + client_home" where
  "remove_reserved event h = (case map_of (hm_spool h) (event_file event) of
       None \<Rightarrow> Inr h
     | Some f \<Rightarrow> and_then (read_file f) (\<lambda>data. and_then (lift_protocol (encode event)) (\<lambda>expected.
         if data \<noteq> expected then Inl (ClientFailure ''spool identity changed before ACK cleanup'')
         else Inr (h\<lparr>hm_spool := AList.delete (event_file event) (hm_spool h)\<rparr>))))"

section \<open>Sending\<close>

text \<open>What \<open>recv\<close> returns, call by call; an empty result is the end of the connection.\<close>

fun receive :: "string \<Rightarrow> string list \<Rightarrow> client_error + string" where
  "receive got [] = Inl (ClientFailure ''timed out'')"
| "receive got (chunk # chunks) =
     (if chunk = [] then Inl (ClientFailure ''connection closed before durable ACK'')
      else if length (got @ chunk) > MAX_FRAME_BYTES then Inl (ClientFailure ''daemon reply exceeds frame limit'')
      else if CHR 0x0A \<notin> set (got @ chunk) then receive (got @ chunk) chunks
      else if length (takeWhile (\<lambda>c. c \<noteq> CHR 0x0A) (got @ chunk)) \<noteq> length (got @ chunk) - 1
      then Inl (ClientFailure ''daemon sent multiple or trailing reply data'')
      else Inr (got @ chunk))"

definition exchange :: "loader \<Rightarrow> string list \<Rightarrow> json \<Rightarrow> client_error + json" where
  "exchange loads chunks event =
     and_then (lift_protocol (encode event)) (\<lambda>_.
     and_then (receive [] chunks) (\<lambda>text.
     and_then (lift_protocol (decode (length text) (loads text))) (\<lambda>reply.
       if member ''type'' reply \<noteq> Some (JStr ''ack'') \<or> member ''event_id'' reply \<noteq> member ''event_id'' event
       then Inl (ClientFailure ''daemon reply is not the matching durable ACK'')
       else Inr reply)))"

text \<open>\<open>others\<close> is what the daemon and other clients do to the directory during the exchange.\<close>

definition send_event :: "loader \<Rightarrow> (client_home \<Rightarrow> client_home) \<Rightarrow> string list \<Rightarrow> json \<Rightarrow> client_home
    \<Rightarrow> (client_error + json) \<times> client_home" where
  "send_event loads others chunks event h = (case prepare_event loads event h of
       Inl e \<Rightarrow> (Inl e, h)
     | Inr (prepared, h1) \<Rightarrow> (case exchange loads chunks prepared of
           Inl e \<Rightarrow> (Inl (ClientFailure ''durable ACK uncertain; event retained in spool''), others h1)
         | Inr ack \<Rightarrow> (case remove_reserved prepared (others h1) of
               Inl e \<Rightarrow> (Inl e, others h1)
             | Inr h2 \<Rightarrow> (Inr ack, h2))))"

end
