(* ===== verification/Client_Facts.thy ===== *)
theory Client_Facts
  imports Client Protocol_Facts
begin

text \<open>
  Facts about the producer's side: messages that differ only in the order of their members, the counter
  file, and the largest reserved number of a session.
\<close>

section \<open>Equal dictionaries\<close>

definition same_dict :: "json \<Rightarrow> json \<Rightarrow> bool" where
  "same_dict m m' \<longleftrightarrow> is_object m \<and> is_object m' \<and> distinct (names m) \<and> distinct (names m')
     \<and> (\<forall>k. member k m' = member k m)"

lemma same_dict_member: "same_dict m m' \<Longrightarrow> member k m' = member k m"
  by (simp add: same_dict_def)

lemma same_dict_names: "same_dict m m' \<Longrightarrow> set (names m') = set (names m)"
  by (rule set_eqI) (simp add: member_names[symmetric] same_dict_member)

lemma sort_filter_same:
  assumes "distinct xs" and "distinct ys" and "set xs = set (ys :: 'a :: linorder list)"
  shows "sort (filter P xs) = sort (filter P ys)"
  by (rule sorted_distinct_set_unique) (use assms in simp_all)

lemma check_members_same:
  "(\<And>k. member k m' = member k m) \<Longrightarrow> check_members tbl path m' = check_members tbl path m"
  by (induction tbl) (auto split: option.splits)

lemma validate_intro:
  assumes "is_object m" and "member ''v'' m = Some (JInt VERSION)" and "member ''type'' m = Some (JStr t)"
    and "map_of SCHEMAS t = Some (required, optional)" and "conforms required optional m"
    and "t \<in> set LIFECYCLE_TYPES" and "check_identity m = Inr ()"
  shows "validate m = Inr m"
proof -
  have "t \<notin> {''reconcile.result'', ''reconcile.pending.result''}" using assms(6) by (auto simp: LIFECYCLE_TYPES_def)
  moreover have "sort (filter (\<lambda>n. n \<notin> set ([''v'', ''type''] @ keys required @ keys optional)) (names m)) = []"
    "sort (filter (\<lambda>n. n \<notin> set (names m)) (keys required)) = []"
    "check_members (required @ optional) [] m = Inr ()"
    using assms(5) by (auto simp: conforms_def sort_Nil_iff filter_empty_conv)
  ultimately show ?thesis
    using assms(1-4,6,7) by (simp add: validate_def Let_def)
qed

lemma validate_same:
  assumes same: "same_dict m m'" and valid: "validate m = Inr m"
    and type: "text_of ''type'' m = Some t" and life: "t \<in> set LIFECYCLE_TYPES"
  shows "validate m' = Inr m'"
proof -
  note mem = same_dict_member[OF same] and nms = same_dict_names[OF same]
  from valid obtain fs t' required optional where m: "m = JObj fs" "member ''v'' m = Some (JInt VERSION)"
    "member ''type'' m = Some (JStr t')" "map_of SCHEMAS t' = Some (required, optional)" "conforms required optional m"
    "t' \<in> set LIFECYCLE_TYPES \<Longrightarrow> check_identity m = Inr ()"
    by (rule validate_Inr) (rule that; assumption)
  have t: "t' = t" using m(3) type by (simp add: text_of_def text_or_null_def)
  have "check_members (required @ optional) [] m' = check_members (required @ optional) [] m"
    by (rule check_members_same) (rule mem)
  with m(5) have "conforms required optional m'" by (simp add: conforms_def nms)
  moreover have "check_identity m' = Inr ()" using m(6) life by (simp add: t check_identity_def mem)
  moreover have "is_object m'" using same by (simp add: same_dict_def)
  ultimately show ?thesis using m(2-4) life by (intro validate_intro) (simp_all add: mem t)
qed

text \<open>Reading a message by member does not see the order.\<close>

lemma same_dict_text: "same_dict m m' \<Longrightarrow> text_of k m' = text_of k m" "same_dict m m' \<Longrightarrow> str_member k m' = str_member k m"
  "same_dict m m' \<Longrightarrow> int_member k m' = int_member k m"
  by (simp_all add: text_of_def str_member_def int_member_def same_dict_member)

lemma same_dict_event: "same_dict m m' \<Longrightarrow> event_of m' = event_of m"
  by (simp add: event_of_def kind_of_def same_dict_text same_dict_member)

lemma same_dict_file: "same_dict m m' \<Longrightarrow> event_file m' = event_file m"
  by (simp add: event_file_def same_dict_text)

section \<open>Envelopes\<close>

definition envelope :: "json \<Rightarrow> bool" where
  "envelope m \<longleftrightarrow> producer_event False m = Inr m \<and> distinct (names m)"

lemma producer_event_Inr:
  "producer_event False m = Inr m' \<longleftrightarrow> m' = m \<and> validate m = Inr m
     \<and> (\<exists>t. text_of ''type'' m = Some t \<and> requires_producer_seq t)"
proof -
  have "validate m = Inr x \<Longrightarrow> x = m" for x by (erule validate_Inr) simp
  then show ?thesis
    by (auto simp: producer_event_def fail_def and_then_eq_Inr split: option.splits if_splits)
qed

lemma envelope_same:
  assumes "envelope m" and "same_dict m m'"
  shows "envelope m'"
proof -
  from assms(1) obtain t where t: "validate m = Inr m" "text_of ''type'' m = Some t" "requires_producer_seq t"
    by (auto simp: envelope_def producer_event_Inr)
  moreover have "distinct (names m')" using assms(2) by (simp add: same_dict_def)
  ultimately show ?thesis
    using validate_same[OF assms(2) t(1,2) producer_types[OF t(3)]]
    by (simp add: envelope_def producer_event_Inr same_dict_text(1)[OF assms(2)])
qed

lemma envelope_fields:
  assumes "envelope m"
  shows "member ''producer_seq'' m = Some (JInt (int_member ''producer_seq'' m))"
    and "1 \<le> int_member ''producer_seq'' m" and "int_member ''producer_seq'' m \<le> MAX_INTEGER"
    and "member ''event_id'' m = Some (JStr (str_member ''event_id'' m))"
    and "member ''session_id'' m = Some (JStr (str_member ''session_id'' m))"
proof -
  from assms obtain t where valid: "validate m = Inr m" and t: "text_of ''type'' m = Some t" "requires_producer_seq t"
    by (auto simp: envelope_def producer_event_Inr)
  from t(1) have type: "member ''type'' m = Some (JStr t)"
    by (auto simp: text_of_def text_or_null_def split: Option.bind_splits json.splits)
  note life = producer_types[OF t(2)]
  obtain required optional where row: "map_of SCHEMAS t = Some (required, optional)" and conf: "conforms required optional m"
    using valid by (rule validate_Inr) (use type in simp)
  from life obtain extra extra' where "map_of SCHEMAS t = Some (EVENT_FIELDS @ extra, IDENTITY_FIELDS @ extra')"
    by (rule lifecycle_schema)
  with row have req: "\<exists>x. member name m = Some x \<and> c x name = Inr ()" if "(name, c) \<in> set EVENT_FIELDS" for name c
    using conforms_required[OF conf] that by auto
  from req[of "''producer_seq''" POSITIVE] obtain n where "member ''producer_seq'' m = Some (JInt n)" "1 \<le> n" "n \<le> MAX_INTEGER"
    by (auto simp: EVENT_FIELDS_def checks dest: is_between_int)
  then show "member ''producer_seq'' m = Some (JInt (int_member ''producer_seq'' m))"
    "1 \<le> int_member ''producer_seq'' m" "int_member ''producer_seq'' m \<le> MAX_INTEGER"
    by (simp_all add: int_member_def)
  from req[of "''event_id''" ID] obtain i where "member ''event_id'' m = Some (JStr i)"
    by (auto simp: EVENT_FIELDS_def checks dest: is_id_text)
  then show "member ''event_id'' m = Some (JStr (str_member ''event_id'' m))"
    by (simp add: str_member_def text_of_def text_or_null_def)
  from req[of "''session_id''" ID] obtain j where "member ''session_id'' m = Some (JStr j)"
    by (auto simp: EVENT_FIELDS_def checks dest: is_id_text)
  then show "member ''session_id'' m = Some (JStr (str_member ''session_id'' m))"
    by (simp add: str_member_def text_of_def text_or_null_def)
qed

text \<open>Setting one member.\<close>

lemma put_member: "is_object m \<Longrightarrow> member k (put n v m) = (if k = n then Some v else member k m)"
  by (cases m) (simp_all add: put_def member_def is_object_def update_conv')

lemma put_names: "distinct (names m) \<Longrightarrow> distinct (names (put n v m))"
  by (cases m) (simp_all add: put_def names_def distinct_update)

lemma put_texts:
  assumes "is_object m"
  shows "k \<noteq> n \<Longrightarrow> str_member k (put n v m) = str_member k m" and "int_member n (put n (JInt i) m) = i"
  using assms by (simp_all add: str_member_def text_of_def int_member_def put_member)

section \<open>The counter file\<close>

lemma digit_char_code: "d < 10 \<Longrightarrow> (of_char (digit_char d) :: nat) = 48 + d"
  by (simp add: digit_char_def)

lemma digits_read_show: "digits_read a b (show_nat n @ rest) = digits_read (a * 10 ^ length (show_nat n) + n) True rest"
proof (induction n arbitrary: a b rest rule: show_nat.induct)
  case (1 n)
  show ?case
  proof (cases "n < 10")
    case True
    then show ?thesis by (simp add: show_nat.simps[of n] digit_char_code Let_def mult.commute)
  next
    case False
    have mod: "n mod 10 < 10" by simp
    then have le: "48 + n mod 10 \<le> 57" by linarith
    have "digits_read a b (show_nat n @ rest)
        = digits_read a b (show_nat (n div 10) @ (digit_char (n mod 10) # rest))"
      using False by (simp add: show_nat.simps[of n])
    also have "\<dots> = digits_read (10 * (a * 10 ^ length (show_nat (n div 10)) + n div 10) + n mod 10) True rest"
      using le by (simp only: 1[OF False] digits_read.simps digit_char_code[OF mod] Let_def le_add1 if_True simp_thms
          add_diff_cancel_left')
    also have "10 * (a * 10 ^ length (show_nat (n div 10)) + n div 10) + n mod 10 = a * 10 ^ length (show_nat n) + n"
      using False by (simp add: show_nat.simps[of n] algebra_simps)
    finally show ?thesis .
  qed
qed

lemma show_nat_chars: "c \<in> set (show_nat n) \<Longrightarrow> 48 \<le> (of_char c :: nat) \<and> of_char c \<le> (57 :: nat)"
proof (induction n rule: show_nat.induct)
  case (1 n)
  have "d < 10 \<Longrightarrow> 48 \<le> (of_char (digit_char d) :: nat) \<and> of_char (digit_char d) \<le> (57 :: nat)" for d
    by (simp add: digit_char_code)
  with 1 show ?case by (cases "n < 10") (auto simp: show_nat.simps[of n])
qed

lemma show_nat_ne: "show_nat n \<noteq> []"
  by (simp add: show_nat.simps[of n])

lemma show_nat_length: "n < 10 ^ Suc k \<Longrightarrow> length (show_nat n) \<le> Suc k"
proof (induction k arbitrary: n)
  case (Suc k)
  have "n div 10 < 10 ^ Suc k" using Suc.prems by (simp add: div_less_iff_less_mult mult.commute)
  with Suc.IH show ?case by (simp add: show_nat.simps[of n])
qed (simp add: show_nat.simps)

lemma dropWhile_none: "(\<forall>c \<in> set t. \<not> P c) \<Longrightarrow> dropWhile P t = t"
  by (cases t) auto

lemma int_text_show: "int_text (show_nat n) = Some (int n)"
proof -
  have chars: "\<forall>c \<in> set (show_nat n). 48 \<le> (of_char c :: nat) \<and> of_char c \<le> (57 :: nat)" using show_nat_chars by blast
  then have "\<forall>c \<in> set (show_nat n). \<not> blank_char c" by (auto simp: blank_char_def Let_def)
  then have strip: "stripped (show_nat n) = show_nat n" by (simp add: stripped_def dropWhile_none)
  have ascii: "\<not> list_ex (\<lambda>c. (of_char c :: nat) \<ge> 128) (show_nat n)" using chars by (auto simp: list_ex_iff)
  obtain c cs where t: "show_nat n = c # cs" using show_nat_ne by (meson neq_Nil_conv)
  with chars have "48 \<le> (of_char c :: nat)" by auto
  then have "c \<noteq> CHR ''-''" "c \<noteq> CHR ''+''" by auto
  with strip ascii t digits_read_show[of 0 False n "[]"] show ?thesis by (simp add: int_text_def)
qed

lemma read_saved_counter:
  assumes "0 \<le> v" and "v \<le> MAX_INTEGER"
  shows "read_counter (show_int v) = Inr v"
proof -
  have "nat v < 10 ^ Suc 15" using assms by (simp add: MAX_INTEGER_def)
  from show_nat_length[OF this] have "take 64 (show_nat (nat v)) = show_nat (nat v)" by simp
  with assms show ?thesis by (simp add: read_counter_def show_int_def show_nat_ne int_text_show Let_def)
qed

section \<open>The numbers in the spool\<close>

text \<open>A readable entry of the spool: a private file under the name of the event it holds.\<close>

definition evidence_ok :: "loader \<Rightarrow> string \<times> spool_file \<Rightarrow> bool" where
  "evidence_ok loads = (\<lambda>(name, f). suffix ''.json'' name \<longrightarrow>
     (\<exists>data m. f = PrivateFile data \<and> length data \<le> MAX_FRAME_BYTES \<and> read_envelope loads data = Inr m
        \<and> name = event_file m))"

text \<open>The numbers of a session's envelopes.\<close>

definition spooled_numbers :: "loader \<Rightarrow> string \<Rightarrow> (string \<times> spool_file) list \<Rightarrow> int set" where
  "spooled_numbers loads session fs = {int_member ''producer_seq'' m | m name data.
     (name, PrivateFile data) \<in> set fs \<and> suffix ''.json'' name \<and> read_envelope loads data = Inr m
     \<and> str_member ''session_id'' m = session}"

lemma spooled_numbers_Nil: "spooled_numbers loads session [] = {}"
  by (simp add: spooled_numbers_def)

lemma spooled_numbers_Cons:
  "spooled_numbers loads session ((name, f) # fs) = spooled_numbers loads session fs \<union>
     (case f of UnsafeEntry \<Rightarrow> {} | PrivateFile data \<Rightarrow>
       if suffix ''.json'' name then (case read_envelope loads data of Inl _ \<Rightarrow> {}
         | Inr m \<Rightarrow> if str_member ''session_id'' m = session then {int_member ''producer_seq'' m} else {})
       else {})"
  by (auto simp: spooled_numbers_def split: spool_file.splits sum.splits if_splits)

lemma spooled_numbers_append:
  "spooled_numbers loads session (fs @ gs) = spooled_numbers loads session fs \<union> spooled_numbers loads session gs"
  unfolding spooled_numbers_def by auto blast+

lemma finite_spooled_numbers: "finite (spooled_numbers loads session fs)"
  by (induction fs) (auto simp: spooled_numbers_Nil spooled_numbers_Cons split: spool_file.split sum.split)

text \<open>In a readable spool the scan finds the largest.\<close>

lemma max_spooled_value:
  assumes "list_all (evidence_ok loads) fs"
  shows "max_spooled loads session best fs = Inr (Max (insert best (spooled_numbers loads session fs)))"
  using assms
proof (induction fs arbitrary: best)
  case Nil
  then show ?case by (simp add: spooled_numbers_Nil)
next
  case (Cons e fs)
  obtain name f where e: "e = (name, f)" by (cases e)
  note fin = finite_spooled_numbers[of loads session fs]
  show ?case
  proof (cases "suffix ''.json'' name")
    case True
    with Cons.prems e obtain data m where f: "f = PrivateFile data" "length data \<le> MAX_FRAME_BYTES"
      "read_envelope loads data = Inr m" by (auto simp: evidence_ok_def)
    then have read: "read_file f = Inr data" by (simp add: read_file_def)
    with fin Cons True e f show ?thesis
      by (cases "spooled_numbers loads session fs = {}")
        (simp_all add: spooled_numbers_Cons max.commute max.left_commute)
  next
    case False
    with Cons e show ?thesis by (cases f) (simp_all add: spooled_numbers_Cons)
  qed
qed

text \<open>An entry that was removed.\<close>

lemma spooled_numbers_delete:
  assumes "map_of fs name = Some (PrivateFile data)" and "read_envelope loads data = Inr m" and "suffix ''.json'' name"
    and "distinct (keys fs)"
  shows "spooled_numbers loads session fs = spooled_numbers loads session (AList.delete name fs)
    \<union> (if str_member ''session_id'' m = session then {int_member ''producer_seq'' m} else {})"
  using assms
proof (induction fs)
  case (Cons e fs)
  obtain n f where e: "e = (n, f)" by (cases e)
  show ?case
  proof (cases "n = name")
    case True
    with Cons e have "name \<notin> set (keys fs)" "f = PrivateFile data" by auto
    then have "AList.delete name (e # fs) = fs" by (simp add: e True delete_notin_dom)
    with Cons.prems e True \<open>f = PrivateFile data\<close> show ?thesis by (simp add: spooled_numbers_Cons)
  next
    case False
    with Cons e show ?thesis by (auto simp: spooled_numbers_Cons)
  qed
qed simp

end
