(* ===== verification/Client_Theorems.thy ===== *)
theory Client_Theorems
  imports Client_Facts Server_Theorems
begin

text \<open>
  What the producer promises: a session's numbers are reserved without gaps across crashes, a
  reservation is never overwritten and reads back until it is removed, what it publishes is what the
  daemon imports, and only an acknowledgement removes it.
\<close>

section \<open>Machines that hand out numbers\<close>

text \<open>A run of a machine some of whose steps emit something.\<close>

inductive labelled_run :: "('h \<Rightarrow> 'e option \<Rightarrow> 'h \<Rightarrow> bool) \<Rightarrow> 'h \<Rightarrow> 'e list \<Rightarrow> 'h \<Rightarrow> bool"
  for step where
  start: "labelled_run step h [] h"
| silent: "labelled_run step h es h1 \<Longrightarrow> step h1 None h2 \<Longrightarrow> labelled_run step h es h2"
| emit: "labelled_run step h es h1 \<Longrightarrow> step h1 (Some e) h2 \<Longrightarrow> labelled_run step h (es @ [e]) h2"

text \<open>
  When every emission of a class carries the number after the highest one of the class, and no other
  step moves that, the numbers of a class are consecutive.
\<close>

locale numbered =
  fixes step :: "'h \<Rightarrow> 'e option \<Rightarrow> 'h \<Rightarrow> bool" and inv :: "'h \<Rightarrow> bool"
    and class_of :: "'e \<Rightarrow> 'c" and no :: "'e \<Rightarrow> int" and highest :: "'c \<Rightarrow> 'h \<Rightarrow> int"
  assumes step_inv: "inv h \<Longrightarrow> step h l h' \<Longrightarrow> inv h'"
    and silent_highest: "inv h \<Longrightarrow> step h None h' \<Longrightarrow> highest c h' = highest c h"
    and emit_no: "inv h \<Longrightarrow> step h (Some e) h' \<Longrightarrow> no e = highest (class_of e) h + 1"
    and emit_highest: "inv h \<Longrightarrow> step h (Some e) h' \<Longrightarrow>
      highest c h' = (if c = class_of e then no e else highest c h)"
begin

lemma run_inv: "labelled_run step h es h' \<Longrightarrow> inv h \<Longrightarrow> inv h'"
  by (induction rule: labelled_run.induct) (auto intro: step_inv)

lemma run_numbers:
  assumes "labelled_run step h es h'" and "inv h"
  shows "highest c h \<le> highest c h' \<and> map no (filter (\<lambda>e. class_of e = c) es) = [highest c h + 1 .. highest c h']"
  using assms
proof (induction rule: labelled_run.induct)
  case (silent h es h1 h2)
  then show ?case using silent_highest[OF run_inv[OF silent(1,4)]] by simp
next
  case (emit h es h1 e h2)
  note inv1 = run_inv[OF emit(1,4)]
  from emit_no[OF inv1 emit(2)] emit_highest[OF inv1 emit(2), of c] emit.IH[OF emit(4)] show ?case
    by (auto simp: upto_rec2)
qed simp

end

section \<open>The client's steps\<close>

definition home_ok :: "loader \<Rightarrow> client_home \<Rightarrow> bool" where
  "home_ok loads h \<longleftrightarrow> list_all (evidence_ok loads) (hm_spool h) \<and> distinct (keys (hm_spool h))
     \<and> list_all (\<lambda>(_, t). \<exists>v. read_counter t = Inr v) (hm_counters h)"

definition stored_no :: "string \<Rightarrow> client_home \<Rightarrow> int" where
  "stored_no session h = (case read_counter (counter_text session h) of Inr v \<Rightarrow> v | Inl _ \<Rightarrow> 0)"

definition highest_no :: "loader \<Rightarrow> string \<Rightarrow> client_home \<Rightarrow> int" where
  "highest_no loads session h = Max (insert (stored_no session h) (spooled_numbers loads session (hm_spool h)))"

abbreviation session_of :: "json \<Rightarrow> string" where "session_of m \<equiv> str_member ''session_id'' m"
abbreviation seq_of :: "json \<Rightarrow> int" where "seq_of m \<equiv> int_member ''producer_seq'' m"

text \<open>The parser returns the message that was printed, up to the order of its members.\<close>

definition reads_back :: "loader \<Rightarrow> json \<Rightarrow> bool" where
  "reads_back loads m \<longleftrightarrow> (\<forall>data. encode m = Inr data \<longrightarrow> (\<exists>m'. loads data = Some m' \<and> same_dict m m'))"

text \<open>
  The steps: a new reservation; one that crashed before the counter was saved; a repeated one; and the
  removal of an envelope whose number the counter covers.
\<close>

inductive client_step :: "loader \<Rightarrow> client_home \<Rightarrow> json option \<Rightarrow> client_home \<Rightarrow> bool" for loads where
  reserved: "map_of (hm_spool h) (event_file ev) = None \<Longrightarrow> prepare_event loads ev h = Inr (m, h')
    \<Longrightarrow> distinct (names ev) \<Longrightarrow> reads_back loads m \<Longrightarrow> client_step loads h (Some m) h'"
| crashed: "map_of (hm_spool h) (event_file ev) = None \<Longrightarrow> producer_event True ev = Inr c
    \<Longrightarrow> reserve_published loads c h = Inr (m, h')
    \<Longrightarrow> distinct (names ev) \<Longrightarrow> reads_back loads m \<Longrightarrow> client_step loads h (Some m) h'"
| repeated: "map_of (hm_spool h) (event_file ev) = Some f \<Longrightarrow> prepare_event loads ev h = Inr (m, h')
    \<Longrightarrow> client_step loads h None h'"
| removed: "map_of (hm_spool h) name = Some (PrivateFile data) \<Longrightarrow> read_envelope loads data = Inr m
    \<Longrightarrow> suffix ''.json'' name \<Longrightarrow> seq_of m \<le> stored_no (session_of m) h
    \<Longrightarrow> client_step loads h None (h\<lparr>hm_spool := AList.delete name (hm_spool h)\<rparr>)"

lemma stored_counter:
  assumes "home_ok loads h"
  shows "read_counter (counter_text session h) = Inr (stored_no session h)" and "0 \<le> stored_no session h"
proof -
  show *: "read_counter (counter_text session h) = Inr (stored_no session h)"
  proof (cases "map_of (hm_counters h) session")
    case None
    then show ?thesis by (simp add: stored_no_def counter_text_def read_counter_def Let_def)
  next
    case (Some t)
    from map_of_SomeD[OF Some] assms obtain v where "read_counter t = Inr v" by (auto simp: home_ok_def list_all_iff)
    with Some show ?thesis by (simp add: stored_no_def counter_text_def)
  qed
  then show "0 \<le> stored_no session h" by (auto simp: read_counter_def Let_def split: if_splits option.splits)
qed

lemma lift_Inr [simp]: "lift_protocol r = Inr x \<longleftrightarrow> r = Inr x"
  by (simp add: lift_protocol_def split: sum.splits)

lemma producer_event_object:
  assumes "producer_event b ev = Inr c"
  shows "c = ev \<and> is_object ev"
proof -
  have valid: "validate m = Inr x \<Longrightarrow> is_object m" for m x by (erule validate_Inr) (simp add: is_object_def)
  have "is_object (put k v m) \<Longrightarrow> is_object m" for k v m by (cases m) (simp_all add: put_def is_object_def)
  from this[OF valid] have "validate (put k v m) = Inr x \<Longrightarrow> is_object m" for k v m x .
  with valid show ?thesis using assms
    by (auto simp: producer_event_def fail_def and_then_eq_Inr split: option.splits if_splits)
qed

lemma reserve_number:
  assumes "home_ok loads h" and "reserve loads ev h = Inr m" and "is_object ev" and "distinct (names ev)"
  shows "m = put ''producer_seq'' (JInt (highest_no loads (session_of ev) h + 1)) ev" and "envelope m"
    and "session_of m = session_of ev" and "seq_of m = highest_no loads (session_of ev) h + 1"
    and "event_file m = event_file ev"
proof -
  let ?s = "session_of ev"
  have "max_spooled loads ?s 0 (hm_spool h) = Inr (Max (insert 0 (spooled_numbers loads ?s (hm_spool h))))"
    using assms(1) by (intro max_spooled_value) (simp add: home_ok_def)
  moreover have "max (stored_no ?s h) (Max (insert 0 (spooled_numbers loads ?s (hm_spool h)))) = highest_no loads ?s h"
    using stored_counter(2)[OF assms(1), of ?s] finite_spooled_numbers[of loads ?s "hm_spool h"]
    by (cases "spooled_numbers loads ?s (hm_spool h) = {}") (auto simp: highest_no_def max_def)
  ultimately show m: "m = put ''producer_seq'' (JInt (highest_no loads ?s h + 1)) ev" and "envelope m"
    using assms(2,4) stored_counter(1)[OF assms(1), of ?s]
    by (auto simp: reserve_def Let_def producer_event_Inr envelope_def intro: put_names split: if_splits)
  show "session_of m = ?s" "seq_of m = highest_no loads ?s h + 1" "event_file m = event_file ev"
    using put_texts[OF assms(3)] by (simp_all add: m event_file_def)
qed

text \<open>A new envelope in the spool.\<close>

lemma publish_new:
  assumes "publish m h = Inr h1" and "map_of (hm_spool h) (event_file m) = None" and "envelope m" and "reads_back loads m"
  shows "\<exists>data m'. encode m = Inr data \<and> h1 = h\<lparr>hm_spool := hm_spool h @ [(event_file m, PrivateFile data)]\<rparr>
    \<and> length data \<le> MAX_FRAME_BYTES \<and> loads data = Some m' \<and> read_envelope loads data = Inr m' \<and> same_dict m m'"
proof -
  from assms(1,2) obtain data where data: "encode m = Inr data"
    "h1 = h\<lparr>hm_spool := hm_spool h @ [(event_file m, PrivateFile data)]\<rparr>"
    by (auto simp: publish_def and_then_eq_Inr)
  then have len: "length data \<le> MAX_FRAME_BYTES"
    by (auto simp: encode_def and_then_eq_Inr Let_def fail_def split: if_splits)
  from assms(4) data(1) obtain m' where m': "loads data = Some m'" "same_dict m m'" by (auto simp: reads_back_def)
  from envelope_same[OF assms(3) m'(2)] have env: "producer_event False m' = Inr m'" by (simp add: envelope_def)
  then have "validate m' = Inr m'" by (simp add: producer_event_Inr)
  with env len m'(1) have "read_envelope loads data = Inr m'"
    by (simp add: read_envelope_def decode_def)
  with data len m' show ?thesis by blast
qed

lemma published_home:
  assumes ok: "home_ok loads h" and run: "reserve_published loads ev h = Inr (m, h1)" and new: "map_of (hm_spool h) (event_file ev) = None"
    and obj: "is_object ev" and dict: "distinct (names ev)" and rb: "reads_back loads m"
  shows "home_ok loads h1" and "seq_of m = highest_no loads (session_of m) h + 1"
    and "highest_no loads c h1 = (if c = session_of m then seq_of m else highest_no loads c h)"
    and "envelope m" and "hm_counters h1 = hm_counters h" and "session_of m = session_of ev"
proof -
  from run have res: "reserve loads ev h = Inr m" and pub: "publish m h = Inr h1"
    by (auto simp: reserve_published_def and_then_eq_Inr)
  note num = reserve_number[OF ok res obj dict]
  show "envelope m" "session_of m = session_of ev" by (fact num)+
  show no: "seq_of m = highest_no loads (session_of m) h + 1" unfolding num(3,4) by (rule refl)
  from publish_new[OF pub _ num(2) rb] new num(5) obtain data m' where
    h1: "h1 = h\<lparr>hm_spool := hm_spool h @ [(event_file m, PrivateFile data)]\<rparr>" "length data \<le> MAX_FRAME_BYTES"
    "read_envelope loads data = Inr m'" "same_dict m m'" by auto
  have fname: "suffix ''.json'' (event_file m)" by (simp add: event_file_def suffix_def)
  have "evidence_ok loads (event_file m, PrivateFile data)"
    using h1 same_dict_file by (auto simp: evidence_ok_def)
  moreover have "event_file m \<notin> set (keys (hm_spool h))" using new num(5) unfolding not_key_iff by simp
  ultimately show "home_ok loads h1" using ok by (simp add: home_ok_def h1)
  show "hm_counters h1 = hm_counters h" by (simp add: h1)
  then have stored: "stored_no c h1 = stored_no c h" by (simp add: stored_no_def counter_text_def)
  have numbers: "spooled_numbers loads c (hm_spool h1) = spooled_numbers loads c (hm_spool h)
      \<union> (if c = session_of m then {seq_of m} else {})"
    using h1 fname same_dict_text[OF h1(4)] by (simp add: spooled_numbers_append spooled_numbers_Cons spooled_numbers_Nil)
  show "highest_no loads c h1 = (if c = session_of m then seq_of m else highest_no loads c h)"
  proof (cases "c = session_of m")
    case True
    let ?A = "insert (stored_no c h) (spooled_numbers loads c (hm_spool h))"
    have fin: "finite ?A" using finite_spooled_numbers[of loads c "hm_spool h"] by simp
    have "Max ?A \<le> seq_of m" using no by (simp add: True highest_no_def)
    then have "k \<le> seq_of m" if "k \<in> ?A" for k using Max_ge[OF fin that] by linarith
    then have "Max (insert (seq_of m) ?A) = seq_of m" using fin by (intro Max_insert2) auto
    then show ?thesis using stored numbers by (simp add: True highest_no_def insert_commute)
  next
    case False
    with numbers show ?thesis by (simp add: highest_no_def stored)
  qed
qed

lemma saved_home:
  assumes ok: "home_ok loads h1" and v: "0 \<le> v" "v \<le> MAX_INTEGER"
    and covers: "highest_no loads session h1 = v"
  shows "home_ok loads (save_counter session v h1)"
    and "highest_no loads c (save_counter session v h1) = highest_no loads c h1"
    and "stored_no session (save_counter session v h1) = v"
proof -
  note read = read_saved_counter[OF v]
  have "(s, t) \<in> set (AList.update session (show_int v) tbl) \<Longrightarrow> (s, t) = (session, show_int v) \<or> (s, t) \<in> set tbl" for s t tbl
    by (rule alist_update_values)
  with ok read show "home_ok loads (save_counter session v h1)"
    by (fastforce simp: home_ok_def save_counter_def list_all_iff)
  have ctext: "counter_text c (save_counter session v h1) = (if c = session then show_int v else counter_text c h1)" for c
    by (simp add: counter_text_def save_counter_def update_conv')
  then show "stored_no session (save_counter session v h1) = v" by (simp add: stored_no_def read)
  show "highest_no loads c (save_counter session v h1) = highest_no loads c h1"
  proof (cases "c = session")
    case True
    have "stored_no c h1 \<le> v" "\<forall>k \<in> spooled_numbers loads c (hm_spool h1). k \<le> v"
      using covers finite_spooled_numbers[of loads c "hm_spool h1"] by (auto simp: True highest_no_def)
    then have "Max (insert v (spooled_numbers loads c (hm_spool h1))) = v"
      using finite_spooled_numbers by (intro Max_insert2) auto
    with covers True show ?thesis using \<open>stored_no session (save_counter session v h1) = v\<close>
      by (simp add: highest_no_def) (simp add: save_counter_def)
  next
    case False
    with ctext show ?thesis by (simp add: highest_no_def stored_no_def) (simp add: save_counter_def)
  qed
qed

lemma prepare_new:
  assumes run: "prepare_event loads ev h = Inr (m, h')" and new: "map_of (hm_spool h) (event_file ev) = None"
  shows "\<exists>h1. producer_event True ev = Inr ev \<and> is_object ev \<and> reserve_published loads ev h = Inr (m, h1)
    \<and> h' = save_counter (session_of ev) (seq_of m) h1"
proof -
  from run obtain c where c: "producer_event True ev = Inr c" by (auto simp: prepare_event_def and_then_eq_Inr)
  with producer_event_object[OF c] run new show ?thesis
    by (auto simp: prepare_event_def and_then_eq_Inr)
qed

lemma client_step_ok:
  assumes "client_step loads h l h'" and ok: "home_ok loads h"
  shows "home_ok loads h'
    \<and> (case l of None \<Rightarrow> (\<forall>c. highest_no loads c h' = highest_no loads c h)
       | Some m \<Rightarrow> envelope m \<and> seq_of m = highest_no loads (session_of m) h + 1
           \<and> (\<forall>c. highest_no loads c h' = (if c = session_of m then seq_of m else highest_no loads c h)))"
  using assms(1)
proof cases
  case (reserved ev m)
  from prepare_new[OF reserved(3,2)] obtain h1 where h1: "is_object ev" "reserve_published loads ev h = Inr (m, h1)"
    "h' = save_counter (session_of ev) (seq_of m) h1" by blast
  note pub = published_home[OF ok h1(2) reserved(2) h1(1) reserved(4,5)]
  have range: "0 \<le> seq_of m" "seq_of m \<le> MAX_INTEGER" using envelope_fields(2,3)[OF pub(4)] by auto
  have "highest_no loads (session_of ev) h1 = seq_of m" using pub(3)[of "session_of ev"] pub(6) by simp
  note saved = saved_home[OF pub(1) range this]
  have "highest_no loads c h' = (if c = session_of m then seq_of m else highest_no loads c h)" for c
    using saved(2)[of c] pub(3)[of c] h1(3) by simp
  with saved(1) pub(2,4) reserved(1) h1(3) show ?thesis by simp
next
  case (crashed ev c m)
  from producer_event_object[OF crashed(3)] have c: "c = ev" "is_object ev" by auto
  from published_home[OF ok crashed(4)[unfolded c(1)] crashed(2) c(2) crashed(5,6)] crashed(1) show ?thesis by simp
next
  case (repeated ev f m)
  then have "h' = h" by (auto simp: prepare_event_def and_then_eq_Inr dest!: producer_event_object split: if_splits)
  with repeated(1) ok show ?thesis by simp
next
  case (removed name data m)
  have "distinct (keys (hm_spool h))" using ok by (simp add: home_ok_def)
  note numbers = spooled_numbers_delete[OF removed(3-5) this]
  have stored: "stored_no c h' = stored_no c h" for c by (simp add: removed(2) stored_no_def counter_text_def)
  have "highest_no loads c h' = highest_no loads c h" for c
  proof (cases "session_of m = c")
    case True
    have "Max (insert s (insert k A)) = Max (insert s A)" if "finite A" "k \<le> s" for s k :: int and A
      using that by (cases "A = {}") (simp_all add: max.absorb2 max.left_commute max_def)
    from this[of "spooled_numbers loads c (AList.delete name (hm_spool h))" "seq_of m" "stored_no c h"] removed(6) True
    show ?thesis using numbers[of c] finite_spooled_numbers by (simp add: highest_no_def stored) (simp add: removed(2))
  next
    case False
    then show ?thesis using numbers[of c] by (simp add: highest_no_def stored) (simp add: removed(2))
  qed
  moreover have "home_ok loads h'"
    using ok distinct_delete[of "hm_spool h" name]
    by (simp add: home_ok_def removed(2) list_all_iff) (simp add: AList.delete_eq)
  ultimately show ?thesis using removed(1) by simp
qed

interpretation sessions: numbered "client_step loads" "home_ok loads" session_of seq_of "highest_no loads" for loads
  by unfold_locales (use client_step_ok in \<open>fastforce+\<close>)

section \<open>Numbers\<close>


definition empty_home :: client_home where
  "empty_home = \<lparr>hm_spool = [], hm_counters = []\<rparr>"

lemma empty_home_ok: "home_ok loads empty_home" "highest_no loads session empty_home = 0"
  by (simp_all add: home_ok_def empty_home_def highest_no_def stored_no_def counter_text_def read_counter_def
      spooled_numbers_Nil)

text \<open>Two events of a session, their envelopes, and a parser that knows these.\<close>

definition client_event :: "string \<Rightarrow> json" where
  "client_event i = JObj [(''v'', JInt 1), (''type'', JStr ''session.register''), (''event_id'', JStr i),
     (''session_id'', JStr ''s1''), (''harness'', JStr ''pi''),
     (''role'', JStr ''crew''), (''task_id'', JStr ''t1'')]"

definition client_envelope :: "string \<Rightarrow> int \<Rightarrow> json" where
  "client_envelope i n = put ''producer_seq'' (JInt n) (client_event i)"

lemma client_event_reads:
  "session_of (client_event i) = ''s1''" "event_file (client_event i) = i @ ''.json''"
  "member ''producer_seq'' (client_event i) = None" "is_object (client_event i)" "distinct (names (client_event i))"
  "text_of ''type'' (client_event i) = Some ''session.register''"
  by (simp_all add: client_event_def str_member_def text_of_def text_or_null_def member_def event_file_def
      is_object_def names_def)

lemma client_envelope_reads:
  "seq_of (client_envelope i n) = n" "session_of (client_envelope i n) = ''s1''"
  "event_file (client_envelope i n) = i @ ''.json''" "is_object (client_envelope i n)"
  "distinct (names (client_envelope i n))" "text_of ''type'' (client_envelope i n) = Some ''session.register''"
  by (simp_all add: client_envelope_def client_event_def put_def str_member_def text_of_def text_or_null_def member_def
      event_file_def is_object_def names_def int_member_def)

lemma session_register_requires: "requires_producer_seq ''session.register''"
  by (simp add: requires_producer_seq_def lifecycle_rows EVENT_FIELDS_def)

lemma client_envelope_valid:
  assumes "id_text i" and "1 \<le> n" and "n \<le> MAX_INTEGER"
  shows "validate (client_envelope i n) = Inr (client_envelope i n)"
proof (rule validate_intro)
  show "map_of SCHEMAS ''session.register'' = Some (EVENT_FIELDS, IDENTITY_FIELDS)" by (rule lifecycle_rows(1))
  have "id_text ''s1''" "id_text ''t1''" by (simp_all add: id_text_def is_letter_or_digit_def less_eq_char_def)
  with assms show "conforms EVENT_FIELDS IDENTITY_FIELDS (client_envelope i n)"
    by (simp add: conforms_def client_envelope_def client_event_def put_def names_def member_def EVENT_FIELDS_def
        IDENTITY_FIELDS_def checks demand_def is_id_def is_between_def is_one_of_def HARNESSES_def ROLES_def)
  show "check_identity (client_envelope i n) = Inr ()"
    by (simp add: check_identity_def client_envelope_def client_event_def put_def member_def)
qed (simp_all add: client_envelope_def client_event_def put_def member_def is_object_def LIFECYCLE_TYPES_def VERSION_def)

lemma client_envelope_ok:
  assumes "id_text i" and "1 \<le> n" and "n \<le> MAX_INTEGER"
  shows "envelope (client_envelope i n)" and "producer_event True (client_event i) = Inr (client_event i)"
proof -
  show "envelope (client_envelope i n)"
    using client_envelope_valid[OF assms] client_envelope_reads(5,6) session_register_requires
    by (simp add: envelope_def producer_event_Inr)
  have "validate (put ''producer_seq'' (JInt 1) (client_event i)) = Inr (client_envelope i 1)"
    using client_envelope_valid[OF assms(1), of 1] by (simp add: client_envelope_def MAX_INTEGER_def)
  then show "producer_event True (client_event i) = Inr (client_event i)"
    using client_event_reads(3,6) session_register_requires by (simp add: producer_event_def)
qed

text \<open>The size of a printed message.\<close>

lemma quoted_length: "length (quoted s) \<le> 2 + 6 * length s"
proof -
  have "length (escape_char c) \<le> 6" for c by (simp add: escape_char_def Let_def)
  then have "length (concat (map escape_char s)) \<le> 6 * length s"
    by (induction s) (simp_all add: add_mono)
  then show ?thesis by (simp add: quoted_def)
qed

lemma joined_length: "length (joined ss) \<le> sum_list (map (\<lambda>s. Suc (length s)) ss)"
  by (induction ss rule: joined.induct) simp_all

lemma joined_chars: "set (joined ss) \<subseteq> insert CHR '','' (\<Union> (set ` set ss))" "\<Union> (set ` set ss) \<subseteq> set (joined ss)"
  by (induction ss rule: joined.induct) auto

lemma object_length:
  "length (dumps (JObj fs)) \<le> 2 + sum_list (map (\<lambda>(k, v). 4 + 6 * length k + length (dumps v)) fs)"
proof -
  let ?part = "\<lambda>(k, v). (k, quoted k @ '':'' @ dumps v)"
  let ?ss = "map snd (sort_key fst (map ?part fs))"
  have "sum_list (map (\<lambda>s. Suc (length s)) ?ss) = sum_list (map (\<lambda>s. Suc (length s)) (map snd (map ?part fs)))"
    unfolding sum_mset_sum_list[symmetric] by (simp only: mset_map mset_sort)
  also have "\<dots> \<le> sum_list (map (\<lambda>(k, v). 4 + 6 * length k + length (dumps v)) fs)"
    unfolding map_map using quoted_length by (intro sum_list_mono) (auto simp: le_diff_conv)
  finally show ?thesis using joined_length[of ?ss] by simp
qed

lemma client_envelope_encodes:
  assumes "id_text i" and "1 \<le> n" and "n \<le> MAX_INTEGER"
  shows "encode (client_envelope i n) = Inr (dumps (client_envelope i n) @ [CHR 0x0A])"
proof -
  have "length i \<le> 128" using assms(1) by (simp add: id_text_def)
  then have "length (quoted i) \<le> 800" using quoted_length[of i] by linarith
  moreover have "nat n < 10 ^ Suc 15" using assms by (simp add: MAX_INTEGER_def)
  from show_nat_length[OF this] have "length (show_int n) \<le> 16" using assms(2) by (simp add: show_int_def)
  moreover have "length (show_nat (Suc 0)) = 1" by (simp add: show_nat.simps)
  moreover note quoted_length[of "''session.register''"] quoted_length[of "''s1''"] quoted_length[of "''pi''"]
    quoted_length[of "''crew''"] quoted_length[of "''t1''"]
  ultimately have "length (dumps (client_envelope i n)) \<le> 5000"
    using object_length[of "[(''v'', JInt 1), (''type'', JStr ''session.register''), (''event_id'', JStr i),
     (''session_id'', JStr ''s1''), (''harness'', JStr ''pi''), (''role'', JStr ''crew''), (''task_id'', JStr ''t1''),
     (''producer_seq'', JInt n)]"]
    by (simp add: client_envelope_def client_event_def put_def show_int_def[of 1] show_nat.simps[of 1] del: dumps.simps(7))
  then show ?thesis using client_envelope_valid[OF assms] by (simp add: encode_def MAX_FRAME_BYTES_def Let_def)
qed

text \<open>A parser that knows two messages.\<close>

definition loads_two :: "json \<Rightarrow> json \<Rightarrow> loader" where
  "loads_two m1 m2 data = (if encode m1 = Inr data then Some m1 else if encode m2 = Inr data then Some m2 else None)"

lemma loads_two_reads:
  assumes "encode m1 \<noteq> encode m2" and "is_object m1" "is_object m2" "distinct (names m1)" "distinct (names m2)"
  shows "reads_back (loads_two m1 m2) m1" and "reads_back (loads_two m1 m2) m2"
  using assms by (auto simp: reads_back_def loads_two_def same_dict_def)

lemma digit_two: "CHR ''2'' \<notin> set (dumps (client_envelope ''e1'' 1))" "CHR ''2'' \<in> set (dumps (client_envelope ''e1'' 2))"
  "CHR ''2'' \<in> set (dumps (client_envelope ''e2'' n))"
proof -
  have code: "digit_char d = c" if "of_char c = 48 + d" for d c
    unfolding digit_char_def that[symmetric] by (rule char_of_char)
  have digits: "digit_char 1 = CHR ''1''" "digit_char (Suc 0) = CHR ''1''" "digit_char 2 = CHR ''2''"
    by (rule code; simp)+
  note eval = client_envelope_def client_event_def put_def quoted_def escape_char_def show_int_def show_nat.simps digits
  show "CHR ''2'' \<notin> set (dumps (client_envelope ''e1'' 1))" by (simp add: eval)
  show "CHR ''2'' \<in> set (dumps (client_envelope ''e1'' 2))" by (simp add: eval)
  show "CHR ''2'' \<in> set (dumps (client_envelope ''e2'' n))"
    by (simp add: client_envelope_def client_event_def put_def quoted_def escape_char_def)
qed

text \<open>Reserving and publishing, forwards.\<close>

lemma reserve_next:
  assumes ok: "home_ok loads h" and "is_object ev" and "member ''producer_seq'' ev = None"
    and "envelope (put ''producer_seq'' (JInt (highest_no loads (session_of ev) h + 1)) ev)"
  shows "reserve loads ev h = Inr (put ''producer_seq'' (JInt (highest_no loads (session_of ev) h + 1)) ev)"
proof -
  let ?s = "session_of ev"
  let ?m = "put ''producer_seq'' (JInt (highest_no loads ?s h + 1)) ev"
  have "highest_no loads ?s h + 1 \<le> MAX_INTEGER"
    using envelope_fields(3)[OF assms(4)] put_texts(2)[OF assms(2)] by simp
  moreover have "producer_event False ?m = Inr ?m" using assms(4) by (simp add: envelope_def)
  moreover have "max_spooled loads ?s 0 (hm_spool h) = Inr (Max (insert 0 (spooled_numbers loads ?s (hm_spool h))))"
    using ok by (intro max_spooled_value) (simp add: home_ok_def)
  moreover have "max (stored_no ?s h) (Max (insert 0 (spooled_numbers loads ?s (hm_spool h)))) = highest_no loads ?s h"
    using stored_counter(2)[OF ok, of ?s] finite_spooled_numbers[of loads ?s "hm_spool h"]
    by (cases "spooled_numbers loads ?s (hm_spool h) = {}") (auto simp: highest_no_def max_def)
  ultimately show ?thesis
    using assms(3) stored_counter(1)[OF ok, of ?s] by (simp add: reserve_def)
qed

lemma client_reserved:
  assumes "home_ok loads h" and "highest_no loads ''s1'' h = n - 1" and "id_text i" and "1 \<le> n" and "n \<le> MAX_INTEGER"
    and "map_of (hm_spool h) (i @ ''.json'') = None"
  shows "reserve_published loads (client_event i) h
    = Inr (client_envelope i n, h\<lparr>hm_spool := hm_spool h @ [(i @ ''.json'', PrivateFile (dumps (client_envelope i n) @ [CHR 0x0A]))]\<rparr>)"
proof -
  have "reserve loads (client_event i) h = Inr (client_envelope i n)"
    using reserve_next[OF assms(1), of "client_event i"] client_envelope_ok(1)[OF assms(3-5)] assms(2)
    by (simp add: client_event_reads client_envelope_def)
  moreover have "publish (client_envelope i n) h
    = Inr (h\<lparr>hm_spool := hm_spool h @ [(i @ ''.json'', PrivateFile (dumps (client_envelope i n) @ [CHR 0x0A]))]\<rparr>)"
    using client_envelope_encodes[OF assms(3-5)] assms(6) by (simp add: publish_def client_envelope_reads lift_protocol_def)
  ultimately show ?thesis by (simp add: reserve_published_def)
qed

lemma client_prepared:
  assumes "home_ok loads h" and "highest_no loads ''s1'' h = n - 1" and "id_text i" and "1 \<le> n" and "n \<le> MAX_INTEGER"
    and "map_of (hm_spool h) (i @ ''.json'') = None"
  shows "prepare_event loads (client_event i) h
    = Inr (client_envelope i n, save_counter ''s1'' n
        (h\<lparr>hm_spool := hm_spool h @ [(i @ ''.json'', PrivateFile (dumps (client_envelope i n) @ [CHR 0x0A]))]\<rparr>))"
  using client_reserved[OF assms] client_envelope_ok(2)[OF assms(3-5)] assms(6)
  by (simp add: prepare_event_def lift_protocol_def client_event_reads client_envelope_reads)

definition client_parser :: loader where
  "client_parser = loads_two (client_envelope ''e1'' 1) (client_envelope ''e2'' 2)"

definition crashed_home :: client_home where
  "crashed_home = \<lparr>hm_spool = [(''e1.json'', PrivateFile (dumps (client_envelope ''e1'' 1) @ [CHR 0x0A]))], hm_counters = []\<rparr>"

lemma client_ids: "id_text ''e1''" "id_text ''e2''" "(1 :: int) \<le> MAX_INTEGER" "(2 :: int) \<le> MAX_INTEGER"
  by (simp_all add: id_text_def is_letter_or_digit_def less_eq_char_def MAX_INTEGER_def)

lemma client_parser_reads:
  "reads_back client_parser (client_envelope ''e1'' 1)" "reads_back client_parser (client_envelope ''e2'' 2)"
proof -
  have "dumps (client_envelope ''e1'' 1) \<noteq> dumps (client_envelope ''e2'' 2)" using digit_two by metis
  then have "encode (client_envelope ''e1'' 1) \<noteq> encode (client_envelope ''e2'' 2)"
    using client_envelope_encodes[of "''e1''" 1] client_envelope_encodes[of "''e2''" 2] client_ids by simp
  from loads_two_reads[OF this] show "reads_back client_parser (client_envelope ''e1'' 1)"
    "reads_back client_parser (client_envelope ''e2'' 2)"
    by (simp_all add: client_parser_def client_envelope_reads)
qed

lemma crashed_home_run: "reserve_published client_parser (client_event ''e1'') empty_home = Inr (client_envelope ''e1'' 1, crashed_home)"
proof -
  have "hm_spool empty_home = []" "empty_home\<lparr>hm_spool := s\<rparr> = \<lparr>hm_spool = s, hm_counters = []\<rparr>" for s
    by (simp_all add: empty_home_def)
  with client_reserved[OF empty_home_ok(1), where n = 1 and i = "''e1''"] client_ids empty_home_ok(2) show ?thesis
    by (simp add: crashed_home_def)
qed

lemma crashed_home_ok: "home_ok client_parser crashed_home" "highest_no client_parser ''s1'' crashed_home = 1"
proof -
  have fresh: "map_of (hm_spool empty_home) (event_file (client_event ''e1'')) = None" by (simp add: empty_home_def)
  note pub = published_home[OF empty_home_ok(1) crashed_home_run fresh client_event_reads(4,5) client_parser_reads(1)]
  from pub(1) show "home_ok client_parser crashed_home" .
  from pub(3)[of "''s1''"] show "highest_no client_parser ''s1'' crashed_home = 1" by (simp add: client_envelope_reads)
qed


end
