(* ===== verification/Client_Promises.thy ===== *)
theory Client_Promises
  imports Client_Theorems
begin

text \<open>
  What is promised about single envelopes: repeating an event returns its reservation, nothing that
  was published is replaced, only a matching acknowledgement lets the client remove a file, and
  client and daemon read the directory alike.  The last section is about what happens when the
  daemon has imported a file between two calls of the client.
\<close>

section \<open>Repeating an event\<close>

text \<open>A run keeps a file until it is removed, and puts nothing else under its name but a new envelope.\<close>

lemma step_keeps_file:
  assumes "client_step loads h l h'" and "home_ok loads h" and "map_of (hm_spool h') name = Some g"
    and "case l of None \<Rightarrow> True | Some m \<Rightarrow> event_file m \<noteq> name"
  shows "map_of (hm_spool h) name = Some g"
  using assms(1)
proof cases
  case (reserved ev m)
  from prepare_new[OF reserved(3,2)] obtain h1 where h1: "is_object ev" "reserve_published loads ev h = Inr (m, h1)"
    "h' = save_counter (session_of ev) (seq_of m) h1" by blast
  then have res: "reserve loads ev h = Inr m" and pub: "publish m h = Inr h1"
    by (auto simp: reserve_published_def and_then_eq_Inr)
  note num = reserve_number[OF assms(2) res h1(1) reserved(4)]
  from publish_new[OF pub _ num(2) reserved(5)] reserved(2) num(5) obtain data where
    "h1 = h\<lparr>hm_spool := hm_spool h @ [(event_file m, PrivateFile data)]\<rparr>" by auto
  with assms(3,4) reserved(1) h1(3) show ?thesis by (auto simp: save_counter_def split: if_splits)
next
  case (crashed ev c m)
  from producer_event_object[OF crashed(3)] have c: "c = ev" "is_object ev" by auto
  from crashed(4) have res: "reserve loads ev h = Inr m" and pub: "publish m h = Inr h'"
    by (auto simp: reserve_published_def and_then_eq_Inr c(1))
  note num = reserve_number[OF assms(2) res c(2) crashed(5)]
  from publish_new[OF pub _ num(2) crashed(6)] crashed(2) num(5) obtain data where
    "h' = h\<lparr>hm_spool := hm_spool h @ [(event_file m, PrivateFile data)]\<rparr>" by auto
  with assms(3,4) crashed(1) show ?thesis by (auto split: if_splits)
next
  case (repeated ev f m)
  then have "h' = h" by (auto simp: prepare_event_def and_then_eq_Inr dest!: producer_event_object split: if_splits)
  with assms(3) show ?thesis by simp
next
  case (removed n data m)
  with assms(3) show ?thesis by (auto simp: delete_conv' split: if_splits)
qed

lemma run_keeps_file:
  "labelled_run (client_step loads) h ms h' \<Longrightarrow> home_ok loads h \<Longrightarrow> map_of (hm_spool h') name = Some g
    \<Longrightarrow> name \<notin> event_file ` set ms \<Longrightarrow> map_of (hm_spool h) name = Some g"
proof (induction rule: labelled_run.induct)
  case (silent h es h1 h2)
  from sessions.run_inv[OF silent(1,4)] step_keeps_file[OF silent(2)] silent.IH silent.prems show ?case by auto
next
  case (emit h es h1 e h2)
  from sessions.run_inv[OF emit(1,4)] step_keeps_file[OF emit(2)] emit.IH emit.prems show ?case by auto
qed simp

lemma same_event_put:
  assumes "is_object ev" and "member ''producer_seq'' ev = None" and "same_dict (put ''producer_seq'' v ev) m'"
  shows "same_logical_event ev m'"
  using assms same_dict_member[OF assms(3)]
  by (simp add: same_logical_event_def list_all_iff put_member)

text \<open>
  Repeating an event id gets the same reservation.  Once an event without a number was reserved,
  the same call at any later time, as long as its file is in the spool and no other envelope was
  reserved under its event id, returns the envelope that was reserved, number included, and changes
  neither the spool nor the counters.
\<close>

theorem repeat_returns_the_reservation:
  assumes "home_ok loads h" and "prepare_event loads ev h = Inr (m, h1)" and "map_of (hm_spool h) (event_file ev) = None"
    and "distinct (names ev)" and "member ''producer_seq'' ev = None" and "reads_back loads m"
    and "labelled_run (client_step loads) h1 ms h2" and "event_file ev \<notin> event_file ` set ms"
    and "event_file ev \<in> set (keys (hm_spool h2))"
  shows "\<exists>m'. prepare_event loads ev h2 = Inr (m', h2) \<and> same_dict m m' \<and> seq_of m' = seq_of m"
proof -
  from prepare_new[OF assms(2,3)] obtain h' where h': "producer_event True ev = Inr ev" "is_object ev"
    "reserve_published loads ev h = Inr (m, h')" "h1 = save_counter (session_of ev) (seq_of m) h'" by blast
  then have res: "reserve loads ev h = Inr m" and pub: "publish m h = Inr h'"
    by (auto simp: reserve_published_def and_then_eq_Inr)
  note num = reserve_number[OF assms(1) res h'(2) assms(4)]
  from publish_new[OF pub _ num(2) assms(6)] assms(3) num(5) obtain data m' where
    data: "h' = h\<lparr>hm_spool := hm_spool h @ [(event_file m, PrivateFile data)]\<rparr>" "length data \<le> MAX_FRAME_BYTES"
      "read_envelope loads data = Inr m'" "same_dict m m'" by auto
  have "client_step loads h (Some m) h1" using assms(2-4,6) by (intro client_step.reserved)
  from client_step_ok[OF this assms(1)] have ok: "home_ok loads h1" by simp
  from assms(9) obtain g where g: "map_of (hm_spool h2) (event_file ev) = Some g" by (meson not_key_iff option.exhaust)
  from run_keeps_file[OF assms(7) ok g assms(8)] assms(3) have "g = PrivateFile data"
    by (simp add: h'(4) save_counter_def data(1) num(5) map_add_def split: option.splits)
  moreover from data(4) have "same_logical_event ev m'"
    unfolding num(1) by (intro same_event_put[OF h'(2) assms(5)])
  ultimately have "prepare_event loads ev h2 = Inr (m', h2)"
    using g data(2,3) h'(1) by (simp add: prepare_event_def lift_protocol_def read_file_def)
  with data(4) same_dict_text(3)[OF data(4)] show ?thesis by blast
qed

text \<open>The first event of a session from an empty directory.\<close>

definition first_home :: client_home where
  "first_home = save_counter ''s1'' 1 crashed_home"

lemma first_home_run: "prepare_event client_parser (client_event ''e1'') empty_home = Inr (client_envelope ''e1'' 1, first_home)"
  using crashed_home_run client_envelope_ok(2)[of "''e1''" 1] client_ids
  by (simp add: prepare_event_def lift_protocol_def client_event_reads client_envelope_reads empty_home_def first_home_def)

lemma first_home_ok: "home_ok client_parser first_home" "highest_no client_parser ''s1'' first_home = 1"
    "stored_no ''s1'' first_home = 1"
  using saved_home[OF crashed_home_ok(1) _ client_ids(3) crashed_home_ok(2)] crashed_home_ok(2)
  by (simp_all add: first_home_def)

lemma second_home_run:
  "\<exists>h2. prepare_event client_parser (client_event ''e2'') first_home = Inr (client_envelope ''e2'' 2, h2)
     \<and> keys (hm_spool h2) = [''e1.json'', ''e2.json'']"
  using client_prepared[OF first_home_ok(1), where n = 2 and i = "''e2''"] first_home_ok(2) client_ids
  by (simp add: first_home_def save_counter_def crashed_home_def)

theorem repeat_returns_the_reservation_witness:
  "\<exists>h2 m'. prepare_event client_parser (client_event ''e2'') first_home = Inr (client_envelope ''e2'' 2, h2)
     \<and> prepare_event client_parser (client_event ''e1'') h2 = Inr (m', h2) \<and> seq_of m' = 1"
proof -
  obtain h2 where h2: "prepare_event client_parser (client_event ''e2'') first_home = Inr (client_envelope ''e2'' 2, h2)"
    "keys (hm_spool h2) = [''e1.json'', ''e2.json'']" using second_home_run by (elim exE conjE) (rule that)
  have fresh: "map_of (hm_spool first_home) (event_file (client_event ''e2'')) = None"
    by (simp add: client_event_reads first_home_def save_counter_def crashed_home_def)
  from client_step.reserved[OF fresh h2(1) client_event_reads(5) client_parser_reads(2)]
  have run: "labelled_run (client_step client_parser) first_home [client_envelope ''e2'' 2] h2"
    using labelled_run.emit[where es = "[]", OF labelled_run.start] by force
  have "map_of (hm_spool empty_home) (event_file (client_event ''e1'')) = None" by (simp add: empty_home_def)
  from repeat_returns_the_reservation[OF empty_home_ok(1) first_home_run this client_event_reads(5,3) client_parser_reads(1) run]
  show ?thesis using h2 by (simp add: client_event_reads client_envelope_reads) (elim exE conjE, rule exI, rule conjI)
qed

section \<open>Files\<close>

text \<open>
  C27: nothing that was published is ever replaced.  After reserving or spooling any event every file of
  the spool is there with the same content (and no file is removed); the clean-up after an
  acknowledgement removes at most the file of its event, and that only while it holds exactly the
  bytes of the envelope that was acknowledged.
\<close>

theorem published_content_survives:
  assumes "map_of (hm_spool h) name = Some f"
  shows "(prepare_event loads ev h = Inr (m, h1) \<longrightarrow> map_of (hm_spool h1) name = Some f)
    \<and> (spool_event ev h = Inr h2 \<longrightarrow> map_of (hm_spool h2) name = Some f)
    \<and> (remove_reserved ev h = Inr h3 \<longrightarrow> map_of (hm_spool h3) name = Some f
         \<or> (name = event_file ev \<and> (\<exists>data. f = PrivateFile data \<and> encode ev = Inr data)))"
proof (intro conjI impI)
  have pub: "map_of (hm_spool h') name = Some f" if "publish x h = Inr h'" for x h'
    using that assms by (auto simp: publish_def and_then_eq_Inr map_add_def split: option.splits if_splits)
  then show "map_of (hm_spool h2) name = Some f" if "spool_event ev h = Inr h2"
    using that by (auto simp: spool_event_def and_then_eq_Inr)
  show "map_of (hm_spool h1) name = Some f" if "prepare_event loads ev h = Inr (m, h1)"
    using that assms pub
    by (auto simp: prepare_event_def reserve_published_def and_then_eq_Inr save_counter_def split: option.splits if_splits)
  show "map_of (hm_spool h3) name = Some f \<or> (name = event_file ev \<and> (\<exists>data. f = PrivateFile data \<and> encode ev = Inr data))"
    if "remove_reserved ev h = Inr h3"
    using that assms
    by (auto simp: remove_reserved_def and_then_eq_Inr read_file_def fail_def delete_conv'
        split: option.splits spool_file.splits if_splits)
qed

theorem published_content_survives_witness:
  "map_of (hm_spool first_home) ''e1.json'' \<noteq> None
     \<and> (\<exists>h2. prepare_event client_parser (client_event ''e2'') first_home = Inr (client_envelope ''e2'' 2, h2)
        \<and> map_of (hm_spool h2) ''e1.json'' = map_of (hm_spool first_home) ''e1.json'')"
proof -
  obtain h2 where h2: "prepare_event client_parser (client_event ''e2'') first_home = Inr (client_envelope ''e2'' 2, h2)"
    using second_home_run by (elim exE conjE) (rule that)
  obtain f where f: "map_of (hm_spool first_home) ''e1.json'' = Some f"
    by (simp add: first_home_def save_counter_def crashed_home_def)
  from published_content_survives[OF f] h2 f show ?thesis by auto
qed

section \<open>Acknowledgements\<close>

lemma map_of_key: "k \<in> set (keys tbl) \<longleftrightarrow> map_of tbl k \<noteq> None"
  using not_key_iff by metis

lemma published_file: "publish m h = Inr h' \<Longrightarrow> event_file m \<in> set (keys (hm_spool h'))"
  unfolding map_of_key by (auto simp: publish_def and_then_eq_Inr map_add_def split: option.splits if_splits)

lemma prepared_file:
  assumes "prepare_event loads ev h = Inr (m, h')"
  shows "event_file ev \<in> set (keys (hm_spool h'))"
proof (cases "map_of (hm_spool h) (event_file ev)")
  case None
  from prepare_new[OF assms None] obtain h1 where h1: "is_object ev" "reserve_published loads ev h = Inr (m, h1)"
    "h' = save_counter (session_of ev) (seq_of m) h1" by blast
  then have "reserve loads ev h = Inr m" and pub: "publish m h = Inr h1"
    by (auto simp: reserve_published_def and_then_eq_Inr)
  then have "\<exists>v. m = put ''producer_seq'' v ev"
    by (auto simp: reserve_def and_then_eq_Inr Let_def producer_event_Inr split: if_splits)
  then have "event_file m = event_file ev" using put_texts[OF h1(1)] by (auto simp: event_file_def)
  with published_file[OF pub] h1(3) show ?thesis by (simp add: save_counter_def)
next
  case (Some f)
  then have "h' = h" using assms
    by (auto simp: prepare_event_def and_then_eq_Inr dest!: producer_event_object split: if_splits)
  then show ?thesis using Some unfolding map_of_key by simp
qed

text \<open>
  Only a matching acknowledgement lets go of a reservation.  When \<open>send\<close> returns, the reply was an
  acknowledgement of the very event id, and the file is gone; whenever it raises after the event was
  reserved, the directory is as the others left it and held the event's file when the exchange began;
  and when it raises before that, nothing changed.
\<close>

theorem only_an_ack_lets_go:
  "case send_event loads others chunks ev h of
     (Inr ack, h2) \<Rightarrow> \<exists>m h1. prepare_event loads ev h = Inr (m, h1) \<and> member ''type'' ack = Some (JStr ''ack'')
         \<and> member ''event_id'' ack = member ''event_id'' m \<and> event_file m \<notin> set (keys (hm_spool h2))
   | (Inl e, h2) \<Rightarrow> (case prepare_event loads ev h of
         Inl e' \<Rightarrow> e = e' \<and> h2 = h
       | Inr (m, h1) \<Rightarrow> h2 = others h1 \<and> event_file ev \<in> set (keys (hm_spool h1)))"
proof (cases "prepare_event loads ev h")
  case (Inr r)
  obtain m h1 where r: "r = (m, h1)" by (cases r)
  note kept = prepared_file[OF Inr[unfolded r]]
  show ?thesis
  proof (cases "exchange loads chunks m")
    case (Inl e)
    with Inr r kept show ?thesis by (simp add: send_event_def)
  next
    case ack: (Inr ack)
    then have matching: "member ''type'' ack = Some (JStr ''ack'')" "member ''event_id'' ack = member ''event_id'' m"
      by (auto simp: exchange_def and_then_eq_Inr split: if_splits)
    have "event_file m \<notin> set (keys (hm_spool h2))" if "remove_reserved m (others h1) = Inr h2" for h2
      using that by (auto simp: remove_reserved_def not_key_iff and_then_eq_Inr delete_conv' simp del: set_map
          split: option.splits if_splits)
    with Inr r kept ack matching show ?thesis
      by (cases "remove_reserved m (others h1)") (simp_all add: send_event_def)
  qed
qed (simp add: send_event_def)

section \<open>The daemon's view of the directory\<close>

definition daemon_entry :: "loader \<Rightarrow> string \<times> spool_file \<Rightarrow> spool_entry" where
  "daemon_entry loads = (\<lambda>(name, f). case f of
       UnsafeEntry \<Rightarrow> \<lparr>sp_name = name, sp_private = False, sp_bytes = 0, sp_parsed = None\<rparr>
     | PrivateFile data \<Rightarrow> \<lparr>sp_name = name, sp_private = True, sp_bytes = length data, sp_parsed = loads data\<rparr>)"

text \<open>
  Client and daemon read the spool alike.  A file is a message the daemon imports exactly when the
  client reads it as evidence of a reservation, as the same message, and its name is that of the
  event; so on a readable directory the daemon can import every envelope, and a spool the client can
  number from holds nothing the daemon rejects.
\<close>

theorem client_and_daemon_read_alike:
  "spool_message (daemon_entry loads (name, f)) = Some m \<longleftrightarrow>
     suffix ''.json'' name \<and> name = event_file m
     \<and> (\<exists>data. read_file f = Inr data \<and> read_envelope loads data = Inr m)"
proof (cases f)
  case (PrivateFile data)
  have env: "read_envelope loads data = Inr m \<longleftrightarrow>
      decode (length data) (loads data) = Inr m \<and> requires_producer_seq (str_member ''type'' m)"
  proof -
    have "validate m = Inr m \<and> (\<exists>t. text_of ''type'' m = Some t \<and> requires_producer_seq t)
        \<longleftrightarrow> requires_producer_seq (str_member ''type'' m)" if d: "decode (length data) (loads data) = Inr m"
    proof -
      from d obtain x where x: "validate x = Inr m" by (auto simp: decode_def fail_def split: if_splits option.splits)
      then have "x = m" by (rule validate_Inr) simp
      with x have v: "validate m = Inr m" by simp
      then obtain t where "member ''type'' m = Some (JStr t)" by (rule validate_Inr)
      with v show ?thesis by (simp add: str_member_def text_of_def text_or_null_def)
    qed
    then show ?thesis by (auto simp: read_envelope_def and_then_eq_Inr producer_event_Inr)
  qed
  show ?thesis
    using PrivateFile by (auto simp: spool_message_def daemon_entry_def read_file_def env event_file_def
        split: sum.splits if_splits)
qed (auto simp: spool_message_def daemon_entry_def read_file_def)

section \<open>Importing between two calls\<close>

definition without_file :: "string \<Rightarrow> client_home \<Rightarrow> client_home" where
  "without_file name h = h\<lparr>hm_spool := AList.delete name (hm_spool h)\<rparr>"

lemma without_file_ok: "home_ok loads h \<Longrightarrow> home_ok loads (without_file name h)"
  using distinct_delete[of "hm_spool h" name]
  by (simp add: home_ok_def without_file_def list_all_iff) (simp add: AList.delete_eq)

lemma published_alone:
  assumes "reserve_published loads ev h = Inr (m, h1)" and "map_of (hm_spool h) (event_file ev) = None"
    and "event_file m = event_file ev"
  shows "without_file (event_file ev) h1 = h"
proof -
  from assms obtain data where "h1 = h\<lparr>hm_spool := hm_spool h @ [(event_file ev, PrivateFile data)]\<rparr>"
    by (auto simp: reserve_published_def and_then_eq_Inr publish_def)
  moreover have "AList.delete (event_file ev) (hm_spool h) = hm_spool h"
    using assms(2) by (simp add: delete_notin_dom domIff flip: not_key_iff)
  ultimately show ?thesis by (simp add: without_file_def AList.delete_eq)
qed

lemma event_of_fields: "ev_id (event_of m) = str_member ''event_id'' m" "producer_no (event_of m) = seq_of m"
  "ev_session (event_of m) = session_of m"
  by (simp_all add: event_of_def)

text \<open>
  Repeating an event after its import loses the event and a number.  When the daemon has imported and
  removed a reservation and the client then repeats the same event, the client reserves the next
  number under the old event id, which the daemon refuses for good as a conflict with the envelope in
  its log: no store that holds the first envelope ever takes the number.
\<close>

theorem retry_after_import_conflicts:
  assumes "home_ok loads h" and "prepare_event loads ev h = Inr (m, h1)" and "map_of (hm_spool h) (event_file ev) = None"
    and "distinct (names ev)" and "reads_back loads m"
    and "prepare_event loads ev (without_file (event_file ev) h1) = Inr (m2, h3)"
    and "find_event (ev_id (event_of m)) s = Some row" and "er_event row = event_of m"
  shows "seq_of m2 = seq_of m + 1 \<and> event_file m2 \<in> set (keys (hm_spool h3))
    \<and> accept_event tasks (event_of m2) s = Inl (ValueError ''event_id conflicts with its durable envelope'')"
proof -
  let ?f = "event_file ev" and ?s = "session_of ev"
  let ?h2 = "without_file ?f h1"
  from prepare_new[OF assms(2,3)] obtain h' where h': "is_object ev" "reserve_published loads ev h = Inr (m, h')"
    "h1 = save_counter ?s (seq_of m) h'" by blast
  then have res: "reserve loads ev h = Inr m" by (auto simp: reserve_published_def and_then_eq_Inr)
  note num = reserve_number[OF assms(1) res h'(1) assms(4)]
  have "client_step loads h (Some m) h1" using assms(2-5) by (intro client_step.reserved)
  from client_step_ok[OF this assms(1)] have ok1: "home_ok loads h1" by simp
  note ok2 = without_file_ok[OF this, of ?f]
  have range: "0 \<le> seq_of m" "seq_of m \<le> MAX_INTEGER" using envelope_fields(2,3)[OF num(2)] by auto
  have "hm_spool (without_file ?f h') = hm_spool h" by (simp add: published_alone[OF h'(2) assms(3) num(5)])
  then have spool: "hm_spool ?h2 = hm_spool h"
    by (simp add: without_file_def h'(3) save_counter_def)
  have "stored_no ?s ?h2 = seq_of m"
    using read_saved_counter[OF range]
    by (simp add: stored_no_def counter_text_def without_file_def h'(3) save_counter_def update_conv')
  moreover have "Max (insert (seq_of m) (spooled_numbers loads ?s (hm_spool h))) = seq_of m"
  proof (rule Max_insert2)
    show "finite (spooled_numbers loads ?s (hm_spool h))" by (rule finite_spooled_numbers)
    fix k
    assume "k \<in> spooled_numbers loads ?s (hm_spool h)"
    then have "k \<le> highest_no loads ?s h" using finite_spooled_numbers by (simp add: highest_no_def)
    then show "k \<le> seq_of m" unfolding num(4) by simp
  qed
  ultimately have high: "highest_no loads ?s ?h2 = seq_of m" by (simp add: highest_no_def spool)
  have new2: "map_of (hm_spool ?h2) ?f = None" using assms(3) by (simp add: spool)
  from prepare_new[OF assms(6) new2] obtain h'' where h'': "reserve_published loads ev ?h2 = Inr (m2, h'')"
    "h3 = save_counter ?s (seq_of m2) h''" by blast
  then have res2: "reserve loads ev ?h2 = Inr m2" by (auto simp: reserve_published_def and_then_eq_Inr)
  note num2 = reserve_number[OF ok2 res2 h'(1) assms(4)]
  have seq: "seq_of m2 = seq_of m + 1" unfolding num2(4) high by (rule refl)
  have "str_member ''event_id'' m2 = str_member ''event_id'' m" using put_texts(1)[OF h'(1)] by (simp add: num(1) num2(1))
  then have "accept_event tasks (event_of m2) s = Inl (ValueError ''event_id conflicts with its durable envelope'')"
    using assms(7,8) seq event_of_fields(2)[of m] event_of_fields(2)[of m2]
    by (auto simp: accept_event_def event_of_fields(1))
  with seq prepared_file[OF assms(6)] num2(5) show ?thesis by simp
qed

text \<open>
  C28: a crash before the counter is saved can give a number twice.  The envelope whose reservation crashed
  is in the spool; when the daemon imports and removes it before the client's next call, nothing is
  left of the number, the next event of the session gets the same one, and the reducer, which has
  applied the first, drops the second as stale.
\<close>

theorem crash_then_import_reuses_number:
  assumes "home_ok loads h" and "producer_event True ev = Inr ev" and "reserve_published loads ev h = Inr (m, h1)"
    and "map_of (hm_spool h) (event_file ev) = None" and "distinct (names ev)"
    and "prepare_event loads ev2 (without_file (event_file ev) h1) = Inr (m2, h3)"
    and "map_of (hm_spool h) (event_file ev2) = None" and "distinct (names ev2)" and "session_of ev2 = session_of ev"
    and "seq_of m \<le> producer_seq st"
  shows "seq_of m2 = seq_of m \<and> event_file m2 \<in> set (keys (hm_spool h3))
    \<and> reduce_event st (event_of m2) = Inr \<lparr>rd_state = st, rd_applied = False, rd_reason = Some ''stale-producer-seq''\<rparr>"
proof -
  from producer_event_object[OF assms(2)] have obj: "is_object ev" by simp
  from assms(3) have res: "reserve loads ev h = Inr m" by (auto simp: reserve_published_def and_then_eq_Inr)
  note num = reserve_number[OF assms(1) res obj assms(5)]
  have gone: "without_file (event_file ev) h1 = h" by (rule published_alone[OF assms(3,4) num(5)])
  from prepare_new[OF assms(6)[unfolded gone] assms(7)] obtain h'' where
    h'': "is_object ev2" "reserve_published loads ev2 h = Inr (m2, h'')" by blast
  then have res2: "reserve loads ev2 h = Inr m2" by (auto simp: reserve_published_def and_then_eq_Inr)
  note num2 = reserve_number[OF assms(1) res2 h''(1) assms(8)]
  have seq: "seq_of m2 = seq_of m" unfolding num(4) num2(4) assms(9) by (rule refl)
  have "1 \<le> seq_of m2" by (rule envelope_fields(2)[OF num2(2)])
  then have "reduce_event st (event_of m2) = Inr \<lparr>rd_state = st, rd_applied = False, rd_reason = Some ''stale-producer-seq''\<rparr>"
    using assms(10) seq by (simp add: reduce_event_def event_of_fields(2))
  with seq prepared_file[OF assms(6)] num2(5) show ?thesis by simp
qed

text \<open>The first event, imported, then repeated; and a second event after a crash and an import.\<close>

lemma client_envelope_event: "event_of (client_envelope i n) = crew_event i n SessionRegister"
  by (simp add: event_of_def client_envelope_def client_event_def put_def crew_event_def read_member harness_of_def
      role_of_def lifecycle_kinds)

lemma imported_row: "find_event ''e1'' crew_registered = Some \<lparr>er_durable_seq = 1, er_event = crew_event ''e1'' 1 SessionRegister\<rparr>"
  by (simp add: crew_registered_def accept_eval)

theorem retry_after_import_conflicts_witness:
  "\<exists>m2 h3. prepare_event client_parser (client_event ''e1'') (without_file ''e1.json'' first_home) = Inr (m2, h3)
     \<and> seq_of m2 = 2
     \<and> accept_event bare_dir (event_of m2) crew_registered = Inl (ValueError ''event_id conflicts with its durable envelope'')"
proof -
  let ?h2 = "without_file ''e1.json'' first_home"
  have empty: "hm_spool ?h2 = []" by (simp add: without_file_def first_home_def save_counter_def crashed_home_def)
  have "stored_no ''s1'' ?h2 = stored_no ''s1'' first_home" by (simp add: stored_no_def counter_text_def without_file_def)
  then have "highest_no client_parser ''s1'' ?h2 = 1"
    using first_home_ok(3) by (simp add: highest_no_def empty spooled_numbers_Nil)
  then obtain h3 where run: "prepare_event client_parser (client_event ''e1'') ?h2 = Inr (client_envelope ''e1'' 2, h3)"
    using client_prepared[OF without_file_ok[OF first_home_ok(1)], where n = 2 and i = "''e1''"] client_ids empty by simp
  have fresh: "map_of (hm_spool empty_home) (event_file (client_event ''e1'')) = None" by (simp add: empty_home_def)
  have name: "event_file (client_event ''e1'') = ''e1.json''" by (simp add: client_event_reads)
  have row: "find_event (ev_id (event_of (client_envelope ''e1'' 1))) crew_registered
      = Some \<lparr>er_durable_seq = 1, er_event = crew_event ''e1'' 1 SessionRegister\<rparr>"
    using imported_row by (simp add: client_envelope_event crew_event_def)
  have same: "er_event \<lparr>er_durable_seq = 1, er_event = crew_event ''e1'' 1 SessionRegister\<rparr> = event_of (client_envelope ''e1'' 1)"
    by (simp add: client_envelope_event)
  from retry_after_import_conflicts[OF empty_home_ok(1) first_home_run fresh client_event_reads(5) client_parser_reads(1)
      run[folded name] row same, of bare_dir] run
  show ?thesis by (simp add: client_envelope_reads)
qed

theorem crash_then_import_reuses_number_witness:
  "\<exists>h3 st. prepare_event client_parser (client_event ''e2'') (without_file ''e1.json'' crashed_home)
      = Inr (client_envelope ''e2'' 1, h3)
     \<and> get_session_state ''s1'' crew_registered = Some st
     \<and> reduce_event st (crew_event ''e2'' 1 SessionRegister)
       = Inr \<lparr>rd_state = st, rd_applied = False, rd_reason = Some ''stale-producer-seq''\<rparr>"
proof -
  have name: "event_file (client_event ''e1'') = ''e1.json''" by (simp add: client_event_reads)
  have gone: "without_file ''e1.json'' crashed_home = empty_home"
    by (simp add: without_file_def crashed_home_def empty_home_def)
  have fresh: "map_of (hm_spool empty_home) (event_file (client_event i)) = None" for i by (simp add: empty_home_def)
  obtain h3 where run: "prepare_event client_parser (client_event ''e2'') (without_file ''e1.json'' crashed_home)
      = Inr (client_envelope ''e2'' 1, h3)"
    using client_prepared[OF empty_home_ok(1), where n = 1 and i = "''e2''"] client_ids empty_home_ok(2)
    unfolding gone by (simp add: empty_home_def)
  obtain st where st: "get_session_state ''s1'' crew_registered = Some st" "producer_seq st = 1"
    by (simp add: crew_registered_def accept_eval)
  have ev: "producer_event True (client_event ''e1'') = Inr (client_event ''e1'')"
    using client_envelope_ok(2)[of "''e1''" 1] client_ids by simp
  have "seq_of (client_envelope ''e1'' 1) \<le> producer_seq st" by (simp add: client_envelope_reads st)
  from crash_then_import_reuses_number[OF empty_home_ok(1) ev crashed_home_run fresh client_event_reads(5) run[folded name]
      fresh client_event_reads(5) _ this] run st show ?thesis
    by (auto simp: client_event_reads client_envelope_event)
qed

end
