(* ===== verification/Herdr.thy ===== *)
theory Herdr
  imports Protocol Codec
begin

text \<open>
  \<open>lib/rozoro_monitor/herdr.py\<close>, the parts that compute: reading the metadata files, the answers of
  the Herdr socket, and the subscription of many panes.  A pane is named by text; \<open>u\<close> embeds the
  text of a JSON member.  The prose of an operating-system error is data of the entry that raised it.
\<close>

section \<open>Metadata files\<close>

definition MAX_META_BYTES :: nat where
  "MAX_META_BYTES = 64 * 1024"

text \<open>A file of the state directory: its name, and its bytes or the text of the error that opening it raises.\<close>

record meta_file =
  me_name :: string
  me_bytes :: "string + bytes"

datatype state_dir = DirFailure string | NotPrivate | DirFiles "meta_file list"

record inventory_result =
  iv_members :: "(ident \<times> ucs) list"
  iv_errors :: "string list"

text \<open>\<open>key=value\<close> lines; every line needs one, and no key may be repeated.\<close>

fun parse_fields :: "(ucs \<times> ucs) list \<Rightarrow> ucs list \<Rightarrow> string + (ucs \<times> ucs) list" where
  "parse_fields fs [] = Inr fs"
| "parse_fields fs (l # ls) =
     (if l = [] \<or> 61 \<notin> set l then Inl ''malformed line''
      else let key = takeWhile (\<lambda>c. c \<noteq> 61) l; val = tl (dropWhile (\<lambda>c. c \<noteq> 61) l) in
        if key = [] \<or> key \<in> set (keys fs) then Inl ''malformed fields''
        else parse_fields (fs @ [(key, val)]) ls)"

definition pane_field :: "(ucs \<times> ucs) list \<Rightarrow> string + ucs" where
  "pane_field fs = (let pane = (case map_of fs (u ''pane'') of Some p \<Rightarrow> p | None \<Rightarrow> []) in
     if pane = [] \<or> length pane > 128 \<or> list_ex is_space pane then Inl ''invalid pane'' else Inr pane)"

definition meta_pane :: "bytes \<Rightarrow> string + ucs" where
  "meta_pane data =
     (if length data > MAX_META_BYTES then Inl ''oversized''
      else case utf8_decode data of
          None \<Rightarrow> Inl ''invalid start byte''
        | Some text \<Rightarrow> and_then (parse_fields [] (splitlines text)) pane_field)"

definition meta_task :: "string \<Rightarrow> string" where
  "meta_task name = take (length name - 5) name"

text \<open>One pass of the loop.\<close>

definition read_meta :: "meta_file \<Rightarrow> inventory_result \<Rightarrow> inventory_result" where
  "read_meta f iv =
     (let name = me_name f; task = meta_task name in
      if \<not> suffix ''.meta'' name then iv
      else if \<not> id_text task then iv\<lparr>iv_errors := iv_errors iv @ [''invalid task id: '' @ name]\<rparr>
      else case and_then (me_bytes f) meta_pane of
          Inl e \<Rightarrow> iv\<lparr>iv_errors := iv_errors iv @ [name @ '': '' @ e]\<rparr>
        | Inr pane \<Rightarrow> iv\<lparr>iv_members := AList.update task pane (iv_members iv)\<rparr>)"

definition inventory :: "state_dir \<Rightarrow> inventory_result" where
  "inventory d = (case d of
       DirFailure e \<Rightarrow> \<lparr>iv_members = [], iv_errors = [''state directory: '' @ e]\<rparr>
     | NotPrivate \<Rightarrow> \<lparr>iv_members = [], iv_errors = [''state directory is not owner-private'']\<rparr>
     | DirFiles fs \<Rightarrow> fold read_meta (sort_key me_name fs) \<lparr>iv_members = [], iv_errors = []\<rparr>)"

section \<open>Levels\<close>

text \<open>The state of a pane; \<open>None\<close> in \<open>lv_exists\<close> means that it could not be observed.\<close>

record pane_state =
  lv_pane :: ucs
  lv_status :: json
  lv_exists :: "bool option"
  lv_revision :: "json option"

text \<open>
  Python's truth of a JSON value, and \<open>x or y\<close>.  A float is zero when its digits are (literals that
  underflow to zero are read as themselves).
\<close>

fun truthy :: "json \<Rightarrow> bool" where
  "truthy JNull = False"
| "truthy (JBool b) = b"
| "truthy (JInt n) = (n \<noteq> 0)"
| "truthy (JFloat lit) = (\<exists>c \<in> set (takeWhile (\<lambda>c. c \<notin> set ''eE'') lit). c \<notin> set ''-0.'')"
| "truthy (JStr s) = (s \<noteq> [])"
| "truthy (JArr vs) = (vs \<noteq> [])"
| "truthy (JObj fs) = (fs \<noteq> [])"

definition get :: "string \<Rightarrow> json \<Rightarrow> json" where
  "get k v = (case member k v of Some x \<Rightarrow> x | None \<Rightarrow> JNull)"

definition or_else :: "json \<Rightarrow> json \<Rightarrow> json" where
  "or_else x y = (if truthy x then x else y)"

text \<open>\<open>json.dumps(error, sort_keys=True)\<close> with its default separators.\<close>

fun spaced :: "string list \<Rightarrow> string" where
  "spaced [] = []"
| "spaced [x] = x"
| "spaced (x # y # ys) = x @ '', '' @ spaced (y # ys)"

fun dumps_spaced :: "json \<Rightarrow> string" where
  "dumps_spaced (JArr vs) = ''['' @ spaced (map dumps_spaced vs) @ '']''"
| "dumps_spaced (JObj fs) = ''{'' @ spaced (map snd (sort_key fst
       (map (\<lambda>(k, v). (k, quoted k @ '': '' @ dumps_spaced v)) fs))) @ ''}''"
| "dumps_spaced v = dumps v"

definition contains :: "'a list \<Rightarrow> 'a list \<Rightarrow> bool" where
  "contains w t \<longleftrightarrow> list_ex (prefix w) (suffixes t)"

definition not_found :: "json \<Rightarrow> bool" where
  "not_found e = (let t = casefold (u (dumps_spaced e)) in
     contains (u ''not_found'') t \<or> contains (u ''not found'') t \<or> contains (u ''pane_not_found'') t)"

text \<open>What one RPC yields: a response, a refusal by Herdr, or a failure of the transport.\<close>

datatype rpc = Response json | Refusal json | Transport string

definition unknown_level :: "ucs \<Rightarrow> bool option \<Rightarrow> pane_state" where
  "unknown_level pane ex = \<lparr>lv_pane = pane, lv_status = JStr ''unknown'', lv_exists = ex, lv_revision = None\<rparr>"

text \<open>
  The answers to \<open>agent.get\<close> and, when that says the agent is not there, to \<open>pane.get\<close>.  A response
  whose result is not an object raises.
\<close>

definition read_pane_level :: "ucs \<Rightarrow> rpc \<Rightarrow> rpc \<Rightarrow> string + pane_state" where
  "read_pane_level pane agent_get pane_get =
     (let second = (case pane_get of
            Response _ \<Rightarrow> Inr (unknown_level pane (Some True))
          | Refusal e \<Rightarrow> Inr (unknown_level pane (if not_found e then Some False else None))
          | Transport _ \<Rightarrow> Inr (unknown_level pane None))
      in case agent_get of
          Response data \<Rightarrow>
            if \<not> is_object data then Inl ''object has no attribute get''
            else let result = or_else (get ''result'' data) (JObj []) in
              if \<not> is_object result then Inl ''object has no attribute get''
              else let agent = or_else (get ''agent'' result) result in
                if \<not> is_object agent then Inl ''object has no attribute get''
                else Inr \<lparr>lv_pane = pane, lv_status = or_else (get ''agent_status'' agent) (JStr ''unknown''),
                       lv_exists = Some True,
                       lv_revision = (case get ''state_change_seq'' agent of JNull \<Rightarrow> None | r \<Rightarrow> Some r)\<rparr>
        | Refusal e \<Rightarrow> if \<not> not_found e then Inr (unknown_level pane None) else second
        | Transport _ \<Rightarrow> Inr (unknown_level pane None))"

section \<open>Subscriptions\<close>

text \<open>
  Herdr's answer to a subscription of panes, and what the start of a subscription leaves: the
  connections it holds, each with its panes.
\<close>

datatype subscribe_reply = Started | Rejected json | Broken string

fun start_shards :: "(ucs list \<Rightarrow> subscribe_reply) \<Rightarrow> ucs list \<Rightarrow> string + ucs list list" where
  "start_shards answer [] = Inr []"
| "start_shards answer (p # ps) = (case answer [p] of
       Started \<Rightarrow> and_then (start_shards answer ps) (\<lambda>rest. Inr ([p] # rest))
     | Rejected e \<Rightarrow> if not_found e then start_shards answer ps else Inl ''HerdrAPIError''
     | Broken e \<Rightarrow> Inl e)"

definition start_subscription :: "(ucs list \<Rightarrow> subscribe_reply) \<Rightarrow> ucs list \<Rightarrow> string + ucs list list" where
  "start_subscription answer panes = (case answer panes of
       Started \<Rightarrow> Inr [panes]
     | Broken e \<Rightarrow> Inl e
     | Rejected e \<Rightarrow> if length panes < 2 \<or> \<not> not_found e then Inl ''HerdrAPIError''
         else start_shards answer panes)"

text \<open>
  A line of the stream: nothing for other messages.  A pane that is an array or an object cannot be a
  key of the epochs and ends the stream; any other value that is not text belongs to no member.
\<close>

definition stream_level :: "json \<Rightarrow> string + pane_state option" where
  "stream_level msg =
     (if \<not> is_object msg then Inl ''object has no attribute get''
      else if get ''event'' msg \<noteq> JStr ''pane.agent_status_changed'' then Inr None
      else let data = or_else (get ''data'' msg) (JObj []) in
        if \<not> is_object data then Inl ''object has no attribute get''
        else case get ''pane_id'' data of
            JStr p \<Rightarrow> if p = [] then Inr None
              else let rev = (case member ''state_change_seq'' data of Some r \<Rightarrow> r | None \<Rightarrow> get ''revision'' data) in
                Inr (Some \<lparr>lv_pane = u p, lv_status = or_else (get ''agent_status'' data) (JStr ''unknown''),
                  lv_exists = Some True,
                  lv_revision = (case rev of JInt _ \<Rightarrow> Some rev | JBool _ \<Rightarrow> Some rev | _ \<Rightarrow> None)\<rparr>)
          | JArr (_ # _) \<Rightarrow> Inl ''unhashable type''
          | JObj (_ # _) \<Rightarrow> Inl ''unhashable type''
          | _ \<Rightarrow> Inr None)"

end
