(* ===== verification/Herdr_Monitor.thy ===== *)
theory Herdr_Monitor
  imports Herdr
begin

text \<open>
  \<open>MembershipMonitor\<close>: the coroutines of one event loop, between whose suspension points nothing
  else runs.  The scanner compares the inventory with the members, replaces the subscription when
  they differ, and reads the level of every pane; every subscription has a consumer, which hands
  each event to the tasks of its pane.  Both call \<open>reconcile\<close> under one lock.  A step of the model is
  what a coroutine does from one suspension point to the next; what the socket answers and how
  \<open>reconcile\<close> ends are arguments of the steps.

  \<open>mb_calls\<close> records the calls of \<open>reconcile\<close> in their order, each with where its level came from; a
  consumer remembers the number of its event for that record.  The code has neither.
\<close>

section \<open>State\<close>

datatype origin = Edge nat | Level_read nat

record reconcile_call =
  rc_task :: ident
  rc_state :: pane_state
  rc_origin :: origin

text \<open>A consumer: waiting for an event, about to handle the next task, inside \<open>reconcile\<close>, or done.\<close>

datatype consumer_at =
    Listening
  | Handling pane_state nat "(ident \<times> nat) list"
  | Calling pane_state nat "(ident \<times> nat) list"
  | Ended

text \<open>The routing of a consumer: for every task its pane and the generation of its route.\<close>

record consumer =
  cs_token :: nat
  cs_routing :: "(ident \<times> ucs \<times> nat) list"
  cs_at :: consumer_at

record replacement =
  rl_found :: "(ident \<times> ucs) list"
  rl_token :: nat
  rl_previous :: "(ident \<times> ucs) list"
  rl_previous_token :: "nat option"
  rl_previous_routes :: "(ident \<times> nat) list"

text \<open>\<open>_levels\<close> in progress: whether all panes were observed, and the last exception of this scan.\<close>

record level_pass =
  lp_rest :: "(ident \<times> ucs) list"
  lp_ok :: bool
  lp_error :: "string option"

datatype scanner_at =
    Resting
  | Starting replacement
  | Reading "replacement option" ident ucs nat level_pass
  | Waiting "replacement option" ident pane_state nat nat level_pass
  | Applying "replacement option" level_pass
  | Unwinding string
  | Draining nat

datatype holder = Scanner | Consumer nat

record monitor =
  mb_started :: bool
  mb_members :: "(ident \<times> ucs) list"
  mb_subscription :: "nat option"
  mb_connected :: bool
  mb_last_error :: "string option"
  mb_scan_errors :: "string list"
  mb_force_rebuild :: bool
  mb_active_token :: "nat option"
  mb_pane_epoch :: "(ucs \<times> nat) list"
  mb_route_generation :: "(ident \<times> nat) list"
  mb_lock :: "holder option"
  mb_next_token :: nat
  mb_consumers :: "consumer list"
  mb_scanner :: scanner_at
  mb_calls :: "reconcile_call list"

definition initial_monitor :: monitor where
  "initial_monitor = \<lparr>mb_started = False, mb_members = [], mb_subscription = None, mb_connected = False, mb_last_error = None,
     mb_scan_errors = [], mb_force_rebuild = False, mb_active_token = None, mb_pane_epoch = [],
     mb_route_generation = [], mb_lock = None, mb_next_token = 0, mb_consumers = [],
     mb_scanner = Resting, mb_calls = []\<rparr>"

text \<open>\<open>counts.get(key, 0)\<close>.\<close>

definition count_at :: "'k \<Rightarrow> ('k \<times> nat) list \<Rightarrow> nat" where
  "count_at k tbl = (case map_of tbl k of Some n \<Rightarrow> n | None \<Rightarrow> 0)"

definition find_consumer :: "nat \<Rightarrow> monitor \<Rightarrow> consumer option" where
  "find_consumer tok mb = find (\<lambda>c. cs_token c = tok) (mb_consumers mb)"

definition set_consumer :: "nat \<Rightarrow> consumer_at \<Rightarrow> monitor \<Rightarrow> monitor" where
  "set_consumer tok at mb = mb\<lparr>mb_consumers :=
     update_where (\<lambda>c. cs_token c = tok) (\<lambda>c. c\<lparr>cs_at := at\<rparr>) (mb_consumers mb)\<rparr>"

text \<open>The consumer of that token is a task that is not done.\<close>

definition running :: "nat option \<Rightarrow> monitor \<Rightarrow> bool" where
  "running tok mb = (case tok of None \<Rightarrow> False
     | Some n \<Rightarrow> (case find_consumer n mb of None \<Rightarrow> False | Some c \<Rightarrow> cs_at c \<noteq> Ended))"

text \<open>A cancelled task stops where it is; leaving \<open>async with\<close> gives the lock back.\<close>

definition cancel_consumer :: "nat \<Rightarrow> monitor \<Rightarrow> monitor" where
  "cancel_consumer tok mb = mb\<lparr>mb_consumers := filter (\<lambda>c. cs_token c \<noteq> tok) (mb_consumers mb),
     mb_lock := (if mb_lock mb = Some (Consumer tok) then None else mb_lock mb)\<rparr>"

section \<open>The level pass\<close>

definition NO_MEMBERS :: string where
  "NO_MEMBERS = ''no resident members; configured Herdr socket untested''"

definition health_after :: "(ident \<times> ucs) list \<Rightarrow> bool \<Rightarrow> monitor \<Rightarrow> monitor" where
  "health_after members connected mb = mb\<lparr>mb_connected := connected,
     mb_last_error := (if connected \<and> mb_scan_errors mb = [] then None
       else if members = [] then Some NO_MEMBERS else mb_last_error mb)\<rparr>"

text \<open>A replacement that failed: what it changed is put back, its consumer is cancelled.\<close>

definition roll_back :: "replacement \<Rightarrow> monitor \<Rightarrow> monitor" where
  "roll_back r mb = cancel_consumer (rl_token r) (mb\<lparr>mb_members := rl_previous r,
     mb_active_token := rl_previous_token r, mb_route_generation := rl_previous_routes r\<rparr>)"

text \<open>An exception that leaves \<open>scan\<close>; \<open>_replace\<close> first waits for its cancelled consumer and closes the new stream.\<close>

definition scan_raised :: "string \<Rightarrow> monitor \<Rightarrow> monitor" where
  "scan_raised e mb = mb\<lparr>mb_connected := False, mb_last_error := Some (take 128 e), mb_scanner := Resting\<rparr>"

definition pass_raised :: "replacement option \<Rightarrow> string \<Rightarrow> monitor \<Rightarrow> monitor" where
  "pass_raised r e mb = (case r of
       None \<Rightarrow> scan_raised e mb
     | Some rl \<Rightarrow> (roll_back rl mb)\<lparr>mb_scanner := Unwinding e\<rparr>)"

text \<open>After the last member: the end of \<open>_levels\<close>, then of \<open>scan\<close> or the commit of \<open>_replace\<close>.\<close>

definition finish_pass :: "replacement option \<Rightarrow> level_pass \<Rightarrow> monitor \<Rightarrow> monitor" where
  "finish_pass r lp mb =
     (let mb1 = (if lp_ok lp then mb else mb\<lparr>mb_last_error := Some (case lp_error lp of
            Some e \<Rightarrow> (if e = [] then ''Herdr level RPC unavailable'' else e)
          | None \<Rightarrow> ''Herdr level RPC unavailable'')\<rparr>)
      in case r of
          None \<Rightarrow> (health_after (mb_members mb1)
              (mb_members mb1 \<noteq> [] \<and> lp_ok lp \<and> running (mb_subscription mb1) mb1) mb1)\<lparr>mb_scanner := Resting\<rparr>
        | Some rl \<Rightarrow>
            if \<not> running (Some (rl_token rl)) mb1
            then pass_raised r ''new Herdr stream died during level reconciliation'' mb1
            else let mb2 = health_after (rl_found rl) (rl_found rl \<noteq> [] \<and> lp_ok lp)
                     (mb1\<lparr>mb_subscription := Some (rl_token rl)\<rparr>)
              in (case mb_subscription mb1 of
                  None \<Rightarrow> mb2\<lparr>mb_force_rebuild := False, mb_scanner := Resting\<rparr>
                | Some old \<Rightarrow> mb2\<lparr>mb_scanner := Draining old\<rparr>))"

definition next_member :: "replacement option \<Rightarrow> level_pass \<Rightarrow> monitor \<Rightarrow> monitor" where
  "next_member r lp mb = (case lp_rest lp of
       [] \<Rightarrow> finish_pass r lp mb
     | (task, pane) # rest \<Rightarrow>
         mb\<lparr>mb_scanner := Reading r task pane (count_at pane (mb_pane_epoch mb)) (lp\<lparr>lp_rest := rest\<rparr>)\<rparr>)"

definition start_pass :: "replacement option \<Rightarrow> (ident \<times> ucs) list \<Rightarrow> monitor \<Rightarrow> monitor" where
  "start_pass r members mb = next_member r \<lparr>lp_rest = members, lp_ok = True, lp_error = None\<rparr> mb"

text \<open>The level reader has answered; an exception counts as an unobserved pane.\<close>

definition level_read :: "replacement option \<Rightarrow> ident \<Rightarrow> ucs \<Rightarrow> nat \<Rightarrow> level_pass \<Rightarrow> string + pane_state \<Rightarrow> monitor \<Rightarrow> monitor" where
  "level_read r task pane frontier lp answer mb =
     (let lv = (case answer of Inl _ \<Rightarrow> unknown_level pane None | Inr l \<Rightarrow> l);
          seen = (lv_exists lv \<noteq> None);
          lp1 = lp\<lparr>lp_ok := lp_ok lp \<and> seen,
                   lp_error := (case answer of Inl e \<Rightarrow> Some (take 128 e) | Inr _ \<Rightarrow> lp_error lp)\<rparr>
      in mb\<lparr>mb_connected := mb_connected mb \<and> seen,
            mb_scanner := Waiting r task lv frontier (count_at task (mb_route_generation mb)) lp1\<rparr>)"

text \<open>\<open>_apply\<close> of the scanner, once the lock is free.\<close>

definition apply_level_read :: "replacement option \<Rightarrow> ident \<Rightarrow> pane_state \<Rightarrow> nat \<Rightarrow> nat \<Rightarrow> level_pass \<Rightarrow> monitor \<Rightarrow> monitor" where
  "apply_level_read r task lv frontier route lp mb =
     (if count_at (lv_pane lv) (mb_pane_epoch mb) \<noteq> frontier \<or> count_at task (mb_route_generation mb) \<noteq> route
      then next_member r lp mb
      else mb\<lparr>mb_lock := Some Scanner, mb_scanner := Applying r lp,
              mb_calls := mb_calls mb @ [\<lparr>rc_task = task, rc_state = lv, rc_origin = Level_read frontier\<rparr>]\<rparr>)"

section \<open>Scanning and replacing\<close>

definition kept_members :: "inventory_result \<Rightarrow> (ident \<times> ucs) list \<Rightarrow> (ident \<times> ucs) list" where
  "kept_members iv members = filter (\<lambda>(task, _). task \<notin> set (keys (iv_members iv))
     \<and> list_ex (prefix (task @ ''.meta:'')) (iv_errors iv)) members"

definition found_members :: "inventory_result \<Rightarrow> (ident \<times> ucs) list \<Rightarrow> (ident \<times> ucs) list" where
  "found_members iv members = iv_members iv @ kept_members iv members"

definition membership_changed :: "(ident \<times> ucs) list \<Rightarrow> (ident \<times> ucs) list \<Rightarrow> bool" where
  "membership_changed found members \<longleftrightarrow> set (keys found) \<noteq> set (keys members)
     \<or> list_ex (\<lambda>(task, pane). map_of members task \<noteq> Some pane) found"

definition changed_tasks :: "(ident \<times> ucs) list \<Rightarrow> (ident \<times> ucs) list \<Rightarrow> ident list" where
  "changed_tasks found previous = filter (\<lambda>t. map_of previous t \<noteq> map_of found t)
     (remdups (keys previous @ keys found))"

definition bump_routes :: "ident list \<Rightarrow> (ident \<times> nat) list \<Rightarrow> (ident \<times> nat) list" where
  "bump_routes tasks routes = fold (\<lambda>t tbl. AList.update t (count_at t tbl + 1) tbl) tasks routes"

text \<open>\<open>_replace\<close> up to the start of the new subscription.\<close>

definition begin_replace :: "(ident \<times> ucs) list \<Rightarrow> monitor \<Rightarrow> monitor" where
  "begin_replace found mb = mb\<lparr>mb_next_token := mb_next_token mb + 1,
     mb_route_generation := bump_routes (changed_tasks found (mb_members mb)) (mb_route_generation mb),
     mb_scanner := Starting \<lparr>rl_found = found, rl_token = mb_next_token mb, rl_previous = mb_members mb,
       rl_previous_token = mb_active_token mb, rl_previous_routes = mb_route_generation mb\<rparr>\<rparr>"

definition begin_scan :: "bool \<Rightarrow> state_dir \<Rightarrow> monitor \<Rightarrow> monitor" where
  "begin_scan force dir mb =
     (let iv = inventory dir;
          mb1 = mb\<lparr>mb_started := True, mb_scan_errors := iv_errors iv,
                   mb_last_error := (if iv_errors iv = [] then mb_last_error mb else Some (take 128 (last (iv_errors iv))))\<rparr>;
          found = found_members iv (mb_members mb)
      in if force \<or> mb_force_rebuild mb \<or> membership_changed found (mb_members mb)
         then begin_replace found mb1
         else start_pass None (mb_members mb1) mb1)"

definition routing_of :: "(ident \<times> ucs) list \<Rightarrow> (ident \<times> nat) list \<Rightarrow> (ident \<times> ucs \<times> nat) list" where
  "routing_of found routes = map (\<lambda>(t, p). (t, p, count_at t routes)) found"

definition subscription_started :: "replacement \<Rightarrow> monitor \<Rightarrow> monitor" where
  "subscription_started r mb = start_pass (Some r) (rl_found r) (mb\<lparr>mb_members := rl_found r,
     mb_active_token := Some (rl_token r),
     mb_consumers := mb_consumers mb @ [\<lparr>cs_token = rl_token r,
        cs_routing = routing_of (rl_found r) (mb_route_generation mb), cs_at = Listening\<rparr>]\<rparr>)"

text \<open>The old stream was closed and its consumer has ended or was cancelled.\<close>

definition drained :: "nat \<Rightarrow> monitor \<Rightarrow> monitor" where
  "drained old mb = (cancel_consumer old mb)\<lparr>mb_force_rebuild := False, mb_scanner := Resting\<rparr>"

section \<open>Consuming\<close>

text \<open>An event has arrived: the tasks of its pane, in the order of the routing.\<close>

definition receive_event :: "consumer \<Rightarrow> pane_state \<Rightarrow> monitor \<Rightarrow> monitor" where
  "receive_event c lv mb =
     (let n = count_at (lv_pane lv) (mb_pane_epoch mb) + 1
      in set_consumer (cs_token c)
           (Handling lv n (map (\<lambda>(t, _, g). (t, g)) (filter (\<lambda>(_, p, _). p = lv_pane lv) (cs_routing c))))
           (mb\<lparr>mb_pane_epoch := AList.update (lv_pane lv) n (mb_pane_epoch mb)\<rparr>))"

text \<open>\<open>_apply\<close> of a consumer, once the lock is free.\<close>

definition apply_event :: "consumer \<Rightarrow> pane_state \<Rightarrow> nat \<Rightarrow> ident \<Rightarrow> nat \<Rightarrow> (ident \<times> nat) list \<Rightarrow> monitor \<Rightarrow> monitor" where
  "apply_event c lv n task route rest mb =
     (if count_at task (mb_route_generation mb) \<noteq> route
      then set_consumer (cs_token c) (Handling lv n rest) mb
      else (set_consumer (cs_token c) (Calling lv n rest) mb)
        \<lparr>mb_lock := Some (Consumer (cs_token c)),
         mb_calls := mb_calls mb @ [\<lparr>rc_task = task, rc_state = lv, rc_origin = Edge n\<rparr>]\<rparr>)"

text \<open>The stream of a consumer ended or failed, or \<open>reconcile\<close> raised in it.\<close>

definition consumer_failed :: "nat \<Rightarrow> string \<Rightarrow> monitor \<Rightarrow> monitor" where
  "consumer_failed tok e mb =
     (let mb1 = (set_consumer tok Ended mb)\<lparr>mb_lock := (if mb_lock mb = Some (Consumer tok) then None else mb_lock mb)\<rparr>
      in if mb_active_token mb = Some tok
         then mb1\<lparr>mb_connected := False, mb_last_error := Some (take 128 e), mb_force_rebuild := True\<rparr>
         else mb1)"

section \<open>The steps\<close>

text \<open>
  \<open>monitor_step dir\<close>: a step while \<open>dir\<close> is in the state directory.  \<open>start\<close> forces the first scan; every
  later one happens when the interval is over or a hint came, which the model leaves open.
\<close>

inductive monitor_step :: "state_dir \<Rightarrow> monitor \<Rightarrow> monitor \<Rightarrow> bool" for dir where
  scan: "mb_scanner mb = Resting \<Longrightarrow> monitor_step dir mb (begin_scan (\<not> mb_started mb) dir mb)"
| started: "mb_scanner mb = Starting r \<Longrightarrow> monitor_step dir mb (subscription_started r mb)"
| start_failed: "mb_scanner mb = Starting r \<Longrightarrow> monitor_step dir mb (pass_raised (Some r) e mb)"
| level: "mb_scanner mb = Reading r task pane frontier lp \<Longrightarrow> (\<forall>l. answer = Inr l \<longrightarrow> lv_pane l = pane)
    \<Longrightarrow> monitor_step dir mb (level_read r task pane frontier lp answer mb)"
| apply_level: "mb_scanner mb = Waiting r task lv frontier route lp \<Longrightarrow> mb_lock mb = None
    \<Longrightarrow> monitor_step dir mb (apply_level_read r task lv frontier route lp mb)"
| level_applied: "mb_scanner mb = Applying r lp \<Longrightarrow> monitor_step dir mb (next_member r lp (mb\<lparr>mb_lock := None\<rparr>))"
| level_raised: "mb_scanner mb = Applying r lp \<Longrightarrow> monitor_step dir mb (pass_raised r e (mb\<lparr>mb_lock := None\<rparr>))"
| unwound: "mb_scanner mb = Unwinding e \<Longrightarrow> monitor_step dir mb (scan_raised e' mb)"
| drain: "mb_scanner mb = Draining old \<Longrightarrow> monitor_step dir mb (drained old mb)"
| drain_raised: "mb_scanner mb = Draining old \<Longrightarrow> monitor_step dir mb (scan_raised e mb)"
| event: "find_consumer tok mb = Some c \<Longrightarrow> cs_at c = Listening \<Longrightarrow> monitor_step dir mb (receive_event c lv mb)"
| apply_event: "find_consumer tok mb = Some c \<Longrightarrow> cs_at c = Handling lv n ((task, route) # rest) \<Longrightarrow> mb_lock mb = None
    \<Longrightarrow> monitor_step dir mb (apply_event c lv n task route rest mb)"
| event_applied: "find_consumer tok mb = Some c \<Longrightarrow> cs_at c = Calling lv n rest
    \<Longrightarrow> monitor_step dir mb ((set_consumer tok (Handling lv n rest) mb)\<lparr>mb_lock := None\<rparr>)"
| event_done: "find_consumer tok mb = Some c \<Longrightarrow> cs_at c = Handling lv n []
    \<Longrightarrow> monitor_step dir mb (set_consumer tok Listening mb)"
| stream_lost: "find_consumer tok mb = Some c \<Longrightarrow> cs_at c = Listening \<or> (\<exists>lv n rest. cs_at c = Calling lv n rest)
    \<Longrightarrow> monitor_step dir mb (consumer_failed tok e mb)"

end
