(* ===== verification/Herdr_Facts.thy ===== *)
theory Herdr_Facts
  imports Herdr_Monitor
begin

text \<open>
  The invariants of the membership monitor: which pane the route of a task means, in which order
  levels and events reach \<open>reconcile\<close>, and what its health reports.
\<close>

section \<open>Tables\<close>

lemma count_at_update: "count_at k (AList.update a n tbl) = (if k = a then n else count_at k tbl)"
  by (simp add: count_at_def update_conv')

lemma count_at_bump:
  assumes "distinct tasks"
  shows "count_at t (bump_routes tasks tbl) = count_at t tbl + (if t \<in> set tasks then 1 else 0)"
  using assms
proof (induction tasks arbitrary: tbl)
  case (Cons a tasks)
  then show ?case by (auto simp: bump_routes_def count_at_update)
qed (simp add: bump_routes_def)

lemma distinct_read_meta: "distinct (keys (iv_members iv)) \<Longrightarrow> distinct (keys (iv_members (read_meta f iv)))"
  by (simp add: read_meta_def Let_def distinct_update split: sum.split)

lemma distinct_inventory: "distinct (keys (iv_members (inventory d)))"
proof -
  have "distinct (keys (iv_members (fold read_meta fs iv)))" if "distinct (keys (iv_members iv))" for fs iv
    using that by (induction fs arbitrary: iv) (simp_all add: distinct_read_meta)
  then show ?thesis by (simp add: inventory_def split: state_dir.split)
qed

lemma distinct_found:
  assumes "distinct (keys members)"
  shows "distinct (keys (found_members (inventory d) members))"
proof -
  have "distinct (keys (kept_members (inventory d) members))"
    unfolding kept_members_def by (rule distinct_map_filter[OF assms])
  moreover have "fst ` set (iv_members (inventory d)) \<inter> fst ` set (kept_members (inventory d) members) = {}"
    by (force simp: kept_members_def)
  ultimately show ?thesis using distinct_inventory[of d] by (simp add: found_members_def)
qed

lemma find_consumer_Some: "find_consumer tok mb = Some c \<Longrightarrow> c \<in> set (mb_consumers mb) \<and> cs_token c = tok"
  by (auto simp: find_consumer_def find_Some_iff)

section \<open>Routes\<close>

text \<open>
  An entry of a routing is never ahead of the task's current route; when it is the current one, its
  pane is the task's pane.
\<close>

definition routes_ok :: "(ident \<times> ucs) list \<Rightarrow> (ident \<times> nat) list \<Rightarrow> consumer \<Rightarrow> bool" where
  "routes_ok members routes c \<longleftrightarrow> (\<forall>t p g. (t, p, g) \<in> set (cs_routing c) \<longrightarrow>
     g \<le> count_at t routes \<and> (g = count_at t routes \<longrightarrow> map_of members t = Some p))"

definition handling_ok :: "consumer \<Rightarrow> bool" where
  "handling_ok c \<longleftrightarrow> (case cs_at c of
       Handling lv n es \<Rightarrow> \<forall>(t, g) \<in> set es. (t, lv_pane lv, g) \<in> set (cs_routing c)
     | Calling lv n es \<Rightarrow> \<forall>(t, g) \<in> set es. (t, lv_pane lv, g) \<in> set (cs_routing c)
     | _ \<Rightarrow> True)"

definition consumers_ok :: "(ident \<times> ucs) list \<Rightarrow> monitor \<Rightarrow> bool" where
  "consumers_ok members mb \<longleftrightarrow> distinct (keys members) \<and> distinct (map cs_token (mb_consumers mb))
     \<and> (\<forall>c \<in> set (mb_consumers mb). routes_ok members (mb_route_generation mb) c \<and> handling_ok c
          \<and> cs_token c < mb_next_token mb)"

definition can_roll_back :: "replacement \<Rightarrow> monitor \<Rightarrow> bool" where
  "can_roll_back r mb \<longleftrightarrow> distinct (keys (rl_previous r)) \<and> rl_token r < mb_next_token mb
     \<and> (\<forall>c \<in> set (mb_consumers mb). cs_token c \<noteq> rl_token r \<longrightarrow> routes_ok (rl_previous r) (rl_previous_routes r) c)"

definition passing_ok :: "replacement option \<Rightarrow> monitor \<Rightarrow> bool" where
  "passing_ok r mb \<longleftrightarrow> consumers_ok (mb_members mb) mb
     \<and> (\<forall>rl. r = Some rl \<longrightarrow> can_roll_back rl mb \<and> mb_members mb = rl_found rl)"

definition members_of :: "level_pass \<Rightarrow> monitor \<Rightarrow> bool" where
  "members_of lp mb \<longleftrightarrow> (\<forall>(t, p) \<in> set (lp_rest lp). map_of (mb_members mb) t = Some p)"

definition route_inv :: "monitor \<Rightarrow> bool" where
  "route_inv mb \<longleftrightarrow> (case mb_scanner mb of
       Starting r \<Rightarrow> consumers_ok (rl_found r) mb \<and> can_roll_back r mb \<and> mb_members mb = rl_previous r
         \<and> rl_token r \<notin> cs_token ` set (mb_consumers mb)
     | Reading r t p f lp \<Rightarrow> passing_ok r mb \<and> map_of (mb_members mb) t = Some p \<and> members_of lp mb
     | Waiting r t lv f g lp \<Rightarrow> passing_ok r mb \<and> map_of (mb_members mb) t = Some (lv_pane lv) \<and> members_of lp mb
     | Applying r lp \<Rightarrow> passing_ok r mb \<and> members_of lp mb
     | _ \<Rightarrow> consumers_ok (mb_members mb) mb)"

text \<open>The members that the newest inventory asks for.\<close>

definition target :: "monitor \<Rightarrow> (ident \<times> ucs) list" where
  "target mb = (case mb_scanner mb of Starting r \<Rightarrow> rl_found r | _ \<Rightarrow> mb_members mb)"

lemma route_inv_target: "route_inv mb \<Longrightarrow> consumers_ok (target mb) mb"
  by (auto simp: route_inv_def target_def passing_ok_def split: scanner_at.splits)

text \<open>Only these fields matter.\<close>

definition same_routes :: "monitor \<Rightarrow> monitor \<Rightarrow> bool" where
  "same_routes mb mb' \<longleftrightarrow> mb_members mb' = mb_members mb \<and> mb_route_generation mb' = mb_route_generation mb
     \<and> mb_consumers mb' = mb_consumers mb \<and> mb_next_token mb' = mb_next_token mb"

lemma same_routes_ok:
  assumes "same_routes mb mb'"
  shows "consumers_ok M mb' = consumers_ok M mb" and "can_roll_back r mb' = can_roll_back r mb"
    and "passing_ok o' mb' = passing_ok o' mb" and "members_of lp mb' = members_of lp mb"
  using assms by (simp_all add: same_routes_def consumers_ok_def can_roll_back_def passing_ok_def members_of_def)

lemma same_routes_inv: "same_routes mb mb' \<Longrightarrow> mb_scanner mb' = mb_scanner mb \<Longrightarrow> route_inv mb' = route_inv mb"
  by (cases "mb_scanner mb") (simp_all add: route_inv_def same_routes_ok, simp_all add: same_routes_def)

lemma cancelled_ok:
  assumes "\<And>c. c \<in> set (mb_consumers mb) \<Longrightarrow> cs_token c \<noteq> tok \<Longrightarrow> routes_ok members routes c \<and> handling_ok c \<and> cs_token c < mb_next_token mb"
    and "distinct (keys members)" and "distinct (map cs_token (mb_consumers mb))"
    and "mb' = cancel_consumer tok (mb\<lparr>mb_members := x, mb_active_token := y, mb_route_generation := routes\<rparr>)"
  shows "consumers_ok members mb'"
  using assms by (auto simp: consumers_ok_def cancel_consumer_def distinct_map_filter)

lemma rolled_back_ok:
  assumes "consumers_ok M mb" and "can_roll_back r mb"
  shows "consumers_ok (mb_members (roll_back r mb)) (roll_back r mb)"
proof -
  have "mb_members (roll_back r mb) = rl_previous r" by (simp add: roll_back_def cancel_consumer_def)
  moreover have "consumers_ok (rl_previous r) (roll_back r mb)"
    by (rule cancelled_ok[where tok = "rl_token r", OF _ _ _ roll_back_def])
      (use assms in \<open>auto simp: consumers_ok_def can_roll_back_def\<close>)
  ultimately show ?thesis by simp
qed

lemma raised_ok: "passing_ok r mb \<Longrightarrow> route_inv (pass_raised r e mb)"
proof (cases r)
  case (Some rl)
  assume "passing_ok r mb"
  then have "consumers_ok (mb_members mb) mb" "can_roll_back rl mb" unfolding passing_ok_def Some by blast+
  then have "consumers_ok (mb_members (roll_back rl mb)) (roll_back rl mb)" by (rule rolled_back_ok)
  then show ?thesis by (simp add: Some pass_raised_def route_inv_def consumers_ok_def)
qed (simp add: passing_ok_def pass_raised_def scan_raised_def route_inv_def consumers_ok_def)

lemma finished_ok: "passing_ok r mb \<Longrightarrow> route_inv (finish_pass r lp mb)"
proof -
  assume ok: "passing_ok r mb"
  define mb1 where "mb1 = (if lp_ok lp then mb else mb\<lparr>mb_last_error := Some (case lp_error lp of
            Some e \<Rightarrow> (if e = [] then ''Herdr level RPC unavailable'' else e)
          | None \<Rightarrow> ''Herdr level RPC unavailable'')\<rparr>)"
  then have "same_routes mb mb1" by (simp add: same_routes_def)
  with ok have ok1: "passing_ok r mb1" by (simp add: same_routes_ok)
  then have "consumers_ok (mb_members mb1) mb1" by (simp add: passing_ok_def)
  with raised_ok[OF ok1] show ?thesis
    unfolding finish_pass_def mb1_def[symmetric]
    by (auto simp: Let_def route_inv_def health_after_def consumers_ok_def split: option.split)
qed

lemma next_ok: "passing_ok r mb \<Longrightarrow> members_of lp mb \<Longrightarrow> route_inv (next_member r lp mb)"
proof (cases "lp_rest lp")
  case (Cons m rest)
  assume "passing_ok r mb" "members_of lp mb"
  with Cons show ?thesis
    by (cases m) (simp add: next_member_def route_inv_def passing_ok_def consumers_ok_def can_roll_back_def members_of_def)
qed (simp add: next_member_def finished_ok)

lemma distinct_members_of: "distinct (keys M) \<Longrightarrow> (t, p) \<in> set M \<Longrightarrow> map_of M t = Some p"
  by simp

lemma begin_replace_ok:
  assumes ok: "consumers_ok (mb_members mb) mb" and d: "distinct (keys found)"
  shows "route_inv (begin_replace found mb)"
proof -
  let ?G = "bump_routes (changed_tasks found (mb_members mb)) (mb_route_generation mb)"
  have "routes_ok found ?G c" if "routes_ok (mb_members mb) (mb_route_generation mb) c" for c
    unfolding routes_ok_def
  proof (intro allI impI)
    fix t p g
    assume "(t, p, g) \<in> set (cs_routing c)"
    with that have g: "g \<le> count_at t (mb_route_generation mb)"
      "g = count_at t (mb_route_generation mb) \<Longrightarrow> map_of (mb_members mb) t = Some p" by (auto simp: routes_ok_def)
    have count: "count_at t ?G = count_at t (mb_route_generation mb)
        + (if t \<in> set (changed_tasks found (mb_members mb)) then 1 else 0)"
      by (rule count_at_bump) (simp add: changed_tasks_def)
    show "g \<le> count_at t ?G \<and> (g = count_at t ?G \<longrightarrow> map_of found t = Some p)"
    proof (cases "t \<in> set (changed_tasks found (mb_members mb))")
      case False
      have "map_of (mb_members mb) t = Some p \<Longrightarrow> t \<in> set (keys (mb_members mb))" by (metis not_key_iff option.distinct(1))
      with False g count show ?thesis by (auto simp: changed_tasks_def)
    qed (use g count in auto)
  qed
  with ok d show ?thesis
    by (auto simp: begin_replace_def route_inv_def consumers_ok_def can_roll_back_def)
qed

lemma started_ok:
  assumes ok: "route_inv mb" and at: "mb_scanner mb = Starting r"
  shows "route_inv (subscription_started r mb)"
proof -
  define mb1 where "mb1 = mb\<lparr>mb_members := rl_found r, mb_active_token := Some (rl_token r),
     mb_consumers := mb_consumers mb @ [\<lparr>cs_token = rl_token r,
        cs_routing = routing_of (rl_found r) (mb_route_generation mb), cs_at = Listening\<rparr>]\<rparr>"
  from ok at have inv: "consumers_ok (rl_found r) mb" "can_roll_back r mb" "mb_members mb = rl_previous r"
    "rl_token r \<notin> cs_token ` set (mb_consumers mb)" by (simp_all add: route_inv_def)
  have "routes_ok (rl_found r) (mb_route_generation mb)
      \<lparr>cs_token = rl_token r, cs_routing = routing_of (rl_found r) (mb_route_generation mb), cs_at = Listening\<rparr>"
    using inv(1) by (auto simp: routes_ok_def routing_of_def consumers_ok_def)
  with inv have pass: "passing_ok (Some r) mb1"
    by (auto simp: passing_ok_def consumers_ok_def can_roll_back_def mb1_def handling_ok_def)
  moreover have "members_of \<lparr>lp_rest = rl_found r, lp_ok = True, lp_error = None\<rparr> mb1"
    using inv(1) by (auto simp: members_of_def mb1_def consumers_ok_def)
  ultimately show ?thesis unfolding subscription_started_def start_pass_def mb1_def[symmetric] by (rule next_ok)
qed

lemma begin_scan_ok:
  assumes ok: "consumers_ok (mb_members mb) mb"
  shows "route_inv (begin_scan force dir mb)"
proof -
  define mb1 where "mb1 = mb\<lparr>mb_started := True, mb_scan_errors := iv_errors (inventory dir),
     mb_last_error := (if iv_errors (inventory dir) = [] then mb_last_error mb
       else Some (take 128 (last (iv_errors (inventory dir)))))\<rparr>"
  then have same: "mb_members mb1 = mb_members mb" "same_routes mb mb1" by (simp_all add: same_routes_def)
  with ok have ok1: "consumers_ok (mb_members mb1) mb1" by (simp add: same_routes_ok)
  then have "passing_ok None mb1" "members_of \<lparr>lp_rest = mb_members mb1, lp_ok = True, lp_error = None\<rparr> mb1"
    by (auto simp: passing_ok_def members_of_def consumers_ok_def)
  then have "route_inv (start_pass None (mb_members mb1) mb1)" unfolding start_pass_def by (rule next_ok)
  moreover have "distinct (keys (found_members (inventory dir) (mb_members mb)))"
    using ok by (intro distinct_found) (simp add: consumers_ok_def)
  from begin_replace_ok[OF ok1 this] have "route_inv (begin_replace (found_members (inventory dir) (mb_members mb)) mb1)" .
  ultimately show ?thesis by (simp add: begin_scan_def Let_def flip: mb1_def)
qed

text \<open>A consumer that moves on.\<close>

lemma set_consumer_ok:
  assumes c: "find_consumer tok mb = Some c" and at: "handling_ok (c\<lparr>cs_at := at\<rparr>)"
    and mb': "same_routes (set_consumer tok at mb) mb'" "mb_scanner mb' = mb_scanner mb"
    and ok: "route_inv mb"
  shows "route_inv mb'"
proof -
  let ?mb = "set_consumer tok at mb"
  note cs = find_consumer_Some[OF c]
  have tokens: "map cs_token (mb_consumers ?mb) = map cs_token (mb_consumers mb)"
    by (simp add: set_consumer_def map_update_where)
  then have token_set: "cs_token ` set (mb_consumers ?mb) = cs_token ` set (mb_consumers mb)" by (metis set_map)
  have elem: "\<exists>d \<in> set (mb_consumers mb). cs_token d' = cs_token d \<and> cs_routing d' = cs_routing d \<and> (handling_ok d \<longrightarrow> handling_ok d')"
    if "distinct (map cs_token (mb_consumers mb))" "d' \<in> set (mb_consumers ?mb)" for d'
  proof -
    from that(2) obtain d where d: "d \<in> set (mb_consumers mb)" "d' = (if cs_token d = tok then d\<lparr>cs_at := at\<rparr> else d)"
      by (auto simp: set_consumer_def set_update_where)
    have "d = c" if "cs_token d = tok" using \<open>distinct _\<close> d(1) cs that by (auto simp: distinct_map dest: inj_onD)
    with d at show ?thesis by (intro bexI[of _ d]) auto
  qed
  have frame: "mb_members ?mb = mb_members mb" "mb_route_generation ?mb = mb_route_generation mb"
    "mb_next_token ?mb = mb_next_token mb" by (simp_all add: set_consumer_def)
  have cok: "consumers_ok M ?mb" if "consumers_ok M mb" for M
  proof -
    from that have d: "distinct (map cs_token (mb_consumers mb))" by (simp add: consumers_ok_def)
    from that elem[OF d] show ?thesis
      unfolding consumers_ok_def routes_ok_def frame tokens by fastforce
  qed
  have rok: "can_roll_back r ?mb" if "can_roll_back r mb" "distinct (map cs_token (mb_consumers mb))" for r
    using that elem unfolding can_roll_back_def routes_ok_def frame by fastforce
  have d: "distinct (map cs_token (mb_consumers mb))"
    using route_inv_target[OF ok] by (simp add: consumers_ok_def)
  have pok: "passing_ok r ?mb" if "passing_ok r mb" for r
    using that cok rok[OF _ d] unfolding passing_ok_def frame by blast
  have at_scanner: "mb_scanner ?mb = mb_scanner mb" by (simp add: set_consumer_def)
  have mok: "members_of lp ?mb = members_of lp mb" for lp by (simp add: members_of_def frame)
  have "route_inv ?mb"
    using ok cok rok[OF _ d] pok
    by (cases "mb_scanner mb") (simp_all add: route_inv_def at_scanner token_set mok frame)
  then show ?thesis using same_routes_inv[OF mb'(1)] mb'(2) at_scanner by simp
qed

lemma handled_ok:
  assumes "route_inv mb" and "find_consumer tok mb = Some c"
  shows "handling_ok c" and "routes_ok (target mb) (mb_route_generation mb) c"
  using route_inv_target[OF assms(1)] find_consumer_Some[OF assms(2)] by (auto simp: consumers_ok_def)

theorem route_inv_step: "monitor_step dir mb mb' \<Longrightarrow> route_inv mb \<Longrightarrow> route_inv mb'"
proof (induction rule: monitor_step.induct)
  case (scan mb)
  then have "consumers_ok (mb_members mb) mb" by (simp add: route_inv_def)
  then show ?case by (rule begin_scan_ok)
next
  case (started mb r)
  then show ?case by (intro started_ok)
next
  case (start_failed mb r e)
  then have "consumers_ok (rl_found r) mb" "can_roll_back r mb" by (simp_all add: route_inv_def)
  from rolled_back_ok[OF this] show ?case by (simp add: pass_raised_def route_inv_def consumers_ok_def)
next
  case (level mb r task pane frontier lp answer)
  then show ?case
    by (auto simp: level_read_def Let_def route_inv_def passing_ok_def consumers_ok_def can_roll_back_def members_of_def
        unknown_level_def split: sum.split)
next
  case (apply_level mb r task lv frontier route lp)
  then have "passing_ok r mb" "members_of lp mb" by (simp_all add: route_inv_def)
  moreover from this next_ok have "route_inv (next_member r lp mb)" by blast
  ultimately show ?case
    by (simp add: apply_level_read_def route_inv_def passing_ok_def consumers_ok_def can_roll_back_def members_of_def)
next
  case (level_applied mb r lp)
  have "same_routes mb (mb\<lparr>mb_lock := None\<rparr>)" by (simp add: same_routes_def)
  with level_applied show ?case by (intro next_ok) (simp_all add: route_inv_def same_routes_ok)
next
  case (level_raised mb r lp e)
  have "same_routes mb (mb\<lparr>mb_lock := None\<rparr>)" by (simp add: same_routes_def)
  with level_raised show ?case by (intro raised_ok) (simp add: route_inv_def same_routes_ok)
next
  case (unwound mb e e')
  then show ?case by (simp add: route_inv_def scan_raised_def consumers_ok_def)
next
  case (drain mb old)
  then show ?case by (auto simp: route_inv_def drained_def cancel_consumer_def consumers_ok_def distinct_map_filter)
next
  case (drain_raised mb old e)
  then show ?case by (simp add: route_inv_def scan_raised_def consumers_ok_def)
next
  case (event tok mb c lv)
  have "handling_ok (c\<lparr>cs_at := Handling lv n (map (\<lambda>(t, _, g). (t, g)) (filter (\<lambda>(_, p, _). p = lv_pane lv) (cs_routing c)))\<rparr>)" for n
    by (auto simp: handling_ok_def)
  then show ?case using find_consumer_Some[OF event(1)]
    by (intro set_consumer_ok[OF event(1) _ _ _ event(3)]) (auto simp: receive_event_def Let_def same_routes_def set_consumer_def)
next
  case (apply_event tok mb c lv n task route rest)
  have "handling_ok c" using handled_ok(1)[OF apply_event(4,1)] .
  then have "handling_ok (c\<lparr>cs_at := Handling lv n rest\<rparr>)" "handling_ok (c\<lparr>cs_at := Calling lv n rest\<rparr>)"
    using apply_event(2) by (simp_all add: handling_ok_def)
  then show ?case using find_consumer_Some[OF apply_event(1)]
    by (cases "count_at task (mb_route_generation mb) = route")
      (rule set_consumer_ok[OF apply_event(1) _ _ _ apply_event(4)];
        force simp: apply_event_def same_routes_def set_consumer_def)+
next
  case (event_applied tok mb c lv n rest)
  have "handling_ok (c\<lparr>cs_at := Handling lv n rest\<rparr>)"
    using handled_ok(1)[OF event_applied(3,1)] event_applied(2) by (simp add: handling_ok_def)
  then show ?case
    by (rule set_consumer_ok[OF event_applied(1) _ _ _ event_applied(3)]) (auto simp: same_routes_def set_consumer_def)
next
  case (event_done tok mb c lv n)
  show ?case
    by (rule set_consumer_ok[OF event_done(1) _ _ _ event_done(3)])
      (auto simp: same_routes_def set_consumer_def handling_ok_def)
next
  case (stream_lost tok mb c e)
  show ?case
    by (rule set_consumer_ok[OF stream_lost(1) _ _ _ stream_lost(3), where at = Ended])
      (auto simp: same_routes_def set_consumer_def handling_ok_def consumer_failed_def Let_def)
qed

end
