(* ===== verification/Herdr_Theorems.thy ===== *)
theory Herdr_Theorems
  imports Herdr_Facts
begin

text \<open>
  What the membership monitor guarantees in every interleaving of its coroutines: levels never
  overtake events, events follow the newest inventory, and its health tells the truth; and where it
  does not keep what its comments promise.
\<close>

abbreviation monitor_moves :: "monitor \<Rightarrow> monitor \<Rightarrow> bool" where
  "monitor_moves mb mb' \<equiv> \<exists>dir. monitor_step dir mb mb'"

section \<open>What the passes leave alone\<close>

lemma pass_raised_frame [simp]:
  "mb_calls (pass_raised r e mb) = mb_calls mb" "mb_pane_epoch (pass_raised r e mb) = mb_pane_epoch mb"
  "mb_subscription (pass_raised r e mb) = mb_subscription mb" "mb_next_token (pass_raised r e mb) = mb_next_token mb"
  by (simp_all add: pass_raised_def scan_raised_def roll_back_def cancel_consumer_def split: option.split)

lemma pass_raised_consumers [dest]: "c \<in> set (mb_consumers (pass_raised r e mb)) \<Longrightarrow> c \<in> set (mb_consumers mb)"
  by (auto simp: pass_raised_def scan_raised_def roll_back_def cancel_consumer_def split: option.splits)

lemma finish_pass_frame [simp]:
  "mb_calls (finish_pass r lp mb) = mb_calls mb" "mb_pane_epoch (finish_pass r lp mb) = mb_pane_epoch mb"
  by (simp_all add: finish_pass_def health_after_def Let_def split: option.split)

lemma finish_pass_consumers [dest]: "c \<in> set (mb_consumers (finish_pass r lp mb)) \<Longrightarrow> c \<in> set (mb_consumers mb)"
  by (auto simp: finish_pass_def health_after_def Let_def split: option.splits if_splits)

lemma next_member_frame [simp]:
  "mb_calls (next_member r lp mb) = mb_calls mb" "mb_pane_epoch (next_member r lp mb) = mb_pane_epoch mb"
  by (simp_all add: next_member_def split: list.split)

lemma next_member_consumers [dest]: "c \<in> set (mb_consumers (next_member r lp mb)) \<Longrightarrow> c \<in> set (mb_consumers mb)"
  by (auto simp: next_member_def split: list.splits)

section \<open>Levels and events\<close>

text \<open>The event that a consumer is handing out has been counted.\<close>

definition counted_event :: "(ucs \<times> nat) list \<Rightarrow> consumer \<Rightarrow> bool" where
  "counted_event epochs c \<longleftrightarrow> (case cs_at c of
       Handling lv n es \<Rightarrow> n \<le> count_at (lv_pane lv) epochs
     | Calling lv n es \<Rightarrow> n \<le> count_at (lv_pane lv) epochs
     | _ \<Rightarrow> True)"

definition counted_call :: "(ucs \<times> nat) list \<Rightarrow> reconcile_call \<Rightarrow> bool" where
  "counted_call epochs call \<longleftrightarrow> (case rc_origin call of
       Edge n \<Rightarrow> n \<le> count_at (lv_pane (rc_state call)) epochs | Level_read f \<Rightarrow> True)"

text \<open>A level read of a pane was begun after every event of it that was handed out before.\<close>

definition read_after :: "reconcile_call \<Rightarrow> reconcile_call \<Rightarrow> bool" where
  "read_after a b \<longleftrightarrow> (case (rc_origin a, rc_origin b) of
       (Edge n, Level_read f) \<Rightarrow> lv_pane (rc_state a) = lv_pane (rc_state b) \<longrightarrow> n \<le> f
     | _ \<Rightarrow> True)"

definition order_inv :: "monitor \<Rightarrow> bool" where
  "order_inv mb \<longleftrightarrow> (\<forall>c \<in> set (mb_consumers mb). counted_event (mb_pane_epoch mb) c)
     \<and> (\<forall>call \<in> set (mb_calls mb). counted_call (mb_pane_epoch mb) call) \<and> sorted_wrt read_after (mb_calls mb)"

lemma order_inv_less:
  assumes "order_inv mb" and "mb_calls mb' = mb_calls mb" and "mb_pane_epoch mb' = mb_pane_epoch mb"
    and "\<And>c. c \<in> set (mb_consumers mb') \<Longrightarrow> c \<in> set (mb_consumers mb) \<or> counted_event (mb_pane_epoch mb) c"
  shows "order_inv mb'"
  using assms by (auto simp: order_inv_def)

lemma order_inv_set:
  assumes "order_inv mb" and "find_consumer tok mb = Some c" and "counted_event (mb_pane_epoch mb) (c\<lparr>cs_at := at\<rparr>)"
    and "mb_consumers mb' = mb_consumers (set_consumer tok at mb)" and "mb_calls mb' = mb_calls mb"
    and "mb_pane_epoch mb' = mb_pane_epoch mb"
  shows "order_inv mb'"
proof (rule order_inv_less[OF assms(1,5,6)])
  fix d
  assume "d \<in> set (mb_consumers mb')"
  then obtain d' where d': "d' \<in> set (mb_consumers mb)" "d = (if cs_token d' = tok then d'\<lparr>cs_at := at\<rparr> else d')"
    by (auto simp: assms(4) set_consumer_def set_update_where)
  moreover have "counted_event e (d'\<lparr>cs_at := at\<rparr>) = counted_event e (c\<lparr>cs_at := at\<rparr>)" for e
    by (simp add: counted_event_def)
  ultimately show "d \<in> set (mb_consumers mb) \<or> counted_event (mb_pane_epoch mb) d" using assms(3) by auto
qed

lemma order_inv_call:
  assumes "order_inv mb" and "counted_call (mb_pane_epoch mb) call"
    and "\<And>n f. rc_origin call = Level_read f \<Longrightarrow> f = count_at (lv_pane (rc_state call)) (mb_pane_epoch mb)"
    and "mb_consumers mb' = mb_consumers mb" and "mb_calls mb' = mb_calls mb @ [call]"
    and "mb_pane_epoch mb' = mb_pane_epoch mb"
  shows "order_inv mb'"
proof -
  have "read_after old call" if "old \<in> set (mb_calls mb)" for old
    using that assms(1,3) by (auto simp: order_inv_def counted_call_def read_after_def split: origin.splits)
  then show ?thesis using assms by (auto simp: order_inv_def sorted_wrt_append)
qed

lemma order_inv_step: "monitor_step dir mb mb' \<Longrightarrow> order_inv mb \<Longrightarrow> order_inv mb'"
proof (induction rule: monitor_step.induct)
  case (scan mb)
  then show ?case
    by (elim order_inv_less) (auto simp: begin_scan_def begin_replace_def start_pass_def Let_def split: if_splits)
next
  case (started mb r)
  then show ?case
    by (elim order_inv_less) (auto simp: subscription_started_def start_pass_def counted_event_def dest!: next_member_consumers)
next
  case (start_failed mb r e)
  then show ?case by (elim order_inv_less) auto
next
  case (level mb r task pane frontier lp answer)
  then show ?case by (elim order_inv_less) (simp_all add: level_read_def Let_def)
next
  case (apply_level mb r task lv frontier route lp)
  show ?case
  proof (cases "count_at (lv_pane lv) (mb_pane_epoch mb) \<noteq> frontier \<or> count_at task (mb_route_generation mb) \<noteq> route")
    case True
    with apply_level(3) show ?thesis by (elim order_inv_less) (auto simp: apply_level_read_def)
  next
    case False
    then show ?thesis
      by (intro order_inv_call[OF apply_level(3), of "\<lparr>rc_task = task, rc_state = lv, rc_origin = Level_read frontier\<rparr>"])
        (auto simp: apply_level_read_def counted_call_def)
  qed
next
  case (level_applied mb r lp)
  then show ?case by (elim order_inv_less) (auto dest!: next_member_consumers)
next
  case (level_raised mb r lp e)
  then show ?case by (elim order_inv_less) (auto dest!: pass_raised_consumers)
next
  case (unwound mb e e')
  then show ?case by (elim order_inv_less) (auto simp: scan_raised_def)
next
  case (drain mb old)
  then show ?case by (elim order_inv_less) (auto simp: drained_def cancel_consumer_def)
next
  case (drain_raised mb old e)
  then show ?case by (elim order_inv_less) (auto simp: scan_raised_def)
next
  case (event tok mb c lv)
  let ?mb = "mb\<lparr>mb_pane_epoch := AList.update (lv_pane lv) (count_at (lv_pane lv) (mb_pane_epoch mb) + 1) (mb_pane_epoch mb)\<rparr>"
  have grow: "count_at p (mb_pane_epoch mb) \<le> count_at p (mb_pane_epoch ?mb)" for p by (simp add: count_at_update)
  have "counted_event (mb_pane_epoch ?mb) d" if "counted_event (mb_pane_epoch mb) d" for d
    using that order_trans[OF _ grow] by (auto simp: counted_event_def split: consumer_at.splits)
  moreover have "counted_call (mb_pane_epoch ?mb) call" if "counted_call (mb_pane_epoch mb) call" for call
    using that order_trans[OF _ grow] by (auto simp: counted_call_def split: origin.splits)
  ultimately have "order_inv ?mb" using event(3) by (simp add: order_inv_def)
  moreover have "find_consumer tok ?mb = Some c" using event(1) by (simp add: find_consumer_def)
  ultimately show ?case
    using find_consumer_Some[OF event(1)]
    by (elim order_inv_set) (auto simp: receive_event_def Let_def counted_event_def count_at_update set_consumer_def)
next
  case (apply_event tok mb c lv n task route rest)
  note c = find_consumer_Some[OF apply_event(1)]
  with apply_event(2,4) have n: "n \<le> count_at (lv_pane lv) (mb_pane_epoch mb)"
    by (auto simp: order_inv_def counted_event_def)
  show ?case
  proof (cases "count_at task (mb_route_generation mb) = route")
    case False
    with n c show ?thesis
      by (intro order_inv_set[OF apply_event(4,1), of "Handling lv n rest"])
        (auto simp: apply_event_def counted_event_def set_consumer_def)
  next
    case True
    have "order_inv (set_consumer tok (Calling lv n rest) mb)"
      using n by (intro order_inv_set[OF apply_event(4,1), of "Calling lv n rest"])
        (simp_all add: counted_event_def set_consumer_def)
    with n c True show ?thesis
      by (elim order_inv_call[of _ "\<lparr>rc_task = task, rc_state = lv, rc_origin = Edge n\<rparr>"])
        (auto simp: apply_event_def counted_call_def set_consumer_def)
  qed
next
  case (event_applied tok mb c lv n rest)
  with find_consumer_Some[OF event_applied(1)] have "n \<le> count_at (lv_pane lv) (mb_pane_epoch mb)"
    by (auto simp: order_inv_def counted_event_def)
  then show ?case
    by (intro order_inv_set[OF event_applied(3,1), of "Handling lv n rest"]) (simp_all add: counted_event_def set_consumer_def)
next
  case (event_done tok mb c lv n)
  then show ?case
    by (intro order_inv_set[OF event_done(3,1), of Listening]) (simp_all add: counted_event_def set_consumer_def)
next
  case (stream_lost tok mb c e)
  then show ?case
    by (intro order_inv_set[OF stream_lost(3,1), of Ended])
      (simp_all add: counted_event_def set_consumer_def consumer_failed_def Let_def)
qed

interpretation order: preserved monitor_moves order_inv
  by unfold_locales (blast intro: order_inv_step)

interpretation routes: preserved monitor_moves route_inv
  by unfold_locales (blast intro: route_inv_step)

lemma initial_order: "order_inv initial_monitor"
  by (simp add: order_inv_def initial_monitor_def)

lemma initial_routes: "route_inv initial_monitor"
  by (simp add: route_inv_def initial_monitor_def consumers_ok_def)



section \<open>Health\<close>

lemma find_set_consumer:
  "find_consumer t (set_consumer tok at mb) = map_option (\<lambda>c. if cs_token c = tok then c\<lparr>cs_at := at\<rparr> else c) (find_consumer t mb)"
proof -
  have "find (\<lambda>c. cs_token c = t) (update_where (\<lambda>c. cs_token c = tok) (\<lambda>c. c\<lparr>cs_at := at\<rparr>) cs)
      = map_option (\<lambda>c. if cs_token c = tok then c\<lparr>cs_at := at\<rparr> else c) (find (\<lambda>c. cs_token c = t) cs)" for cs
    by (induction cs) auto
  then show ?thesis by (simp add: find_consumer_def set_consumer_def)
qed

lemma find_cancelled: "find_consumer t (cancel_consumer tok mb) = (if t = tok then None else find_consumer t mb)"
proof -
  have "find (\<lambda>c. cs_token c = t) (filter (\<lambda>c. cs_token c \<noteq> tok) cs) = (if t = tok then None else find (\<lambda>c. cs_token c = t) cs)" for cs
    by (induction cs) auto
  from this[of "mb_consumers mb"] show ?thesis by (auto simp: find_consumer_def cancel_consumer_def)
qed

lemma running_same: "mb_consumers mb' = mb_consumers mb \<Longrightarrow> running tok mb' = running tok mb"
  by (simp add: running_def find_consumer_def split: option.split)

lemma running_set:
  "running (Some t) (set_consumer tok at mb) \<longleftrightarrow> (if t = tok then find_consumer t mb \<noteq> None \<and> at \<noteq> Ended else running (Some t) mb)"
  by (auto simp: running_def find_set_consumer dest: find_consumer_Some split: option.split)

lemma running_cancelled: "running (Some t) (cancel_consumer tok mb) \<longleftrightarrow> t \<noteq> tok \<and> running (Some t) mb"
  by (simp add: running_def find_cancelled)

text \<open>A replacement is in progress: the subscription is not yet, or no longer, the one that was started last.\<close>

definition replacing :: "monitor \<Rightarrow> replacement option" where
  "replacing mb = (case mb_scanner mb of
       Starting r \<Rightarrow> Some r | Reading r _ _ _ _ \<Rightarrow> r | Waiting r _ _ _ _ _ \<Rightarrow> r | Applying r _ \<Rightarrow> r | _ \<Rightarrow> None)"

definition unwinding :: "monitor \<Rightarrow> bool" where
  "unwinding mb \<longleftrightarrow> (case mb_scanner mb of Unwinding _ \<Rightarrow> True | _ \<Rightarrow> False)"

definition truthful :: "monitor \<Rightarrow> bool" where
  "truthful mb \<longleftrightarrow> (mb_connected mb \<longrightarrow> running (mb_subscription mb) mb \<and> mb_members mb \<noteq> [])"

definition health_inv :: "monitor \<Rightarrow> bool" where
  "health_inv mb \<longleftrightarrow> (\<forall>t. mb_subscription mb = Some t \<longrightarrow> t < mb_next_token mb)
     \<and> (\<forall>old. mb_scanner mb = Draining old \<longrightarrow> mb_subscription mb \<noteq> Some old)
     \<and> (case replacing mb of
          Some r \<Rightarrow> rl_previous_token r = mb_subscription mb \<and> mb_subscription mb \<noteq> Some (rl_token r)
            \<and> mb_active_token mb = (if mb_scanner mb = Starting r then mb_subscription mb else Some (rl_token r))
        | None \<Rightarrow> mb_active_token mb = mb_subscription mb \<and> (unwinding mb \<or> truthful mb))"

definition health_before :: "replacement option \<Rightarrow> monitor \<Rightarrow> bool" where
  "health_before r mb \<longleftrightarrow> (\<forall>t. mb_subscription mb = Some t \<longrightarrow> t < mb_next_token mb)
     \<and> (case r of
          Some rl \<Rightarrow> rl_previous_token rl = mb_subscription mb \<and> mb_subscription mb \<noteq> Some (rl_token rl)
            \<and> mb_active_token mb = Some (rl_token rl) \<and> rl_token rl < mb_next_token mb \<and> mb_members mb = rl_found rl
        | None \<Rightarrow> mb_active_token mb = mb_subscription mb \<and> truthful mb)"

lemma health_before_same:
  assumes "health_before r mb" and "mb_subscription mb' = mb_subscription mb" "mb_next_token mb' = mb_next_token mb"
    "mb_active_token mb' = mb_active_token mb" "mb_members mb' = mb_members mb" "mb_consumers mb' = mb_consumers mb"
    "mb_connected mb' \<longrightarrow> mb_connected mb"
  shows "health_before r mb'"
  using assms running_same[OF assms(6)] by (auto simp: health_before_def truthful_def split: option.splits)

lemma health_raised: "health_before r mb \<Longrightarrow> health_inv (pass_raised r e mb)"
  by (cases r)
    (auto simp: health_before_def pass_raised_def scan_raised_def roll_back_def cancel_consumer_def health_inv_def
      replacing_def unwinding_def truthful_def)

lemma health_finished:
  assumes "health_before r mb"
  shows "health_inv (finish_pass r lp mb)"
proof -
  define mb1 where "mb1 = (if lp_ok lp then mb else mb\<lparr>mb_last_error := Some (case lp_error lp of
            Some e \<Rightarrow> (if e = [] then ''Herdr level RPC unavailable'' else e)
          | None \<Rightarrow> ''Herdr level RPC unavailable'')\<rparr>)"
  then have pre: "health_before r mb1" using assms by (elim health_before_same) auto
  show ?thesis
  proof (cases r)
    case None
    with pre show ?thesis
      unfolding finish_pass_def mb1_def[symmetric]
      by (simp add: Let_def health_after_def health_inv_def health_before_def replacing_def truthful_def running_def
          find_consumer_def split: option.split)
  next
    case (Some rl)
    show ?thesis
    proof (cases "running (Some (rl_token rl)) mb1")
      case False
      with health_raised[OF pre] show ?thesis unfolding finish_pass_def mb1_def[symmetric] by (simp add: Some Let_def)
    next
      case True
      then have "running (Some (rl_token rl)) mb'" if "mb_consumers mb' = mb_consumers mb1" for mb'
        using running_same[OF that] by simp
      with pre True show ?thesis unfolding finish_pass_def mb1_def[symmetric]
        by (auto simp: Some Let_def health_after_def health_inv_def health_before_def replacing_def truthful_def split: option.split)
    qed
  qed
qed

lemma health_next: "health_before r mb \<Longrightarrow> health_inv (next_member r lp mb)"
proof (cases "lp_rest lp")
  case (Cons m rest)
  assume "health_before r mb"
  with Cons show ?thesis
    by (cases m) (auto simp: next_member_def health_inv_def replacing_def health_before_def truthful_def running_def
        find_consumer_def split: option.splits)
qed (simp add: next_member_def health_finished)

text \<open>In a pass both invariants give what its end needs.\<close>

lemma pass_health:
  assumes "health_inv mb" and "replacing mb = r" and "passing_ok r mb" and "\<And>rl. mb_scanner mb \<noteq> Starting rl" and "\<not> unwinding mb"
  shows "health_before r mb"
  using assms by (auto simp: health_inv_def health_before_def passing_ok_def can_roll_back_def split: option.splits)

text \<open>A step of a consumer.\<close>

lemma health_consumer:
  assumes ok: "health_inv mb" and c: "find_consumer tok mb = Some c"
    and mb': "mb_consumers mb' = mb_consumers (set_consumer tok at mb)" "mb_subscription mb' = mb_subscription mb"
      "mb_next_token mb' = mb_next_token mb" "mb_scanner mb' = mb_scanner mb" "mb_active_token mb' = mb_active_token mb"
      "mb_members mb' = mb_members mb"
    and dead: "at = Ended \<Longrightarrow> mb_active_token mb = Some tok \<Longrightarrow> \<not> mb_connected mb'"
    and up: "mb_connected mb' \<longrightarrow> mb_connected mb"
  shows "health_inv mb'"
proof -
  have same: "replacing mb' = replacing mb" "unwinding mb' = unwinding mb" by (simp_all add: replacing_def unwinding_def mb'(4))
  have "truthful mb'" if t: "truthful mb" and r: "replacing mb = None"
  proof -
    from ok r have active: "mb_active_token mb = mb_subscription mb" by (simp add: health_inv_def)
    show ?thesis unfolding truthful_def mb'(2,6)
    proof (intro impI conjI)
      assume conn: "mb_connected mb'"
      with t up show "mb_members mb \<noteq> []" by (simp add: truthful_def)
      from conn t up obtain s where s: "mb_subscription mb = Some s" "running (Some s) mb"
        by (cases "mb_subscription mb") (auto simp: truthful_def running_def)
      from s(1) conn dead active have "s = tok \<Longrightarrow> at \<noteq> Ended" by auto
      with s(2) c have "running (Some s) (set_consumer tok at mb)" by (simp add: running_set)
      with running_same[OF mb'(1)] s(1) show "running (mb_subscription mb) mb'" by simp
    qed
  qed
  with ok show ?thesis
    unfolding health_inv_def same mb'(2-5) by (auto split: option.split)
qed

lemma health_step: "monitor_step dir mb mb' \<Longrightarrow> route_inv mb \<and> health_inv mb \<Longrightarrow> route_inv mb' \<and> health_inv mb'"
proof (intro conjI)
  assume step: "monitor_step dir mb mb'" and ok: "route_inv mb \<and> health_inv mb"
  then show "route_inv mb'" by (blast intro: route_inv_step)
  from step ok show "health_inv mb'"
  proof (induction rule: monitor_step.induct)
    case (scan mb)
    then have before: "health_before None mb"
      by (simp add: health_inv_def health_before_def replacing_def unwinding_def)
    show ?case
    proof (cases "\<not> mb_started mb \<or> mb_force_rebuild mb \<or> membership_changed (found_members (inventory dir) (mb_members mb)) (mb_members mb)")
      case True
      with before show ?thesis
        by (auto simp: begin_scan_def begin_replace_def Let_def health_inv_def replacing_def health_before_def)
    next
      case False
      have "health_before None (mb\<lparr>mb_started := True, mb_scan_errors := es, mb_last_error := e\<rparr>)" for es e
        by (rule health_before_same[OF before]) simp_all
      from health_next[OF this] False show ?thesis by (simp add: begin_scan_def start_pass_def Let_def)
    qed
  next
    case (started mb r)
    from started(2) have "can_roll_back r mb" by (simp add: route_inv_def started(1))
    with started have "health_before (Some r) (mb\<lparr>mb_members := rl_found r, mb_active_token := Some (rl_token r),
        mb_consumers := cs\<rparr>)" for cs
      by (simp add: health_before_def health_inv_def replacing_def can_roll_back_def)
    then show ?case unfolding subscription_started_def start_pass_def by (rule health_next)
  next
    case (start_failed mb r e)
    then show ?case
      by (auto simp: pass_raised_def roll_back_def cancel_consumer_def health_inv_def replacing_def unwinding_def)
  next
    case (level mb r task pane frontier lp answer)
    then show ?case
      by (cases r) (auto simp: level_read_def Let_def health_inv_def replacing_def unwinding_def truthful_def running_def
          find_consumer_def split: option.splits)
  next
    case (apply_level mb r task lv frontier route lp)
    then have "passing_ok r mb" by (simp add: route_inv_def)
    with apply_level have before: "health_before r mb"
      by (intro pass_health) (simp_all add: replacing_def unwinding_def)
    then have "health_inv (mb\<lparr>mb_lock := Some Scanner, mb_scanner := Applying r lp, mb_calls := cs\<rparr>)" for cs
      by (cases r) (auto simp: health_before_def health_inv_def replacing_def truthful_def running_def find_consumer_def
          split: option.splits)
    with health_next[OF before] show ?case by (simp add: apply_level_read_def)
  next
    case (level_applied mb r lp)
    then have "passing_ok r mb" by (simp add: route_inv_def)
    with level_applied have "health_before r mb"
      by (intro pass_health) (simp_all add: replacing_def unwinding_def)
    then have "health_before r (mb\<lparr>mb_lock := None\<rparr>)" by (rule health_before_same) simp_all
    then show ?case by (rule health_next)
  next
    case (level_raised mb r lp e)
    then have "passing_ok r mb" by (simp add: route_inv_def)
    with level_raised have "health_before r mb"
      by (intro pass_health) (simp_all add: replacing_def unwinding_def)
    then have "health_before r (mb\<lparr>mb_lock := None\<rparr>)" by (rule health_before_same) simp_all
    then show ?case by (rule health_raised)
  next
    case (unwound mb e e')
    then show ?case by (simp add: scan_raised_def health_inv_def replacing_def unwinding_def truthful_def)
  next
    case (drain mb old)
    then have "mb_subscription mb \<noteq> Some old" "truthful mb"
      by (simp_all add: health_inv_def replacing_def unwinding_def)
    have "truthful (drained old mb)"
      unfolding truthful_def
    proof (intro impI)
      assume "mb_connected (drained old mb)"
      with \<open>truthful mb\<close> have up: "running (mb_subscription mb) mb" "mb_members mb \<noteq> []"
        by (simp_all add: truthful_def drained_def cancel_consumer_def)
      then obtain t where t: "mb_subscription mb = Some t" by (cases "mb_subscription mb") (simp_all add: running_def)
      with up(1) \<open>mb_subscription mb \<noteq> Some old\<close> have "running (Some t) (cancel_consumer old mb)"
        by (simp add: running_cancelled)
      moreover have "mb_consumers (drained old mb) = mb_consumers (cancel_consumer old mb)" by (simp add: drained_def)
      ultimately have "running (Some t) (drained old mb)" using running_same[of "drained old mb"] by blast
      with t up(2) show "running (mb_subscription (drained old mb)) (drained old mb) \<and> mb_members (drained old mb) \<noteq> []"
        by (simp add: drained_def cancel_consumer_def)
    qed
    with drain show ?case
      by (simp add: health_inv_def replacing_def unwinding_def) (simp add: drained_def cancel_consumer_def)
  next
    case (drain_raised mb old e)
    then show ?case by (simp add: scan_raised_def health_inv_def replacing_def unwinding_def truthful_def)
  next
    case (event tok mb c lv)
    let ?at = "Handling lv (count_at (lv_pane lv) (mb_pane_epoch mb) + 1)
      (map (\<lambda>(t, _, g). (t, g)) (filter (\<lambda>(_, p, _). p = lv_pane lv) (cs_routing c)))"
    have ok: "health_inv mb" using event(3) by simp
    show ?case using find_consumer_Some[OF event(1)]
      by (intro health_consumer[OF ok event(1), where at = ?at]) (simp_all add: receive_event_def Let_def set_consumer_def)
  next
    case (apply_event tok mb c lv n task route rest)
    then have ok: "health_inv mb" by simp
    let ?at = "if count_at task (mb_route_generation mb) = route then Calling lv n rest else Handling lv n rest"
    show ?case using find_consumer_Some[OF apply_event(1)]
      by (intro health_consumer[OF ok apply_event(1), where at = ?at])
        (simp_all add: apply_event_def set_consumer_def split: if_splits)
  next
    case (event_applied tok mb c lv n rest)
    then have ok: "health_inv mb" by simp
    show ?case
      by (intro health_consumer[OF ok event_applied(1), where at = "Handling lv n rest"]) (simp_all add: set_consumer_def)
  next
    case (event_done tok mb c lv n)
    then have ok: "health_inv mb" by simp
    show ?case
      by (intro health_consumer[OF ok event_done(1), where at = Listening]) (simp_all add: set_consumer_def)
  next
    case (stream_lost tok mb c e)
    then have ok: "health_inv mb" by simp
    show ?case
      by (intro health_consumer[OF ok stream_lost(1), where at = Ended])
        (simp_all add: set_consumer_def consumer_failed_def Let_def)
  qed
qed

interpretation health: preserved monitor_moves "\<lambda>mb. route_inv mb \<and> health_inv mb"
  by unfold_locales (use health_step in metis)

lemma initial_health: "health_inv initial_monitor"
  by (simp add: health_inv_def initial_monitor_def replacing_def truthful_def)

text \<open>
  \<open>herdr_connected\<close> is true only while events flow.  Whenever no replacement is in progress and the
  monitor reports that it is connected, it has members and the consumer of its current subscription
  is running.
\<close>

theorem connected_means_streaming:
  assumes "monitor_moves\<^sup>*\<^sup>* initial_monitor mb" and "mb_connected mb" and "replacing mb = None" and "\<not> unwinding mb"
  shows "mb_members mb \<noteq> [] \<and> (\<exists>tok c. mb_subscription mb = Some tok \<and> find_consumer tok mb = Some c \<and> cs_at c \<noteq> Ended)"
proof -
  have "health_inv mb" using health.run_inv[OF assms(1)] initial_routes initial_health by blast
  with assms(2-4) have "truthful mb" by (simp add: health_inv_def)
  with assms(2) show ?thesis by (auto simp: truthful_def running_def split: option.splits)
qed

section \<open>Metadata\<close>

lemma read_meta_errors: "\<exists>es. iv_errors (read_meta f iv) = iv_errors iv @ es"
  by (simp add: read_meta_def Let_def split: sum.split)

lemma fold_read_meta_errors: "\<exists>es. iv_errors (fold read_meta fs iv) = iv_errors iv @ es"
proof (induction fs arbitrary: iv)
  case (Cons f fs)
  from read_meta_errors[of f iv] Cons.IH[of "read_meta f iv"] show ?case by auto
qed simp

lemma fold_read_meta_member:
  "map_of (iv_members (fold read_meta fs iv)) task = Some pane \<Longrightarrow>
     map_of (iv_members iv) task = Some pane
     \<or> (\<exists>f \<in> set fs. me_name f = task @ ''.meta'' \<and> and_then (me_bytes f) meta_pane = Inr pane)"
proof (induction fs arbitrary: iv)
  case (Cons f fs)
  have "map_of (iv_members (read_meta f iv)) task = Some pane \<Longrightarrow> map_of (iv_members iv) task = Some pane
      \<or> (me_name f = task @ ''.meta'' \<and> and_then (me_bytes f) meta_pane = Inr pane)"
    by (auto simp: read_meta_def Let_def update_conv' meta_task_def suffix_def split: if_splits sum.splits)
  with Cons.IH[of "read_meta f iv"] Cons.prems show ?case by auto
qed simp

lemma fold_read_meta_torn:
  assumes "f \<in> set fs" and "me_name f = task @ ''.meta''" and "id_text task" and "and_then (me_bytes f) meta_pane = Inl e"
  shows "(task @ ''.meta: '') @ e \<in> set (iv_errors (fold read_meta fs iv))"
  using assms(1)
proof (induction fs arbitrary: iv)
  case (Cons g fs)
  show ?case
  proof (cases "g = f")
    case True
    have "(task @ ''.meta: '') @ e \<in> set (iv_errors (read_meta f iv))"
      using assms(2-4) by (simp add: read_meta_def Let_def meta_task_def suffix_def)
    with fold_read_meta_errors[of fs "read_meta f iv"] show ?thesis by (auto simp: True)
  qed (use Cons in auto)
qed simp

text \<open>
  A file that cannot be read is never taken for a removal.  When the metadata of a known task is in
  the directory but unreadable, oversized or malformed, and no readable file names the task, the scan
  keeps the task with the pane it had; and a task without a file and without an error is dropped.
\<close>

theorem torn_metadata_keeps_the_member:
  assumes "map_of members task = Some pane" and "distinct (keys members)" and "id_text task" and "distinct (map me_name fs)"
  shows "(f \<in> set fs \<and> me_name f = task @ ''.meta'' \<and> and_then (me_bytes f) meta_pane = Inl e
      \<longrightarrow> map_of (found_members (inventory (DirFiles fs)) members) task = Some pane)
    \<and> (task @ ''.meta'' \<notin> me_name ` set fs \<and> list_all (\<lambda>err. \<not> prefix (task @ ''.meta:'') err) (iv_errors (inventory (DirFiles fs)))
      \<longrightarrow> map_of (found_members (inventory (DirFiles fs)) members) task = None)"
proof (intro conjI)
  let ?fs = "sort_key me_name fs" and ?iv = "inventory (DirFiles fs)"
  show "f \<in> set fs \<and> me_name f = task @ ''.meta'' \<and> and_then (me_bytes f) meta_pane = Inl e
      \<longrightarrow> map_of (found_members ?iv members) task = Some pane"
  proof
    assume torn: "f \<in> set fs \<and> me_name f = task @ ''.meta'' \<and> and_then (me_bytes f) meta_pane = Inl e"
    have "map_of (iv_members ?iv) task = None"
    proof (rule ccontr)
      assume "map_of (iv_members ?iv) task \<noteq> None"
      then obtain p where "map_of (iv_members ?iv) task = Some p" by blast
      then obtain g where g: "g \<in> set fs" "me_name g = task @ ''.meta''" "and_then (me_bytes g) meta_pane = Inr p"
        using fold_read_meta_member[of ?fs "\<lparr>iv_members = [], iv_errors = []\<rparr>" task p] by (auto simp: inventory_def)
      with torn assms(4) have "g = f" by (intro inj_onD[of me_name "set fs" g f]) (simp_all add: distinct_map)
      with g torn show False by simp
    qed
    moreover have "(task @ ''.meta: '') @ e \<in> set (iv_errors ?iv)"
      using fold_read_meta_torn[of f ?fs task e] torn assms(3) by (simp add: inventory_def)
    then have "list_ex (prefix (task @ ''.meta:'')) (iv_errors ?iv)"
      by (force simp: list_ex_iff prefix_def)
    ultimately have "(task, pane) \<in> set (kept_members ?iv members)"
      using map_of_SomeD[OF assms(1)] not_key_iff[of task "iv_members ?iv"] by (simp add: kept_members_def)
    moreover have "distinct (keys (kept_members ?iv members))"
      unfolding kept_members_def by (rule distinct_map_filter[OF assms(2)])
    ultimately have "map_of (kept_members ?iv members) task = Some pane" by simp
    with \<open>map_of (iv_members ?iv) task = None\<close> show "map_of (found_members ?iv members) task = Some pane"
      by (simp add: found_members_def map_add_def)
  qed
  show "task @ ''.meta'' \<notin> me_name ` set fs \<and> list_all (\<lambda>err. \<not> prefix (task @ ''.meta:'') err) (iv_errors ?iv)
      \<longrightarrow> map_of (found_members ?iv members) task = None"
  proof
    assume gone: "task @ ''.meta'' \<notin> me_name ` set fs \<and> list_all (\<lambda>err. \<not> prefix (task @ ''.meta:'') err) (iv_errors ?iv)"
    have "map_of (iv_members ?iv) task = None"
    proof (rule ccontr)
      assume "map_of (iv_members ?iv) task \<noteq> None"
      then obtain p where "map_of (iv_members ?iv) task = Some p" by blast
      then obtain g where "g \<in> set fs" "me_name g = task @ ''.meta''"
        using fold_read_meta_member[of ?fs "\<lparr>iv_members = [], iv_errors = []\<rparr>" task p] by (auto simp: inventory_def)
      with gone show False by (metis imageI)
    qed
    moreover have "\<not> list_ex (prefix (task @ ''.meta:'')) (iv_errors ?iv)" using gone by (auto simp: list_ex_iff list_all_iff)
    then have "map_of (kept_members ?iv members) task = None"
      by (auto simp: kept_members_def map_of_eq_None_iff)
    ultimately show "map_of (found_members ?iv members) task = None" by (simp add: found_members_def map_add_def)
  qed
qed

lemma directory_errors_keep_nothing:
  assumes "id_text task" and "err = ''state directory: '' @ e \<or> err = ''state directory is not owner-private''"
  shows "\<not> prefix (task @ ''.meta:'') err"
proof
  assume pre: "prefix (task @ ''.meta:'') err"
  from pre obtain zs where zs: "err = (task @ ''.meta:'') @ zs" by (auto simp: prefix_def)
  have same: "err ! i = (task @ ''.meta:'') ! i" if "i < length (task @ ''.meta:'')" for i
    using that unfolding zs by (simp only: nth_append[of "task @ ''.meta:''"] if_True)
  from assms(2) have err: "err ! 0 = CHR ''s''" "err ! 1 = CHR ''t''" "err ! 2 = CHR ''a''" "err ! 3 = CHR ''t''"
    "err ! 4 = CHR ''e''" "err ! 5 = CHR '' ''" by auto
  show False
  proof (cases "length task \<le> 5")
    case True
    moreover have "k \<le> 5 \<Longrightarrow> k \<in> {0, 1, 2, 3, 4, 5}" for k :: nat by auto
    ultimately have "length task \<in> {0, 1, 2, 3, 4, 5}" by blast
    with same[of "length task"] err show False by (auto simp: nth_append)
  next
    case False
    then have "CHR '' '' \<in> set task" using same[of 5] err(6) nth_mem[of 5 task] by (simp add: nth_append)
    with assms(1) show False
      by (cases task) (auto simp: id_text_def is_letter_or_digit_def less_eq_char_def list_all_iff)
  qed
qed

text \<open>
  An unreadable state directory is taken for an empty one.  When the directory cannot be opened, or
  is not private, for the moment of one scan, the scan replaces the subscription by one without
  panes and the monitor forgets every member it had.
\<close>

theorem unreadable_directory_forgets_members:
  assumes "monitor_moves\<^sup>*\<^sup>* initial_monitor mb" and "mb_scanner mb = Resting" and "mb_members mb \<noteq> []"
    and ids: "list_all id_text (keys (mb_members mb))" and dir: "dir = DirFailure e \<or> dir = NotPrivate"
  shows "\<exists>r. mb_scanner (begin_scan (\<not> mb_started mb) dir mb) = Starting r
    \<and> mb_members (subscription_started r (begin_scan (\<not> mb_started mb) dir mb)) = []"
proof -
  have ok: "route_inv mb" by (rule routes.run_inv[OF assms(1) initial_routes])
  let ?iv = "inventory dir"
  have iv: "iv_members ?iv = []" "iv_errors ?iv = [''state directory: '' @ e] \<or> iv_errors ?iv = [''state directory is not owner-private'']"
    using dir by (auto simp: inventory_def)
  from iv(2) directory_errors_keep_nothing[of _ _ e] ids have "kept_members ?iv (mb_members mb) = []"
    by (auto simp: kept_members_def filter_empty_conv list_all_iff)
  then have found: "found_members ?iv (mb_members mb) = []" by (simp add: found_members_def iv(1))
  then have changed: "membership_changed (found_members ?iv (mb_members mb)) (mb_members mb)"
    using assms(3) by (simp add: membership_changed_def)
  define mb1 where "mb1 = begin_scan (\<not> mb_started mb) dir mb"
  with changed found obtain r where r: "mb_scanner mb1 = Starting r" "rl_found r = []" "rl_token r = mb_next_token mb"
    "mb_consumers mb1 = mb_consumers mb"
    by (simp add: begin_scan_def begin_replace_def Let_def)
  have fresh: "rl_token r \<notin> cs_token ` set (mb_consumers mb)"
    using ok assms(2) r(3) by (auto simp: route_inv_def consumers_ok_def)
  then have "find (\<lambda>c. cs_token c = rl_token r) (mb_consumers mb) = None"
    unfolding find_None_iff by (metis imageI)
  note find_snoc[OF this, of "\<lparr>cs_token = rl_token r, cs_routing = routing_of [] (mb_route_generation mb1), cs_at = Listening\<rparr>"]
  then have "mb_members (subscription_started r mb1) = []"
    by (simp add: subscription_started_def start_pass_def next_member_def finish_pass_def r running_def find_consumer_def
        health_after_def Let_def split: option.split)
  with r(1) show ?thesis unfolding mb1_def by blast
qed

section \<open>Streams that are not replaced\<close>

text \<open>The current subscription has ended, nothing asks for a new one, and the members are those of the directory.\<close>

definition forgotten :: "state_dir \<Rightarrow> monitor \<Rightarrow> bool" where
  "forgotten dir mb \<longleftrightarrow> mb_started mb \<and> \<not> mb_force_rebuild mb \<and> \<not> mb_connected mb
     \<and> mb_active_token mb = mb_subscription mb \<and> \<not> running (mb_subscription mb) mb
     \<and> \<not> membership_changed (found_members (inventory dir) (mb_members mb)) (mb_members mb)
     \<and> replacing mb = None \<and> \<not> unwinding mb \<and> (\<forall>old. mb_scanner mb \<noteq> Draining old)"

lemma forgotten_finish: "forgotten dir mb \<Longrightarrow> forgotten dir (finish_pass None lp mb)"
  by (simp add: forgotten_def finish_pass_def health_after_def Let_def running_def find_consumer_def replacing_def
      unwinding_def split: option.splits)

lemma forgotten_next: "forgotten dir mb \<Longrightarrow> forgotten dir (next_member None lp mb)"
proof (cases "lp_rest lp")
  case (Cons m rest)
  assume "forgotten dir mb"
  with Cons show ?thesis
    by (cases m) (simp add: next_member_def forgotten_def running_def find_consumer_def replacing_def unwinding_def
        split: option.splits)
qed (simp add: next_member_def forgotten_finish)

lemma forgotten_same:
  assumes "forgotten dir mb" and "mb_started mb'" "mb_force_rebuild mb' = mb_force_rebuild mb"
    "mb_connected mb' \<longrightarrow> mb_connected mb" "mb_active_token mb' = mb_active_token mb" "mb_subscription mb' = mb_subscription mb"
    "mb_members mb' = mb_members mb" "replacing mb' = None" "\<not> unwinding mb'" "\<forall>old. mb_scanner mb' \<noteq> Draining old"
    "mb_consumers mb' = mb_consumers mb"
  shows "forgotten dir mb'"
  using assms running_same[OF assms(11)] by (auto simp: forgotten_def)

lemma forgotten_consumer:
  assumes ok: "forgotten dir mb" and c: "find_consumer tok mb = Some c" "cs_at c \<noteq> Ended"
    and mb': "mb_consumers mb' = mb_consumers (set_consumer tok at mb)" "mb_started mb' = mb_started mb"
      "mb_force_rebuild mb' = mb_force_rebuild mb" "mb_connected mb' = mb_connected mb" "mb_active_token mb' = mb_active_token mb"
      "mb_subscription mb' = mb_subscription mb" "mb_members mb' = mb_members mb" "mb_scanner mb' = mb_scanner mb"
  shows "forgotten dir mb'"
proof -
  have "\<not> running (mb_subscription mb) mb'"
  proof (cases "mb_subscription mb")
    case (Some t)
    have "\<not> running (Some t) mb" using ok by (simp add: forgotten_def Some)
    moreover from this c have "t \<noteq> tok" by (auto simp: running_def)
    ultimately show ?thesis using running_same[OF mb'(1)] by (simp add: Some running_set)
  qed (simp add: running_def)
  with ok show ?thesis unfolding forgotten_def replacing_def unwinding_def mb'(2-8) by simp
qed

lemma forgotten_step: "monitor_step dir mb mb' \<Longrightarrow> forgotten dir mb \<Longrightarrow> forgotten dir mb'"
proof (induction rule: monitor_step.induct)
  case (scan mb)
  then have "forgotten dir (mb\<lparr>mb_started := True, mb_scan_errors := es, mb_last_error := e\<rparr>)" for es e
    by (elim forgotten_same) (simp_all add: forgotten_def replacing_def unwinding_def)
  note pass = forgotten_next[OF this]
  have "\<not> (\<not> mb_started mb \<or> mb_force_rebuild mb \<or> membership_changed (found_members (inventory dir) (mb_members mb)) (mb_members mb))"
    using scan(2) by (simp add: forgotten_def)
  then show ?case using pass by (simp add: begin_scan_def start_pass_def Let_def)
next
  case (level mb r task pane frontier lp answer)
  then have "r = None" "mb_started mb" by (simp_all add: forgotten_def replacing_def)
  with level show ?case
    by (intro forgotten_same[OF level(3)]) (simp_all add: level_read_def Let_def replacing_def unwinding_def)
next
  case (apply_level mb r task lv frontier route lp)
  then have "r = None" "mb_started mb" by (simp_all add: forgotten_def replacing_def)
  moreover from this have "forgotten dir (mb\<lparr>mb_lock := Some Scanner, mb_scanner := Applying None lp, mb_calls := cs\<rparr>)" for cs
    by (intro forgotten_same[OF apply_level(3)]) (simp_all add: replacing_def unwinding_def)
  ultimately show ?case using forgotten_next[OF apply_level(3)] by (simp add: apply_level_read_def)
next
  case (level_applied mb r lp)
  then have "r = None" "mb_started mb" by (simp_all add: forgotten_def replacing_def)
  moreover from this have "forgotten dir (mb\<lparr>mb_lock := None\<rparr>)"
    using level_applied(1) by (intro forgotten_same[OF level_applied(2)]) (simp_all add: replacing_def unwinding_def)
  ultimately show ?case using forgotten_next by simp
next
  case (level_raised mb r lp e)
  then have "r = None" "mb_started mb" by (simp_all add: forgotten_def replacing_def)
  then show ?case
    by (intro forgotten_same[OF level_raised(2)]) (simp_all add: pass_raised_def scan_raised_def replacing_def unwinding_def)
next
  case (event tok mb c lv)
  have live: "cs_at c \<noteq> Ended" using event(2) by simp
  let ?at = "Handling lv (count_at (lv_pane lv) (mb_pane_epoch mb) + 1)
    (map (\<lambda>(t, _, g). (t, g)) (filter (\<lambda>(_, p, _). p = lv_pane lv) (cs_routing c)))"
  show ?case using find_consumer_Some[OF event(1)]
    by (intro forgotten_consumer[OF event(3,1) live, of _ ?at]) (simp_all add: receive_event_def Let_def set_consumer_def)
next
  case (apply_event tok mb c lv n task route rest)
  have live: "cs_at c \<noteq> Ended" using apply_event(2) by simp
  let ?at = "if count_at task (mb_route_generation mb) = route then Calling lv n rest else Handling lv n rest"
  show ?case using find_consumer_Some[OF apply_event(1)]
    by (intro forgotten_consumer[OF apply_event(4,1) live, of _ ?at]) (simp_all add: apply_event_def set_consumer_def)
next
  case (event_applied tok mb c lv n rest)
  have live: "cs_at c \<noteq> Ended" using event_applied(2) by simp
  show ?case
    by (intro forgotten_consumer[OF event_applied(3,1) live, of _ "Handling lv n rest"]) (simp_all add: set_consumer_def)
next
  case (event_done tok mb c lv n)
  have live: "cs_at c \<noteq> Ended" using event_done(2) by simp
  show ?case
    by (intro forgotten_consumer[OF event_done(3,1) live, of _ Listening]) (simp_all add: set_consumer_def)
next
  case (stream_lost tok mb c e)
  have live: "cs_at c \<noteq> Ended" using stream_lost(2) by auto
  have "mb_active_token mb \<noteq> Some tok" using stream_lost(1,3) live by (auto simp: forgotten_def running_def)
  then show ?case
    by (intro forgotten_consumer[OF stream_lost(3,1) live, of _ Ended])
      (simp_all add: consumer_failed_def Let_def set_consumer_def)
qed (auto simp: forgotten_def replacing_def unwinding_def)

lemma pass_raised_started [simp]: "mb_started (pass_raised r e mb) = mb_started mb"
  by (simp add: pass_raised_def scan_raised_def roll_back_def cancel_consumer_def split: option.split)

lemma finish_pass_started [simp]: "mb_started (finish_pass r lp mb) = mb_started mb"
  by (simp add: finish_pass_def health_after_def Let_def split: option.split)

lemma next_member_started [simp]: "mb_started (next_member r lp mb) = mb_started mb"
  by (simp add: next_member_def split: list.split)

lemma pass_none_subscription:
  "mb_subscription (finish_pass None lp mb) = mb_subscription mb" "mb_subscription (next_member None lp mb) = mb_subscription mb"
  by (simp_all add: finish_pass_def health_after_def Let_def next_member_def split: list.split)

lemma forgotten_subscription:
  "monitor_step dir mb mb' \<Longrightarrow> forgotten dir mb \<Longrightarrow> mb_subscription mb' = mb_subscription mb"
proof (induction rule: monitor_step.induct)
  case (scan mb)
  then show ?case
    by (simp add: begin_scan_def begin_replace_def start_pass_def Let_def pass_none_subscription)
next
  case (apply_level mb r task lv frontier route lp)
  then have "r = None" by (simp add: forgotten_def replacing_def)
  then show ?case by (simp add: apply_level_read_def pass_none_subscription)
next
  case (level_applied mb r lp)
  then have "r = None" by (simp add: forgotten_def replacing_def)
  then show ?case by (simp add: pass_none_subscription)
qed (simp_all add: forgotten_def replacing_def unwinding_def level_read_def scan_raised_def drained_def cancel_consumer_def
    receive_event_def apply_event_def set_consumer_def consumer_failed_def Let_def)

interpretation forgotten: preserved "monitor_step dir" "\<lambda>mb. forgotten dir mb \<and> mb_subscription mb = sub" for dir sub
  by unfold_locales (use forgotten_step forgotten_subscription in metis)

lemma started_step:
  "monitor_step dir mb mb' \<Longrightarrow> (mb_scanner mb \<noteq> Resting \<longrightarrow> mb_started mb) \<Longrightarrow> mb_scanner mb' \<noteq> Resting \<longrightarrow> mb_started mb'"
  by (induction rule: monitor_step.induct)
    (simp_all add: begin_scan_def begin_replace_def subscription_started_def start_pass_def level_read_def apply_level_read_def
      scan_raised_def drained_def cancel_consumer_def receive_event_def apply_event_def set_consumer_def consumer_failed_def Let_def)

interpretation started: preserved monitor_moves "\<lambda>mb. mb_scanner mb \<noteq> Resting \<longrightarrow> mb_started mb"
  by unfold_locales (use started_step in metis)

text \<open>
  C31: a stream that dies while the old one is drained is never replaced.  The death asks for a rebuild,
  but the scan that is draining clears the request when it ends.  From then on, as long as the
  directory keeps naming the same members, no scan starts another subscription: the monitor stays
  disconnected, with the dead stream as its subscription, whatever else happens.
\<close>

theorem stream_lost_in_drain_is_never_replaced:
  assumes "monitor_moves\<^sup>*\<^sup>* initial_monitor mb" and "mb_scanner mb = Draining old" and "\<not> running (mb_subscription mb) mb"
    and "\<not> membership_changed (found_members (inventory dir) (mb_members mb)) (mb_members mb)"
    and "(monitor_step dir)\<^sup>*\<^sup>* (drained old mb) later"
  shows "\<not> mb_connected later \<and> mb_subscription later = mb_subscription mb \<and> \<not> running (mb_subscription later) later
    \<and> replacing later = None"
proof -
  have "health_inv mb" using health.run_inv[OF assms(1)] initial_routes initial_health by blast
  then have health: "mb_active_token mb = mb_subscription mb" "truthful mb"
    using assms(2) by (simp_all add: health_inv_def replacing_def unwinding_def)
  moreover have "mb_started mb"
    using started.run_inv[OF assms(1)] assms(2) by (simp add: initial_monitor_def)
  moreover have "\<not> running (mb_subscription mb) (drained old mb)"
  proof (cases "mb_subscription mb")
    case (Some t)
    have "mb_consumers (drained old mb) = mb_consumers (cancel_consumer old mb)" by (simp add: drained_def)
    with assms(3) show ?thesis using running_same[of "drained old mb" "cancel_consumer old mb"]
      by (simp add: Some running_cancelled)
  qed (simp add: running_def)
  ultimately have "forgotten dir (drained old mb) \<and> mb_subscription (drained old mb) = mb_subscription mb"
    using assms(3,4) by (simp add: forgotten_def truthful_def) (simp add: drained_def cancel_consumer_def replacing_def unwinding_def)
  from forgotten.run_inv[OF assms(5) this] show ?thesis unfolding forgotten_def by blast
qed

section \<open>What the socket says\<close>

lemma read_pane_level_pane: "read_pane_level pane a b = Inr lv \<Longrightarrow> lv_pane lv = pane"
  by (auto simp: read_pane_level_def unknown_level_def Let_def split: rpc.splits if_splits)

text \<open>
  Uncertainty is never taken for absence.  A pane is reported as gone exactly when Herdr answered
  both questions, for the agent and for the pane, with a not-found refusal; every failure of the
  transport and every other refusal leaves its existence unknown.
\<close>

theorem gone_needs_two_refusals:
  "(\<exists>lv. read_pane_level pane agent_get pane_get = Inr lv \<and> lv_exists lv = Some False) \<longleftrightarrow>
     (\<exists>e1 e2. agent_get = Refusal e1 \<and> not_found e1 \<and> pane_get = Refusal e2 \<and> not_found e2)"
  by (auto simp: read_pane_level_def unknown_level_def Let_def split: rpc.splits if_splits)

lemma start_shards_Inr:
  "start_shards answer panes = Inr streams \<longleftrightarrow>
     list_all (\<lambda>p. answer [p] = Started \<or> (\<exists>e. answer [p] = Rejected e \<and> not_found e)) panes
     \<and> streams = map (\<lambda>p. [p]) (filter (\<lambda>p. answer [p] = Started) panes)"
proof (induction panes arbitrary: streams)
  case (Cons p panes)
  then show ?case by (auto simp: and_then_eq_Inr split: subscribe_reply.splits)
qed auto

text \<open>
  A pane that is gone does not silence the others.  When Herdr refuses the subscription of several
  panes because one is not found, the subscription starts exactly when Herdr either accepts or does
  not find each pane alone, and then it holds one connection for every pane that was accepted.
\<close>

theorem stale_panes_do_not_silence_live_ones:
  assumes "answer panes = Rejected e" and "not_found e" and "2 \<le> length panes"
  shows "start_subscription answer panes = Inr streams \<longleftrightarrow>
     list_all (\<lambda>p. answer [p] = Started \<or> (\<exists>e. answer [p] = Rejected e \<and> not_found e)) panes
     \<and> streams = map (\<lambda>p. [p]) (filter (\<lambda>p. answer [p] = Started) panes)"
  using assms by (simp add: start_subscription_def start_shards_Inr)

end
