(* ===== verification/Herdr_Runs.thy ===== *)
theory Herdr_Runs
  imports Herdr_Theorems
begin

text \<open>
  Runs of the membership monitor on a directory with one task: the properties of \<open>Herdr_Theorems\<close> on
  concrete states.
\<close>

section \<open>A run\<close>

text \<open>One task in the directory; every answer of the socket is good.\<close>

definition one_dir :: state_dir where
  "one_dir = DirFiles [\<lparr>me_name = ''t1.meta'', me_bytes = Inr (u ''pane=p1'')\<rparr>]"

definition one_member :: "(ident \<times> ucs) list" where
  "one_member = [(''t1'', u ''p1'')]"

lemma one_dir_members: "inventory one_dir = \<lparr>iv_members = one_member, iv_errors = []\<rparr>"
proof -
  have task: "meta_task ''t1.meta'' = ''t1''" "suffix ''.meta'' ''t1.meta''" "id_text ''t1''"
    by (simp_all add: meta_task_def suffix_def id_text_def is_letter_or_digit_def less_eq_char_def)
  have "utf8_decode (u ''pane=p1'') = Some (u ''pane=p1'')" by (simp add: utf8_decode.simps)
  moreover have "splitlines (u ''pane=p1'') = [u ''pane=p1'']" by (simp add: splitlines_def is_break_def)
  ultimately have "meta_pane (u ''pane=p1'') = Inr (u ''p1'')"
    by (simp add: meta_pane_def MAX_META_BYTES_def pane_field_def Let_def is_space_def)
  with task show ?thesis by (simp add: inventory_def one_dir_def one_member_def read_meta_def)
qed

lemma one_dir_found: "found_members (inventory one_dir) [] = one_member" "found_members (inventory one_dir) one_member = one_member"
  "\<not> membership_changed one_member one_member" "membership_changed one_member []"
  by (simp_all add: found_members_def one_dir_members kept_members_def membership_changed_def) (simp_all add: one_member_def)

definition good_level :: "ucs \<Rightarrow> pane_state" where
  "good_level pane = \<lparr>lv_pane = pane, lv_status = JStr ''idle'', lv_exists = Some True, lv_revision = None\<rparr>"

text \<open>The scanner's next step when all goes well.\<close>

definition advance :: "monitor \<Rightarrow> monitor" where
  "advance mb = (case mb_scanner mb of
       Starting r \<Rightarrow> subscription_started r mb
     | Reading r task pane frontier lp \<Rightarrow> level_read r task pane frontier lp (Inr (good_level pane)) mb
     | Waiting r task lv frontier route lp \<Rightarrow> apply_level_read r task lv frontier route lp mb
     | Applying r lp \<Rightarrow> next_member r lp (mb\<lparr>mb_lock := None\<rparr>)
     | _ \<Rightarrow> begin_scan (\<not> mb_started mb) one_dir mb)"

lemma advance_step:
  assumes "mb_lock mb = None \<or> (\<exists>r lp. mb_scanner mb = Applying r lp)" and "\<not> unwinding mb" and "\<And>old. mb_scanner mb \<noteq> Draining old"
  shows "monitor_step one_dir mb (advance mb)"
  using assms
  by (cases "mb_scanner mb") (auto simp: advance_def unwinding_def good_level_def intro: monitor_step.intros)

definition demo ::
  "bool \<Rightarrow> string option \<Rightarrow> bool \<Rightarrow> nat option \<Rightarrow> nat option \<Rightarrow> nat \<Rightarrow> consumer list \<Rightarrow> scanner_at \<Rightarrow> holder option
     \<Rightarrow> reconcile_call list \<Rightarrow> monitor" where
  "demo conn err force sub active next_no cs scanner lock calls = \<lparr>mb_started = True, mb_members = one_member,
     mb_subscription = sub, mb_connected = conn, mb_last_error = err, mb_scan_errors = [], mb_force_rebuild = force,
     mb_active_token = active, mb_pane_epoch = [], mb_route_generation = [(''t1'', 1)], mb_lock = lock,
     mb_next_token = next_no, mb_consumers = cs, mb_scanner = scanner, mb_calls = calls\<rparr>"

definition demo_consumer :: "nat \<Rightarrow> consumer_at \<Rightarrow> consumer" where
  "demo_consumer tok at = \<lparr>cs_token = tok, cs_routing = [(''t1'', u ''p1'', 1)], cs_at = at\<rparr>"

definition first_try :: replacement where
  "first_try = \<lparr>rl_found = one_member, rl_token = 0, rl_previous = [], rl_previous_token = None, rl_previous_routes = []\<rparr>"

definition second_try :: replacement where
  "second_try = \<lparr>rl_found = one_member, rl_token = 1, rl_previous = one_member, rl_previous_token = Some 0,
     rl_previous_routes = [(''t1'', 1)]\<rparr>"

definition demo_call :: reconcile_call where
  "demo_call = \<lparr>rc_task = ''t1'', rc_state = good_level (u ''p1''), rc_origin = Level_read 0\<rparr>"

definition last_pass :: level_pass where
  "last_pass = \<lparr>lp_rest = [], lp_ok = True, lp_error = None\<rparr>"

lemmas advance_eval = advance_def begin_scan_def begin_replace_def subscription_started_def start_pass_def next_member_def
  finish_pass_def health_after_def level_read_def apply_level_read_def running_def find_consumer_def
  consumer_failed_def set_consumer_def routing_of_def count_at_def Let_def demo_def demo_consumer_def
  first_try_def second_try_def demo_call_def last_pass_def

abbreviation up_monitor :: monitor where
  "up_monitor \<equiv> demo True None False (Some 0) (Some 0) 1 [demo_consumer 0 Listening] Resting None [demo_call]"

abbreviation rebuilt_monitor :: monitor where
  "rebuilt_monitor \<equiv> demo True None True (Some 1) (Some 1) 2 [demo_consumer 0 Ended, demo_consumer 1 Listening]
     (Draining 0) None [demo_call, demo_call]"

lemma first_round:
  "advance initial_monitor = (demo False None False None None 1 [] (Starting first_try) None [])\<lparr>mb_members := []\<rparr>"
  "advance ((demo False None False None None 1 [] (Starting first_try) None [])\<lparr>mb_members := []\<rparr>)
    = demo False None False None (Some 0) 1 [demo_consumer 0 Listening] (Reading (Some first_try) ''t1'' (u ''p1'') 0 last_pass) None []"
proof -
  have "bump_routes (changed_tasks one_member []) [] = [(''t1'', 1)]"
    by (simp add: changed_tasks_def one_member_def bump_routes_def count_at_def)
  then show "advance initial_monitor = (demo False None False None None 1 [] (Starting first_try) None [])\<lparr>mb_members := []\<rparr>"
    by (simp add: advance_eval initial_monitor_def one_dir_members found_members_def kept_members_def)
  show "advance ((demo False None False None None 1 [] (Starting first_try) None [])\<lparr>mb_members := []\<rparr>)
    = demo False None False None (Some 0) 1 [demo_consumer 0 Listening] (Reading (Some first_try) ''t1'' (u ''p1'') 0 last_pass) None []"
    by (simp add: advance_eval) (simp add: one_member_def count_at_def)
qed

lemma one_level:
  "advance (demo c e f s a n cs (Reading r ''t1'' (u ''p1'') 0 last_pass) None calls)
    = demo c e f s a n cs (Waiting r ''t1'' (good_level (u ''p1'')) 0 1 last_pass) None calls"
  "advance (demo c e f s a n cs (Waiting r ''t1'' (good_level (u ''p1'')) 0 1 last_pass) None calls)
    = demo c e f s a n cs (Applying r last_pass) (Some Scanner) (calls @ [demo_call])"
  by (simp_all add: advance_eval good_level_def del: not_None_eq)

lemma first_commit:
  "advance (demo False None False None (Some 0) 1 [demo_consumer 0 Listening] (Applying (Some first_try) last_pass) (Some Scanner) [demo_call])
    = up_monitor"
  by (simp add: advance_eval) (simp add: one_member_def)

lemma second_round:
  "advance (demo False (Some ''closed'') True (Some 0) (Some 0) 1 [demo_consumer 0 Ended] Resting None [demo_call])
    = demo False (Some ''closed'') True (Some 0) (Some 0) 2 [demo_consumer 0 Ended] (Starting second_try) None [demo_call]"
  "advance (demo False (Some ''closed'') True (Some 0) (Some 0) 2 [demo_consumer 0 Ended] (Starting second_try) None [demo_call])
    = demo False (Some ''closed'') True (Some 0) (Some 1) 2 [demo_consumer 0 Ended, demo_consumer 1 Listening]
        (Reading (Some second_try) ''t1'' (u ''p1'') 0 last_pass) None [demo_call]"
  "advance (demo False (Some ''closed'') True (Some 0) (Some 1) 2 [demo_consumer 0 Ended, demo_consumer 1 Listening]
        (Applying (Some second_try) last_pass) (Some Scanner) [demo_call, demo_call]) = rebuilt_monitor"
proof -
  have "bump_routes (changed_tasks one_member one_member) x = x" for x
    by (simp add: changed_tasks_def bump_routes_def)
  then show "advance (demo False (Some ''closed'') True (Some 0) (Some 0) 1 [demo_consumer 0 Ended] Resting None [demo_call])
    = demo False (Some ''closed'') True (Some 0) (Some 0) 2 [demo_consumer 0 Ended] (Starting second_try) None [demo_call]"
    using one_dir_found(2) by (simp add: advance_eval one_dir_members)
qed (simp add: advance_eval, simp add: one_member_def count_at_def)+

lemma one_more: "monitor_moves\<^sup>*\<^sup>* x y \<Longrightarrow> monitor_step dir y z \<Longrightarrow> monitor_moves\<^sup>*\<^sup>* x z"
  by (rule rtranclp.rtrancl_into_rtrancl) blast+

lemma demo_steps:
  assumes "monitor_moves\<^sup>*\<^sup>* initial_monitor mb" and "mb = demo c e f s a n cs at lock calls"
    and "lock = None \<or> (\<exists>r lp. at = Applying r lp)" and "\<And>x. at \<noteq> Unwinding x" and "\<And>old. at \<noteq> Draining old"
    and "advance mb = mb'"
  shows "monitor_moves\<^sup>*\<^sup>* initial_monitor mb'"
proof -
  have "monitor_step one_dir mb (advance mb)"
    using assms(2-5) by (intro advance_step) (auto simp: demo_def unwinding_def split: scanner_at.split)
  from one_more[OF assms(1) this] assms(6) show ?thesis by simp
qed

lemma up_monitor_reached: "monitor_moves\<^sup>*\<^sup>* initial_monitor up_monitor"
proof -
  have one: "monitor_step one_dir initial_monitor (advance initial_monitor)"
    by (intro advance_step) (simp_all add: initial_monitor_def unwinding_def)
  have two: "monitor_step one_dir (advance initial_monitor) (advance (advance initial_monitor))"
    unfolding first_round(1) by (intro advance_step) (simp_all add: demo_def unwinding_def)
  from one_more[OF one_more[OF rtranclp.rtrancl_refl one] two] have "monitor_moves\<^sup>*\<^sup>* initial_monitor
      (demo False None False None (Some 0) 1 [demo_consumer 0 Listening] (Reading (Some first_try) ''t1'' (u ''p1'') 0 last_pass) None [])"
    unfolding first_round .
  from demo_steps[OF this refl _ _ _ one_level(1)] have "monitor_moves\<^sup>*\<^sup>* initial_monitor
      (demo False None False None (Some 0) 1 [demo_consumer 0 Listening]
        (Waiting (Some first_try) ''t1'' (good_level (u ''p1'')) 0 1 last_pass) None [])" by simp
  from demo_steps[OF this refl _ _ _ one_level(2)] have "monitor_moves\<^sup>*\<^sup>* initial_monitor
      (demo False None False None (Some 0) 1 [demo_consumer 0 Listening] (Applying (Some first_try) last_pass) (Some Scanner) [demo_call])"
    by simp
  from demo_steps[OF this refl _ _ _ first_commit] show ?thesis by simp
qed

lemma rebuilt_monitor_reached: "monitor_moves\<^sup>*\<^sup>* initial_monitor rebuilt_monitor"
proof -
  have live: "find_consumer 0 up_monitor = Some (demo_consumer 0 Listening)" "cs_at (demo_consumer 0 Listening) = Listening"
    by (simp_all add: find_consumer_def demo_def demo_consumer_def)
  note lost = monitor_step.stream_lost[where e = "''closed''", OF live(1) disjI1[OF live(2)]]
  have "consumer_failed 0 ''closed'' up_monitor
      = demo False (Some ''closed'') True (Some 0) (Some 0) 1 [demo_consumer 0 Ended] Resting None [demo_call]"
    by (simp add: consumer_failed_def set_consumer_def demo_def demo_consumer_def Let_def)
  with one_more[OF up_monitor_reached lost] have "monitor_moves\<^sup>*\<^sup>* initial_monitor
      (demo False (Some ''closed'') True (Some 0) (Some 0) 1 [demo_consumer 0 Ended] Resting None [demo_call])" by simp
  from demo_steps[OF this refl _ _ _ second_round(1)] have "monitor_moves\<^sup>*\<^sup>* initial_monitor
      (demo False (Some ''closed'') True (Some 0) (Some 0) 2 [demo_consumer 0 Ended] (Starting second_try) None [demo_call])" by simp
  from demo_steps[OF this refl _ _ _ second_round(2)] have "monitor_moves\<^sup>*\<^sup>* initial_monitor
      (demo False (Some ''closed'') True (Some 0) (Some 1) 2 [demo_consumer 0 Ended, demo_consumer 1 Listening]
        (Reading (Some second_try) ''t1'' (u ''p1'') 0 last_pass) None [demo_call])" by simp
  from demo_steps[OF this refl _ _ _ one_level(1)] have "monitor_moves\<^sup>*\<^sup>* initial_monitor
      (demo False (Some ''closed'') True (Some 0) (Some 1) 2 [demo_consumer 0 Ended, demo_consumer 1 Listening]
        (Waiting (Some second_try) ''t1'' (good_level (u ''p1'')) 0 1 last_pass) None [demo_call])" by simp
  from demo_steps[OF this refl _ _ _ one_level(2)] have "monitor_moves\<^sup>*\<^sup>* initial_monitor
      (demo False (Some ''closed'') True (Some 0) (Some 1) 2 [demo_consumer 0 Ended, demo_consumer 1 Listening]
        (Applying (Some second_try) last_pass) (Some Scanner) [demo_call, demo_call])" by simp
  from demo_steps[OF this refl _ _ _ second_round(3)] show ?thesis by simp
qed

text \<open>An event of the pane, and a scan after it.\<close>

definition after_event :: "consumer_at \<Rightarrow> scanner_at \<Rightarrow> holder option \<Rightarrow> reconcile_call list \<Rightarrow> monitor" where
  "after_event at scanner lock calls = (demo True None False (Some 0) (Some 0) 1 [demo_consumer 0 at] scanner lock calls)
     \<lparr>mb_pane_epoch := [(u ''p1'', 1)]\<rparr>"

definition edge_call :: reconcile_call where
  "edge_call = \<lparr>rc_task = ''t1'', rc_state = good_level (u ''p1''), rc_origin = Edge 1\<rparr>"

definition late_call :: reconcile_call where
  "late_call = \<lparr>rc_task = ''t1'', rc_state = good_level (u ''p1''), rc_origin = Level_read 1\<rparr>"

lemma find_after_event: "find_consumer 0 (after_event at sc lock calls) = Some (demo_consumer 0 at)"
  "cs_at (demo_consumer tok at) = at" "mb_lock (after_event at sc lock calls) = lock" "mb_scanner (after_event at sc lock calls) = sc"
  "mb_calls (after_event at sc lock calls) = calls"
  by (simp_all add: after_event_def find_consumer_def demo_def demo_consumer_def)

lemma event_effects:
  "receive_event (demo_consumer 0 Listening) (good_level (u ''p1'')) up_monitor
    = after_event (Handling (good_level (u ''p1'')) 1 [(''t1'', 1)]) Resting None [demo_call]"
  "apply_event (demo_consumer 0 (Handling (good_level (u ''p1'')) 1 [(''t1'', 1)])) (good_level (u ''p1'')) 1 ''t1'' 1 []
      (after_event (Handling (good_level (u ''p1'')) 1 [(''t1'', 1)]) Resting None [demo_call])
    = after_event (Calling (good_level (u ''p1'')) 1 []) Resting (Some (Consumer 0)) [demo_call, edge_call]"
  "(set_consumer 0 (Handling (good_level (u ''p1'')) 1 [])
      (after_event (Calling (good_level (u ''p1'')) 1 []) Resting (Some (Consumer 0)) [demo_call, edge_call]))\<lparr>mb_lock := None\<rparr>
    = after_event (Handling (good_level (u ''p1'')) 1 []) Resting None [demo_call, edge_call]"
  "set_consumer 0 Listening (after_event (Handling (good_level (u ''p1'')) 1 []) Resting None [demo_call, edge_call])
    = after_event Listening Resting None [demo_call, edge_call]"
  by (simp_all add: receive_event_def apply_event_def set_consumer_def after_event_def demo_def demo_consumer_def good_level_def
      count_at_def edge_call_def Let_def)

lemma scan_effects:
  "advance (after_event Listening Resting None [demo_call, edge_call])
    = after_event Listening (Reading None ''t1'' (u ''p1'') 1 last_pass) None [demo_call, edge_call]"
  "advance (after_event Listening (Reading None ''t1'' (u ''p1'') 1 last_pass) None [demo_call, edge_call])
    = after_event Listening (Waiting None ''t1'' (good_level (u ''p1'')) 1 1 last_pass) None [demo_call, edge_call]"
  "advance (after_event Listening (Waiting None ''t1'' (good_level (u ''p1'')) 1 1 last_pass) None [demo_call, edge_call])
    = after_event Listening (Applying None last_pass) (Some Scanner) [demo_call, edge_call, late_call]"
proof -
  show "advance (after_event Listening Resting None [demo_call, edge_call])
    = after_event Listening (Reading None ''t1'' (u ''p1'') 1 last_pass) None [demo_call, edge_call]"
    using one_dir_found(2,3) by (simp add: after_event_def advance_eval one_dir_members) (simp add: one_member_def count_at_def)
qed (simp_all add: after_event_def advance_eval good_level_def late_call_def del: not_None_eq)

lemma event_reached:
  "monitor_moves\<^sup>*\<^sup>* initial_monitor (after_event Listening (Applying None last_pass) (Some Scanner) [demo_call, edge_call, late_call])"
proof -
  have live: "find_consumer 0 up_monitor = Some (demo_consumer 0 Listening)"
    by (simp add: find_consumer_def demo_def demo_consumer_def)
  note f = find_after_event
  note one_more[OF up_monitor_reached monitor_step.event[where dir = one_dir and lv = "good_level (u ''p1'')", OF live f(2)], unfolded event_effects]
  note one_more[OF this monitor_step.apply_event[where dir = one_dir, OF f(1,2,3)], unfolded event_effects]
  note one_more[OF this monitor_step.event_applied[where dir = one_dir, OF f(1,2)], unfolded event_effects]
  note one_more[OF this monitor_step.event_done[where dir = one_dir, OF f(1,2)], unfolded event_effects]
  note reached = this
  have next_step: "monitor_moves\<^sup>*\<^sup>* initial_monitor (advance (after_event at sc None calls))"
    if "monitor_moves\<^sup>*\<^sup>* initial_monitor (after_event at sc None calls)"
      "sc = Resting \<or> (\<exists>t p n lp. sc = Reading None t p n lp) \<or> (\<exists>t lv n g lp. sc = Waiting None t lv n g lp)" for at sc calls
  proof -
    have "monitor_step one_dir (after_event at sc None calls) (advance (after_event at sc None calls))"
      using that(2) by (intro advance_step) (auto simp: f unwinding_def)
    from one_more[OF that(1) this] show ?thesis .
  qed
  have "monitor_moves\<^sup>*\<^sup>* initial_monitor (after_event Listening (Reading None ''t1'' (u ''p1'') 1 last_pass) None [demo_call, edge_call])"
    unfolding scan_effects(1)[symmetric] by (rule next_step[OF reached]) blast
  from next_step[OF this] have "monitor_moves\<^sup>*\<^sup>* initial_monitor
      (after_event Listening (Waiting None ''t1'' (good_level (u ''p1'')) 1 1 last_pass) None [demo_call, edge_call])"
    unfolding scan_effects by blast
  from next_step[OF this] show ?thesis unfolding scan_effects by blast
qed

section \<open>Witnesses\<close>



theorem connected_means_streaming_witness:
  "\<exists>tok c. mb_connected up_monitor \<and> mb_subscription up_monitor = Some tok \<and> find_consumer tok up_monitor = Some c \<and> cs_at c \<noteq> Ended"
proof -
  have up: "mb_connected up_monitor" "replacing up_monitor = None" "\<not> unwinding up_monitor"
    by (simp_all add: demo_def replacing_def unwinding_def)
  from connected_means_streaming[OF up_monitor_reached up] up(1) show ?thesis by blast
qed

theorem torn_metadata_keeps_the_member_witness:
  "map_of (found_members (inventory (DirFiles [\<lparr>me_name = ''t1.meta'', me_bytes = Inr []\<rparr>])) one_member) ''t1'' = Some (u ''p1'')"
proof -
  have member: "map_of one_member ''t1'' = Some (u ''p1'')" "distinct (keys one_member)" "id_text ''t1''"
    by (simp_all add: one_member_def id_text_def is_letter_or_digit_def less_eq_char_def)
  have torn: "and_then (Inr []) meta_pane = Inl ''invalid pane''"
    by (simp add: meta_pane_def pane_field_def splitlines_def Let_def)
  show ?thesis
    using torn_metadata_keeps_the_member[OF member, of "[\<lparr>me_name = ''t1.meta'', me_bytes = Inr []\<rparr>]"
        "\<lparr>me_name = ''t1.meta'', me_bytes = Inr []\<rparr>" "''invalid pane''"] torn by simp
qed

theorem unreadable_directory_forgets_members_witness:
  "\<exists>r. mb_scanner (begin_scan False NotPrivate up_monitor) = Starting r
     \<and> mb_members (subscription_started r (begin_scan False NotPrivate up_monitor)) = []"
proof -
  have up: "mb_scanner up_monitor = Resting" "mb_members up_monitor \<noteq> []" "list_all id_text (keys (mb_members up_monitor))"
    "mb_started up_monitor"
    by (simp_all add: demo_def one_member_def id_text_def is_letter_or_digit_def less_eq_char_def)
  from unreadable_directory_forgets_members[OF up_monitor_reached up(1-3), of NotPrivate "[]"] up(4) show ?thesis by simp
qed

theorem stream_lost_in_drain_is_never_replaced_witness:
  "\<exists>mb. monitor_moves\<^sup>*\<^sup>* initial_monitor mb \<and> mb_force_rebuild mb
     \<and> mb_force_rebuild (drained 0 mb) = False \<and> mb_connected (advance (drained 0 mb)) = False
     \<and> replacing (advance (drained 0 mb)) = None"
proof -
  have live: "find_consumer 1 rebuilt_monitor = Some (demo_consumer 1 Listening)" "cs_at (demo_consumer 1 Listening) = Listening"
    by (simp_all add: find_consumer_def demo_def demo_consumer_def)
  define mb where "mb = consumer_failed 1 ''closed'' rebuilt_monitor"
  have reach: "monitor_moves\<^sup>*\<^sup>* initial_monitor mb"
    unfolding mb_def
    by (rule one_more[OF rebuilt_monitor_reached monitor_step.stream_lost[where dir = one_dir, OF live(1) disjI1[OF live(2)]]])
  have at: "mb_scanner mb = Draining 0" "\<not> running (mb_subscription mb) mb" "mb_members mb = one_member" "mb_force_rebuild mb"
    by (simp_all add: mb_def consumer_failed_def set_consumer_def demo_def demo_consumer_def running_def find_consumer_def Let_def)
  have same: "\<not> membership_changed (found_members (inventory one_dir) (mb_members mb)) (mb_members mb)"
    unfolding at one_dir_found by (rule one_dir_found)
  have drained: "mb_scanner (drained 0 mb) = Resting" "mb_lock (drained 0 mb) = None"
    by (simp_all add: drained_def cancel_consumer_def mb_def consumer_failed_def set_consumer_def demo_def Let_def)
  have "monitor_step one_dir (drained 0 mb) (advance (drained 0 mb))"
    by (intro advance_step) (simp_all add: drained unwinding_def)
  then have "(monitor_step one_dir)\<^sup>*\<^sup>* (drained 0 mb) (advance (drained 0 mb))" by (rule r_into_rtranclp)
  from stream_lost_in_drain_is_never_replaced[OF reach at(1,2) same this] reach at(4) show ?thesis
    by (auto simp: drained_def)
qed

definition stale_answer :: "ucs list \<Rightarrow> subscribe_reply" where
  "stale_answer panes = (if panes = [u ''p1''] then Started else Rejected (JStr ''pane_not_found''))"

lemma stale_error: "not_found (JStr ''pane_not_found'')"
proof -
  have "dumps_spaced (JStr ''pane_not_found'') = CHR 0x22 # ''pane_not_found'' @ [CHR 0x22]"
    by (simp add: quoted_def escape_char_def)
  moreover have "casefold (u (CHR 0x22 # ''pane_not_found'' @ [CHR 0x22])) = u (CHR 0x22 # ''pane_not_found'' @ [CHR 0x22])"
    by (simp add: casefold_def casefold1_def casefold_special_def lower1_def)
  ultimately show ?thesis by (simp add: not_found_def contains_def Let_def)
qed

theorem stale_panes_do_not_silence_live_ones_witness:
  "start_subscription stale_answer [u ''p1'', u ''p2''] = Inr [[u ''p1'']]"
proof -
  have two: "stale_answer [u ''p1'', u ''p2''] = Rejected (JStr ''pane_not_found'')" "2 \<le> length [u ''p1'', u ''p2'']"
    by (simp_all add: stale_answer_def)
  from stale_panes_do_not_silence_live_ones[of stale_answer, OF two(1) stale_error two(2)] stale_error show ?thesis
    by (simp add: stale_answer_def)
qed

end
