(* ===== verification/Reducer_Legacy.thy ===== *)
theory Reducer_Legacy
  imports Herdr Reducer_Facts
begin

text \<open>
  The last part of \<open>lib/rozoro_monitor/reducer.py\<close>: reading a record that the previous release kept
  of a task (\<open>rzr-runtime.py\<close>) into a lifecycle state.  The record is a JSON value; what is not the
  documented shape is read as unknown.  A lookup on something that is no object raises, and so does
  the membership test of a set for an array or an object.
\<close>

section \<open>Values\<close>

definition no_key :: "json \<Rightarrow> bool" where
  "no_key v = (case v of JArr _ \<Rightarrow> True | JObj _ \<Rightarrow> True | _ \<Rightarrow> False)"

text \<open>\<open>value in {word, ...}\<close>.\<close>

definition among :: "json \<Rightarrow> string list \<Rightarrow> py_error + bool" where
  "among v words = (if no_key v then Inl TypeError else Inr (v \<in> JStr ` set words))"

text \<open>\<open>d.get(k, default)\<close>; \<open>(d.get(k) or {}).get(k2, default)\<close>.\<close>

definition get_default :: "string \<Rightarrow> json \<Rightarrow> json \<Rightarrow> json" where
  "get_default k v d = (case member k v of Some x \<Rightarrow> x | None \<Rightarrow> d)"

definition get_inner :: "string \<Rightarrow> string \<Rightarrow> json \<Rightarrow> json \<Rightarrow> py_error + json" where
  "get_inner k k2 v d = (let inner = or_else (get k v) (JObj []) in
     if is_object inner then Inr (get_default k2 inner d) else Inl TypeError)"

section \<open>The background axis\<close>

record legacy_background =
  lb_state :: background
  lb_jobs :: "ident fset"
  lb_anonymous :: int
  lb_exact :: bool
  lb_presence :: bool

definition unknown_background :: legacy_background where
  "unknown_background = \<lparr>lb_state = BgUnknown, lb_jobs = {||}, lb_anonymous = 0, lb_exact = False, lb_presence = False\<rparr>"

definition job_id :: "json \<Rightarrow> ident option" where
  "job_id v = (case (case v of JObj _ \<Rightarrow> get ''id'' v | _ \<Rightarrow> v) of
       JStr s \<Rightarrow> if s = [] then None else Some s
     | _ \<Rightarrow> None)"

definition legacy_jobs :: "json \<Rightarrow> ident list option" where
  "legacy_jobs raw = (case raw of
       JNull \<Rightarrow> Some []
     | JArr vs \<Rightarrow> if list_all (\<lambda>v. job_id v \<noteq> None) vs then Some (map (\<lambda>v. the (job_id v)) vs) else None
     | _ \<Rightarrow> None)"

text \<open>\<open>active_count\<close>: absent, a number, or not acceptable.\<close>

definition legacy_count :: "json \<Rightarrow> int option option" where
  "legacy_count raw = (case raw of JNull \<Rightarrow> Some None | JInt n \<Rightarrow> (if n < 0 then None else Some (Some n)) | _ \<Rightarrow> None)"

definition active_background :: "int option \<Rightarrow> ident list \<Rightarrow> legacy_background" where
  "active_background count jobs = (case count of
       Some n \<Rightarrow>
         if n = 0 \<or> jobs \<noteq> [] \<and> n \<noteq> int (length jobs) then unknown_background
         else \<lparr>lb_state = BgActive, lb_jobs = fset_of_list jobs, lb_anonymous = n - int (length jobs),
                lb_exact = True, lb_presence = False\<rparr>
     | None \<Rightarrow>
         if jobs \<noteq> [] then \<lparr>lb_state = BgActive, lb_jobs = fset_of_list jobs, lb_anonymous = 0,
                lb_exact = True, lb_presence = False\<rparr>
         else \<lparr>lb_state = BgActive, lb_jobs = {||}, lb_anonymous = 0, lb_exact = False, lb_presence = True\<rparr>)"

definition map_v2_background :: "json \<Rightarrow> py_error + legacy_background" where
  "map_v2_background bg =
     (if \<not> is_object bg \<or> get ''supported'' bg \<noteq> JBool True then Inr unknown_background
      else let state = get ''state'' bg in
        and_then (among state BACKGROUNDS) (\<lambda>known.
          if \<not> known then Inr unknown_background
          else Inr (case legacy_count (get ''active_count'' bg) of
              None \<Rightarrow> unknown_background
            | Some count \<Rightarrow>
              (case legacy_jobs (get_default ''jobs'' bg (JArr [])) of
                  None \<Rightarrow> unknown_background
                | Some jobs \<Rightarrow>
                    if \<not> distinct jobs then unknown_background
                    else if state = JStr ''clear'' then
                      (if jobs \<noteq> [] \<or> count \<notin> {None, Some 0} then unknown_background
                       else \<lparr>lb_state = BgClear, lb_jobs = {||}, lb_anonymous = 0, lb_exact = True, lb_presence = False\<rparr>)
                    else if state = JStr ''unknown'' then unknown_background
                    else active_background count jobs))))"

section \<open>The record\<close>

text \<open>
  \<open>str.casefold\<close> of the text of a JSON value, whose characters are code points up to 255; the verdict
  and the status of a record are kept as they are found, text or not.
\<close>

definition casefold_latin :: "char \<Rightarrow> ucs" where
  "casefold_latin c = (let n = of_char c :: nat in
     if n = 181 then [956] else if 192 \<le> n \<and> n \<le> 222 \<and> n \<noteq> 215 then [n + 32] else casefold1 n)"

datatype legacy_verdict = Folded ucs | Verbatim json

record legacy_state =
  lg_state :: lifecycle
  lg_verdict :: legacy_verdict
  lg_status :: json

definition fold_verdict :: "json \<Rightarrow> legacy_verdict" where
  "fold_verdict v = (case v of JStr s \<Rightarrow> Folded (concat (map casefold_latin s)) | _ \<Rightarrow> Verbatim v)"

text \<open>The foreground, whether the session is gone and whether it is blocked.\<close>

definition legacy_foreground :: "json \<Rightarrow> json \<Rightarrow> py_error + foreground \<times> bool \<times> bool" where
  "legacy_foreground fg rt =
     and_then (if fg = JStr ''working'' then Inr FgRunning
               else and_then (among fg [''idle'', ''done'', ''blocked'']) (\<lambda>stopped.
                      Inr (if stopped then FgStopped else FgUnknown)))
       (\<lambda>f. Inr (f, fg = JStr ''gone'' \<or> rt = JStr ''gone'', fg = JStr ''blocked'' \<or> rt = JStr ''blocked''))"

text \<open>Both axes; nothing is certified by a stale record.\<close>

definition legacy_axes :: "json \<Rightarrow> json \<Rightarrow> json \<Rightarrow> py_error + (foreground \<times> bool \<times> bool) \<times> legacy_background" where
  "legacy_axes runtime status freshness =
     (if freshness \<noteq> JStr ''current'' then Inr ((FgUnknown, False, False), unknown_background)
      else and_then (legacy_foreground (get_default ''foreground_status'' status (get ''foreground_status'' runtime))
               (get_default ''runtime_status'' status (get_default ''runtime_status'' runtime (JStr ''unknown'')))) (\<lambda>f.
           and_then (map_v2_background
               (get_default ''background_activity'' status (get_default ''background_activity'' runtime (JObj [])))) (\<lambda>b.
             Inr (f, b))))"

definition legacy_lifecycle :: "foreground \<times> bool \<times> bool \<Rightarrow> legacy_background \<Rightarrow> lifecycle" where
  "legacy_lifecycle = (\<lambda>(f, gone, blk) b. finish (init_lifecycle\<lparr>foreground := f, background := lb_state b,
     background_certified := lb_exact b, active_jobs := lb_jobs b, anonymous_active := lb_anonymous b,
     active_presence_only := lb_presence b, session_gone := gone, blocked := blk\<rparr>))"

text \<open>\<open>status\<close> is an object or null, \<open>runtime\<close> an object.\<close>

definition map_v2_projection :: "json \<Rightarrow> json \<Rightarrow> py_error + legacy_state" where
  "map_v2_projection runtime status0 =
     (let status = or_else status0 (JObj []) in
      and_then (get_inner ''source'' ''freshness'' runtime (JStr ''current'')) (\<lambda>fresh.
      and_then (legacy_axes runtime status (get_default ''runtime_freshness'' status fresh)) (\<lambda>(f, b).
      and_then (get_inner ''turn'' ''report_status'' runtime (JStr ''unobserved'')) (\<lambda>reported.
        Inr \<lparr>lg_state = legacy_lifecycle f b, lg_verdict = fold_verdict (get ''handoff_verdict'' status),
             lg_status = get_default ''turn_report_status'' status reported\<rparr>))))"

section \<open>What the mapping promises\<close>

lemma active_background_ok:
  assumes "distinct jobs" and "\<And>n. count = Some n \<Longrightarrow> 0 \<le> n" and "b = active_background count jobs"
  shows "0 \<le> lb_anonymous b
    \<and> (lb_state b = BgActive \<longleftrightarrow> lb_jobs b \<noteq> {||} \<or> lb_anonymous b \<noteq> 0 \<or> lb_presence b)
    \<and> (lb_exact b \<longrightarrow> lb_state b \<noteq> BgUnknown) \<and> lb_state b \<noteq> BgClear"
  using assms by (cases count; cases jobs) (auto simp: active_background_def unknown_background_def)

lemma map_v2_background_ok:
  assumes "map_v2_background bg = Inr b"
  shows "0 \<le> lb_anonymous b
    \<and> (lb_state b = BgActive \<longleftrightarrow> lb_jobs b \<noteq> {||} \<or> lb_anonymous b \<noteq> 0 \<or> lb_presence b)
    \<and> (lb_exact b \<longrightarrow> lb_state b \<noteq> BgUnknown)
    \<and> (lb_state b = BgClear \<longrightarrow> get ''supported'' bg = JBool True \<and> get ''state'' bg = JStr ''clear''
         \<and> legacy_jobs (get_default ''jobs'' bg (JArr [])) = Some []
         \<and> get ''active_count'' bg \<in> {JNull, JInt 0})"
proof -
  consider "b = unknown_background"
    | (clear) "b = \<lparr>lb_state = BgClear, lb_jobs = {||}, lb_anonymous = 0, lb_exact = True, lb_presence = False\<rparr>"
        "get ''supported'' bg = JBool True" "get ''state'' bg = JStr ''clear''"
        "legacy_jobs (get_default ''jobs'' bg (JArr [])) = Some []"
        "legacy_count (get ''active_count'' bg) \<in> {Some None, Some (Some 0)}"
    | (active) count jobs where "b = active_background count jobs" "distinct jobs"
        "legacy_count (get ''active_count'' bg) = Some count"
    using assms
    by (auto simp: map_v2_background_def and_then_eq_Inr Let_def split: if_splits option.splits)
  then show ?thesis
  proof cases
    case clear
    then show ?thesis by (auto simp: legacy_count_def split: json.splits if_splits)
  next
    case active
    then have "count = Some n \<Longrightarrow> 0 \<le> n" for n by (auto simp: legacy_count_def split: json.splits if_splits)
    from active_background_ok[OF active(2) this active(1)] show ?thesis by blast
  qed (simp add: unknown_background_def)
qed

text \<open>
  C36: an old record is read conservatively.  Whatever \<open>map_v2_projection\<close> reads is a well-formed
  lifecycle state, from which the reducer can go on, with the sequence of the native producer not
  started; and it is only \<open>quiescent\<close> when the record says that the foreground is idle or done and
  an adapter that supports background reports explicitly says that nothing runs.
\<close>

theorem legacy_is_conservative:
  assumes run: "map_v2_projection rt st = Inr g" and status: "status = or_else st (JObj [])"
    and bg: "bg = get_default ''background_activity'' status (get_default ''background_activity'' rt (JObj []))"
  shows "lifecycle_wf (lg_state g) \<and> producer_seq (lg_state g) = 0 \<and> pending_events (lg_state g) = []
    \<and> (availability (lg_state g) = Quiescent \<longrightarrow>
        get_default ''foreground_status'' status (get ''foreground_status'' rt) \<in> {JStr ''idle'', JStr ''done''}
        \<and> get ''supported'' bg = JBool True \<and> get ''state'' bg = JStr ''clear''
        \<and> legacy_jobs (get_default ''jobs'' bg (JArr [])) = Some [] \<and> get ''active_count'' bg \<in> {JNull, JInt 0})"
proof -
  let ?fg = "get_default ''foreground_status'' status (get ''foreground_status'' rt)"
  from run obtain f gone blk b fresh where axes: "legacy_axes rt status fresh = Inr ((f, gone, blk), b)"
    and state: "lg_state g = legacy_lifecycle (f, gone, blk) b"
    by (auto simp: map_v2_projection_def Let_def and_then_eq_Inr status)
  note state = state[unfolded legacy_lifecycle_def prod.case]
  from axes have parts: "f = FgUnknown \<and> b = unknown_background
      \<or> (\<exists>r. legacy_foreground ?fg r = Inr (f, gone, blk)) \<and> map_v2_background bg = Inr b"
    by (auto simp: legacy_axes_def and_then_eq_Inr bg split: if_splits)
  have axis: "0 \<le> lb_anonymous b" "lb_state b = BgActive \<longleftrightarrow> lb_jobs b \<noteq> {||} \<or> lb_anonymous b \<noteq> 0 \<or> lb_presence b"
    "lb_exact b \<longrightarrow> lb_state b \<noteq> BgUnknown"
    using parts map_v2_background_ok[of bg b] by (auto simp: unknown_background_def)
  have stopped: "?fg \<in> {JStr ''idle'', JStr ''done''}" if "legacy_foreground ?fg r = Inr (FgStopped, gone, False)" for r
    using that by (auto simp: legacy_foreground_def and_then_eq_Inr among_def split: if_splits)
  have quiet: "f = FgStopped \<and> lb_state b = BgClear \<and> \<not> blk" if "availability (lg_state g) = Quiescent"
    using that by (auto simp: state finish_def derived_def derive_availability_def init_lifecycle_def split: if_splits)
  have "lifecycle_wf (lg_state g)"
    using axis by (auto simp: state lifecycle_wf_def finish_def derived_def axes_ok_def any_active_def
        buffered_after_def init_lifecycle_def)
  moreover have "producer_seq (lg_state g) = 0 \<and> pending_events (lg_state g) = []"
    by (simp add: state finish_def init_lifecycle_def)
  moreover have "?fg \<in> {JStr ''idle'', JStr ''done''} \<and> get ''supported'' bg = JBool True \<and> get ''state'' bg = JStr ''clear''
        \<and> legacy_jobs (get_default ''jobs'' bg (JArr [])) = Some [] \<and> get ''active_count'' bg \<in> {JNull, JInt 0}"
    if "availability (lg_state g) = Quiescent"
    using quiet[OF that] parts stopped map_v2_background_ok[of bg b] by (auto simp: unknown_background_def)
  ultimately show ?thesis by blast
qed

text \<open>An idle record with an explicit zero; and a state that is no text, which raises instead of being unknown.\<close>

definition idle_record :: "json \<Rightarrow> json" where
  "idle_record state = JObj [(''foreground_status'', JStr ''idle''),
     (''background_activity'', JObj [(''supported'', JBool True), (''state'', state), (''active_count'', JInt 0)])]"

lemma legacy_is_conservative_witness:
  "\<exists>g. map_v2_projection (idle_record (JStr ''clear'')) JNull = Inr g \<and> availability (lg_state g) = Quiescent
    \<and> lifecycle_wf (lg_state g)"
proof -
  have "\<exists>g. map_v2_projection (idle_record (JStr ''clear'')) JNull = Inr g \<and> availability (lg_state g) = Quiescent"
    by (simp add: map_v2_projection_def legacy_axes_def legacy_lifecycle_def idle_record_def get_inner_def get_def get_default_def or_else_def member_def
        is_object_def legacy_foreground_def among_def no_key_def map_v2_background_def BACKGROUNDS_def
        legacy_count_def legacy_jobs_def finish_def derived_def derive_availability_def init_lifecycle_def Let_def)
  then obtain g where g: "map_v2_projection (idle_record (JStr ''clear'')) JNull = Inr g"
    "availability (lg_state g) = Quiescent" by blast
  from legacy_is_conservative[OF g(1) refl refl] g show ?thesis by blast
qed

lemma unhashable_state_raises: "map_v2_projection (idle_record (JArr [])) JNull = Inl TypeError"
  by (simp add: map_v2_projection_def legacy_axes_def legacy_lifecycle_def idle_record_def get_inner_def get_def get_default_def or_else_def member_def
      is_object_def legacy_foreground_def among_def no_key_def map_v2_background_def Let_def)

end
