(* ===== verification/Bridge.thy ===== *)
theory Bridge
  imports Server Herdr
begin

text \<open>
  \<open>bin/rzr-event-bus-client.py\<close>: the command that shell scripts use to talk to the daemon.  It first
  validates the ledgers that the previous release kept for every driver, then exchanges requests and
  replies with the daemon.  File locks, sockets and argument parsing are not modelled.  \<open>loads\<close>
  is the JSON parser of the standard library before the object hook: objects with their pairs in order,
  repetitions included.  \<open>u\<close> embeds ASCII text.
\<close>

section \<open>The directory of the previous release\<close>

text \<open>
  What is found under a name of \<open>watchtowers\<close>: something that cannot be opened as a directory, a
  directory that is not private, or a private one.
\<close>

datatype ledger_file = LedgerBytes bytes | UnsafeFile | FailingFile

datatype driver_entry =
    NotOpened
  | ForeignDir "(string \<times> ledger_file) list"
  | DriverDir "(string \<times> ledger_file) list"

type_synonym watchtowers = "(string \<times> driver_entry) list"

definition AUTHORITY_LOCK :: string where "AUTHORITY_LOCK = ''.authority.lock''"

definition AUTHORITY_MARKER :: string where "AUTHORITY_MARKER = ''.event-bus-authority''"

definition MARKER_TEXT :: bytes where "MARKER_TEXT = u ''event-bus-v1'' @ [10]"

text \<open>\<open>_read\<close>.  The text of a \<open>BridgeError\<close> is shortened to what tells the errors apart.\<close>

definition read_ledger :: "string \<Rightarrow> bool \<Rightarrow> (string \<times> ledger_file) list \<Rightarrow> string + bytes option" where
  "read_ledger name required files = (case map_of files name of
       None \<Rightarrow> if required then Inl ''missing ledger file'' else Inr None
     | Some UnsafeFile \<Rightarrow> Inl ''unsafe ledger file''
     | Some FailingFile \<Rightarrow> Inl ''unreadable ledger file''
     | Some (LedgerBytes data) \<Rightarrow> if length data > MAX_FRAME_BYTES then Inl ''oversized ledger file'' else Inr (Some data))"

text \<open>The object hook of \<open>_pending\<close>.\<close>

fun unique_names :: "json \<Rightarrow> bool" where
  "unique_names (JArr vs) = list_all unique_names vs"
| "unique_names (JObj fs) = (distinct (keys fs) \<and> list_all (\<lambda>(k, v). unique_names v) fs)"
| "unique_names v = True"

definition is_string :: "json \<Rightarrow> bool" where
  "is_string v = (case v of JStr _ \<Rightarrow> True | _ \<Rightarrow> False)"

definition optional_string :: "string \<Rightarrow> json \<Rightarrow> bool" where
  "optional_string k v = (case member k v of None \<Rightarrow> True | Some x \<Rightarrow> is_string x)"

definition legacy_task_ok :: "json \<Rightarrow> bool" where
  "legacy_task_ok item \<longleftrightarrow> is_object item \<and> set (names item) \<subseteq> {''status'', ''edge_id'', ''updated''}
     \<and> is_string (get ''status'' item)
     \<and> (get ''edge_id'' item = JNull \<or> is_string (get ''edge_id'' item)) \<and> optional_string ''updated'' item"

definition legacy_pending_ok :: "json \<Rightarrow> bool" where
  "legacy_pending_ok v \<longleftrightarrow> is_object v \<and> get ''schema'' v = JInt 1
     \<and> set (names v) \<subseteq> {''schema'', ''generation'', ''delivered'', ''tasks'', ''delivery_state'', ''retries'', ''last_error'', ''updated''}
     \<and> {''generation'', ''delivered'', ''tasks''} \<subseteq> set (names v)
     \<and> (case get ''tasks'' v of JObj ts \<Rightarrow> list_all (\<lambda>(k, item). legacy_task_ok item) ts | _ \<Rightarrow> False)
     \<and> optional_string ''delivery_state'' v \<and> optional_string ''last_error'' v \<and> optional_string ''updated'' v
     \<and> (case member ''retries'' v of None \<Rightarrow> True | Some x \<Rightarrow> is_between 0 x)
     \<and> is_between 0 (get ''generation'' v) \<and> is_between 0 (get ''delivered'' v)"

definition legacy_pending :: "(bytes \<Rightarrow> json option) \<Rightarrow> (string \<times> ledger_file) list \<Rightarrow> string + int \<times> int" where
  "legacy_pending loads files =
     and_then (read_ledger ''pending.json'' False files) (\<lambda>raw. case raw of
         None \<Rightarrow> Inr (0, 0)
       | Some data \<Rightarrow> (case loads data of
             None \<Rightarrow> Inl ''malformed legacy pending ledger''
           | Some v \<Rightarrow>
               if unique_names v \<and> legacy_pending_ok v then Inr (int_member ''generation'' v, int_member ''delivered'' v)
               else Inl ''malformed legacy pending ledger''))"

definition legacy_ack :: "(string \<times> ledger_file) list \<Rightarrow> string + int" where
  "legacy_ack files =
     and_then (read_ledger ''ack'' False files) (\<lambda>raw. case raw of
         None \<Rightarrow> Inr 0
       | Some data \<Rightarrow> (let text = strip data in
           if list_ex (\<lambda>b. b \<ge> 128) data \<or> text = [] \<or> \<not> list_all is_digit text then Inl ''malformed legacy ACK ledger''
           else case int_of_digits text of
               Inl _ \<Rightarrow> Inl ''malformed legacy ACK ledger''
             | Inr n \<Rightarrow> if int n > MAX_INTEGER then Inl ''malformed legacy ACK ledger'' else Inr (int n)))"

section \<open>The boundary\<close>

record cursors =
  cu_generation :: int
  cu_delivered :: int
  cu_ack :: int

type_synonym cursor_table = "(string \<times> cursors) list"

definition marker_ok :: "bytes option \<Rightarrow> bool" where
  "marker_ok raw \<longleftrightarrow> raw = None \<or> raw = Some MARKER_TEXT"

text \<open>One entry of \<open>_validate_structure\<close>.\<close>

definition validate_entry :: "(bytes \<Rightarrow> json option) \<Rightarrow> string \<times> driver_entry \<Rightarrow> cursor_table \<Rightarrow> string + cursor_table" where
  "validate_entry loads = (\<lambda>(name, entry) table.
     if name = AUTHORITY_LOCK then Inr table
     else case entry of
         NotOpened \<Rightarrow> Inl ''unsafe legacy driver entry''
       | ForeignDir _ \<Rightarrow> Inl ''unsafe legacy driver directory''
       | DriverDir files \<Rightarrow>
           and_then (read_ledger AUTHORITY_MARKER False files) (\<lambda>marker.
             if \<not> marker_ok marker then Inl ''malformed event-bus authority marker''
             else and_then (legacy_pending loads files) (\<lambda>(generation, delivered).
                  and_then (legacy_ack files) (\<lambda>ack.
                    if 0 \<le> ack \<and> ack \<le> delivered \<and> delivered \<le> generation
                    then Inr (AList.update name \<lparr>cu_generation = generation, cu_delivered = delivered, cu_ack = ack\<rparr> table)
                    else Inl ''malformed legacy cursor invariants''))))"

definition validate_structure :: "(bytes \<Rightarrow> json option) \<Rightarrow> watchtowers \<Rightarrow> string + cursor_table" where
  "validate_structure loads entries = fold_res (validate_entry loads) entries []"

definition require_clean :: "string \<Rightarrow> cursor_table \<Rightarrow> string + unit" where
  "require_clean driver table = (case map_of table driver of
       None \<Rightarrow> Inr ()
     | Some c \<Rightarrow> if cu_generation c > cu_ack c then Inl ''legacy wake ledger still has pending work'' else Inr ())"

definition legacy_drivers :: "watchtowers \<Rightarrow> string list" where
  "legacy_drivers entries = filter (\<lambda>n. n \<noteq> AUTHORITY_LOCK) (keys entries)"

text \<open>The marker of one driver: creation is exclusive, then the text is written.\<close>

definition put_marker :: "bytes \<Rightarrow> string \<Rightarrow> watchtowers \<Rightarrow> watchtowers" where
  "put_marker data name = update_key name (\<lambda>entry. case entry of
       DriverDir files \<Rightarrow> DriverDir (files @ [(AUTHORITY_MARKER, LedgerBytes data)])
     | ForeignDir files \<Rightarrow> ForeignDir (files @ [(AUTHORITY_MARKER, LedgerBytes data)])
     | NotOpened \<Rightarrow> NotOpened)"

definition entry_files :: "driver_entry \<Rightarrow> (string \<times> ledger_file) list" where
  "entry_files e = (case e of NotOpened \<Rightarrow> [] | ForeignDir fs \<Rightarrow> fs | DriverDir fs \<Rightarrow> fs)"

definition activate_one :: "string \<Rightarrow> watchtowers \<Rightarrow> string + watchtowers" where
  "activate_one name entries = (case map_of entries name of
       None \<Rightarrow> Inr entries
     | Some NotOpened \<Rightarrow> Inl ''OSError''
     | Some e \<Rightarrow>
         if AUTHORITY_MARKER \<notin> set (keys (entry_files e)) then Inr (put_marker MARKER_TEXT name entries)
         else and_then (read_ledger AUTHORITY_MARKER True (entry_files e)) (\<lambda>marker.
           if marker = Some MARKER_TEXT then Inr entries else Inl ''malformed event-bus authority marker''))"

text \<open>The command is killed, or the disk is full, between the creation and the write.\<close>

definition activation_torn :: "string \<Rightarrow> watchtowers \<Rightarrow> watchtowers" where
  "activation_torn = put_marker []"

definition remove_marker :: "string \<Rightarrow> watchtowers \<Rightarrow> string + watchtowers" where
  "remove_marker driver entries = (case map_of entries driver of
       None \<Rightarrow> Inl ''OSError''
     | Some NotOpened \<Rightarrow> Inl ''OSError''
     | Some _ \<Rightarrow> Inr (update_key driver (\<lambda>entry. case entry of
           DriverDir files \<Rightarrow> DriverDir (AList.delete AUTHORITY_MARKER files)
         | ForeignDir files \<Rightarrow> ForeignDir (AList.delete AUTHORITY_MARKER files)
         | NotOpened \<Rightarrow> NotOpened) entries))"

section \<open>Talking to the daemon\<close>

text \<open>
  The daemon at the other end of the connection: a request to the reply that arrives, or nothing when the
  connection is closed or what arrives does not decode.
\<close>

type_synonym 'd daemon = "json \<Rightarrow> 'd \<Rightarrow> json option \<times> 'd"

record 'd session =
  bs_daemon :: 'd
  bs_entries :: watchtowers
  bs_printed :: "json list"
  bs_sent :: nat

text \<open>A part of a command ends with a value or with the error it raises; what it did stays done.\<close>

type_synonym ('d, 'a) command = "'d session \<Rightarrow> (string + 'a) \<times> 'd session"

definition then_run :: "('d, 'a) command \<Rightarrow> ('a \<Rightarrow> ('d, 'b) command) \<Rightarrow> ('d, 'b) command" where
  "then_run c f = (\<lambda>s. case c s of (Inl e, s1) \<Rightarrow> (Inl e, s1) | (Inr x, s1) \<Rightarrow> f x s1)"

definition give :: "string + 'a \<Rightarrow> ('d, 'a) command" where
  "give r = (\<lambda>s. (r, s))"

definition print_json :: "json \<Rightarrow> ('d, unit) command" where
  "print_json j = (\<lambda>s. (Inr (), s\<lparr>bs_printed := bs_printed s @ [j]\<rparr>))"

text \<open>\<open>req\<close>; the identifier of the n-th request is \<open>ids n\<close>.\<close>

definition bridge_request :: "string \<Rightarrow> string \<Rightarrow> (string \<times> json) list \<Rightarrow> json" where
  "bridge_request kind rid extra = JObj ([(''v'', JInt 1), (''type'', JStr kind), (''request_id'', JStr rid)] @ extra)"

definition flow_request :: "'d daemon \<Rightarrow> (nat \<Rightarrow> string) \<Rightarrow> string \<Rightarrow> (string \<times> json) list \<Rightarrow> ('d, json) command" where
  "flow_request daemon ids kind extra = (\<lambda>s.
     let m = bridge_request kind (ids (bs_sent s)) extra; s1 = s\<lparr>bs_sent := bs_sent s + 1\<rparr> in
     case encode m of
       Inl _ \<Rightarrow> (Inl ''ProtocolError'', s1)
     | Inr _ \<Rightarrow> (case daemon m (bs_daemon s) of (answer, d) \<Rightarrow>
         let s2 = s1\<lparr>bs_daemon := d\<rparr> in
         case answer of
           None \<Rightarrow> (Inl ''daemon closed the correlated flow'', s2)
         | Some reply \<Rightarrow>
             if get ''type'' reply \<in> {JStr ''frame.error'', JStr ''request.error''} then (Inl ''daemon rejected the request'', s2)
             else if get ''request_id'' reply \<noteq> get ''request_id'' m then (Inl ''mismatched response'', s2)
             else (Inr reply, s2)))"

section \<open>The layout of a projection\<close>

text \<open>
  The JSON that \<open>store.py\<close> keeps of a projection, which travels in every report.  \<open>texts\<close> writes text
  of a handoff into a JSON string, \<open>prose\<close> renders a protocol error.
\<close>

definition source_word :: "ack_source \<Rightarrow> string" where
  "source_word a = (case a of AckNone \<Rightarrow> ''none'' | AckV2 \<Rightarrow> ''v2'' | AckLegacyMapped \<Rightarrow> ''legacy-mapped'')"

definition item_json :: "(ucs \<Rightarrow> string) \<Rightarrow> open_item \<Rightarrow> json" where
  "item_json texts item = JObj [(''index'', JNat (oi_index item)), (''turn'', JNat (oi_turn item)),
     (''heading'', JStr (texts (oi_heading item))), (''verdict'', JStr (texts (oi_verdict item))),
     (''inputs_needed'', JStr (texts (oi_inputs_needed item)))]"

definition summary_json :: "(ucs \<Rightarrow> string) \<Rightarrow> (summary_error \<Rightarrow> string) \<Rightarrow> report_summary \<Rightarrow> json" where
  "summary_json texts prose rs = JObj
     [(''state'', JStr (status_word (rs_state rs))), (''verdict'', nullable_str (map_option verdict_word (rs_verdict rs))),
      (''latest_verdict'', nullable_str (map_option verdict_word (rs_latest_verdict rs))),
      (''blocks'', JNat (rs_blocks rs)), (''acked_through'', JInt (rs_acked_through rs)),
      (''acked_source'', JStr (source_word (rs_acked_source rs))), (''unresolved'', JNat (rs_unresolved rs)),
      (''open_items'', JArr (map (item_json texts) (rs_open_items rs))),
      (''protocol_errors'', JArr (map (\<lambda>e. JStr (prose e)) (rs_protocol_errors rs))),
      (''external_action'', JBool (rs_external_action rs)), (''heading'', JStr (texts (rs_heading rs))),
      (''reason'', JStr (texts (rs_reason rs))), (''pending'', JStr (texts (rs_pending rs))),
      (''inputs_needed'', JStr (texts (rs_inputs_needed rs))), (''artifacts'', JStr (texts (rs_artifacts rs)))]"

definition detail_json :: "(ucs \<Rightarrow> string) \<Rightarrow> (summary_error \<Rightarrow> string) \<Rightarrow> renderer" where
  "detail_json texts prose d =
     [(''task_id'', JStr (pd_task d)), (''folder_present'', JBool (pd_folder_present d)),
      (''session_id'', JStr (pd_session d)), (''foreground'', JStr (foreground_word (pd_foreground d))),
      (''background'', JStr (background_word (pd_background d))),
      (''background_count'', (case pd_background_count d of None \<Rightarrow> JNull | Some n \<Rightarrow> JInt n)),
      (''availability'', JStr (availability_word (pd_availability d))),
      (''report'', summary_json texts prose (pd_report d))]
     @ (case pd_pane_exists d of None \<Rightarrow> [] | Some b \<Rightarrow> [(''herdr_pane_exists'', JBool b)])"

section \<open>Reports\<close>

text \<open>\<open>x == 0\<close> for a JSON value.\<close>

definition equals_zero :: "json \<Rightarrow> bool" where
  "equals_zero v = (case v of JInt n \<Rightarrow> n = 0 | JBool b \<Rightarrow> \<not> b | JFloat _ \<Rightarrow> \<not> truthy v | _ \<Rightarrow> False)"

definition get_or :: "string \<Rightarrow> json \<Rightarrow> json \<Rightarrow> json" where
  "get_or k d v = (case member k v of Some x \<Rightarrow> x | None \<Rightarrow> d)"

definition REQUIRED_DETAIL :: "string list" where
  "REQUIRED_DETAIL = [''folder_present'', ''foreground'', ''background'', ''background_count'', ''report'']"

definition REQUIRED_REPORT :: "string list" where
  "REQUIRED_REPORT = [''latest_verdict'', ''blocks'', ''acked_through'', ''acked_source'', ''unresolved'', ''open_items'',
     ''protocol_errors'', ''heading'', ''reason'', ''pending'', ''inputs_needed'', ''artifacts'']"

definition compat_task_status :: "json \<Rightarrow> json \<Rightarrow> string" where
  "compat_task_status handoff avail = (let verdict = get ''latest_verdict'' handoff in
     if truthy (get_or ''protocol_errors'' (JArr []) handoff) then ''protocol-error''
     else if equals_zero (get_or ''blocks'' (JInt 0) handoff) then ''no-handoff''
     else if truthy (get_or ''unresolved'' (JInt 0) handoff) then ''open-items''
     else if verdict = JStr ''waiting''
       then (if avail = JStr ''waiting-background'' then ''waiting'' else ''reported-incomplete'')
     else if verdict = JStr ''done'' then ''reported-done''
     else if verdict = JStr ''failed'' then ''reported-failed''
     else ''reported-incomplete'')"

text \<open>
  One report of the reply: the checks, and the row that is printed for it.  The members that the code
  indexes are required, the rest is read with \<open>get\<close>.
\<close>

definition compat_row :: "json \<Rightarrow> json" where
  "compat_row rep = (let p = get ''projection'' rep; handoff = get_or ''report'' (JObj []) p;
       verdict = get ''latest_verdict'' handoff; reason = get ''actionable_reason'' rep in
     JObj
       [(''schema_version'', JInt 2), (''id'', get ''task_id'' rep), (''runtime_status'', get ''availability'' rep),
        (''foreground_status'', get ''foreground'' p), (''runtime_freshness'', JStr ''current''),
        (''availability'', get ''availability'' rep), (''availability_source'', JStr ''event-bus-snapshot''),
        (''background_activity'', JObj [(''supported'', JBool True), (''state'', get ''background'' p),
           (''active_count'', get ''background_count'' p)]),
        (''task_status'', JStr (compat_task_status handoff (get ''availability'' rep))),
        (''handoff_verdict'', verdict), (''verdict'', or_else verdict (JStr ''(no-handoff-yet)'')),
        (''turn_report_status'', JStr ''unobserved''),
        (''action_required'', JBool (reason \<noteq> JStr ''none'')),
        (''action_reason'', (if reason = JStr ''none'' then JNull else reason)),
        (''blocks'', get ''blocks'' handoff), (''acked_through'', get ''acked_through'' handoff),
        (''acked_source'', get ''acked_source'' handoff), (''unresolved'', get ''unresolved'' handoff),
        (''open_items'', get ''open_items'' handoff), (''protocol_errors'', get ''protocol_errors'' handoff),
        (''inconsistencies'', JArr []), (''heading'', get ''heading'' handoff), (''reason'', get ''reason'' handoff),
        (''pending'', get ''pending'' handoff), (''inputs_needed'', get ''inputs_needed'' handoff),
        (''artifacts'', get ''artifacts'' handoff), (''snapshot_generation'', get ''generation'' rep),
        (''snapshot_folder_present'', get ''folder_present'' p)])"

definition compat :: "json \<Rightarrow> string + json" where
  "compat rep = (let p = get ''projection'' rep; handoff = get_or ''report'' (JObj []) p in
     if member ''projection'' rep = None then Inl ''KeyError''
     else if \<not> is_object p \<or> \<not> is_object handoff then Inl ''AttributeError''
     else if \<not> set REQUIRED_DETAIL \<subseteq> set (names p) \<or> \<not> set REQUIRED_REPORT \<subseteq> set (names handoff)
       then Inl ''immutable snapshot is missing compatibility fields''
     else if \<not> is_boolean (get ''folder_present'' p) then Inl ''immutable snapshot has invalid folder membership''
     else if \<not> {''availability'', ''actionable_reason'', ''task_id'', ''generation''} \<subseteq> set (names rep) then Inl ''KeyError''
     else Inr (compat_row rep))"

fun all_compat :: "json list \<Rightarrow> string + json list" where
  "all_compat [] = Inr []"
| "all_compat (r # rs) = and_then (compat r) (\<lambda>x. and_then (all_compat rs) (\<lambda>xs. Inr (x # xs)))"

text \<open>What \<open>reconcile --json\<close> prints for a reply.\<close>

definition reconcile_output :: "string \<Rightarrow> bool \<Rightarrow> json \<Rightarrow> json list \<Rightarrow> json" where
  "reconcile_output driver full snap projected = JObj
     ([(''driver'', JStr driver), (''acknowledged_generation'', get ''through'' snap),
       (''reports'', JArr (sort_key (\<lambda>r. \<not> truthy (get ''action_required'' r))
          (filter (\<lambda>r. get ''snapshot_folder_present'' r = JBool True) projected))),
       (''vanished'', JArr (map (get ''id'') (filter (\<lambda>r. get ''snapshot_folder_present'' r = JBool False) projected))),
       (''source'', JStr ''event-bus'')]
      @ (if get ''since'' snap \<noteq> JNull then [(''changed_since_generation'', get ''since'' snap)] else [])
      @ (if get ''unchanged_count'' snap \<noteq> JNull then [(''unchanged_count'', get ''unchanged_count'' snap)] else [])
      @ [(''scope'', JStr (if full then ''full'' else ''delta''))])"

section \<open>The commands\<close>

definition require_active :: "'d daemon \<Rightarrow> (nat \<Rightarrow> string) \<Rightarrow> string \<Rightarrow> ('d, unit) command" where
  "require_active daemon ids driver =
     then_run (flow_request daemon ids ''driver.authority'' [(''driver_id'', JStr driver)]) (\<lambda>reply.
       give (if member ''authority'' reply = None then Inl ''KeyError''
         else if get ''authority'' reply = JStr ''active'' then Inr () else Inl ''driver has no active daemon authority''))"

definition activate :: "string \<Rightarrow> ('d, unit) command" where
  "activate driver = (\<lambda>s. case activate_one driver (bs_entries s) of
       Inl e \<Rightarrow> (Inl e, s) | Inr entries \<Rightarrow> (Inr (), s\<lparr>bs_entries := entries\<rparr>))"

fun activate_all :: "string list \<Rightarrow> ('d, unit) command" where
  "activate_all [] = give (Inr ())"
| "activate_all (n # ns) = then_run (activate n) (\<lambda>_. activate_all ns)"

definition authority_activate :: "'d daemon \<Rightarrow> (nat \<Rightarrow> string) \<Rightarrow> cursor_table \<Rightarrow> string \<Rightarrow> ('d, unit) command" where
  "authority_activate daemon ids table driver =
     then_run (require_active daemon ids driver) (\<lambda>_.
     then_run (give (require_clean driver table)) (\<lambda>_.
     then_run (activate driver) (\<lambda>_. print_json (JStr driver))))"

definition authority_disable :: "'d daemon \<Rightarrow> (nat \<Rightarrow> string) \<Rightarrow> string \<Rightarrow> ('d, unit) command" where
  "authority_disable daemon ids driver =
     then_run (flow_request daemon ids ''driver.disable'' [(''driver_id'', JStr driver)]) (\<lambda>_.
     then_run (\<lambda>s. case remove_marker driver (bs_entries s) of
         Inl e \<Rightarrow> (Inl e, s) | Inr entries \<Rightarrow> (Inr (), s\<lparr>bs_entries := entries\<rparr>)) (\<lambda>_. print_json (JStr driver)))"

definition bridge_send :: "'d daemon \<Rightarrow> (nat \<Rightarrow> string) \<Rightarrow> string \<Rightarrow> string \<Rightarrow> int \<Rightarrow> ('d, unit) command" where
  "bridge_send daemon ids task payload timeout_ms =
     then_run (flow_request daemon ids ''send.enqueue'' [(''task_id'', JStr task), (''payload'', JStr payload),
        (''timeout_ms'', JInt timeout_ms)]) print_json"

definition bridge_send_status :: "'d daemon \<Rightarrow> (nat \<Rightarrow> string) \<Rightarrow> string \<Rightarrow> ('d, unit) command" where
  "bridge_send_status daemon ids task =
     then_run (flow_request daemon ids ''send.status'' [(''task_id'', JStr task)]) print_json"

text \<open>\<open>status\<close>: every active driver has to be clean before the first marker is written.\<close>

fun clean_drivers :: "'d daemon \<Rightarrow> (nat \<Rightarrow> string) \<Rightarrow> cursor_table \<Rightarrow> string list \<Rightarrow> ('d, string list) command" where
  "clean_drivers daemon ids table [] = give (Inr [])"
| "clean_drivers daemon ids table (n # ns) =
     then_run (flow_request daemon ids ''driver.authority'' [(''driver_id'', JStr n)]) (\<lambda>reply.
       if member ''authority'' reply = None then give (Inl ''KeyError'')
       else if get ''authority'' reply \<noteq> JStr ''active'' then clean_drivers daemon ids table ns
       else then_run (give (require_clean n table)) (\<lambda>_.
            then_run (clean_drivers daemon ids table ns) (\<lambda>rest. give (Inr (n # rest)))))"

definition bridge_status :: "'d daemon \<Rightarrow> (nat \<Rightarrow> string) \<Rightarrow> cursor_table \<Rightarrow> string \<Rightarrow> ('d, unit) command" where
  "bridge_status daemon ids table task = (\<lambda>s.
     then_run (clean_drivers daemon ids table (legacy_drivers (bs_entries s))) (\<lambda>active.
     then_run (activate_all active) (\<lambda>_.
     then_run (flow_request daemon ids ''task.status'' [(''task_id'', JStr task)]) print_json)) s)"

text \<open>\<open>reconcile\<close>: what happens once the snapshot has arrived, and the way to it.\<close>

definition settle_snapshot :: "'d daemon \<Rightarrow> (nat \<Rightarrow> string) \<Rightarrow> string \<Rightarrow> bool \<Rightarrow> json \<Rightarrow> ('d, unit) command" where
  "settle_snapshot daemon ids driver full snap = (
     if member ''through'' snap = None \<or> member ''reports'' snap = None then give (Inl ''KeyError'') else
     then_run (give (all_compat (case get ''reports'' snap of JArr rs \<Rightarrow> rs | _ \<Rightarrow> []))) (\<lambda>projected.
     then_run (print_json (reconcile_output driver full snap projected)) (\<lambda>_.
       if (case get ''through'' snap of JInt n \<Rightarrow> n > 0 | _ \<Rightarrow> False) \<and> truthy (get ''reports'' snap)
       then then_run (flow_request daemon ids ''reconcile.ack'' [(''driver_id'', JStr driver),
              (''through'', get ''through'' snap)]) (\<lambda>_. give (Inr ()))
       else give (Inr ()))))"

definition bridge_reconcile :: "'d daemon \<Rightarrow> (nat \<Rightarrow> string) \<Rightarrow> cursor_table \<Rightarrow> string \<Rightarrow> bool \<Rightarrow> ('d, unit) command" where
  "bridge_reconcile daemon ids table driver full =
     then_run (require_active daemon ids driver) (\<lambda>_.
     then_run (give (require_clean driver table)) (\<lambda>_.
     then_run (activate driver) (\<lambda>_.
     then_run (flow_request daemon ids ''reconcile.pending''
         ([(''driver_id'', JStr driver)] @ (if full then [(''scope'', JStr ''full'')] else [])))
       (settle_snapshot daemon ids driver full))))"

text \<open>Every command runs inside the boundary, on a fresh connection.\<close>

definition bridge_main ::
  "(bytes \<Rightarrow> json option) \<Rightarrow> (cursor_table \<Rightarrow> ('d, unit) command) \<Rightarrow> 'd session \<Rightarrow> (string + unit) \<times> 'd session" where
  "bridge_main loads command s = (case validate_structure loads (bs_entries s) of
       Inl e \<Rightarrow> (Inl e, s)
     | Inr table \<Rightarrow> command table s)"

section \<open>The daemon of this repository\<close>

text \<open>
  A connection to the server of \<open>Server\<close>: what the peer sends back when it reads the encoded
  request and the reply can be encoded.
\<close>

definition server_daemon :: "world \<Rightarrow> (connection \<times> server) daemon" where
  "server_daemon w m = (\<lambda>(cn, sv). case dispatch w m cn sv of
       (Inr r, cn', sv') \<Rightarrow>
         (case encode (rp_reply r) of Inl _ \<Rightarrow> (None, cn', sv') | Inr _ \<Rightarrow> (Some (rp_reply r), cn', sv'))
     | (Inl (ProtocolFailure code), cn', sv') \<Rightarrow>
         (case correlated_error (Some m) code of Inl _ \<Rightarrow> (None, cn', sv') | Inr j \<Rightarrow> (Some j, cn', sv'))
     | (Inl ValueFailure, cn', sv') \<Rightarrow>
         (case correlated_error (Some m) ''invalid-field'' of Inl _ \<Rightarrow> (None, cn', sv') | Inr j \<Rightarrow> (Some j, cn', sv'))
     | (Inl (Escape _), cn', sv') \<Rightarrow> (None, cn', sv'))"

end
