(* ===== verification/Bridge_Facts.thy ===== *)
theory Bridge_Facts
  imports Bridge Server_Theorems
begin

text \<open>
  Facts about the bridge: how its commands run, what it makes of the reports of the daemon, and the
  sizes of what the daemon sends it.
\<close>

section \<open>Commands\<close>

lemma then_run_Inr:
  "then_run c f s = (Inr y, t) \<longleftrightarrow> (\<exists>x s1. c s = (Inr x, s1) \<and> f x s1 = (Inr y, t))"
  by (auto simp: then_run_def split: prod.splits sum.splits)

text \<open>An error of a composition comes from the first part or from the second.\<close>

lemma then_run_cases:
  assumes "then_run c f s = (r, t)"
  obtains (first) e where "c s = (Inl e, t)" "r = Inl e"
    | (second) x s1 where "c s = (Inr x, s1)" "f x s1 = (r, t)"
  using assms by (auto simp: then_run_def split: prod.splits sum.splits)

lemma give_simps [simp]: "give r s = (r, s)"
  by (simp add: give_def)

text \<open>What a request leaves alone, whatever the daemon answers.\<close>

lemma flow_request_frame:
  assumes "flow_request daemon ids kind extra s = (r, t)"
  shows "bs_entries t = bs_entries s \<and> bs_printed t = bs_printed s"
  using assms by (auto simp: flow_request_def Let_def split: sum.splits prod.splits option.splits if_splits)

text \<open>A request that succeeded was valid, and the daemon's answer to it is the value.\<close>

lemma flow_request_Inr:
  assumes "flow_request daemon ids kind extra s = (Inr reply, t)"
  shows "\<exists>frame. encode (bridge_request kind (ids (bs_sent s)) extra) = Inr frame"
    and "daemon (bridge_request kind (ids (bs_sent s)) extra) (bs_daemon s) = (Some reply, bs_daemon t)"
    and "get ''type'' reply \<notin> {JStr ''frame.error'', JStr ''request.error''}"
  using assms by (auto simp: flow_request_def Let_def split: sum.splits prod.splits option.splits if_splits)

lemma flow_request_Inl:
  assumes "flow_request daemon ids kind extra s = (Inl e, t)"
  shows "bs_daemon t = bs_daemon s
    \<or> bs_daemon t = snd (daemon (bridge_request kind (ids (bs_sent s)) extra) (bs_daemon s))"
  using assms by (auto simp: flow_request_def Let_def split: sum.splits prod.splits option.splits if_splits)

lemma encode_validates: "encode m = Inr frame \<Longrightarrow> \<exists>v. validate m = Inr v"
  by (auto simp: encode_def and_then_eq_Inr)

lemma request_reads:
  "str_member ''type'' (bridge_request kind rid extra) = kind"
  "request_id (bridge_request kind rid extra) = rid"
  "k \<notin> {''v'', ''type'', ''request_id''} \<Longrightarrow> member k (bridge_request kind rid extra) = map_of extra k"
  by (simp_all add: bridge_request_def request_id_def read_member)

text \<open>A snapshot that has its members.\<close>

lemma get_present: "get k v \<noteq> JNull \<Longrightarrow> member k v \<noteq> None"
  by (cases "member k v") (simp_all add: get_def)

lemma settle_snapshot_eq:
  assumes "get ''through'' snap = JNat n" and "get ''reports'' snap = JArr rs"
  shows "settle_snapshot daemon ids drv full snap =
    then_run (give (all_compat rs)) (\<lambda>projected.
    then_run (print_json (reconcile_output drv full snap projected)) (\<lambda>_.
      if n > 0 \<and> rs \<noteq> [] then then_run (flow_request daemon ids ''reconcile.ack'' [(''driver_id'', JStr drv), (''through'', JNat n)])
        (\<lambda>_. give (Inr ()))
      else give (Inr ())))"
proof -
  have "(member ''through'' snap = None \<or> member ''reports'' snap = None) = False"
    using get_present[of "''through''" snap] get_present[of "''reports''" snap] assms by (auto simp: JNat_def)
  then show ?thesis unfolding settle_snapshot_def by (simp add: assms JNat_def del: not_None_eq)
qed

section \<open>Reports\<close>

lemma summary_from:
  assumes "summary_ok rs"
  obtains (unreadable) "rs = unreadable_report" | (parsed) t v2 old r where "parse_text t v2 old = Inr r" "rs = summarize r"
proof -
  from assms obtain tf where rs: "rs = report_projection tf" by (auto simp: summary_ok_def)
  show thesis
  proof (cases "parse_task_report tf")
    case (Inl e)
    with rs show thesis by (intro unreadable) (simp add: report_projection_def)
  next
    case (Inr r)
    then obtain t where "parse_text t (tf_ack_v2 tf) (tf_ack_legacy tf) = Inr r"
      by (auto simp: parse_task_report_def split: handoff_file.splits)
    with rs Inr show thesis by (intro parsed) (auto simp: report_projection_def)
  qed
qed

lemma parsed_unresolved:
  assumes "parse_text t v2 old = Inr r"
  shows "hr_unresolved r = length (hr_open_items r)"
proof -
  obtain starts where starts: "starts_from 0 (splitlines t) = Inr starts"
    using assms by (auto simp: parse_text_def Let_def and_then_eq_Inr)
  obtain a s e where "acknowledged (blocks_from (splitlines t) (h2_indices 0 (splitlines t)) 0 0 starts)
      (length (h2_indices 0 (splitlines t))) v2 old = (a, s, e)"
    by (metis prod_cases3)
  with assms starts show ?thesis by (auto simp: parse_text_def Let_def simp del: length_blocks_from)
qed

lemma summarize_reads:
  "rs_protocol_errors (summarize r) = map Protocol (hr_protocol_errors r)"
  "rs_blocks (summarize r) = hr_blocks r" "rs_unresolved (summarize r) = hr_unresolved r"
  "rs_open_items (summarize r) = hr_open_items r" "rs_external_action (summarize r) \<longleftrightarrow> hr_open_items r \<noteq> []"
  "rs_state (summarize r) = (if hr_protocol_errors r \<noteq> [] then Malformed else if hr_blocks r = 0 then Missing else Valid)"
  by (simp_all add: summarize_def Let_def)

lemma summary_states:
  assumes "summary_ok rs"
  shows "(rs_protocol_errors rs \<noteq> [] \<longleftrightarrow> rs_state rs = Malformed)
    \<and> (rs_state rs \<noteq> Malformed \<longrightarrow> (rs_blocks rs = 0 \<longleftrightarrow> rs_state rs = Missing))
    \<and> rs_unresolved rs = length (rs_open_items rs) \<and> (rs_external_action rs \<longleftrightarrow> rs_open_items rs \<noteq> [])"
  using assms
proof (cases rule: summary_from)
  case (parsed t v2 old r)
  then show ?thesis by (auto simp: summarize_reads parsed_unresolved)
qed (simp add: unreadable_report_def)

lemma valid_verdict:
  assumes "summary_ok rs" and "rs_state rs = Valid" and "rs_open_items rs = []"
  shows "rs_latest_verdict rs = rs_verdict rs \<and> protocol_verdict (rs_verdict rs)"
proof -
  have "protocol_verdict (rs_verdict rs)" using summary_fits[OF assms(1)] assms(2) by (simp add: verdict_fits_def)
  moreover from assms have "rs_latest_verdict rs = rs_verdict rs"
    by (cases rule: summary_from) (auto simp: unreadable_report_def summarize_def Let_def split: if_splits)
  ultimately show ?thesis by simp
qed

text \<open>How the bridge names the report of a task.\<close>

definition bridge_status_word :: "projection_row \<Rightarrow> string" where
  "bridge_status_word row = (let rs = pd_report (pr_detail row) in
     if rs_protocol_errors rs \<noteq> [] then ''protocol-error''
     else if rs_blocks rs = 0 then ''no-handoff''
     else if rs_unresolved rs \<noteq> 0 then ''open-items''
     else if rs_latest_verdict rs = Some VWaiting
       then (if pr_availability row = WaitingBackground then ''waiting'' else ''reported-incomplete'')
     else if rs_latest_verdict rs = Some VDone then ''reported-done''
     else if rs_latest_verdict rs = Some VFailed then ''reported-failed''
     else ''reported-incomplete'')"

lemma availability_word_eq: "availability_word a = ''waiting-background'' \<longleftrightarrow> a = WaitingBackground"
  by (cases a) (simp_all add: availability_word_def)

lemma report_reads:
  "get ''task_id'' (report_json render p) = JStr (sn_task p)"
  "get ''generation'' (report_json render p) = JNat (sn_generation p)"
  "get ''availability'' (report_json render p) = JStr (availability_word (pr_availability (sn_row p)))"
  "get ''report_state'' (report_json render p) = JStr (status_word (pr_report_state (sn_row p)))"
  "get ''actionable_reason'' (report_json render p) = JStr (reason_word (pr_reason (sn_row p)))"
  "member ''projection'' (report_json render p) = Some (JObj (render (pr_detail (sn_row p))))"
  "get ''projection'' (report_json render p) = JObj (render (pr_detail (sn_row p)))"
  by (simp_all add: report_json_def get_def member_def Let_def)

lemma report_names:
  "{''availability'', ''actionable_reason'', ''task_id'', ''generation''} \<subseteq> set (names (report_json render p))"
  by (simp add: report_json_def names_def Let_def)

lemma compat_row_reads:
  "get ''id'' (compat_row rep) = get ''task_id'' rep"
  "get ''task_status'' (compat_row rep) = JStr (compat_task_status (get_or ''report'' (JObj []) (get ''projection'' rep))
     (get ''availability'' rep))"
  "get ''action_required'' (compat_row rep) = JBool (get ''actionable_reason'' rep \<noteq> JStr ''none'')"
  "get ''snapshot_generation'' (compat_row rep) = get ''generation'' rep"
  "get ''snapshot_folder_present'' (compat_row rep) = get ''folder_present'' (get ''projection'' rep)"
  by (simp_all only: get_def[of "''id''"] get_def[of "''task_status''"] get_def[of "''action_required''"]
      get_def[of "''snapshot_generation''"] get_def[of "''snapshot_folder_present''"] compat_row_def Let_def member_def)
     simp_all

lemma detail_names:
  "set REQUIRED_DETAIL \<subseteq> set (names (JObj (detail_json texts prose d)))"
  "set REQUIRED_REPORT \<subseteq> set (names (summary_json texts prose rs))"
  by (simp_all add: REQUIRED_DETAIL_def REQUIRED_REPORT_def detail_json_def summary_json_def names_def)

lemma detail_reads:
  "get_or ''report'' x (JObj (detail_json texts prose d)) = summary_json texts prose (pd_report d)"
  "get ''folder_present'' (JObj (detail_json texts prose d)) = JBool (pd_folder_present d)"
  by (simp_all add: detail_json_def get_or_def get_def member_def)

lemma summary_reads:
  "get ''latest_verdict'' (summary_json texts prose rs) = nullable_str (map_option verdict_word (rs_latest_verdict rs))"
  "get_or ''protocol_errors'' x (summary_json texts prose rs) = JArr (map (\<lambda>e. JStr (prose e)) (rs_protocol_errors rs))"
  "get_or ''blocks'' x (summary_json texts prose rs) = JNat (rs_blocks rs)"
  "get_or ''unresolved'' x (summary_json texts prose rs) = JNat (rs_unresolved rs)"
  by (simp_all add: summary_json_def get_or_def get_def member_def)

lemma verdict_json:
  assumes "protocol_verdict v"
  shows "nullable_str (map_option verdict_word v) = JStr ''waiting'' \<longleftrightarrow> v = Some VWaiting"
    and "nullable_str (map_option verdict_word v) = JStr ''done'' \<longleftrightarrow> v = Some VDone"
    and "nullable_str (map_option verdict_word v) = JStr ''failed'' \<longleftrightarrow> v = Some VFailed"
  using assms by (auto simp: protocol_verdict_def nullable_str_def verdict_word_def)

lemma compat_status:
  assumes "projection_ok row"
  shows "compat_task_status (summary_json texts prose (pd_report (pr_detail row)))
    (JStr (availability_word (pr_availability row))) = bridge_status_word row"
proof -
  let ?rs = "pd_report (pr_detail row)" and ?v = "nullable_str (map_option verdict_word (rs_latest_verdict (pd_report (pr_detail row))))"
  have ok: "summary_ok ?rs" using assms by (simp add: projection_ok_def)
  note states = summary_states[OF ok]
  have word: "compat_task_status (summary_json texts prose ?rs) (JStr (availability_word (pr_availability row))) =
    (if rs_protocol_errors ?rs \<noteq> [] then ''protocol-error''
     else if rs_blocks ?rs = 0 then ''no-handoff''
     else if rs_unresolved ?rs \<noteq> 0 then ''open-items''
     else if ?v = JStr ''waiting''
       then (if pr_availability row = WaitingBackground then ''waiting'' else ''reported-incomplete'')
     else if ?v = JStr ''done'' then ''reported-done''
     else if ?v = JStr ''failed'' then ''reported-failed''
     else ''reported-incomplete'')"
    unfolding compat_task_status_def summary_reads Let_def json.inject availability_word_eq
    by (simp add: equals_zero_def JNat_def)
  show ?thesis
  proof (cases "rs_protocol_errors ?rs = [] \<and> rs_blocks ?rs \<noteq> 0 \<and> rs_unresolved ?rs = 0")
    case True
    with states have "rs_state ?rs = Valid" "rs_open_items ?rs = []" by (cases "rs_state ?rs"; auto)+
    with valid_verdict[OF ok this] have "protocol_verdict (rs_latest_verdict ?rs)" by simp
    from verdict_json[OF this] show ?thesis unfolding word bridge_status_word_def Let_def by (simp only:)
  next
    case False
    then consider "rs_protocol_errors ?rs \<noteq> []" | "rs_protocol_errors ?rs = []" "rs_blocks ?rs = 0"
      | "rs_protocol_errors ?rs = []" "rs_blocks ?rs \<noteq> 0" "rs_unresolved ?rs \<noteq> 0" by metis
    then show ?thesis unfolding word bridge_status_word_def Let_def by cases (simp_all only: if_True if_False simp_thms)
  qed
qed

text \<open>Every frozen row of a reachable daemon is read, and its parts arrive unchanged.\<close>

lemma compat_reads:
  assumes "projection_ok (sn_row p)"
  obtains row where "compat (report_json (detail_json texts prose) p) = Inr row"
    and "get ''id'' row = JStr (sn_task p)" and "get ''task_status'' row = JStr (bridge_status_word (sn_row p))"
    and "get ''action_required'' row = JBool (pr_reason (sn_row p) \<noteq> RNone)"
    and "get ''snapshot_generation'' row = JNat (sn_generation p)"
    and "get ''snapshot_folder_present'' row = JBool (pd_folder_present (pr_detail (sn_row p)))"
proof -
  let ?r = "report_json (detail_json texts prose) p" and ?d = "pr_detail (sn_row p)"
  have obj: "is_object (JObj fs)" "is_object (summary_json texts prose rs)" "is_boolean (JBool b)" for fs rs b
    by (simp_all add: is_object_def summary_json_def is_boolean_def)
  have none: "reason_word why = ''none'' \<longleftrightarrow> why = RNone" for why by (cases why) (simp_all add: reason_word_def)
  have "compat ?r = Inr (compat_row ?r)"
    using report_names[of "detail_json texts prose" p] detail_names obj
    unfolding compat_def Let_def report_reads detail_reads by simp
  moreover have "get ''task_status'' (compat_row ?r) = JStr (bridge_status_word (sn_row p))"
    unfolding compat_row_reads report_reads detail_reads compat_status[OF assms] ..
  moreover have "get ''action_required'' (compat_row ?r) = JBool (pr_reason (sn_row p) \<noteq> RNone)"
    unfolding compat_row_reads report_reads by (simp add: none)
  ultimately show thesis
    using that by (simp only: compat_row_reads report_reads detail_reads)
qed

end
