(* ===== verification/Bridge_Theorems.thy ===== *)
theory Bridge_Theorems
  imports Bridge_Facts
begin

text \<open>
  What the bridge promises its callers: it acknowledges only what it has printed, it can read every
  report of the daemon of this repository and names the state of a task as the daemon does; and two
  places where a command that is interrupted leaves something that no later command repairs.
\<close>

section \<open>Acknowledging\<close>

lemma flow_state:
  assumes "flow_request daemon ids kind extra s = (r, t)"
  shows "bs_daemon t = bs_daemon s
    \<or> bs_daemon t = snd (daemon (bridge_request kind (ids (bs_sent s)) extra) (bs_daemon s))"
  using assms by (cases r) (metis flow_request_Inl, metis flow_request_Inr(2) snd_conv)

lemma server_daemon_state: "snd (server_daemon w m (cn, sv)) = snd (dispatch w m cn sv)"
  by (auto simp: server_daemon_def split: prod.splits sum.splits failure.splits)

text \<open>What the four requests of a reconciliation do to the server.\<close>

lemma authority_dispatch: "snd (dispatch w (bridge_request ''driver.authority'' rid extra) cn sv) = (cn, sv)"
  by (simp add: dispatch_def request_reads Let_def)

lemma answer_with_state:
  "snd (answer_with r f cn sv) = (cn, (case r of Inl _ \<Rightarrow> sv | Inr (_, t) \<Rightarrow> sv\<lparr>sv_store := t\<rparr>))"
  by (auto simp: answer_with_def split: sum.splits prod.splits)

lemma pending_dispatch:
  "dispatch w (bridge_request ''reconcile.pending'' rid extra) cn sv =
     answer_with (reconcile_delivered (str_member ''driver_id'' (bridge_request ''reconcile.pending'' rid extra))
         (member ''scope'' (bridge_request ''reconcile.pending'' rid extra) = Some (JStr ''full'')) (sv_store sv))
       (reconcile_reply (wd_render w) (bridge_request ''reconcile.pending'' rid extra)) cn sv"
  by (simp add: dispatch_def request_reads Let_def)

lemma ack_dispatch:
  "snd (dispatch w (bridge_request ''reconcile.ack'' rid [(''driver_id'', JStr drv), (''through'', JInt n)]) cn sv) =
     (cn, (case ack_delivered drv (nat n) (sv_store sv) of Inl _ \<Rightarrow> sv | Inr (_, t) \<Rightarrow> sv\<lparr>sv_store := t\<rparr>))"
  by (simp add: dispatch_def request_reads Let_def answer_with_state)
     (simp add: bridge_request_def read_member)

lemma reconcile_keeps:
  assumes "reconcile_delivered drv full s = Inr (rc, t)"
  shows "deliveries t = deliveries s"
  using assms by (auto simp: reconcile_delivered_def Let_def and_then_eq_Inr split: option.splits if_splits)

lemma ack_moves:
  assumes "ack_delivered drv n s = Inr (b, t)" and "map_of (deliveries s) drv = Some d" and "map_of (deliveries t) drv = Some d'"
  shows "d' = d \<or> d_acked d' = n"
  using ack_delivered_cases[OF assms(1)] assms(2,3) by (auto simp: map_of_update_key)

text \<open>The tasks that the output of a reconciliation names, in either of its lists.\<close>

definition printed_tasks :: "json \<Rightarrow> json list" where
  "printed_tasks out = (case get ''reports'' out of JArr rs \<Rightarrow> map (get ''id'') rs | _ \<Rightarrow> [])
     @ (case get ''vanished'' out of JArr vs \<Rightarrow> vs | _ \<Rightarrow> [])"

lemma compat_id:
  assumes "compat rep = Inr row"
  shows "get ''id'' row = get ''task_id'' rep \<and> is_boolean (get ''snapshot_folder_present'' row)"
proof -
  from assms have row: "row = compat_row rep" and flag: "is_boolean (get ''folder_present'' (get ''projection'' rep))"
    by (auto simp: compat_def Let_def split: if_splits)
  from flag show ?thesis unfolding row compat_row_reads by simp
qed

lemma all_compat_ids:
  "all_compat rs = Inr rows \<Longrightarrow> map (get ''id'') rows = map (get ''task_id'') rs
     \<and> list_all (\<lambda>row. is_boolean (get ''snapshot_folder_present'' row)) rows"
proof (induction rs arbitrary: rows)
  case (Cons r rs)
  then show ?case using compat_id by (fastforce simp: and_then_eq_Inr)
qed simp

lemma output_reads:
  "get ''acknowledged_generation'' (reconcile_output drv full snap rows) = get ''through'' snap"
  "get ''reports'' (reconcile_output drv full snap rows) = JArr (sort_key (\<lambda>r. \<not> truthy (get ''action_required'' r))
      (filter (\<lambda>r. get ''snapshot_folder_present'' r = JBool True) rows))"
  "get ''vanished'' (reconcile_output drv full snap rows) =
     JArr (map (get ''id'') (filter (\<lambda>r. get ''snapshot_folder_present'' r = JBool False) rows))"
  by (simp_all add: reconcile_output_def get_def[of "''acknowledged_generation''"] get_def[of "''reports''"]
      get_def[of "''vanished''"] member_def)

lemma boolean_cases: "is_boolean v \<Longrightarrow> v = JBool True \<or> v = JBool False"
  by (cases v) (auto simp: is_boolean_def)

lemma printed_all:
  assumes "all_compat rs = Inr rows"
  shows "set (printed_tasks (reconcile_output drv full snap rows)) = get ''task_id'' ` set rs"
proof -
  note ids = all_compat_ids[OF assms]
  have "set rows = set (filter (\<lambda>r. get ''snapshot_folder_present'' r = JBool True) rows)
      \<union> set (filter (\<lambda>r. get ''snapshot_folder_present'' r = JBool False) rows)"
    using ids boolean_cases by (auto simp: list_all_iff)
  then have "set (printed_tasks (reconcile_output drv full snap rows)) = get ''id'' ` set rows"
    by (auto simp: printed_tasks_def output_reads)
  also have "\<dots> = get ''task_id'' ` set rs" using ids by (metis set_map)
  finally show ?thesis .
qed

text \<open>The steps of a reconciliation on the server's store.\<close>

abbreviation store_in :: "(connection \<times> server) session \<Rightarrow> store" where
  "store_in s \<equiv> sv_store (snd (bs_daemon s))"

lemma require_active_keeps:
  assumes "require_active (server_daemon w) ids drv s = (r, t)"
  shows "store_in t = store_in s \<and> bs_printed t = bs_printed s"
proof -
  obtain cn sv where s: "bs_daemon s = (cn, sv)" by (cases "bs_daemon s")
  from assms obtain q t1 where "flow_request (server_daemon w) ids ''driver.authority'' [(''driver_id'', JStr drv)] s = (q, t1)"
    "t = t1" by (auto simp: require_active_def elim!: then_run_cases)
  with flow_state[OF this(1)] flow_request_frame[OF this(1)] show ?thesis
    by (auto simp: s server_daemon_state authority_dispatch)
qed

lemma activate_keeps: "activate drv s = (r, t) \<Longrightarrow> bs_daemon t = bs_daemon s \<and> bs_printed t = bs_printed s"
  by (auto simp: activate_def split: sum.splits)

lemma request_refusals:
  assumes "kind \<in> set REQUEST_TYPES" and "\<not> requires_producer_seq kind"
    and "correlated_error (Some (bridge_request kind rid extra)) code = Inr j"
  shows "get ''type'' j \<in> {JStr ''frame.error'', JStr ''request.error''}"
  using assms
  by (auto simp: correlated_error_def bridge_request_def text_of_def text_or_null_def member_def unhashable_def Let_def
      echo_error_def checked_error_def frame_error_def get_def[of "''type''"] split: option.splits if_splits sum.splits)

lemma snapshot_request:
  assumes run: "flow_request (server_daemon w) ids ''reconcile.pending'' extra s = (r, t)"
    and extra: "str_member ''driver_id'' (bridge_request ''reconcile.pending'' (ids (bs_sent s)) extra) = drv"
  shows "deliveries (store_in t) = deliveries (store_in s)"
    and "r = Inr snap \<Longrightarrow> \<exists>full rc. reconcile_delivered drv full (store_in s) = Inr (rc, store_in t)
      \<and> get ''through'' snap = JNat (rc_through rc)
      \<and> (\<exists>render. get ''reports'' snap = JArr (map (report_json render) (rc_reports rc)))"
proof -
  obtain cn sv where s: "bs_daemon s = (cn, sv)" by (cases "bs_daemon s")
  let ?m = "bridge_request ''reconcile.pending'' (ids (bs_sent s)) extra"
  let ?full = "member ''scope'' ?m = Some (JStr ''full'')"
  note dispatch = pending_dispatch[of w "ids (bs_sent s)" extra cn sv, unfolded extra]
  show "deliveries (store_in t) = deliveries (store_in s)"
    using flow_state[OF run]
    by (auto simp: s server_daemon_state dispatch answer_with_state reconcile_keeps split: sum.splits)
  assume "r = Inr snap"
  with run have rejected: "get ''type'' snap \<notin> {JStr ''frame.error'', JStr ''request.error''}"
    using flow_request_Inr(3)[of "server_daemon w"] by metis
  from run \<open>r = Inr snap\<close> have ok: "server_daemon w ?m (cn, sv) = (Some snap, bs_daemon t)" using flow_request_Inr(2)[of "server_daemon w"] s by metis
  show "\<exists>full rc. reconcile_delivered drv full (store_in s) = Inr (rc, store_in t)
      \<and> get ''through'' snap = JNat (rc_through rc)
      \<and> (\<exists>render. get ''reports'' snap = JArr (map (report_json render) (rc_reports rc)))"
  proof (cases "reconcile_delivered drv ?full (sv_store sv)")
    case (Inr res)
    obtain rc u where res: "res = (rc, u)" by (cases res)
    with Inr dispatch have "dispatch w ?m cn sv = (Inr (plain_reply (reconcile_reply (wd_render w) ?m rc)), cn, sv\<lparr>sv_store := u\<rparr>)"
      by (simp add: answer_with_def)
    with ok have "snap = reconcile_reply (wd_render w) ?m rc" "bs_daemon t = (cn, sv\<lparr>sv_store := u\<rparr>)"
      by (simp_all add: server_daemon_def plain_reply_def split: sum.splits)
    with Inr res s show ?thesis
      by (auto simp: reconcile_reply_def reply_json_def get_def[of "''through''"] get_def[of "''reports''"] member_def)
  next
    case (Inl e)
    then have "dispatch w ?m cn sv = (Inl (caught e), cn, sv)" unfolding dispatch by (simp add: answer_with_def)
    with ok have "\<exists>j. correlated_error (Some ?m) ''invalid-field'' = Inr j \<and> snap = j"
      by (auto simp: server_daemon_def caught_def split: py_error.splits sum.splits)
    moreover have "''reconcile.pending'' \<in> set REQUEST_TYPES" "\<not> requires_producer_seq ''reconcile.pending''"
      by (simp_all add: REQUEST_TYPES_def requires_producer_seq_def SCHEMAS_def)
    ultimately show ?thesis using request_refusals[of "''reconcile.pending''"] rejected by metis
  qed
qed

lemma reports_tasks: "get ''task_id'' ` set (map (report_json render) rows) = JStr ` sn_task ` set rows"
  by (auto simp: report_reads image_image)

text \<open>A task that changed up to a generation has a row frozen at it.\<close>

lemma frozen_at:
  assumes h: "history_ok s" and "n \<le> latest_generation s" and "task \<in> set (tasks_between a n s)"
  shows "\<exists>p \<in> set (task_snapshots s). sn_generation p = n \<and> sn_task p = task"
proof -
  from assms(3) obtain g why where g: "(g, task, why) \<in> set (generation_tasks s)" "g \<le> n"
    by (auto simp: tasks_between_def)
  with h have "(g, task) \<in> snapshot_key ` set (task_snapshots s)" by (fastforce simp: history_ok_def)
  then obtain p where p: "p \<in> set (task_snapshots s)" "sn_generation p = g" "sn_task p = task"
    by (auto simp: snapshot_key_def)
  from h p(1) have "\<forall>g \<in> {sn_generation p..latest_generation s}. (g, sn_task p) \<in> snapshot_key ` set (task_snapshots s)"
    by (simp add: history_ok_def)
  with p g(2) assms(2) have "(n, task) \<in> snapshot_key ` set (task_snapshots s)" by simp
  then show ?thesis by (auto simp: snapshot_key_def)
qed

lemma reached_snapshot:
  assumes "bridge_reconcile (server_daemon w) ids table drv full s = (res, s')"
    and "extra = [(''driver_id'', JStr drv)] @ (if full then [(''scope'', JStr ''full'')] else [])"
  shows "deliveries (store_in s') = deliveries (store_in s)
    \<or> (\<exists>s2 s3 snap. store_in s2 = store_in s \<and> bs_printed s2 = bs_printed s
         \<and> flow_request (server_daemon w) ids ''reconcile.pending'' extra s2 = (Inr snap, s3)
         \<and> settle_snapshot (server_daemon w) ids drv full snap s3 = (res, s'))"
  using assms(1)[unfolded bridge_reconcile_def assms(2)[symmetric]]
proof (cases rule: then_run_cases)
  case (second x s1)
  note keeps1 = require_active_keeps[OF second(1)]
  from second(2) show ?thesis
  proof (cases rule: then_run_cases)
    case (second y t1)
    then have t1: "t1 = s1" by simp
    from second(2) show ?thesis
    proof (cases rule: then_run_cases)
      case (second z s2)
      note keeps2 = activate_keeps[OF second(1)]
      have id: "str_member ''driver_id'' (bridge_request ''reconcile.pending'' (ids (bs_sent s2)) extra) = drv"
        by (simp add: assms(2) bridge_request_def read_member)
      from second(2) show ?thesis
      proof (cases rule: then_run_cases)
        case (first e)
        then show ?thesis using snapshot_request(1)[OF first(1) id] keeps1 keeps2 t1 by simp
      next
        case (second snap s3)
        with keeps1 keeps2 t1 show ?thesis by metis
      qed
    next
      case (first e)
      with activate_keeps[OF first(1)] keeps1 t1 show ?thesis by simp
    qed
  next
    case (first e)
    with keeps1 show ?thesis by simp
  qed
next
  case (first e)
  with require_active_keeps[OF first(1)] show ?thesis by simp
qed

lemma settled_snapshot:
  assumes run: "settle_snapshot (server_daemon w) ids drv full snap s = (res, s')"
    and reports: "get ''reports'' snap = JArr rs" and through: "get ''through'' snap = JNat n"
  shows "deliveries (store_in s') = deliveries (store_in s)
    \<or> (\<exists>rows b. all_compat rs = Inr rows \<and> bs_printed s' = bs_printed s @ [reconcile_output drv full snap rows]
         \<and> ack_delivered drv n (store_in s) = Inr (b, store_in s'))"
proof -
  obtain cn sv where s: "bs_daemon s = (cn, sv)" by (cases "bs_daemon s")
  show ?thesis
  proof (cases "all_compat rs")
    case (Inr rows)
    let ?s1 = "s\<lparr>bs_printed := bs_printed s @ [reconcile_output drv full snap rows]\<rparr>"
    from run Inr consider "s' = ?s1"
      | q t where "flow_request (server_daemon w) ids ''reconcile.ack'' [(''driver_id'', JStr drv), (''through'', JInt (int n))] ?s1 = (q, t)"
        "s' = t"
      by (fastforce simp: settle_snapshot_eq[OF through reports] JNat_def then_run_def print_json_def
          split: if_splits prod.splits sum.splits)
    then show ?thesis
    proof cases
      case 2
      note state = flow_state[OF 2(1)] flow_request_frame[OF 2(1)]
      have "snd (server_daemon w (bridge_request ''reconcile.ack'' i [(''driver_id'', JStr drv), (''through'', JInt (int n))]) (cn, sv))
          = (cn, (case ack_delivered drv n (sv_store sv) of Inl _ \<Rightarrow> sv | Inr (_, t) \<Rightarrow> sv\<lparr>sv_store := t\<rparr>))" for i
        by (simp add: server_daemon_state ack_dispatch)
      with state Inr s 2(2) show ?thesis by (auto split: sum.splits prod.splits)
    qed simp
  next
    case (Inl e)
    with run show ?thesis by (auto simp: settle_snapshot_eq[OF through reports] then_run_def)
  qed
qed


section \<open>Reading the reports\<close>

lemma reconciled_from_history:
  assumes "reconcile_delivered drv full s = Inr (rc, t)"
  shows "set (rc_reports rc) \<subseteq> set (task_snapshots s)"
  using assms by (auto simp: reconcile_delivered_def snapshot_rows_def Let_def and_then_eq_Inr
      split: option.splits if_splits)

lemma status_word_states:
  assumes "projection_ok row"
  shows "bridge_status_word row = ''protocol-error'' \<longleftrightarrow> pr_report_state row = Malformed"
    and "bridge_status_word row = ''no-handoff'' \<longleftrightarrow> pr_report_state row = Missing"
proof -
  let ?rs = "pd_report (pr_detail row)"
  have "summary_ok ?rs" and state: "pr_report_state row = rs_state ?rs" using assms by (simp_all add: projection_ok_def)
  note states = summary_states[OF this(1)]
  show "bridge_status_word row = ''protocol-error'' \<longleftrightarrow> pr_report_state row = Malformed"
    using states by (simp add: bridge_status_word_def Let_def state)
  show "bridge_status_word row = ''no-handoff'' \<longleftrightarrow> pr_report_state row = Missing"
    using states by (cases "rs_protocol_errors ?rs = []") (auto simp: bridge_status_word_def Let_def state)
qed

lemma status_json: "status_word r = ''malformed'' \<longleftrightarrow> r = Malformed"
    "status_word r = ''missing'' \<longleftrightarrow> r = Missing"
  by (cases r; simp add: status_word_def)+

lemma reason_json: "reason_word why = ''none'' \<longleftrightarrow> why = RNone"
  by (cases why) (simp_all add: reason_word_def)

text \<open>
  C34: the bridge reads every report of the daemon, and names it as the daemon does.  No report in an answer to
  \<open>reconcile.pending\<close> of a reachable daemon lacks a member that \<open>compat\<close> needs; the row printed
  for it has the task of the report, says \<open>protocol-error\<close> exactly for a malformed report and
  \<open>no-handoff\<close> exactly for a missing one, and requires action exactly when the report gives a reason.
\<close>

theorem bridge_reads_every_report:
  assumes reach: "daemon_step\<^sup>*\<^sup>* empty_store (sv_store sv)" and layout: "wd_render w = detail_json texts prose"
    and type: "str_member ''type'' m = ''reconcile.pending''" and run: "dispatch w m cn sv = (Inr r, cn', sv')"
    and reports: "get ''reports'' (rp_reply r) = JArr reps" and rep: "rep \<in> set reps"
  shows "\<exists>row. compat rep = Inr row \<and> get ''id'' row = get ''task_id'' rep
    \<and> (get ''task_status'' row = JStr ''protocol-error'' \<longleftrightarrow> get ''report_state'' rep = JStr ''malformed'')
    \<and> (get ''task_status'' row = JStr ''no-handoff'' \<longleftrightarrow> get ''report_state'' rep = JStr ''missing'')
    \<and> get ''action_required'' row = JBool (get ''actionable_reason'' rep \<noteq> JStr ''none'')"
proof -
  from run type have "answer_with (reconcile_delivered (str_member ''driver_id'' m) (member ''scope'' m = Some (JStr ''full''))
      (sv_store sv)) (reconcile_reply (wd_render w) m) cn sv = (Inr r, cn', sv')" by (simp add: dispatch_def Let_def)
  then obtain rc s' where rc: "reconcile_delivered (str_member ''driver_id'' m) (member ''scope'' m = Some (JStr ''full''))
      (sv_store sv) = Inr (rc, s')" and "rp_reply r = reconcile_reply (wd_render w) m rc"
    by (auto simp: answer_with_def plain_reply_def split: sum.splits prod.splits)
  with reports have "reps = map (report_json (detail_json texts prose)) (rc_reports rc)"
    by (simp add: layout reconcile_reply_def reply_json_def get_def[of "''reports''"] member_def)
  with rep obtain p where p: "p \<in> set (rc_reports rc)" "rep = report_json (detail_json texts prose) p" by auto
  have "facts_wf (sv_store sv)" using reachable_store daemon_run_store[OF reach] by (simp add: store_wf_def)
  with reconciled_from_history[OF rc] p(1) have ok: "projection_ok (sn_row p)" by (auto simp: facts_wf_def)
  obtain row where row: "compat rep = Inr row" "get ''id'' row = JStr (sn_task p)"
    "get ''task_status'' row = JStr (bridge_status_word (sn_row p))"
    "get ''action_required'' row = JBool (pr_reason (sn_row p) \<noteq> RNone)"
    using compat_reads[OF ok, of texts prose] unfolding p(2) by metis
  show ?thesis
    unfolding row(1) sum.inject
    by (intro exI[of _ row] conjI refl)
       (simp_all only: row(2-4) p(2) report_reads status_json reason_json json.inject status_word_states[OF ok])
qed

section \<open>Interrupted commands\<close>

lemma fold_res_fails:
  assumes "x \<in> set xs" and fails: "\<And>s. \<exists>e. f x s = Inl e"
  shows "\<exists>e. fold_res f xs s = Inl e"
  using assms(1)
proof (induction xs arbitrary: s)
  case (Cons y ys)
  with fails[of s] show ?case by (cases "f y s") auto
qed simp

text \<open>
  C35: a torn activation is not repaired.  When a command is killed, or the disk is full, after the marker of a driver
  was created and before it was written, every later command, for this driver or any other and
  whatever it is, fails before it does anything: the check at its start refuses the empty marker.
\<close>

theorem torn_activation_blocks_every_command:
  assumes "map_of entries drv = Some (DriverDir files)" and "AUTHORITY_MARKER \<notin> set (keys files)"
    and "drv \<noteq> AUTHORITY_LOCK" and "bs_entries s = activation_torn drv entries"
  shows "\<exists>e. bridge_main loads command s = (Inl e, s)"
proof -
  let ?entry = "(drv, DriverDir (files @ [(AUTHORITY_MARKER, LedgerBytes [])]))"
  from assms(1) have "?entry \<in> set (bs_entries s)"
    using map_of_SomeD[OF assms(1)] by (force simp: assms(4) activation_torn_def put_marker_def update_key_def)
  moreover from assms(2) have "map_of files AUTHORITY_MARKER = None" by (simp add: map_of_eq_None_iff)
  then have "\<exists>e. validate_entry loads ?entry table = Inl e" for table
    using assms(3) by (simp add: validate_entry_def read_ledger_def map_add_def marker_ok_def MARKER_TEXT_def)
  ultimately have "\<exists>e. validate_structure loads (bs_entries s) = Inl e"
    unfolding validate_structure_def by (rule fold_res_fails)
  then show ?thesis by (auto simp: bridge_main_def)
qed

lemma small_encodes:
  assumes "validate m = Inr v" and "length (dumps m) < MAX_FRAME_BYTES"
  shows "\<exists>frame. encode m = Inr frame"
  using assms by (simp add: encode_def Let_def)

text \<open>A bound for the printed size of a value that needs no sorting.\<close>

fun json_size :: "json \<Rightarrow> nat" where
  "json_size (JStr s) = 6 * length s + 2"
| "json_size (JArr vs) = 2 + (\<Sum>v \<leftarrow> vs. json_size v + 1)"
| "json_size (JObj fs) = 2 + (\<Sum>(k, v) \<leftarrow> fs. 6 * length k + 4 + json_size v)"
| "json_size v = length (dumps v)"

lemma length_dumps: "length (dumps v) \<le> json_size v"
proof (induction v rule: json_size.induct)
  case (1 s)
  then show ?case using length_quoted[of s] by simp
next
  case (2 vs)
  have "length (joined (map dumps vs)) \<le> sum_list (map length (map dumps vs)) + length (map dumps vs)" by (rule length_joined)
  also have "\<dots> = (\<Sum>v \<leftarrow> vs. length (dumps v) + 1)" by (induction vs) auto
  also have "\<dots> \<le> (\<Sum>v \<leftarrow> vs. json_size v + 1)" using 2 by (intro sum_list_mono) simp
  finally show ?case by simp
next
  case (3 fs)
  have "(\<Sum>(k, v) \<leftarrow> fs. 6 * length k + 4 + length (dumps v)) \<le> (\<Sum>(k, v) \<leftarrow> fs. 6 * length k + 4 + json_size v)"
    using 3 by (intro sum_list_mono) auto
  with length_members[of fs] show ?case by simp
qed simp_all

lemma ok_reply_encodes:
  assumes "id_text rid"
  shows "\<exists>frame. encode (reply_json ''ok'' rid []) = Inr frame"
proof (rule small_encodes)
  show "validate (reply_json ''ok'' rid []) = Inr (reply_json ''ok'' rid [])"
    using assms by (simp add: reply_json_def validate_def is_object_def member_def names_def VERSION_def SCHEMAS_def
        LIFECYCLE_TYPES_def checks demand_def is_id_def)
  have "length rid \<le> 128" using assms by (simp add: id_text_def)
  moreover have "length (dumps (reply_json ''ok'' rid [])) \<le> json_size (reply_json ''ok'' rid [])" by (rule length_dumps)
  ultimately show "length (dumps (reply_json ''ok'' rid [])) < MAX_FRAME_BYTES"
    by (simp add: reply_json_def MAX_FRAME_BYTES_def show_int_def show_nat.simps)
qed

text \<open>
  The hand-over to the previous release is not all or nothing.  When a driver that the daemon accepts to
  disable has no directory under \<open>watchtowers\<close>, the command ends with an error although the daemon
  has already disabled the driver, which no later command can undo; and the activation of such a
  driver ends well without writing any marker.
\<close>

theorem rollback_fails_after_disabling:
  assumes "map_of (bs_entries s) drv = None" and "id_text drv" and "id_text (ids (bs_sent s))"
    and "disable_driver_authority drv (store_in s) = Inr ((), t)"
  shows "\<exists>s'. authority_disable (server_daemon w) ids drv s = (Inl ''OSError'', s') \<and> store_in s' = t
      \<and> driver_authority drv (store_in s') = AuthDisabled \<and> activate drv s = (Inr (), s)"
proof -
  obtain cn sv where s: "bs_daemon s = (cn, sv)" by (cases "bs_daemon s")
  let ?m = "bridge_request ''driver.disable'' (ids (bs_sent s)) [(''driver_id'', JStr drv)]"
  have valid: "validate ?m = Inr ?m"
    using assms(2,3) by (simp add: bridge_request_def validate_def is_object_def member_def names_def VERSION_def
        SCHEMAS_def LIFECYCLE_TYPES_def checks demand_def is_id_def)
  have "length drv \<le> 128" "length (ids (bs_sent s)) \<le> 128" using assms(2,3) by (simp_all add: id_text_def)
  with length_dumps[of ?m] have "length (dumps ?m) < MAX_FRAME_BYTES"
    by (simp add: bridge_request_def MAX_FRAME_BYTES_def show_int_def show_nat.simps)
  from small_encodes[OF valid this] obtain frame where frame: "encode ?m = Inr frame" ..
  have "dispatch w ?m cn sv = (Inr (plain_reply (ok_reply ?m)), cn, sv\<lparr>sv_store := t\<rparr>)"
    using assms(4) s by (simp add: dispatch_def request_reads Let_def answer_with_def)
      (simp add: bridge_request_def read_member)
  moreover have "ok_reply ?m = reply_json ''ok'' (ids (bs_sent s)) []" by (simp add: ok_reply_def request_reads)
  moreover from ok_reply_encodes[OF assms(3)] obtain frame' where "encode (reply_json ''ok'' (ids (bs_sent s)) []) = Inr frame'" ..
  ultimately have served: "server_daemon w ?m (cn, sv) = (Some (reply_json ''ok'' (ids (bs_sent s)) []), cn, sv\<lparr>sv_store := t\<rparr>)"
    by (simp add: server_daemon_def plain_reply_def)
  have "flow_request (server_daemon w) ids ''driver.disable'' [(''driver_id'', JStr drv)] s
      = (Inr (reply_json ''ok'' (ids (bs_sent s)) []), s\<lparr>bs_sent := bs_sent s + 1, bs_daemon := (cn, sv\<lparr>sv_store := t\<rparr>)\<rparr>)"
    by (simp add: flow_request_def Let_def frame s served)
       (simp add: reply_json_def bridge_request_def get_def member_def)
  with assms(1) have "authority_disable (server_daemon w) ids drv s
      = (Inl ''OSError'', s\<lparr>bs_sent := bs_sent s + 1, bs_daemon := (cn, sv\<lparr>sv_store := t\<rparr>)\<rparr>)"
    by (simp add: authority_disable_def then_run_def remove_marker_def)
  moreover have "driver_authority drv t = AuthDisabled"
    using assms(4) by (auto simp: disable_driver_authority_def driver_authority_def and_then_eq_Inr split: option.splits if_splits)
  moreover have "activate drv s = (Inr (), s)" using assms(1) by (simp add: activate_def activate_one_def)
  ultimately show ?thesis by simp
qed

end
