(* ===== verification/Bridge_Runs.thy ===== *)
theory Bridge_Runs
  imports Bridge_Theorems Client_Facts
begin

text \<open>
  The properties of \<open>Bridge_Theorems\<close> on a run: a crew with an unreadable handoff is announced, a driver has been
  woken for it, and the bridge is asked to reconcile.
\<close>

section \<open>A reconciliation that comes to its end\<close>

lemma request_served:
  assumes rid: "ids (bs_sent s) = rid" and "encode (bridge_request kind rid extra) = Inr frame"
    and "daemon (bridge_request kind rid extra) (bs_daemon s) = (Some reply, dm)"
    and "get ''type'' reply = JStr t" and "t \<notin> {''frame.error'', ''request.error''}"
    and "get ''request_id'' reply = JStr rid"
  shows "flow_request daemon ids kind extra s = (Inr reply, s\<lparr>bs_sent := bs_sent s + 1, bs_daemon := dm\<rparr>)"
proof -
  have "get ''request_id'' (bridge_request kind rid extra) = JStr rid"
    by (simp add: bridge_request_def get_def member_def)
  with assms(2-) show ?thesis unfolding flow_request_def Let_def rid by simp
qed

lemma reply_reads:
  "get ''type'' (reply_json t rid extra) = JStr t" "get ''request_id'' (reply_json t rid extra) = JStr rid"
  by (simp_all add: reply_json_def get_def member_def)

lemmas message_eval = validate_def is_object_def member_def names_def VERSION_def SCHEMAS_def LIFECYCLE_TYPES_def
  checks demand_def is_id_def is_one_of_def is_between_def

lemma driver_requests_encode:
  assumes "id_text rid" and "id_text drv"
  shows "\<exists>frame. encode (bridge_request ''driver.authority'' rid [(''driver_id'', JStr drv)]) = Inr frame"
    and "\<exists>frame. encode (bridge_request ''reconcile.pending'' rid
      ([(''driver_id'', JStr drv)] @ (if full then [(''scope'', JStr ''full'')] else []))) = Inr frame"
    and "1 \<le> n \<and> int n \<le> MAX_INTEGER \<Longrightarrow> \<exists>frame. encode (bridge_request ''reconcile.ack'' rid
      [(''driver_id'', JStr drv), (''through'', JNat n)]) = Inr frame"
proof -
  have len: "length rid \<le> 128" "length drv \<le> 128" using assms by (simp_all add: id_text_def)
  show "\<exists>frame. encode (bridge_request ''driver.authority'' rid [(''driver_id'', JStr drv)]) = Inr frame"
    using assms len length_dumps[of "bridge_request ''driver.authority'' rid [(''driver_id'', JStr drv)]"]
    by (intro small_encodes) (simp add: bridge_request_def message_eval,
        simp add: bridge_request_def MAX_FRAME_BYTES_def show_int_def show_nat.simps)
  let ?pending = "bridge_request ''reconcile.pending'' rid
      ([(''driver_id'', JStr drv)] @ (if full then [(''scope'', JStr ''full'')] else []))"
  show "\<exists>frame. encode ?pending = Inr frame"
  proof (rule small_encodes)
    show "validate ?pending = Inr ?pending"
      using assms by (cases full) (simp_all add: bridge_request_def message_eval)
    show "length (dumps ?pending) < MAX_FRAME_BYTES"
      using len length_dumps[of ?pending]
      by (cases full) (simp_all add: bridge_request_def MAX_FRAME_BYTES_def show_int_def show_nat.simps)
  qed
  assume n: "1 \<le> n \<and> int n \<le> MAX_INTEGER"
  let ?ack = "bridge_request ''reconcile.ack'' rid [(''driver_id'', JStr drv), (''through'', JNat n)]"
  show "\<exists>frame. encode ?ack = Inr frame"
  proof (rule small_encodes)
    show "validate ?ack = Inr ?ack"
      using assms n by (simp add: bridge_request_def message_eval JNat_def)
    from n have "n < 10 ^ Suc 15" by (simp add: MAX_INTEGER_def)
    from show_nat_length[OF this] have "length (show_nat n) \<le> 16" by simp
    moreover have "length (show_nat (Suc 0)) = 1" by (simp add: show_nat.simps)
    ultimately have "json_size ?ack < MAX_FRAME_BYTES"
      using len by (simp add: bridge_request_def MAX_FRAME_BYTES_def JNat_def show_int_def)
    then show "length (dumps ?ack) < MAX_FRAME_BYTES" using length_dumps[of ?ack] by simp
  qed
qed

text \<open>The authority of an active driver is answered, and the state stays.\<close>

lemma authority_served:
  assumes "id_text (ids (bs_sent s))" and "id_text drv" and "bs_daemon s = (cn, sv)"
    and "driver_authority drv (sv_store sv) = AuthActive"
  shows "require_active (server_daemon w) ids drv s = (Inr (), s\<lparr>bs_sent := bs_sent s + 1\<rparr>)"
proof -
  let ?rid = "ids (bs_sent s)" and ?extra = "[(''driver_id'', JStr drv)]"
  let ?m = "bridge_request ''driver.authority'' ?rid ?extra"
  let ?reply = "reply_json ''driver.authority.result'' ?rid [(''driver_id'', JStr drv), (''authority'', JStr ''active'')]"
  from driver_requests_encode(1)[OF assms(1,2)] obtain frame where frame: "encode ?m = Inr frame" ..
  have "str_member ''driver_id'' ?m = drv" by (simp add: bridge_request_def read_member)
  then have "dispatch w ?m cn sv = (Inr (plain_reply ?reply), cn, sv)"
    using assms(4) by (simp add: dispatch_def request_reads Let_def handle_driver_authority_def authority_word_def)
  moreover have "length drv \<le> 128" "length ?rid \<le> 128" using assms(1,2) by (simp_all add: id_text_def)
  then have "length (dumps ?reply) < MAX_FRAME_BYTES"
    using length_dumps[of ?reply] by (simp add: reply_json_def MAX_FRAME_BYTES_def show_int_def show_nat.simps)
  then have "\<exists>frame. encode ?reply = Inr frame"
    using assms(1,2) by (intro small_encodes) (simp_all add: reply_json_def message_eval)
  ultimately have "server_daemon w ?m (bs_daemon s) = (Some ?reply, bs_daemon s)"
    by (auto simp: server_daemon_def plain_reply_def assms(3))
  from request_served[where ids = ids and s = s and daemon = "server_daemon w", OF refl frame this reply_reads(1) _ reply_reads(2)]
  have "flow_request (server_daemon w) ids ''driver.authority'' ?extra s = (Inr ?reply, s\<lparr>bs_sent := bs_sent s + 1\<rparr>)"
    by simp
  then show ?thesis by (simp add: require_active_def then_run_def) (simp add: reply_json_def get_def member_def)
qed

text \<open>The snapshot arrives when it fits into a frame.\<close>

lemma snapshot_served:
  assumes "id_text (ids (bs_sent s))" and "id_text drv" and s: "bs_daemon s = (cn, sv)"
    and sys: "system_ok (sv_store sv)" "fits (sv_store sv)"
    and extra: "extra = [(''driver_id'', JStr drv)] @ (if full then [(''scope'', JStr ''full'')] else [])"
    and rc: "reconcile_delivered drv full (sv_store sv) = Inr (rc, t)"
    and small: "length (dumps (reconcile_reply (wd_render w) (bridge_request ''reconcile.pending'' (ids (bs_sent s)) extra) rc)) < MAX_FRAME_BYTES"
  shows "flow_request (server_daemon w) ids ''reconcile.pending'' extra s =
    (Inr (reconcile_reply (wd_render w) (bridge_request ''reconcile.pending'' (ids (bs_sent s)) extra) rc),
     s\<lparr>bs_sent := bs_sent s + 1, bs_daemon := (cn, sv\<lparr>sv_store := t\<rparr>)\<rparr>)"
proof -
  let ?m = "bridge_request ''reconcile.pending'' (ids (bs_sent s)) extra"
  let ?reply = "reconcile_reply (wd_render w) ?m rc"
  from driver_requests_encode(2)[OF assms(1,2), of full] obtain frame where frame: "encode ?m = Inr frame"
    unfolding extra by blast
  then obtain v where v: "validate ?m = Inr v" using encode_validates by blast
  have m: "str_member ''driver_id'' ?m = drv" "member ''scope'' ?m = Some (JStr ''full'') \<longleftrightarrow> full"
    "str_member ''type'' ?m = ''reconcile.pending''"
    by (simp_all add: extra bridge_request_def read_member)
  have run: "dispatch w ?m cn sv = (Inr (plain_reply ?reply), cn, sv\<lparr>sv_store := t\<rparr>)"
    unfolding pending_dispatch m using rc by (simp add: answer_with_def)
  have "validate ?reply = Inr ?reply"
    using reply_validates[OF sys v m(3) run] by (simp add: plain_reply_def)
  from small_encodes[OF this small] run have "server_daemon w ?m (bs_daemon s) = (Some ?reply, cn, sv\<lparr>sv_store := t\<rparr>)"
    by (auto simp: server_daemon_def plain_reply_def s)
  moreover have "?reply = reply_json ''reconcile.pending.result'' (ids (bs_sent s))
     [(''through'', JNat (rc_through rc)), (''reports'', JArr (map (report_json (wd_render w)) (rc_reports rc))),
      (''since'', JNat (rc_since rc)), (''unchanged_count'', JInt (rc_unchanged rc))]"
    by (simp add: reconcile_reply_def request_reads)
  ultimately show ?thesis
    using request_served[where ids = ids and s = s, OF refl frame, of "server_daemon w" ?reply "(cn, sv\<lparr>sv_store := t\<rparr>)" "''reconcile.pending.result''"]
    by (simp add: reply_reads)
qed

lemma all_compat_run:
  assumes "list_all (\<lambda>p. projection_ok (sn_row p)) ps"
  shows "\<exists>rows. all_compat (map (report_json (detail_json texts prose)) ps) = Inr rows"
  using assms
proof (induction ps)
  case (Cons p ps)
  then show ?case using compat_reads[of p texts prose] by fastforce
qed simp

text \<open>The acknowledgement of a snapshot.\<close>

lemma ack_served:
  assumes "id_text (ids (bs_sent s))" and "id_text drv" and s: "bs_daemon s = (cn, sv)"
    and n: "1 \<le> n \<and> int n \<le> MAX_INTEGER" and ack: "ack_delivered drv n (sv_store sv) = Inr (b, t)"
  shows "flow_request (server_daemon w) ids ''reconcile.ack'' [(''driver_id'', JStr drv), (''through'', JNat n)] s =
    (Inr (reply_json ''ok'' (ids (bs_sent s)) []),
     s\<lparr>bs_sent := bs_sent s + 1, bs_daemon := (cn, sv\<lparr>sv_store := t\<rparr>)\<rparr>)"
proof -
  let ?m = "bridge_request ''reconcile.ack'' (ids (bs_sent s)) [(''driver_id'', JStr drv), (''through'', JNat n)]"
  let ?reply = "reply_json ''ok'' (ids (bs_sent s)) []"
  from driver_requests_encode(3)[OF assms(1,2) n] obtain frame where frame: "encode ?m = Inr frame" ..
  have "dispatch w ?m cn sv = (Inr (plain_reply (ok_reply ?m)), cn, sv\<lparr>sv_store := t\<rparr>)"
    using ack by (simp add: dispatch_def request_reads Let_def answer_with_def)
      (simp add: bridge_request_def read_member JNat_def)
  moreover have "ok_reply ?m = ?reply" by (simp add: ok_reply_def request_reads)
  moreover from ok_reply_encodes[OF assms(1)] obtain frame' where "encode ?reply = Inr frame'" ..
  ultimately have "server_daemon w ?m (bs_daemon s) = (Some ?reply, cn, sv\<lparr>sv_store := t\<rparr>)"
    by (simp add: server_daemon_def plain_reply_def s)
  from request_served[where ids = ids and s = s and daemon = "server_daemon w", OF refl frame this reply_reads(1) _ reply_reads(2)]
  show ?thesis by simp
qed

text \<open>Once the snapshot is there, it is printed and acknowledged.\<close>

lemma settles:
  assumes "id_text (ids (bs_sent s))" and "id_text drv" and s: "bs_daemon s = (cn, sv)"
    and rows: "all_compat (map (report_json render) reports) = Inr rows"
    and snap: "get ''through'' snap = JNat n" "get ''reports'' snap = JArr (map (report_json render) reports)"
    and n: "1 \<le> n \<and> int n \<le> MAX_INTEGER" and some: "reports \<noteq> []" and ack: "ack_delivered drv n (sv_store sv) = Inr (b, t)"
  shows "\<exists>s'. settle_snapshot (server_daemon w) ids drv full snap s = (Inr (), s') \<and> store_in s' = t
    \<and> bs_printed s' = bs_printed s @ [reconcile_output drv full snap rows]"
proof -
  let ?s1 = "s\<lparr>bs_printed := bs_printed s @ [reconcile_output drv full snap rows]\<rparr>"
  from ack_served[where ids = ids and s = ?s1 and w = w, OF _ assms(2) _ n ack] assms(1) s
  have "flow_request (server_daemon w) ids ''reconcile.ack'' [(''driver_id'', JStr drv), (''through'', JNat n)] ?s1 =
      (Inr (reply_json ''ok'' (ids (bs_sent s)) []),
       ?s1\<lparr>bs_sent := bs_sent s + 1, bs_daemon := (cn, sv\<lparr>sv_store := t\<rparr>)\<rparr>)" by simp
  with n some show ?thesis
    by (simp add: settle_snapshot_eq[OF snap] then_run_def print_json_def rows)
qed

lemma nothing_to_settle:
  assumes "get ''through'' snap = JNat n" and "get ''reports'' snap = JArr []"
  shows "settle_snapshot daemon ids drv full snap s =
    (Inr (), s\<lparr>bs_printed := bs_printed s @ [reconcile_output drv full snap []]\<rparr>)"
  by (simp add: settle_snapshot_eq[OF assms] then_run_def print_json_def)

lemma reconcile_ends:
  assumes reach: "leads empty_store (store_in s)" and fits: "fits (store_in s)" and layout: "wd_render w = detail_json texts prose"
    and ids: "\<And>n. id_text (ids n)" and drv: "id_text drv" and before: "map_of (deliveries (store_in s)) drv = Some d"
    and boundary: "require_clean drv table = Inr ()" "activate_one drv (bs_entries s) = Inr entries"
    and small: "\<exists>rc t. reconcile_delivered drv full (store_in s) = Inr (rc, t) \<and>
      length (dumps (reconcile_reply (wd_render w) (bridge_request ''reconcile.pending'' (ids (bs_sent s + 1))
        ([(''driver_id'', JStr drv)] @ (if full then [(''scope'', JStr ''full'')] else []))) rc)) < MAX_FRAME_BYTES"
  shows "\<exists>out s' d'. bridge_reconcile (server_daemon w) ids table drv full s = (Inr (), s')
    \<and> bs_printed s' = bs_printed s @ [out] \<and> map_of (deliveries (store_in s')) drv = Some d'
    \<and> d_delivered d' = d_delivered d \<and> d_acked d' = d_delivered d"
proof -
  obtain cn sv where s: "bs_daemon s = (cn, sv)" by (cases "bs_daemon s")
  let ?extra = "[(''driver_id'', JStr drv)] @ (if full then [(''scope'', JStr ''full'')] else [])"
  let ?s2 = "s\<lparr>bs_sent := bs_sent s + 1, bs_entries := entries\<rparr>"
  let ?m = "bridge_request ''reconcile.pending'' (ids (bs_sent s + 1)) ?extra"
  from reach have sys: "system_ok (sv_store sv)" using leads_ok empty_system_ok s by fastforce
  then have wf: "ledger_wf (sv_store sv)" "facts_wf (sv_store sv)" by (simp_all add: system_ok_def store_wf_def)
  from before s have d: "map_of (deliveries (sv_store sv)) drv = Some d" by simp
  from small obtain rc t where rc: "reconcile_delivered drv full (sv_store sv) = Inr (rc, t)"
    and len: "length (dumps (reconcile_reply (wd_render w) ?m rc)) < MAX_FRAME_BYTES" using s by auto
  let ?snap = "reconcile_reply (wd_render w) ?m rc"
  let ?s3 = "?s2\<lparr>bs_sent := bs_sent ?s2 + 1, bs_daemon := (cn, sv\<lparr>sv_store := t\<rparr>)\<rparr>"
  have "driver_authority drv (sv_store sv) = AuthActive"
    using d disabled_unregistered(2)[OF wf(1), of drv] by (auto simp: driver_authority_def)
  note asked = authority_served[where ids = ids and s = s and w = w, OF ids drv s this]
  have "flow_request (server_daemon w) ids ''reconcile.pending'' ?extra ?s2 = (Inr ?snap, ?s3)"
    using snapshot_served[where ids = ids and s = ?s2 and w = w, OF ids drv _ sys _ refl rc] len fits s by simp
  with asked have run: "bridge_reconcile (server_daemon w) ids table drv full s =
      settle_snapshot (server_daemon w) ids drv full ?snap ?s3"
    by (simp add: bridge_reconcile_def then_run_def activate_def boundary)
  have snap: "get ''through'' ?snap = JNat (rc_through rc)"
    "get ''reports'' ?snap = JArr (map (report_json (detail_json texts prose)) (rc_reports rc))"
    by (simp_all add: reconcile_reply_def reply_json_def get_def[of "''through''"] get_def[of "''reports''"] member_def layout)
  show ?thesis
  proof (cases "d_acked d < d_delivered d")
    case False
    from wf(1) d have "d_acked d \<le> d_delivered d" by (auto simp: ledger_wf_def driver_ok_def delivery_check_def elim: entry_okD)
    with False rc d have "rc_reports rc = []" "t = sv_store sv" "d_acked d = d_delivered d"
      by (auto simp: reconcile_delivered_def Let_def split: option.splits)
    note same = this
    have "get ''reports'' ?snap = JArr []" unfolding snap(2) same(1) by simp
    from nothing_to_settle[OF snap(1) this] obtain s' where "settle_snapshot (server_daemon w) ids drv full ?snap ?s3 = (Inr (), s')"
      "s' = ?s3\<lparr>bs_printed := bs_printed ?s3 @ [reconcile_output drv full ?snap []]\<rparr>" by blast
    moreover from this(2) have "store_in s' = sv_store sv" "bs_printed s' = bs_printed s @ [reconcile_output drv full ?snap []]"
      by (simp_all add: same(2))
    ultimately show ?thesis unfolding run using d same(3) by metis
  next
    case True
    from wf(1) d have le: "d_delivered d \<le> latest_generation (sv_store sv)"
      by (auto simp: ledger_wf_def driver_ok_def delivery_check_def elim: entry_okD)
    from rc obtain reg where "map_of (registrations (sv_store sv)) drv = Some reg"
      by (auto simp: reconcile_delivered_def split: option.splits)
    from reconcile_delivered_run[OF wf(1) this d True, of full] rc have u: "rc_through rc = d_delivered d"
      "snapshot_rows (d_delivered d) (if full then None else Some (d_acked d)) (sv_store sv) = Inr (rc_reports rc)"
      "ledger_wf t" "\<forall>p \<in> offers_of drv t. o_confirmed p" "deliveries t = deliveries (sv_store sv)"
      by auto
    have h: "history_ok (sv_store sv)" using wf(1) by (simp add: ledger_wf_def)
    from ack_delivered_run(1)[OF u(3) _ True u(4)] d u(5)
    obtain t' where t': "ack_delivered drv (d_delivered d) t = Inr (True, t')"
      "deliveries t' = update_key drv (\<lambda>e. e\<lparr>d_acked := d_delivered d, d_state := DPending\<rparr>) (deliveries t)" by auto
    have "set (rc_reports rc) \<subseteq> set (task_snapshots (sv_store sv))" by (rule reconciled_from_history[OF rc])
    with wf(2) have "list_all (\<lambda>p. projection_ok (sn_row p)) (rc_reports rc)" by (auto simp: facts_wf_def list_all_iff)
    from all_compat_run[OF this] obtain rows where
      rows: "all_compat (map (report_json (detail_json texts prose)) (rc_reports rc)) = Inr rows" ..
    have n: "1 \<le> d_delivered d \<and> int (d_delivered d) \<le> MAX_INTEGER" using True le fits s by (simp add: fits_def)
    obtain s' where "settle_snapshot (server_daemon w) ids drv full ?snap ?s3 = (Inr (), s')" "store_in s' = t'"
      "bs_printed s' = bs_printed s @ [reconcile_output drv full ?snap rows]"
      using settles[where ids = ids and s = ?s3 and w = w, OF ids drv _ rows snap(1)[unfolded u(1)] snap(2) n
        reconciled_rows(3)[OF h True le u(2)], of cn "sv\<lparr>sv_store := t\<rparr>"] t'(1) by auto
    moreover from this(2) t'(2) u(5) d have
      "map_of (deliveries (store_in s')) drv = Some (d\<lparr>d_acked := d_delivered d, d_state := DPending\<rparr>)"
      by (simp add: map_of_update_key)
    moreover have "d_delivered (d\<lparr>d_acked := d_delivered d, d_state := DPending\<rparr>) = d_delivered d"
      "d_acked (d\<lparr>d_acked := d_delivered d, d_state := DPending\<rparr>) = d_delivered d" by simp_all
    ultimately show ?thesis unfolding run by metis
  qed
qed

text \<open>
  C32: a reconciliation comes to its end.  Between the bridge and a reachable daemon that knows the driver, with sound
  ledgers of the previous release and an answer that fits into a frame, \<open>reconcile\<close> ends without an
  error, prints one output, and leaves everything that was delivered to the driver acknowledged.
\<close>

theorem bridge_completes:
  assumes reach: "leads empty_store (store_in s)" and fits: "fits (store_in s)" and layout: "wd_render w = detail_json texts prose"
    and ids: "\<And>n. id_text (ids n)" and drv: "id_text drv" and before: "map_of (deliveries (store_in s)) drv = Some d"
    and boundary: "validate_structure loads (bs_entries s) = Inr table" "require_clean drv table = Inr ()"
      "activate_one drv (bs_entries s) = Inr entries"
    and small: "\<exists>rc t. reconcile_delivered drv full (store_in s) = Inr (rc, t) \<and>
      length (dumps (reconcile_reply (wd_render w) (bridge_request ''reconcile.pending'' (ids (bs_sent s + 1))
        ([(''driver_id'', JStr drv)] @ (if full then [(''scope'', JStr ''full'')] else []))) rc)) < MAX_FRAME_BYTES"
  shows "\<exists>out s' d'. bridge_main loads (\<lambda>table. bridge_reconcile (server_daemon w) ids table drv full) s = (Inr (), s')
    \<and> bs_printed s' = bs_printed s @ [out] \<and> map_of (deliveries (store_in s')) drv = Some d'
    \<and> d_delivered d' = d_delivered d \<and> d_acked d' = d_delivered d"
  using reconcile_ends[where ids = ids and s = s and w = w, OF reach fits layout ids drv before boundary(2,3) small] boundary(1)
  unfolding bridge_main_def by simp

section \<open>The daemon\<close>

definition torn_registered :: store where
  "torn_registered = after (register_driver ''drv'' ''wt'' Pi crew_torn)"

definition torn_offered :: store where
  "torn_offered = after (offer_notification ''drv'' ''wt'' 1 torn_registered)"

definition torn_woken :: store where
  "torn_woken = after (confirm_delivery ''drv'' ''wt'' 1 1 torn_offered)"

lemma crew_torn_ledger:
  "deliveries crew_torn = []" "registrations crew_torn = []" "delivery_offers crew_torn = []"
  "disabled_drivers crew_torn = []" "latest_generation crew_torn = 1"
  by (simp_all add: crew_torn_def torn_eval)

lemmas torn_defs = torn_woken_def torn_offered_def torn_registered_def after_def register_driver_def offer_notification_def
  confirm_delivery_def require_registration_def ledger_of_def open_offers_def first_generation_def insert_offer_def
  checked_deliveries_def delivery_check_def update_key_def update_all_def crew_torn_ledger

lemma torn_runs:
  "\<exists>ep. register_driver ''drv'' ''wt'' Pi crew_torn = Inr (ep, torn_registered)"
  "\<exists>n. offer_notification ''drv'' ''wt'' 1 torn_registered = Inr (n, torn_offered)"
  "\<exists>b. confirm_delivery ''drv'' ''wt'' 1 1 torn_offered = Inr (b, torn_woken)"
  by (auto simp: torn_defs)

lemma torn_woken_reached: "daemon_step\<^sup>*\<^sup>* empty_store torn_woken"
proof -
  from torn_runs obtain ep n b where runs: "register_driver ''drv'' ''wt'' Pi crew_torn = Inr (ep, torn_registered)"
    "offer_notification ''drv'' ''wt'' 1 torn_registered = Inr (n, torn_offered)"
    "confirm_delivery ''drv'' ''wt'' 1 1 torn_offered = Inr (b, torn_woken)" by blast
  have "daemon_step crew_torn torn_registered"
    using daemon_step.driver[OF delivery_step.register[OF runs(1)] driver_operations_facts(1)[OF runs(1)]] .
  moreover have "daemon_step torn_registered torn_offered"
    using daemon_step.driver[OF delivery_step.offer[OF runs(2)] driver_operations_facts(3)[OF runs(2)]] .
  moreover have "daemon_step torn_offered torn_woken"
    using daemon_step.driver[OF delivery_step.confirm[OF runs(3)] driver_operations_facts(6)[OF runs(3)]] .
  ultimately show ?thesis using reach_crew_torn by (meson rtranclp.rtrancl_into_rtrancl)
qed

lemma torn_delivery:
  "\<exists>d. map_of (deliveries torn_woken) ''drv'' = Some d \<and> d_acked d = 0 \<and> d_delivered d = 1"
  by (simp add: torn_defs)

lemma torn_authority: "driver_authority ''drv'' torn_woken = AuthActive"
  by (simp add: driver_authority_def torn_defs)

section \<open>Witnesses\<close>

definition torn_session :: "watchtowers \<Rightarrow> (connection \<times> server) session" where
  "torn_session entries = \<lparr>bs_daemon = (new_connection, initial_server\<lparr>sv_store := torn_woken\<rparr>), bs_entries = entries,
     bs_printed = [], bs_sent = 0\<rparr>"

definition torn_world :: world where
  "torn_world = (demo_world 0)\<lparr>wd_render := detail_json (\<lambda>_. []) (\<lambda>_. ''e'')\<rparr>"

lemma torn_store: "store_in (torn_session entries) = torn_woken" "bs_entries (torn_session entries) = entries"
  "bs_sent (torn_session entries) = 0" "bs_printed (torn_session entries) = []"
  by (simp_all add: torn_session_def)

lemma torn_leads: "leads empty_store torn_woken"
proof -
  from torn_runs obtain ep n b where runs: "register_driver ''drv'' ''wt'' Pi crew_torn = Inr (ep, torn_registered)"
    "offer_notification ''drv'' ''wt'' 1 torn_registered = Inr (n, torn_offered)"
    "confirm_delivery ''drv'' ''wt'' 1 1 torn_offered = Inr (b, torn_woken)" by blast
  have "sound (crew_event ''e1'' 1 SessionRegister)"
    by (simp add: sound_def crew_event_def event_ok_def id_text_def is_letter_or_digit_def)
  from accept_system[OF empty_system_ok this run_crew_torn] have "leads empty_store crew_torn" by (rule leads_step)
  with driver_operations_system(1)[OF runs(1)] driver_operations_system(3)[OF runs(2)] driver_operations_system(4)[OF runs(3)]
  show ?thesis using leads_step leads_trans by metis
qed

lemma torn_fits: "fits torn_woken"
  by (simp add: fits_def torn_defs MAX_INTEGER_def) (simp add: crew_torn_def torn_eval)

lemma torn_history:
  "\<exists>p. task_snapshots crew_torn = [p] \<and> sn_generation p = 1 \<and> sn_task p = ''t1'' \<and> sn_compat p
    \<and> pr_report_state (sn_row p) = Malformed"
  by (simp add: crew_torn_def torn_eval)

lemma torn_size:
  "\<exists>p. task_snapshots crew_torn = [p] \<and> json_size (report_json (wd_render torn_world) p) < 5000"
  by (simp add: crew_torn_def torn_eval torn_world_def report_json_def detail_json_def summary_json_def)
     (simp add: torn_dir_def availability_word_def status_word_def reason_word_def foreground_word_def background_word_def
      source_word_def nullable_str_def JNat_def show_int_def show_nat.simps)

lemma torn_changed: "tasks_between 0 1 crew_torn = [''t1'']"
  by (simp add: crew_torn_def torn_eval tasks_between_def)

lemma torn_frozen:
  "task_snapshots torn_woken = task_snapshots crew_torn" "tasks_between a n torn_woken = tasks_between a n crew_torn"
  "snapshot_task_count n torn_woken = snapshot_task_count n crew_torn"
  by (simp_all add: torn_defs tasks_between_def snapshot_task_count_def)

lemma torn_reconciled:
  "\<exists>p t. reconcile_delivered ''drv'' False torn_woken = Inr (\<lparr>rc_through = 1, rc_reports = [p], rc_since = 0, rc_unchanged = 0\<rparr>, t)
    \<and> pr_report_state (sn_row p) = Malformed \<and> json_size (report_json (wd_render torn_world) p) < 5000"
proof -
  from torn_history torn_size obtain p where p: "task_snapshots crew_torn = [p]" "sn_generation p = 1" "sn_task p = ''t1''"
    "sn_compat p" "pr_report_state (sn_row p) = Malformed" "json_size (report_json (wd_render torn_world) p) < 5000" by auto
  from torn_delivery obtain d where d: "map_of (deliveries torn_woken) ''drv'' = Some d" "d_acked d = 0" "d_delivered d = 1"
    by blast
  have wf: "ledger_wf torn_woken" using leads_ok[OF torn_leads empty_system_ok] by (simp add: system_ok_def store_wf_def)
  then obtain r where r: "map_of (registrations torn_woken) ''drv'' = Some r"
    using d(1) by (auto simp: ledger_wf_def elim: entry_okD)
  have "snapshot_rows 1 (Some 0) torn_woken = Inr [p]"
    by (simp add: snapshot_rows_def torn_frozen torn_changed p newest_for_def del: One_nat_def)
  moreover have "snapshot_task_count 1 torn_woken = 1" by (simp add: torn_frozen snapshot_task_count_def p)
  ultimately show ?thesis using reconcile_delivered_run[OF wf r d(1), of False] d p(5,6) by auto
qed

lemma torn_small:
  "\<exists>rc t. reconcile_delivered ''drv'' False torn_woken = Inr (rc, t) \<and>
     length (dumps (reconcile_reply (wd_render torn_world) (bridge_request ''reconcile.pending'' ''r'' extra) rc)) < MAX_FRAME_BYTES"
proof -
  from torn_reconciled obtain p t where run: "reconcile_delivered ''drv'' False torn_woken =
      Inr (\<lparr>rc_through = 1, rc_reports = [p], rc_since = 0, rc_unchanged = 0\<rparr>, t)"
    and size: "json_size (report_json (wd_render torn_world) p) < 5000" by blast
  let ?reply = "reconcile_reply (wd_render torn_world) (bridge_request ''reconcile.pending'' ''r'' extra)
      \<lparr>rc_through = 1, rc_reports = [p], rc_since = 0, rc_unchanged = 0\<rparr>"
  have "json_size ?reply < MAX_FRAME_BYTES"
    using size by (simp add: reconcile_reply_def request_reads reply_json_def MAX_FRAME_BYTES_def JNat_def show_int_def show_nat.simps)
  with length_dumps[of ?reply] run show ?thesis by fastforce
qed

lemma torn_ids: "id_text ''r''" "id_text ''drv''" "id_text ''d2''"
  by (simp_all add: id_text_def is_letter_or_digit_def)

lemma torn_layout: "wd_render torn_world = detail_json (\<lambda>_. []) (\<lambda>_. ''e'')"
  by (simp add: torn_world_def)

lemma torn_boundary:
  "validate_structure loads (bs_entries (torn_session [])) = Inr []" "require_clean ''drv'' [] = Inr ()"
  "activate_one ''drv'' (bs_entries (torn_session [])) = Inr []"
  by (simp_all add: torn_store validate_structure_def require_clean_def activate_one_def)

lemma bridge_completes_witness:
  "\<exists>out s' d'. bridge_main (\<lambda>_. None) (\<lambda>table. bridge_reconcile (server_daemon torn_world) (\<lambda>_. ''r'') table ''drv'' False)
      (torn_session []) = (Inr (), s')
    \<and> bs_printed s' = [out] \<and> map_of (deliveries (store_in s')) ''drv'' = Some d' \<and> d_acked d' = 1"
proof -
  from torn_delivery obtain d where d: "map_of (deliveries torn_woken) ''drv'' = Some d" "d_acked d = 0" "d_delivered d = 1"
    by blast
  then show ?thesis
    using bridge_completes[where ids = "\<lambda>_. ''r''" and s = "torn_session []" and w = torn_world and drv = "''drv''" and full = False
      and d = d and loads = "\<lambda>_. None", OF _ _ torn_layout torn_ids(1,2) _ torn_boundary] torn_small torn_leads torn_fits
    unfolding torn_store append_Nil by metis
qed


lemma bridge_reads_every_report_witness:
  "\<exists>rep row. get ''report_state'' rep = JStr ''malformed'' \<and> compat rep = Inr row \<and> get ''task_status'' row = JStr ''protocol-error''"
proof -
  from torn_reconciled obtain p t where run: "reconcile_delivered ''drv'' False torn_woken =
      Inr (\<lparr>rc_through = 1, rc_reports = [p], rc_since = 0, rc_unchanged = 0\<rparr>, t)"
    and bad: "pr_report_state (sn_row p) = Malformed" by blast
  let ?sv = "initial_server\<lparr>sv_store := torn_woken\<rparr>" and ?rep = "report_json (wd_render torn_world) p"
  let ?m = "bridge_request ''reconcile.pending'' ''r'' [(''driver_id'', JStr ''drv'')]"
  let ?reply = "reconcile_reply (wd_render torn_world) ?m \<lparr>rc_through = 1, rc_reports = [p], rc_since = 0, rc_unchanged = 0\<rparr>"
  have m: "str_member ''driver_id'' ?m = ''drv''" "member ''scope'' ?m = None"
    by (simp_all add: bridge_request_def read_member)
  have "dispatch torn_world ?m new_connection ?sv = (Inr (plain_reply ?reply), new_connection, ?sv\<lparr>sv_store := t\<rparr>)"
    unfolding pending_dispatch m using run by (simp add: answer_with_def)
  note read = bridge_reads_every_report[where w = torn_world and sv = ?sv and rep = ?rep, OF _ torn_layout request_reads(1) this]
  have state: "get ''report_state'' ?rep = JStr ''malformed''" by (simp add: report_reads bad status_word_def)
  have "get ''reports'' (rp_reply (plain_reply ?reply)) = JArr [?rep]"
    by (simp add: plain_reply_def reconcile_reply_def reply_json_def get_def member_def)
  from read[OF _ this] torn_woken_reached obtain row where "compat ?rep = Inr row"
    "get ''task_status'' row = JStr ''protocol-error'' \<longleftrightarrow> get ''report_state'' ?rep = JStr ''malformed''" by auto
  with state show ?thesis by metis
qed

lemma torn_activation_blocks_every_command_witness:
  "\<exists>e. bridge_main (\<lambda>_. None) (\<lambda>table. bridge_send_status (server_daemon torn_world) (\<lambda>_. ''r'') ''t1'')
      (torn_session [(''drv'', DriverDir [(AUTHORITY_MARKER, LedgerBytes [])])])
    = (Inl e, torn_session [(''drv'', DriverDir [(AUTHORITY_MARKER, LedgerBytes [])])])"
  by (rule torn_activation_blocks_every_command[where entries = "[(''drv'', DriverDir [])]" and drv = "''drv''" and files = "[]"])
    (simp_all add: torn_store AUTHORITY_LOCK_def activation_torn_def put_marker_def update_key_def)

lemma rollback_fails_after_disabling_witness:
  "\<exists>s' sv. authority_disable (server_daemon torn_world) (\<lambda>_. ''r'') ''d2''
      \<lparr>bs_daemon = (new_connection, sv), bs_entries = [], bs_printed = [], bs_sent = 0\<rparr> = (Inl ''OSError'', s')
    \<and> driver_authority ''d2'' (store_in s') = AuthDisabled"
proof -
  let ?sv = "initial_server\<lparr>sv_store := after (register_driver ''d2'' ''x'' Codex empty_store)\<rparr>"
  have "\<exists>t. disable_driver_authority ''d2'' (after (register_driver ''d2'' ''x'' Codex empty_store)) = Inr ((), t)"
    by (simp add: run_defs disable_driver_authority_def)
  then show ?thesis
    using rollback_fails_after_disabling[where s = "\<lparr>bs_daemon = (new_connection, ?sv), bs_entries = [], bs_printed = [], bs_sent = 0\<rparr>"
        and drv = "''d2''" and ids = "\<lambda>_. ''r''" and w = torn_world, OF _ torn_ids(3,1)]
    by fastforce
qed

end
