(* ===== verification/Hooks.thy ===== *)
theory Hooks
  imports Client Reducer_Legacy
begin

text \<open>
  The lifecycle hooks that the harnesses run: \<open>hooks/claude-rozoro-event.py\<close> and
  \<open>hooks/codex-rozoro-event.py\<close>.  A hook reads one JSON payload, maps it to protocol events, reserves
  all of them in the spool and then tries to send them.  The environment and the launch-time proof are
  arguments; \<open>ids n\<close> is the n-th identifier drawn.  \<open>TypeError\<close> stands for \<open>AttributeError\<close> too:
  neither is caught.
\<close>

section \<open>The capability proof\<close>

text \<open>
  What is found under the path of the proof, with the value the JSON parser makes of it, and what the
  certified executable resolves to: its real path and its device and inode.
\<close>

datatype proof_file = ProofMissing | ProofUnsafe | ProofText "json option"

record capability =
  cp_paths_absolute :: bool
  cp_proof :: proof_file
  cp_binary :: "(string \<times> int \<times> int) option"

fun dot_split :: "string \<Rightarrow> string list" where
  "dot_split [] = [[]]"
| "dot_split (c # cs) = (if c = CHR ''.'' then [] # dot_split cs
     else (case dot_split cs of [] \<Rightarrow> [[c]] | p # ps \<Rightarrow> (c # p) # ps))"

text \<open>\<open>0|[1-9]\d*\<close>.\<close>

definition version_part :: "string \<Rightarrow> bool" where
  "version_part p \<longleftrightarrow> p = ''0'' \<or> (p \<noteq> [] \<and> hd p \<noteq> CHR ''0'' \<and> list_all is_digit (u p))"

definition certified_range :: "nat \<Rightarrow> nat \<Rightarrow> nat \<Rightarrow> bool" where
  "certified_range major minor patch \<longleftrightarrow> major = 2 \<and> minor = 1 \<and> patch \<ge> 240"

definition is_supported_claude_version :: "json \<Rightarrow> py_error + bool" where
  "is_supported_claude_version v = (case v of
       JStr s \<Rightarrow> (case dot_split s of
           [a, b, c] \<Rightarrow>
             if version_part a \<and> version_part b \<and> version_part c
             then and_then (int_of_digits (u a)) (\<lambda>major. and_then (int_of_digits (u b)) (\<lambda>minor.
                  and_then (int_of_digits (u c)) (\<lambda>patch. Inr (certified_range major minor patch))))
             else Inr False
         | _ \<Rightarrow> Inr False)
     | _ \<Rightarrow> Inr False)"

text \<open>A \<open>ValueError\<close> is caught and certifies nothing.\<close>

definition claude_version :: "capability \<Rightarrow> py_error + string option" where
  "claude_version c =
     (if \<not> cp_paths_absolute c then Inr None
      else case (cp_proof c, cp_binary c) of
        (ProofText (Some value), Some (path, dev, ino)) \<Rightarrow>
          if \<not> is_object value then Inl TypeError
          else if get ''binary'' value \<noteq> JStr path \<or> JArr [JInt dev, JInt ino] \<noteq> get ''identity'' value then Inr None
          else (case (get ''version'' value, is_supported_claude_version (get ''version'' value)) of
              (JStr version, Inr True) \<Rightarrow> Inr (Some version)
            | _ \<Rightarrow> Inr None)
      | _ \<Rightarrow> Inr None)"

section \<open>Claude\<close>

record hook_env =
  he_role :: "string option"
  he_session :: "string option"
  he_native :: "string option"
  he_task :: "string option"
  he_driver :: "string option"
  he_capability :: capability

definition env_text :: "string option \<Rightarrow> string" where
  "env_text v = (case v of None \<Rightarrow> [] | Some s \<Rightarrow> s)"

text \<open>\<open>_identity\<close>: the members that every event of the session starts with.\<close>

definition identity :: "hook_env \<Rightarrow> json \<Rightarrow> py_error + (string \<times> json) list option" where
  "identity env payload = (case he_role env of
       None \<Rightarrow> Inr None
     | Some role \<Rightarrow>
         if role \<notin> {''crew'', ''watchtower''} then Inr None
         else and_then (claude_version (he_capability env)) (\<lambda>version.
           let session = env_text (he_session env);
               native = (case he_native env of Some n \<Rightarrow> n | None \<Rightarrow> session);
               name = (if role = ''crew'' then ''task_id'' else ''driver_id'');
               ident = env_text (if role = ''crew'' then he_task env else he_driver env) in
           if version = None \<or> ident = [] \<or> session = [] \<or> get ''session_id'' payload \<noteq> JStr native then Inr None
           else Inr (Some [(''v'', JInt 1), (''session_id'', JStr session), (''harness'', JStr ''claude''),
             (''role'', JStr role), (name, JStr ident)])))"

definition hook_event :: "(string \<times> json) list \<Rightarrow> string \<Rightarrow> string \<Rightarrow> (string \<times> json) list \<Rightarrow> json" where
  "hook_event base kind eid extra = JObj (base @ [(''type'', JStr kind), (''event_id'', JStr eid)] @ extra)"

definition HOOK_EVENTS :: "string list" where
  "HOOK_EVENTS = [''SessionStart'', ''UserPromptSubmit'', ''SubagentStart'', ''SubagentStop'', ''Stop'', ''SessionEnd'']"

definition some_text :: "json \<Rightarrow> bool" where
  "some_text v = (case v of JStr s \<Rightarrow> s \<noteq> [] | _ \<Rightarrow> False)"

text \<open>One entry of \<open>background_tasks\<close>, with the short-circuits of the code; then all of them.\<close>

definition running_task :: "json \<Rightarrow> py_error + bool" where
  "running_task item =
     (if \<not> is_object item \<or> \<not> some_text (get ''id'' item) \<or> get ''status'' item \<noteq> JStr ''running'' then Inr False
      else among (get ''type'' item) [''subagent'', ''shell''])"

fun all_running :: "json list \<Rightarrow> py_error + bool" where
  "all_running [] = Inr True"
| "all_running (t # ts) = and_then (running_task t) (\<lambda>ok. if ok then all_running ts else Inr False)"

definition valid_snapshot :: "json \<Rightarrow> py_error + nat option" where
  "valid_snapshot v = (case v of
       JArr ts \<Rightarrow> and_then (all_running ts) (\<lambda>ok. Inr (if ok then Some (length ts) else None))
     | _ \<Rightarrow> Inr None)"

text \<open>\<open>Stop\<close>: the count, when it is authoritative, goes last; its identifier is drawn first.\<close>

definition stop_events :: "(nat \<Rightarrow> string) \<Rightarrow> (string \<times> json) list \<Rightarrow> json \<Rightarrow> nat option \<Rightarrow> json list" where
  "stop_events ids base prompt snapshot =
     (let extra = (''background_active'', (case snapshot of Some n \<Rightarrow> JBool (n > 0) | None \<Rightarrow> JNull))
        # (if some_text prompt then [(''turn_id'', prompt)] else []) in
      case snapshot of
        Some n \<Rightarrow> [hook_event base ''turn.stop'' (ids 1) extra,
                   hook_event base ''background.snapshot'' (ids 0) [(''active_count'', JInt (int n))]]
      | None \<Rightarrow> [hook_event base ''turn.stop'' (ids 0) extra])"

definition claude_events :: "(nat \<Rightarrow> string) \<Rightarrow> (string \<times> json) list \<Rightarrow> json \<Rightarrow> py_error + json list" where
  "claude_events ids base payload =
     (let name = get ''hook_event_name'' payload; prompt = get ''prompt_id'' payload; job = get ''agent_id'' payload in
      if name = JStr ''SessionStart'' then Inr [hook_event base ''session.register'' (ids 0) []]
      else if name = JStr ''UserPromptSubmit''
      then Inr (if some_text prompt then [hook_event base ''turn.start'' (ids 0) [(''turn_id'', prompt)]] else [])
      else if name = JStr ''SubagentStart''
      then Inr (if some_text job
        then [hook_event base ''background.start'' (ids 0) [(''job_id'', job), (''job_kind'', JStr ''subagent'')]] else [])
      else if name = JStr ''SubagentStop'' then Inr []
      else if name = JStr ''SessionEnd'' then Inr [hook_event base ''session.end'' (ids 0) []]
      else and_then (valid_snapshot (get ''background_tasks'' payload)) (\<lambda>snapshot.
        Inr (stop_events ids base prompt snapshot)))"

definition claude_payload :: "hook_env \<Rightarrow> (nat \<Rightarrow> string) \<Rightarrow> json \<Rightarrow> py_error + json list" where
  "claude_payload env ids payload =
     (if \<not> is_object payload then Inr []
      else and_then (among (get ''hook_event_name'' payload) HOOK_EVENTS) (\<lambda>known.
        if \<not> known then Inr []
        else and_then (identity env payload) (\<lambda>base. case base of
            None \<Rightarrow> Inr []
          | Some b \<Rightarrow> claude_events ids b payload)))"

section \<open>Codex\<close>

definition CODEX_EVENTS :: "(string \<times> string) list" where
  "CODEX_EVENTS = [(''SessionStart'', ''session.register''), (''UserPromptSubmit'', ''turn.start''),
     (''Stop'', ''turn.stop''), (''SessionEnd'', ''session.end'')]"

definition codex_payload :: "string \<Rightarrow> (nat \<Rightarrow> string) \<Rightarrow> json \<Rightarrow> py_error + json list" where
  "codex_payload task ids payload =
     (let name = get ''hook_event_name'' payload; session = get ''session_id'' payload; turn = get ''turn_id'' payload in
      and_then (among name (keys CODEX_EVENTS)) (\<lambda>known.
        if \<not> known \<or> task = [] \<or> \<not> some_text session then Inr []
        else
          let base = [(''v'', JInt 1), (''session_id'', session), (''harness'', JStr ''codex''), (''role'', JStr ''crew''),
                (''task_id'', JStr task)];
              kind = (case map_of CODEX_EVENTS (str_member ''hook_event_name'' payload) of Some k \<Rightarrow> k | None \<Rightarrow> []) in
          Inr [hook_event base kind (ids 0)
            ((if some_text turn then [(''turn_id'', turn)] else [])
             @ (if name = JStr ''Stop'' then [(''background_active'', JNull)] else []))]))"

section \<open>Reserving and sending\<close>

text \<open>Every envelope is reserved before the first is sent; an error leaves the ones before it reserved.\<close>

fun prepare_all :: "loader \<Rightarrow> json list \<Rightarrow> client_home \<Rightarrow> (client_error + json list) \<times> client_home" where
  "prepare_all loads [] h = (Inr [], h)"
| "prepare_all loads (e # es) h = (case prepare_event loads e h of
       Inl err \<Rightarrow> (Inl err, h)
     | Inr (m, h1) \<Rightarrow> (case prepare_all loads es h1 of
           (Inl err, h2) \<Rightarrow> (Inl err, h2)
         | (Inr ms, h2) \<Rightarrow> (Inr (m # ms), h2)))"

text \<open>
  Sending, one exchange for every event for which there is time.  A \<open>ClientError\<close> is passed over, a
  \<open>ProtocolError\<close> is a \<open>ValueError\<close> and ends the hook quietly; so does, before anything is reserved, a
  time budget in the environment that is no number, which is not modelled.
\<close>

fun send_all :: "loader \<Rightarrow> ((client_home \<Rightarrow> client_home) \<times> string list) list \<Rightarrow> json list \<Rightarrow> client_home \<Rightarrow> client_home" where
  "send_all loads ((others, chunks) # rest) (e # es) h = (case send_event loads others chunks e h of
       (Inl (ProtocolFailure _), h1) \<Rightarrow> h1
     | (_, h1) \<Rightarrow> send_all loads rest es h1)"
| "send_all loads _ _ h = h"

definition claude_main :: "hook_env \<Rightarrow> (nat \<Rightarrow> string) \<Rightarrow> loader \<Rightarrow> ((client_home \<Rightarrow> client_home) \<times> string list) list
    \<Rightarrow> json option \<Rightarrow> client_home \<Rightarrow> (py_error + unit) \<times> client_home" where
  "claude_main env ids loads sends parsed h = (case parsed of
       None \<Rightarrow> (Inr (), h)
     | Some payload \<Rightarrow> (case claude_payload env ids payload of
           Inl e \<Rightarrow> (Inl e, h)
         | Inr evs \<Rightarrow> (case prepare_all loads evs h of
               (Inl _, h1) \<Rightarrow> (Inr (), h1)
             | (Inr prepared, h1) \<Rightarrow> (Inr (), send_all loads sends prepared h1))))"

text \<open>
  The Codex hook reserves and sends one event after the other; a failure of either ends it quietly.  The
  value says whether the object that the harness expects was printed.
\<close>

definition codex_main :: "string \<Rightarrow> (nat \<Rightarrow> string) \<Rightarrow> loader \<Rightarrow> (client_home \<Rightarrow> client_home) \<times> string list
    \<Rightarrow> json option \<Rightarrow> client_home \<Rightarrow> (py_error + bool) \<times> client_home" where
  "codex_main task ids loads sending parsed h = (case parsed of
       None \<Rightarrow> (Inr False, h)
     | Some payload \<Rightarrow>
         if \<not> is_object payload then (Inr True, h)
         else (case codex_payload task ids payload of
             Inl e \<Rightarrow> (Inl e, h)
           | Inr [] \<Rightarrow> (Inr True, h)
           | Inr (event # _) \<Rightarrow> (case prepare_event loads event h of
                 Inl _ \<Rightarrow> (Inr False, h)
               | Inr (m, h1) \<Rightarrow> (case send_event loads (fst sending) (snd sending) m h1 of
                     (Inl _, h2) \<Rightarrow> (Inr False, h2)
                   | (Inr _, h2) \<Rightarrow> (Inr True, h2)))))"

end
