(* ===== verification/Hooks_Theorems.thy ===== *)
theory Hooks_Theorems
  imports Hooks Client_Theorems
begin

text \<open>
  What the hooks promise: the events they reserve, fed to the reducer, certify exactly what the payload
  certifies; nothing but identifiers leaves the payload; and what they reserve is valid.
\<close>

section \<open>From payloads to the reducer\<close>

text \<open>The events of a list of messages once they carry the numbers after \<open>n\<close>.\<close>

fun envelopes :: "int \<Rightarrow> json list \<Rightarrow> event list" where
  "envelopes n [] = []"
| "envelopes n (e # es) = event_of (put ''producer_seq'' (JInt (n + 1)) e) # envelopes (n + 1) es"

text \<open>The members that both kinds of base have in common.\<close>

definition base_names :: "string set" where
  "base_names = {''v'', ''session_id'', ''harness'', ''role'', ''task_id'', ''driver_id''}"

definition hook_base :: "(string \<times> json) list \<Rightarrow> bool" where
  "hook_base base \<longleftrightarrow> set (keys base) \<subseteq> base_names"

lemma identity_base: "identity env payload = Inr (Some base) \<Longrightarrow> hook_base base"
  by (auto simp: identity_def and_then_eq_Inr hook_base_def base_names_def Let_def split: option.splits if_splits)

lemma hook_event_member:
  assumes "hook_base base" and "k \<notin> base_names"
  shows "member k (hook_event base kind eid extra) =
    (if k = ''type'' then Some (JStr kind) else if k = ''event_id'' then Some (JStr eid) else map_of extra k)"
proof -
  have "map_of base k = None" using assms by (auto simp: hook_base_def map_of_eq_None_iff)
  then show ?thesis by (simp add: hook_event_def member_def map_add_def)
qed

lemma kind_of_same:
  assumes "\<And>k. k \<in> {''turn_id'', ''job_id'', ''job_kind'', ''result'', ''active_count'', ''background_active''}
    \<Longrightarrow> member k m = member k m'"
  shows "kind_of t m = kind_of t m'"
  using assms by (simp add: kind_of_def str_member_def text_of_def int_member_def)

lemma hook_event_kind:
  assumes "hook_base base"
  shows "ev_kind (event_of (put ''producer_seq'' (JInt n) (hook_event base kind eid extra))) =
    kind_of kind (JObj (AList.update ''producer_seq'' (JInt n) extra))"
    and "producer_no (event_of (put ''producer_seq'' (JInt n) (hook_event base kind eid extra))) = n"
proof -
  let ?m = "put ''producer_seq'' (JInt n) (hook_event base kind eid extra)"
  have obj: "is_object (hook_event base kind eid extra)" by (simp add: hook_event_def is_object_def)
  show "producer_no (event_of ?m) = n" using put_texts(2)[OF obj] by (simp add: event_of_def)
  have read: "member k ?m = member k (JObj (AList.update ''producer_seq'' (JInt n) extra))"
    if "k \<notin> base_names \<union> {''type'', ''event_id''}" for k
    using that hook_event_member[OF assms, of k kind eid extra]
    by (simp add: put_member[OF obj]) (simp add: member_def update_conv')
  have "str_member ''type'' ?m = kind"
    using put_texts(1)[OF obj, of "''type''" "''producer_seq''"] hook_event_member[OF assms, of "''type''" kind eid extra]
    by (simp add: str_member_def text_of_def text_or_null_def base_names_def)
  moreover have "kind_of kind ?m = kind_of kind (JObj (AList.update ''producer_seq'' (JInt n) extra))"
    by (rule kind_of_same) (rule read, auto simp: base_names_def)
  ultimately show "ev_kind (event_of ?m) = kind_of kind (JObj (AList.update ''producer_seq'' (JInt n) extra))"
    by (simp add: event_of_def)
qed

lemma envelope_reads:
  "k \<noteq> ''producer_seq'' \<Longrightarrow> member k (JObj (AList.update ''producer_seq'' v extra)) = map_of extra k"
  by (simp add: member_def update_conv')

text \<open>One event that is next in line.\<close>

lemma reduce_next:
  assumes "producer_no ev = producer_seq st + 1" and "0 \<le> producer_seq st" and "pending_events st = []" and "\<not> session_ended st"
    and c: "kind_changes (ev_kind ev) (st\<lparr>producer_seq := producer_no ev, adapter_connected := True\<rparr>) = Inr c"
  shows "reduce_step ev st = Inr (finish (c\<lparr>sequence_gap := False\<rparr>)) \<and> pending_events c = [] \<and> producer_seq c = producer_seq st + 1"
proof -
  have frame: "pending_events c = []" "producer_seq c = producer_seq st + 1"
    using kind_changes_frame[OF c] assms(1,3) by auto
  then have "apply_contiguous st ev = Inr (finish c)"
    using assms(4) c by (simp add: apply_contiguous_def contiguous_changes_def)
  moreover have "drain_pending (finish c) = Inr (finish c)" using frame by (subst drain_pending.simps) simp
  ultimately have "reduce_event st ev = Inr \<lparr>rd_state = finish ((finish c)\<lparr>sequence_gap := False\<rparr>), rd_applied = True, rd_reason = None\<rparr>"
    using assms(1-3) frame by (simp add: reduce_event_def Let_def)
  moreover have "finish ((finish c)\<lparr>sequence_gap := False\<rparr>) = finish (c\<lparr>sequence_gap := False\<rparr>)"
    by (simp add: finish_def derived_def)
  ultimately show ?thesis using frame by (simp add: reduce_step_def)
qed

section \<open>A stop\<close>

definition turn_of :: "json \<Rightarrow> ident option" where
  "turn_of prompt = (if some_text prompt then text_or_null prompt else None)"

lemma stop_kinds:
  assumes "hook_base base"
  shows "map ev_kind (envelopes n (stop_events ids base prompt snapshot)) = (case snapshot of
      Some k \<Rightarrow> [TurnStop (Some (k > 0)) (turn_of prompt), BackgroundSnapshot (int k)]
    | None \<Rightarrow> [TurnStop None (turn_of prompt)])"
proof -
  have turn: "text_of ''turn_id'' (JObj (AList.update ''producer_seq'' v ((''background_active'', b)
      # (if some_text prompt then [(''turn_id'', prompt)] else [])))) = turn_of prompt" for v b
    by (simp add: text_of_def member_def turn_of_def)
  have flag: "member ''background_active'' (JObj (AList.update ''producer_seq'' v ((''background_active'', b) # extra))) = Some b" for v b extra
    by (simp add: member_def)
  have count: "int_member ''active_count'' (JObj (AList.update ''producer_seq'' v [(''active_count'', JInt i)])) = i" for v i
    by (simp add: member_def int_member_def)
  have kinds: "ev_kind (event_of (put ''producer_seq'' (JInt m) (hook_event base ''turn.stop'' eid ((''background_active'', b)
        # (if some_text prompt then [(''turn_id'', prompt)] else []))))) =
      TurnStop (case b of JBool x \<Rightarrow> Some x | _ \<Rightarrow> None) (turn_of prompt)"
    "ev_kind (event_of (put ''producer_seq'' (JInt m) (hook_event base ''background.snapshot'' eid [(''active_count'', JInt i)]))) =
      BackgroundSnapshot i" for m eid b i
    unfolding hook_event_kind(1)[OF assms] by (simp_all only: kind_of_def turn flag count option.case) simp_all
  show ?thesis by (cases snapshot) (simp_all only: stop_events_def Let_def option.case envelopes.simps list.map kinds json.case)
qed

lemma envelope_numbers: "map producer_no (envelopes n es) = map (\<lambda>i. n + 1 + int i) [0..<length es]" if "hook_base base"
  "\<forall>e \<in> set es. \<exists>kind eid extra. e = hook_event base kind eid extra"
  using that(2)
proof (induction es arbitrary: n)
  case (Cons e es)
  then obtain kind eid extra where "e = hook_event base kind eid extra" by auto
  then have "producer_no (event_of (put ''producer_seq'' (JInt (n + 1)) e)) = n + 1" using hook_event_kind(2)[OF that(1)] by simp
  with Cons show ?case by (simp add: upt_conv_Cons map_Suc_upt[symmetric] del: upt_Suc)
qed simp

lemma stop_reduced:
  assumes base: "hook_base base" and st: "0 \<le> producer_seq st" "pending_events st = []" "\<not> session_ended st"
  shows "\<exists>t. reduce_all (envelopes (producer_seq st) (stop_events ids base prompt snapshot)) st = Inr t
    \<and> foreground t = FgStopped
    \<and> (case snapshot of Some n \<Rightarrow> active_count t = Some (int n) \<and> (background t = BgClear \<longleftrightarrow> n = 0)
       | None \<Rightarrow> active_count t = None \<and> background t \<noteq> BgClear)
    \<and> (\<not> session_gone st \<longrightarrow> (availability t = Quiescent \<longleftrightarrow> snapshot = Some 0))"
proof (cases snapshot)
  case None
  obtain e where e: "envelopes (producer_seq st) (stop_events ids base prompt None) = [e]"
    "ev_kind e = TurnStop None (turn_of prompt)" "producer_no e = producer_seq st + 1"
    using stop_kinds[OF base, of "producer_seq st" ids prompt None] by (simp add: stop_events_def hook_event_kind(2)[OF base])
  obtain c where c: "kind_changes (ev_kind e) (st\<lparr>producer_seq := producer_no e, adapter_connected := True\<rparr>) = Inr c"
    by (simp add: e(2) Let_def)
  then have "c = st\<lparr>producer_seq := producer_no e, adapter_connected := True, foreground := FgStopped, foreground_fresh := True,
      blocked := False, background_certified := False, background := (if any_active st then BgActive else BgUnknown)\<rparr>"
    by (simp add: e(2) Let_def)
  then have "foreground c = FgStopped" "\<not> background_certified c" "background c \<noteq> BgClear" "session_gone c = session_gone st"
    "session_ended c = session_ended st" by simp_all
  moreover have "reduce_all [e] st = Inr (finish (c\<lparr>sequence_gap := False\<rparr>))"
    using reduce_next[OF e(3) st c] by (simp add: reduce_all_def)
  ultimately show ?thesis
    unfolding None e(1) by (simp add: active_count_def derived_def derive_availability_def)
next
  case (Some k)
  obtain e e2 where e: "envelopes (producer_seq st) (stop_events ids base prompt (Some k)) = [e, e2]"
    "ev_kind e = TurnStop (Some (k > 0)) (turn_of prompt)" "producer_no e = producer_seq st + 1"
    "ev_kind e2 = BackgroundSnapshot (int k)" "producer_no e2 = producer_seq st + 2"
    using stop_kinds[OF base, of "producer_seq st" ids prompt "Some k"] by (simp add: stop_events_def hook_event_kind(2)[OF base])
  obtain c where c: "kind_changes (ev_kind e) (st\<lparr>producer_seq := producer_no e, adapter_connected := True\<rparr>) = Inr c"
    by (cases "k > 0") (simp_all add: e(2) Let_def)
  let ?s1 = "finish (c\<lparr>sequence_gap := False\<rparr>)"
  note one = reduce_next[OF e(3) st c]
  have c_keeps: "session_ended c = session_ended st" "session_gone c = session_gone st" "foreground c = FgStopped"
    "foreground_fresh c" "\<not> blocked c"
    using c by (cases "k > 0"; auto simp: e(2) Let_def)+
  have s1: "producer_no e2 = producer_seq ?s1 + 1" "0 \<le> producer_seq ?s1" "pending_events ?s1 = []" "\<not> session_ended ?s1"
    using one st e(5) c_keeps by simp_all
  obtain c2 where c2: "kind_changes (ev_kind e2) (?s1\<lparr>producer_seq := producer_no e2, adapter_connected := True\<rparr>) = Inr c2"
    by (simp add: e(4))
  from one reduce_next[OF s1 c2] have run: "reduce_all [e, e2] st = Inr (finish (c2\<lparr>sequence_gap := False\<rparr>))"
    by (simp add: reduce_all_def)
  have "foreground c2 = FgStopped" "active_count c2 = Some (int k)" "background c2 = (if k = 0 then BgClear else BgActive)" "foreground_fresh c2"
    "background_fresh c2" "\<not> blocked c2" "session_ended c2 = session_ended st" "session_gone c2 = session_gone st" "adapter_connected c2"
    using c2 c_keeps by (cases "k = 0"; auto simp: e(4) active_count_def)+
  moreover have "active_count (finish (c2\<lparr>sequence_gap := False\<rparr>)) = active_count c2" by (simp add: active_count_def)
  ultimately show ?thesis
    unfolding Some e(1) run using st(3) by (simp add: derived_def derive_availability_def)
qed

text \<open>The envelopes that the client reserves for new events carry the next numbers, in order.\<close>

lemma prepared_envelopes:
  assumes "home_ok loads h" and "prepare_all loads es h = (Inr ms, h')" and "\<forall>m \<in> set ms. reads_back loads m"
    and "\<forall>e \<in> set es. session_of e = session \<and> distinct (names e) \<and> map_of (hm_spool h) (event_file e) = None"
    and "distinct (map event_file es)"
  shows "map event_of ms = envelopes (highest_no loads session h) es"
  using assms
proof (induction es arbitrary: h ms)
  case (Cons e es)
  from Cons.prems(2) obtain m h1 ms' where m: "prepare_event loads e h = Inr (m, h1)" "prepare_all loads es h1 = (Inr ms', h')" "ms = m # ms'"
    by (auto split: sum.splits prod.splits)
  from Cons.prems(4) have e: "session_of e = session" "distinct (names e)" "map_of (hm_spool h) (event_file e) = None" by simp_all
  from prepare_new[OF m(1) e(3)] obtain h2 where h2: "is_object e" "reserve_published loads e h = Inr (m, h2)"
    "h1 = save_counter (session_of e) (seq_of m) h2" by blast
  from h2(2) have res: "reserve loads e h = Inr m" and pub: "publish m h = Inr h2"
    by (auto simp: reserve_published_def and_then_eq_Inr)
  note num = reserve_number[OF Cons.prems(1) res h2(1) e(2)]
  have step: "client_step loads h (Some m) h1"
    using client_step.reserved[OF e(3) m(1) e(2)] Cons.prems(3) m(3) by simp
  note ok = client_step_ok[OF step Cons.prems(1), unfolded option.case]
  have spool: "\<exists>data. hm_spool h1 = hm_spool h @ [(event_file m, PrivateFile data)]"
    using pub num(5) e(3) by (auto simp: h2(3) save_counter_def publish_def and_then_eq_Inr)
  have fresh: "map_of (hm_spool h1) (event_file x) = None" if "x \<in> set es" for x
  proof -
    from Cons.prems(5) have "event_file e \<notin> event_file ` set es" by simp
    with that have "event_file x \<noteq> event_file e" by (metis imageI)
    with spool Cons.prems(4) that num(5) show ?thesis by (auto simp: map_add_def)
  qed
  have "map event_of ms' = envelopes (highest_no loads session h1) es"
    using Cons.IH[OF _ m(2)] ok Cons.prems(3-5) m(3) fresh by auto
  moreover have "highest_no loads session h1 = highest_no loads session h + 1" using ok num(3,4) e(1) by simp
  ultimately show ?case using num(1) e(1) by (simp add: m(3))
qed simp

lemma hook_event_names: "names (hook_event base kind eid extra) = keys base @ [''type'', ''event_id''] @ keys extra"
  by (simp add: names_def hook_event_def)

lemma hook_event_distinct:
  assumes "hook_base base" and "distinct (keys base)" and "distinct (keys extra)"
    and "set (keys extra) \<inter> (base_names \<union> {''type'', ''event_id''}) = {}"
  shows "distinct (names (hook_event base kind eid extra))"
proof -
  have "''type'' \<notin> base_names" "''event_id'' \<notin> base_names" by (simp_all add: base_names_def)
  moreover have "set (keys base) \<inter> set (keys extra) = {}" using assms(1,4) unfolding hook_base_def by blast
  moreover have "''type'' \<notin> set (keys base)" "''event_id'' \<notin> set (keys base)" using assms(1) calculation(1,2)
    unfolding hook_base_def by blast+
  ultimately show ?thesis using assms(2-4) unfolding hook_event_names by simp
qed

lemma hook_event_file:
  assumes "hook_base base" shows "event_file (hook_event base kind eid extra) = eid @ ''.json''"
  using hook_event_member[OF assms, of "''event_id''"]
  by (simp add: event_file_def str_member_def text_of_def text_or_null_def base_names_def)

text \<open>What \<open>_identity\<close> returns.\<close>

lemma identity_reads:
  assumes "identity env payload = Inr (Some base)"
  shows "distinct (keys base)" and "map_of base ''session_id'' = Some (JStr (env_text (he_session env)))"
    and "map_of base ''v'' = Some (JInt 1)" and "map_of base ''harness'' = Some (JStr ''claude'')"
  using assms by (auto simp: identity_def and_then_eq_Inr Let_def split: option.splits if_splits)

lemma claude_payload_Inr:
  assumes "claude_payload env ids payload = Inr evs" and "evs \<noteq> []"
  obtains base where "identity env payload = Inr (Some base)" and "claude_events ids base payload = Inr evs"
  using assms by (auto simp: claude_payload_def and_then_eq_Inr split: if_splits option.splits)

lemma stop_shape:
  assumes "claude_payload env ids payload = Inr evs" and "get ''hook_event_name'' payload = JStr ''Stop''" and "evs \<noteq> []"
  obtains base snapshot where "identity env payload = Inr (Some base)"
    and "valid_snapshot (get ''background_tasks'' payload) = Inr snapshot"
    and "evs = stop_events ids base (get ''prompt_id'' payload) snapshot"
proof -
  from claude_payload_Inr[OF assms(1,3)] obtain base where "identity env payload = Inr (Some base)"
    "claude_events ids base payload = Inr evs" .
  with assms(2) that show thesis by (auto simp: claude_events_def and_then_eq_Inr)
qed


section \<open>Never a guess\<close>

text \<open>What one event of a hook can do to the background.\<close>

lemma clear_from:
  assumes "kind_changes k st = Inr c" and "background c = BgClear"
  shows "background st = BgClear \<or> k = SessionEnd \<or> k = BackgroundSnapshot 0 \<or> (\<exists>t. k = TurnStop (Some False) t)
    \<or> (\<exists>j r. k = BackgroundStop j r)"
  using assms by (cases k) (auto simp: Let_def split: option.splits bool.splits if_splits)

lemma claude_kinds:
  assumes "claude_events ids base payload = Inr evs" and base: "hook_base base"
    and "get ''hook_event_name'' payload \<noteq> JStr ''Stop''"
    and "get ''hook_event_name'' payload \<in> JStr ` set HOOK_EVENTS" and "k \<in> set (map ev_kind (envelopes n evs))"
  shows "(k = SessionEnd \<and> get ''hook_event_name'' payload = JStr ''SessionEnd'') \<or> k = SessionRegister \<or> (\<exists>t. k = TurnStart t)
    \<or> (\<exists>j kd. k = BackgroundStart j kd)"
proof -
  have read: "ev_kind (event_of (put ''producer_seq'' (JInt m) (hook_event base kind eid extra))) =
      kind_of kind (JObj (AList.update ''producer_seq'' (JInt m) extra))" for m kind eid extra
    by (rule hook_event_kind(1)[OF base])
  from assms(1,3-) show ?thesis
    by (auto simp: claude_events_def Let_def HOOK_EVENTS_def read kind_of_def split: if_splits)
qed

lemma claude_payload_known:
  "claude_payload env ids payload = Inr evs \<Longrightarrow> evs \<noteq> [] \<Longrightarrow> get ''hook_event_name'' payload \<in> JStr ` set HOOK_EVENTS"
  by (auto simp: claude_payload_def and_then_eq_Inr among_def split: if_splits)

lemma valid_snapshot_zero: "valid_snapshot v = Inr (Some 0) \<Longrightarrow> v = JArr []"
  by (auto simp: valid_snapshot_def and_then_eq_Inr split: json.splits if_splits)

lemma single_event:
  assumes "claude_events ids base payload = Inr evs" and "get ''hook_event_name'' payload \<noteq> JStr ''Stop''"
    and "get ''hook_event_name'' payload \<in> JStr ` set HOOK_EVENTS" and "evs \<noteq> []"
  shows "\<exists>kind eid extra. evs = [hook_event base kind eid extra]"
  using assms by (auto simp: claude_events_def Let_def HOOK_EVENTS_def split: if_splits)

text \<open>
  The Claude hook never guesses that the background is clear.  If the reducer does not hold the background of a
  live session to be clear, and does so after the events of one payload, then that payload was the end
  of the session, or a stop whose \<open>background_tasks\<close> is explicitly the empty list.  In particular the
  stop of a subagent never clears anything.
\<close>

theorem hook_never_guesses_clear:
  assumes run: "claude_payload env ids payload = Inr evs" and wf: "lifecycle_wf st" and live: "pending_events st = []" "\<not> session_ended st"
    and reduced: "reduce_all (envelopes (producer_seq st) evs) st = Inr t"
    and before: "background st \<noteq> BgClear" and after: "background t = BgClear"
  shows "get ''hook_event_name'' payload = JStr ''SessionEnd''
    \<or> (get ''hook_event_name'' payload = JStr ''Stop'' \<and> get ''background_tasks'' payload = JArr [])"
proof -
  have nonneg: "0 \<le> producer_seq st" using wf by (simp add: lifecycle_wf_def)
  have "evs \<noteq> []" using reduced before after by (auto simp: reduce_all_def)
  note known = claude_payload_known[OF run this]
  from claude_payload_Inr[OF run \<open>evs \<noteq> []\<close>] obtain base where base: "identity env payload = Inr (Some base)"
    and evs: "claude_events ids base payload = Inr evs" .
  note hb = identity_base[OF base]
  show ?thesis
  proof (cases "get ''hook_event_name'' payload = JStr ''Stop''")
    case True
    from stop_shape[OF run True \<open>evs \<noteq> []\<close>] obtain b snapshot where b: "identity env payload = Inr (Some b)"
      and snap: "valid_snapshot (get ''background_tasks'' payload) = Inr snapshot"
      and "evs = stop_events ids b (get ''prompt_id'' payload) snapshot" .
    with stop_reduced[OF identity_base[OF b] nonneg live, of ids "get ''prompt_id'' payload" snapshot] reduced after
    have "snapshot = Some 0" by (auto split: option.splits)
    with snap valid_snapshot_zero True show ?thesis by blast
  next
    case False
    from single_event[OF evs False known \<open>evs \<noteq> []\<close>] obtain kind eid extra where one: "evs = [hook_event base kind eid extra]" by blast
    let ?ev = "event_of (put ''producer_seq'' (JInt (producer_seq st + 1)) (hook_event base kind eid extra))"
    have "ev_kind ?ev \<in> set (map ev_kind (envelopes (producer_seq st) evs))" by (simp add: one)
    note kinds = claude_kinds[OF evs hb False known this]
    have no: "producer_no ?ev = producer_seq st + 1" by (rule hook_event_kind(2)[OF hb])
    from kinds obtain c where c: "kind_changes (ev_kind ?ev) (st\<lparr>producer_seq := producer_no ?ev, adapter_connected := True\<rparr>) = Inr c"
      by auto
    from reduce_next[OF no nonneg live c] reduced have t: "t = finish (c\<lparr>sequence_gap := False\<rparr>)" by (simp add: one reduce_all_def)
    from after have "background c = BgClear" by (simp add: t)
    with clear_from[OF c] before kinds show ?thesis by auto
  qed
qed

section \<open>Only identifiers\<close>

text \<open>What the hook looks at in a payload.\<close>

definition hook_view :: "json \<Rightarrow> json \<times> json \<times> json \<times> json \<times> (py_error + nat option)" where
  "hook_view payload = (get ''hook_event_name'' payload, get ''session_id'' payload, get ''prompt_id'' payload,
     get ''agent_id'' payload, valid_snapshot (get ''background_tasks'' payload))"

text \<open>The values an event may carry.\<close>

definition opaque_values :: "hook_env \<Rightarrow> (nat \<Rightarrow> string) \<Rightarrow> json \<Rightarrow> json set" where
  "opaque_values env ids payload = JStr ` ({''claude'', ''crew'', ''watchtower'', ''subagent'', ''session.register'', ''turn.start'',
       ''turn.stop'', ''background.start'', ''background.snapshot'', ''session.end'', env_text (he_session env), env_text (he_task env),
       env_text (he_driver env)} \<union> range ids)
     \<union> {get ''prompt_id'' payload, get ''agent_id'' payload, JNull} \<union> range JInt \<union> range JBool"

lemma hook_event_values:
  assumes "member k (hook_event base kind eid extra) = Some v"
  shows "v \<in> snd ` set base \<union> {JStr kind, JStr eid} \<union> snd ` set extra"
proof -
  from assms have "(k, v) \<in> set (base @ [(''type'', JStr kind), (''event_id'', JStr eid)] @ extra)"
    unfolding hook_event_def member_def json.case by (rule map_of_SomeD)
  then show ?thesis by force
qed

lemma identity_values:
  assumes "identity env payload = Inr (Some base)"
  shows "snd ` set base \<subseteq> opaque_values env ids p"
  using assms by (auto simp: identity_def and_then_eq_Inr opaque_values_def Let_def split: option.splits if_splits)

lemma opaque_words:
  "JStr (ids n) \<in> opaque_values env ids p" "JInt i \<in> opaque_values env ids p" "JBool b \<in> opaque_values env ids p"
  "JNull \<in> opaque_values env ids p" "get ''prompt_id'' p \<in> opaque_values env ids p" "get ''agent_id'' p \<in> opaque_values env ids p"
  "JStr ''subagent'' \<in> opaque_values env ids p"
  by (auto simp: opaque_values_def)

lemma opaque_event:
  assumes "member k (hook_event base kind (ids n) extra) = Some v" and "snd ` set base \<subseteq> opaque_values env ids p"
    and "kind \<in> {''session.register'', ''turn.start'', ''turn.stop'', ''background.start'', ''background.snapshot'', ''session.end''}"
    and "snd ` set extra \<subseteq> opaque_values env ids p"
  shows "v \<in> opaque_values env ids p"
proof -
  have "JStr kind \<in> opaque_values env ids p" using assms(3) by (auto simp: opaque_values_def)
  with hook_event_values[OF assms(1)] assms(2,4) opaque_words(1)[of ids n env p] show ?thesis by blast
qed

definition opaque_event_of :: "hook_env \<Rightarrow> (nat \<Rightarrow> string) \<Rightarrow> json \<Rightarrow> (string \<times> json) list \<Rightarrow> json \<Rightarrow> bool" where
  "opaque_event_of env ids p base ev \<longleftrightarrow> (\<exists>kind n extra. ev = hook_event base kind (ids n) extra
     \<and> kind \<in> {''session.register'', ''turn.start'', ''turn.stop'', ''background.start'', ''background.snapshot'', ''session.end''}
     \<and> snd ` set extra \<subseteq> opaque_values env ids p)"

lemma opaque_event_ofI:
  "kind \<in> {''session.register'', ''turn.start'', ''turn.stop'', ''background.start'', ''background.snapshot'', ''session.end''}
    \<Longrightarrow> snd ` set extra \<subseteq> opaque_values env ids p \<Longrightarrow> opaque_event_of env ids p base (hook_event base kind (ids n) extra)"
  unfolding opaque_event_of_def
  by (rule exI[of _ kind], rule exI[of _ n], rule exI[of _ extra], intro conjI refl)

lemma claude_opaque:
  assumes "claude_events ids base payload = Inr evs" and "ev \<in> set evs"
  shows "opaque_event_of env ids payload base ev"
proof -
  let ?ok = "opaque_event_of env ids payload base"
  note intro = opaque_event_ofI[where env = env and ids = ids and p = payload and base = base]
  have facts: "?ok (hook_event base ''session.register'' (ids n) [])" "?ok (hook_event base ''session.end'' (ids n) [])"
    "?ok (hook_event base ''turn.start'' (ids n) [(''turn_id'', get ''prompt_id'' payload)])"
    "?ok (hook_event base ''background.start'' (ids n) [(''job_id'', get ''agent_id'' payload), (''job_kind'', JStr ''subagent'')])"
    "?ok (hook_event base ''background.snapshot'' (ids n) [(''active_count'', JInt i)])" for n i
    by (rule intro; simp add: opaque_words)+
  have "?ok (hook_event base ''turn.stop'' (ids n) ((''background_active'', x)
      # (if some_text (get ''prompt_id'' payload) then [(''turn_id'', get ''prompt_id'' payload)] else [])))"
    if "x \<in> opaque_values env ids payload" for n x
    by (rule intro) (simp, cases "some_text (get ''prompt_id'' payload)", simp_all add: opaque_words that)
  then have "list_all ?ok (stop_events ids base (get ''prompt_id'' payload) snapshot)" for snapshot
    using facts(5) by (cases snapshot) (simp_all add: stop_events_def Let_def opaque_words)
  with facts(1-4) have "list_all ?ok evs"
    using assms(1) unfolding claude_events_def Let_def by (auto simp: and_then_eq_Inr split: if_splits)
  with assms(2) show ?thesis by (simp add: list_all_iff)
qed

lemma claude_values:
  assumes "claude_events ids base payload = Inr evs" and "snd ` set base \<subseteq> opaque_values env ids payload"
    and "ev \<in> set evs" and "member k ev = Some v"
  shows "v \<in> opaque_values env ids payload"
proof -
  from claude_opaque[OF assms(1,3), of env] obtain kind n extra where "ev = hook_event base kind (ids n) extra"
    "kind \<in> {''session.register'', ''turn.start'', ''turn.stop'', ''background.start'', ''background.snapshot'', ''session.end''}"
    "snd ` set extra \<subseteq> opaque_values env ids payload" unfolding opaque_event_of_def by (elim exE conjE)
  with opaque_event[OF _ assms(2), of k kind n extra v] assms(4) show ?thesis by simp
qed

text \<open>
  C38: nothing but identifiers leaves the payload.  The hook behaves the same, in its spool, its sends and its exit, on
  two payloads that agree on the event name, the session, prompt and agent identifiers and on whether
  and how many running tasks are listed; and every value of every event is a fixed word, an identifier
  from the environment, the payload or the generator, a number or a truth value.
\<close>

theorem hook_publishes_only_identifiers:
  assumes "is_object payload" and "is_object payload'" and "hook_view payload = hook_view payload'"
  shows "claude_main env ids loads sends (Some payload) h = claude_main env ids loads sends (Some payload') h
    \<and> (\<forall>evs ev k v. claude_payload env ids payload = Inr evs \<and> ev \<in> set evs \<and> member k ev = Some v
        \<longrightarrow> v \<in> opaque_values env ids payload)"
proof -
  from assms(3) have same: "get ''hook_event_name'' payload = get ''hook_event_name'' payload'"
    "get ''session_id'' payload = get ''session_id'' payload'" "get ''prompt_id'' payload = get ''prompt_id'' payload'"
    "get ''agent_id'' payload = get ''agent_id'' payload'"
    "valid_snapshot (get ''background_tasks'' payload) = valid_snapshot (get ''background_tasks'' payload')"
    by (simp_all only: hook_view_def prod.inject)
  have "claude_payload env ids payload = claude_payload env ids payload'"
    using assms(1,2) unfolding claude_payload_def identity_def claude_events_def same by simp
  moreover have "v \<in> opaque_values env ids payload"
    if "claude_payload env ids payload = Inr evs" "ev \<in> set evs" "member k ev = Some v" for evs ev k v
  proof -
    from that(2) have "evs \<noteq> []" by auto
    from claude_payload_Inr[OF that(1) this] obtain base where "identity env payload = Inr (Some base)"
      "claude_events ids base payload = Inr evs" .
    with claude_values[OF _ identity_values] that(2,3) show ?thesis by blast
  qed
  ultimately show ?thesis unfolding claude_main_def option.case by metis
qed

section \<open>What is reserved is valid\<close>

lemmas hook_eval = hook_event_def conforms_def put_def names_def member_def EVENT_FIELDS_def IDENTITY_FIELDS_def checks
  demand_def is_id_def is_between_def is_one_of_def is_text_def is_boolean_def HARNESSES_def ROLES_def check_identity_def

text \<open>An event of the hook, once it has a number, is valid when its own fields are.\<close>

definition crew_base :: "string \<Rightarrow> string \<Rightarrow> (string \<times> json) list" where
  "crew_base session task = [(''v'', JInt 1), (''session_id'', JStr session), (''harness'', JStr ''claude''), (''role'', JStr ''crew''),
     (''task_id'', JStr task)]"

definition watchtower_base :: "string \<Rightarrow> string \<Rightarrow> (string \<times> json) list" where
  "watchtower_base session driver = [(''v'', JInt 1), (''session_id'', JStr session), (''harness'', JStr ''claude''),
     (''role'', JStr ''watchtower''), (''driver_id'', JStr driver)]"

lemma hook_envelope_valid:
  assumes conf: "conforms required optional (put ''producer_seq'' (JInt k) (hook_event base kind eid extra))"
    and row: "map_of SCHEMAS kind = Some (required, optional)" and kind: "kind \<in> set LIFECYCLE_TYPES"
    and base: "base = crew_base s i \<or> base = watchtower_base s i"
    and none: "map_of extra ''task_id'' = None" "map_of extra ''driver_id'' = None"
  shows "validate (put ''producer_seq'' (JInt k) (hook_event base kind eid extra)) =
    Inr (put ''producer_seq'' (JInt k) (hook_event base kind eid extra))"
proof (rule validate_intro[OF _ _ _ row conf kind])
  let ?m = "put ''producer_seq'' (JInt k) (hook_event base kind eid extra)"
  show "is_object ?m" by (simp add: hook_event_def put_def is_object_def)
  show "member ''v'' ?m = Some (JInt VERSION)"
    using base by (auto simp: hook_event_def put_def member_def VERSION_def crew_base_def watchtower_base_def update_conv')
  show "member ''type'' ?m = Some (JStr kind)"
    using base by (auto simp: hook_event_def put_def member_def crew_base_def watchtower_base_def update_conv')
  show "check_identity ?m = Inr ()"
    using base none by (auto simp: hook_event_def put_def member_def crew_base_def watchtower_base_def update_conv' check_identity_def)
qed

lemma hook_event_reads:
  assumes "base = crew_base s i \<or> base = watchtower_base s i"
  shows "text_of ''type'' (hook_event base kind eid extra) = Some kind"
    and "map_of extra ''producer_seq'' = None \<Longrightarrow> member ''producer_seq'' (hook_event base kind eid extra) = None"
  using assms by (auto simp: hook_event_def text_of_def member_def text_or_null_def crew_base_def watchtower_base_def)

lemma hook_event_valid:
  assumes "conforms required optional (put ''producer_seq'' (JInt 1) (hook_event base kind eid extra))"
    and "map_of SCHEMAS kind = Some (required, optional)" and "kind \<in> set LIFECYCLE_TYPES" and "''producer_seq'' \<in> set (keys required)"
    and "''producer_seq'' \<notin> set (keys extra)" and base: "base = crew_base s i \<or> base = watchtower_base s i"
    and "''task_id'' \<notin> set (keys extra)" "''driver_id'' \<notin> set (keys extra)"
  shows "producer_event True (hook_event base kind eid extra) = Inr (hook_event base kind eid extra)"
proof -
  have none: "map_of extra ''producer_seq'' = None" "map_of extra ''task_id'' = None" "map_of extra ''driver_id'' = None"
    using assms(5,7,8) by (simp_all add: map_of_eq_None_iff)
  have "requires_producer_seq kind" using assms(2,4) by (simp add: requires_producer_seq_def)
  with hook_envelope_valid[OF assms(1-3) base none(2,3)] hook_event_reads(1)[OF base] hook_event_reads(2)[OF base none(1)]
  show ?thesis by (simp add: producer_event_def)
qed

lemma hook_conforms:
  assumes "id_text s" and "id_text i" and "id_text eid" and "1 \<le> k" and "k \<le> MAX_INTEGER" and base: "base = crew_base s i \<or> base = watchtower_base s i"
  shows "conforms EVENT_FIELDS IDENTITY_FIELDS (put ''producer_seq'' (JInt k) (hook_event base kind eid []))"
    and "id_text t \<Longrightarrow> conforms (EVENT_FIELDS @ [(''turn_id'', ID)]) IDENTITY_FIELDS
      (put ''producer_seq'' (JInt k) (hook_event base kind eid [(''turn_id'', JStr t)]))"
    and "id_text t \<Longrightarrow> conforms (EVENT_FIELDS @ [(''job_id'', ID), (''job_kind'', STRING)]) IDENTITY_FIELDS
      (put ''producer_seq'' (JInt k) (hook_event base kind eid [(''job_id'', JStr t), (''job_kind'', JStr ''subagent'')]))"
    and "0 \<le> n \<Longrightarrow> n \<le> MAX_INTEGER \<Longrightarrow> conforms (EVENT_FIELDS @ [(''active_count'', NONNEGATIVE)]) IDENTITY_FIELDS
      (put ''producer_seq'' (JInt k) (hook_event base kind eid [(''active_count'', JInt n)]))"
    and "b = JNull \<or> is_boolean b \<Longrightarrow> conforms (EVENT_FIELDS @ [(''background_active'', KNOWN_OR_UNKNOWN)]) (IDENTITY_FIELDS @ [(''turn_id'', ID)])
      (put ''producer_seq'' (JInt k) (hook_event base kind eid [(''background_active'', b)]))"
    and "b = JNull \<or> is_boolean b \<Longrightarrow> id_text t
      \<Longrightarrow> conforms (EVENT_FIELDS @ [(''background_active'', KNOWN_OR_UNKNOWN)]) (IDENTITY_FIELDS @ [(''turn_id'', ID)])
      (put ''producer_seq'' (JInt k) (hook_event base kind eid [(''background_active'', b), (''turn_id'', JStr t)]))"
  using base assms(1-5)
  by (elim disjE; hypsubst_thin; simp add: hook_eval crew_base_def watchtower_base_def MAX_INTEGER_def)+

definition env_identity :: "hook_env \<Rightarrow> string" where
  "env_identity env = env_text (if he_role env = Some ''crew'' then he_task env else he_driver env)"

lemma identity_shape:
  assumes "identity env payload = Inr (Some base)"
  shows "base = crew_base (env_text (he_session env)) (env_identity env)
    \<or> base = watchtower_base (env_text (he_session env)) (env_identity env)"
  using assms
  by (auto simp: identity_def and_then_eq_Inr Let_def crew_base_def watchtower_base_def env_identity_def split: option.splits if_splits)

lemma some_textE: "some_text v \<Longrightarrow> (\<And>s. v = JStr s \<Longrightarrow> s \<noteq> [] \<Longrightarrow> thesis) \<Longrightarrow> thesis"
  by (cases v) (auto simp: some_text_def)

lemma valid_snapshot_count: "valid_snapshot v = Inr (Some n) \<Longrightarrow> \<exists>ts. v = JArr ts \<and> n = length ts"
  by (auto simp: valid_snapshot_def and_then_eq_Inr split: json.splits if_splits)

text \<open>The six shapes of an event of the hook.\<close>

lemma hook_events_valid:
  assumes "id_text s" and "id_text i" and eid: "id_text eid" and base: "base = crew_base s i \<or> base = watchtower_base s i"
  defines "valid \<equiv> \<lambda>ev. producer_event True ev = Inr ev"
  shows "valid (hook_event base ''session.register'' eid [])" and "valid (hook_event base ''session.end'' eid [])"
    and "id_text t \<Longrightarrow> valid (hook_event base ''turn.start'' eid [(''turn_id'', JStr t)])"
    and "id_text t \<Longrightarrow> valid (hook_event base ''background.start'' eid [(''job_id'', JStr t), (''job_kind'', JStr ''subagent'')])"
    and "0 \<le> n \<Longrightarrow> n \<le> MAX_INTEGER \<Longrightarrow> valid (hook_event base ''background.snapshot'' eid [(''active_count'', JInt n)])"
    and "b = JNull \<or> is_boolean b \<Longrightarrow> valid (hook_event base ''turn.stop'' eid [(''background_active'', b)])"
    and "b = JNull \<or> is_boolean b \<Longrightarrow> id_text t
      \<Longrightarrow> valid (hook_event base ''turn.stop'' eid [(''background_active'', b), (''turn_id'', JStr t)])"
proof -
  note conf = hook_conforms[OF assms(1-2) eid _ _ base, of 1, unfolded MAX_INTEGER_def, simplified, folded MAX_INTEGER_def]
  have seq: "''producer_seq'' \<in> set (keys (EVENT_FIELDS @ xs))" for xs by (simp add: EVENT_FIELDS_def)
  note rows = lifecycle_rows LIFECYCLE_TYPES_def
  show "valid (hook_event base ''session.register'' eid [])" "valid (hook_event base ''session.end'' eid [])"
    unfolding valid_def using seq[of "[]"]
    by - (rule hook_event_valid[OF conf(1) _ _ _ _ base]; simp add: rows)+
  show "id_text t \<Longrightarrow> valid (hook_event base ''turn.start'' eid [(''turn_id'', JStr t)])"
    unfolding valid_def by (rule hook_event_valid[OF conf(2) _ _ seq _ base]; simp add: rows)
  show "id_text t \<Longrightarrow> valid (hook_event base ''background.start'' eid [(''job_id'', JStr t), (''job_kind'', JStr ''subagent'')])"
    unfolding valid_def by (rule hook_event_valid[OF conf(3) _ _ seq _ base]; simp add: rows)
  show "0 \<le> n \<Longrightarrow> n \<le> MAX_INTEGER \<Longrightarrow> valid (hook_event base ''background.snapshot'' eid [(''active_count'', JInt n)])"
    unfolding valid_def by (rule hook_event_valid[OF conf(4) _ _ seq _ base]; simp add: rows)
  show "b = JNull \<or> is_boolean b \<Longrightarrow> valid (hook_event base ''turn.stop'' eid [(''background_active'', b)])"
    unfolding valid_def by (rule hook_event_valid[OF conf(5) _ _ seq _ base]; simp add: rows)
  show "b = JNull \<or> is_boolean b \<Longrightarrow> id_text t
      \<Longrightarrow> valid (hook_event base ''turn.stop'' eid [(''background_active'', b), (''turn_id'', JStr t)])"
    unfolding valid_def by (rule hook_event_valid[OF conf(6) _ _ seq _ base]; simp add: rows)
qed

text \<open>
  What the hook hands to the client is valid.  If the identifiers of the environment, and those of the payload that
  are used, are identifiers of the protocol, every event of the hook passes the check with which the
  client reserves it.
\<close>

theorem hook_events_validate:
  assumes run: "claude_payload env ids payload = Inr evs" and ids: "\<And>n. id_text (ids n)"
    and env: "id_text (env_text (he_session env))" "id_text (env_identity env)"
    and prompt: "\<And>s. get ''prompt_id'' payload = JStr s \<Longrightarrow> s \<noteq> [] \<Longrightarrow> id_text s"
    and agent: "\<And>s. get ''agent_id'' payload = JStr s \<Longrightarrow> s \<noteq> [] \<Longrightarrow> id_text s"
    and tasks: "\<And>ts. get ''background_tasks'' payload = JArr ts \<Longrightarrow> int (length ts) \<le> MAX_INTEGER"
  shows "list_all (\<lambda>ev. producer_event True ev = Inr ev) evs"
proof (cases "evs = []")
  case False
  from claude_payload_Inr[OF run this] obtain base where base: "identity env payload = Inr (Some base)"
    and evs: "claude_events ids base payload = Inr evs" .
  note valid = hook_events_valid[OF env _ identity_shape[OF base], OF ids]
  have turn: "list_all (\<lambda>ev. producer_event True ev = Inr ev) (stop_events ids base (get ''prompt_id'' payload) snapshot)"
    if "valid_snapshot (get ''background_tasks'' payload) = Inr snapshot" for snapshot
  proof -
    have "int n \<le> MAX_INTEGER" if "snapshot = Some n" for n
      using valid_snapshot_count \<open>valid_snapshot (get ''background_tasks'' payload) = Inr snapshot\<close> tasks that by blast
    then show ?thesis using valid(5-7) prompt
      by (auto simp: stop_events_def Let_def is_boolean_def split: option.splits elim!: some_textE)
  qed
  show ?thesis
    using evs valid(1-4) prompt agent turn
    by (auto simp: claude_events_def Let_def and_then_eq_Inr split: if_splits elim!: some_textE)
qed simp

section \<open>What the hook cannot take\<close>

lemma all_running_raises: "all_running ts = Inl e \<Longrightarrow> e = TypeError \<and> (\<exists>t \<in> set ts. no_key (get ''type'' t))"
  by (induction ts) (auto simp: running_task_def among_def and_then_def split: if_splits sum.splits)

lemma claude_version_raises:
  "claude_version c = Inl e \<Longrightarrow> e = TypeError \<and> (\<exists>value. cp_proof c = ProofText (Some value) \<and> \<not> is_object value)"
  by (auto simp: claude_version_def split: proof_file.splits option.splits if_splits json.splits sum.splits prod.splits bool.splits)

text \<open>
  The only errors that leave the Claude hook are type errors, raised before anything is reserved.  They occur when
  the name of the event is an array or an object, when the capability proof is no object, or when a
  listed background task has an array or an object as its type; no other payload, and no failure of
  the client or the daemon, makes the hook fail.
\<close>

theorem only_type_errors_leave_the_hook:
  assumes "claude_main env ids loads sends parsed h = (Inl e, h')"
  shows "e = TypeError \<and> h' = h \<and> (\<exists>payload. parsed = Some payload \<and> (no_key (get ''hook_event_name'' payload)
    \<or> (\<exists>value. cp_proof (he_capability env) = ProofText (Some value) \<and> \<not> is_object value)
    \<or> (\<exists>ts t. get ''background_tasks'' payload = JArr ts \<and> t \<in> set ts \<and> no_key (get ''type'' t))))"
proof -
  from assms obtain payload where payload: "parsed = Some payload" "claude_payload env ids payload = Inl e" "h' = h"
    by (auto simp: claude_main_def split: option.splits sum.splits prod.splits)
  from payload(2) consider (name) "no_key (get ''hook_event_name'' payload)" "e = TypeError"
    | (identity) "identity env payload = Inl e" | (tasks) base where "claude_events ids base payload = Inl e"
    by (auto simp: claude_payload_def among_def and_then_eq_Inl split: if_splits option.splits)
  then show ?thesis
  proof cases
    case name
    with payload show ?thesis by blast
  next
    case identity
    then have "claude_version (he_capability env) = Inl e"
      by (auto simp: identity_def and_then_eq_Inl Let_def split: option.splits if_splits)
    from claude_version_raises[OF this] payload show ?thesis by blast
  next
    case tasks
    then have "valid_snapshot (get ''background_tasks'' payload) = Inl e"
      by (auto simp: claude_events_def Let_def and_then_eq_Inl split: if_splits)
    then obtain ts where "get ''background_tasks'' payload = JArr ts" "all_running ts = Inl e"
      by (auto simp: valid_snapshot_def and_then_eq_Inl split: json.splits if_splits)
    with all_running_raises payload show ?thesis by blast
  qed
qed

text \<open>
  An optional identifier that the protocol refuses costs the authoritative count.  When a \<open>Stop\<close> carries a prompt
  identifier that is text but no identifier of the protocol, nothing is reserved, neither the stop nor
  the count of \<open>background_tasks\<close>, which does not depend on it; the hook ends quietly.
\<close>

theorem bad_prompt_loses_the_count:
  assumes run: "claude_payload env ids payload = Inr evs" and stop: "get ''hook_event_name'' payload = JStr ''Stop''"
    and prompt: "get ''prompt_id'' payload = JStr p" "p \<noteq> []" "\<not> id_text p"
  shows "claude_main env ids loads sends (Some payload) h = (Inr (), h)"
proof (cases "evs = []")
  case True
  with run show ?thesis by (cases sends) (simp_all add: claude_main_def)
next
  case False
  from stop_shape[OF run stop False] obtain base snapshot where base: "identity env payload = Inr (Some base)"
    and evs: "evs = stop_events ids base (get ''prompt_id'' payload) snapshot" .
  let ?extra = "[(''background_active'', (case snapshot of Some n \<Rightarrow> JBool (n > 0) | None \<Rightarrow> JNull)), (''turn_id'', JStr p)]"
  obtain eid rest where first: "evs = hook_event base ''turn.stop'' eid ?extra # rest"
    by (cases snapshot) (simp_all add: evs stop_events_def prompt some_text_def)
  let ?ev = "hook_event base ''turn.stop'' eid ?extra"
  let ?m = "put ''producer_seq'' (JInt 1) ?ev"
  note hb = identity_base[OF base] and shape = identity_shape[OF base]
  have obj: "is_object ?ev" by (simp add: hook_event_def is_object_def)
  have type: "member ''type'' ?m = Some (JStr ''turn.stop'')" "member ''turn_id'' ?m = Some (JStr p)"
    using hook_event_member[OF hb, of _ "''turn.stop''" eid ?extra] by (simp_all add: put_member[OF obj] base_names_def)
  have "validate ?m \<noteq> Inr x" for x
  proof
    assume "validate ?m = Inr x"
    then obtain required optional where "map_of SCHEMAS ''turn.stop'' = Some (required, optional)" "conforms required optional ?m"
      by (rule validate_Inr) (use type in simp)
    then have "check_members ((EVENT_FIELDS @ [(''background_active'', KNOWN_OR_UNKNOWN)]) @ IDENTITY_FIELDS @ [(''turn_id'', ID)]) [] ?m = Inr ()"
      by (simp add: lifecycle_rows(6) conforms_def)
    then have "ID (JStr p) ''turn_id'' = Inr ()" using type(2) unfolding check_members_Inr by auto
    with prompt(3) show False by (simp add: ID_def demand_def is_id_def fail_def)
  qed
  then have "\<exists>err. validate ?m = Inl err" by (cases "validate ?m") auto
  moreover have "requires_producer_seq ''turn.stop''" by (simp add: requires_producer_seq_def lifecycle_rows EVENT_FIELDS_def)
  moreover have "text_of ''type'' ?ev = Some ''turn.stop''" "member ''producer_seq'' ?ev = None"
    using hook_event_reads[OF shape] by simp_all
  ultimately have "\<exists>err. producer_event True ?ev = Inl err" by (auto simp: producer_event_def)
  then have "\<exists>err. prepare_event loads ?ev h = Inl err" by (auto simp: prepare_event_def lift_protocol_def)
  with run show ?thesis by (auto simp: claude_main_def first)
qed

section \<open>Codex\<close>

text \<open>The Codex hook never certifies anything about the background, except at the end of the session.\<close>

theorem codex_never_guesses_clear:
  assumes run: "codex_payload task ids payload = Inr evs" and wf: "lifecycle_wf st" and live: "pending_events st = []" "\<not> session_ended st"
    and reduced: "reduce_all (envelopes (producer_seq st) evs) st = Inr t"
    and before: "background st \<noteq> BgClear" and after: "background t = BgClear"
  shows "get ''hook_event_name'' payload = JStr ''SessionEnd''"
proof -
  let ?session = "get ''session_id'' payload"
  define base where "base = [(''v'', JInt 1), (''session_id'', ?session), (''harness'', JStr ''codex''), (''role'', JStr ''crew''),
                (''task_id'', JStr task)]"
  have hb: "hook_base base" by (simp add: base_def hook_base_def base_names_def)
  have "evs \<noteq> []" using reduced before after by (auto simp: reduce_all_def)
  with run obtain kind extra where one: "evs = [hook_event base kind (ids 0) extra]"
    and name: "get ''hook_event_name'' payload \<in> JStr ` set (keys CODEX_EVENTS)"
    and kind: "kind = (case map_of CODEX_EVENTS (str_member ''hook_event_name'' payload) of Some k \<Rightarrow> k | None \<Rightarrow> [])"
    and extra: "get ''hook_event_name'' payload = JStr ''Stop'' \<Longrightarrow> map_of extra ''background_active'' = Some JNull"
    by (auto simp: codex_payload_def Let_def and_then_eq_Inr among_def base_def split: if_splits)
  let ?ev = "event_of (put ''producer_seq'' (JInt (producer_seq st + 1)) (hook_event base kind (ids 0) extra))"
  have str: "get ''hook_event_name'' payload = JStr n \<Longrightarrow> str_member ''hook_event_name'' payload = n" for n
    by (auto simp: get_def str_member_def text_of_def text_or_null_def split: option.splits)
  have "ev_kind ?ev = SessionRegister \<or> (\<exists>t. ev_kind ?ev = TurnStart t) \<or> (\<exists>t. ev_kind ?ev = TurnStop None t)
      \<or> (ev_kind ?ev = SessionEnd \<and> get ''hook_event_name'' payload = JStr ''SessionEnd'')"
    using name extra unfolding hook_event_kind(1)[OF hb] kind
    by (auto simp: CODEX_EVENTS_def str kind_of_def envelope_reads)
  note kinds = this
  have no: "producer_no ?ev = producer_seq st + 1" by (rule hook_event_kind(2)[OF hb])
  have nonneg: "0 \<le> producer_seq st" using wf by (simp add: lifecycle_wf_def)
  from kinds obtain c where c: "kind_changes (ev_kind ?ev) (st\<lparr>producer_seq := producer_no ?ev, adapter_connected := True\<rparr>) = Inr c"
    by (auto simp: Let_def)
  from reduce_next[OF no nonneg live c] reduced have t: "t = finish (c\<lparr>sequence_gap := False\<rparr>)" by (simp add: one reduce_all_def)
  from after have "background c = BgClear" by (simp add: t)
  with clear_from[OF c] before kinds show ?thesis by auto
qed

text \<open>When the event cannot be delivered, the object that the harness requires is not printed.\<close>

lemma codex_failure_prints_nothing:
  assumes "codex_payload task ids payload = Inr [event]" and "is_object payload" and "prepare_event loads event h = Inr (m, h1)"
    and "send_event loads (fst sending) (snd sending) m h1 = (Inl e, h2)"
  shows "codex_main task ids loads sending (Some payload) h = (Inr False, h2)"
  using assms by (simp add: codex_main_def)

end
