(* ===== verification/Hooks_Runs.thy ===== *)
theory Hooks_Runs
  imports Hooks_Theorems Bridge_Theorems
begin

text \<open>
  The properties of \<open>Hooks_Theorems\<close> on a run: a certified Claude session of a crew stops with an explicit empty
  list of background tasks, and the hook reserves both events in an empty home.
\<close>

definition hook_ids :: "nat \<Rightarrow> string" where
  "hook_ids n = (if n = 0 then ''i0'' else ''i1'')"

definition certified :: capability where
  "certified = \<lparr>cp_paths_absolute = True, cp_proof = ProofText (Some (JObj [(''binary'', JStr ''/c''),
     (''identity'', JArr [JInt 1, JInt 2]), (''version'', JStr ''2.1.240'')])), cp_binary = Some (''/c'', 1, 2)\<rparr>"

definition crew_env :: hook_env where
  "crew_env = \<lparr>he_role = Some ''crew'', he_session = Some ''s1'', he_native = None, he_task = Some ''t1'', he_driver = None,
     he_capability = certified\<rparr>"

definition stop_payload :: "(string \<times> json) list \<Rightarrow> json" where
  "stop_payload extra = JObj ([(''hook_event_name'', JStr ''Stop''), (''session_id'', JStr ''s1''), (''background_tasks'', JArr [])] @ extra)"

lemma certified_version: "claude_version certified = Inr (Some ''2.1.240'')"
proof -
  have digits: "digits_value (u ''2'') = 2" "digits_value (u ''1'') = 1" "digits_value (u ''240'') = 240"
    by (simp_all add: digits_value_def u_def)
  have "is_supported_claude_version (JStr ''2.1.240'') = Inr True"
    by (simp add: is_supported_claude_version_def version_part_def is_digit_def int_of_digits_def digits[unfolded u_def, simplified]
        certified_range_def)
  then show ?thesis by (simp add: claude_version_def certified_def is_object_def get_def member_def)
qed

lemma crew_identity: "identity crew_env (stop_payload extra) = Inr (Some (crew_base ''s1'' ''t1''))"
  by (simp add: identity_def crew_env_def certified_version env_text_def stop_payload_def get_def member_def crew_base_def)

lemma stop_run:
  "claude_payload crew_env hook_ids (stop_payload extra) =
     Inr (stop_events hook_ids (crew_base ''s1'' ''t1'') (get ''prompt_id'' (stop_payload extra)) (Some 0))"
proof -
  have "get ''hook_event_name'' (stop_payload extra) = JStr ''Stop''" "get ''background_tasks'' (stop_payload extra) = JArr []"
    "is_object (stop_payload extra)" by (simp_all add: stop_payload_def get_def member_def is_object_def)
  then show ?thesis
    by (simp add: claude_payload_def among_def no_key_def HOOK_EVENTS_def crew_identity claude_events_def valid_snapshot_def)
qed

definition stopped_event :: json where
  "stopped_event = hook_event (crew_base ''s1'' ''t1'') ''turn.stop'' ''i1'' [(''background_active'', JBool False)]"

definition counted_event :: json where
  "counted_event = hook_event (crew_base ''s1'' ''t1'') ''background.snapshot'' ''i0'' [(''active_count'', JInt 0)]"

lemma stop_run_events:
  "claude_payload crew_env hook_ids (stop_payload []) = Inr [stopped_event, counted_event]"
  unfolding stop_run by (simp add: stop_events_def get_def member_def stop_payload_def some_text_def stopped_event_def counted_event_def
      hook_ids_def)

definition stopped_envelope :: json where "stopped_envelope = put ''producer_seq'' (JInt 1) stopped_event"
definition counted_envelope :: json where "counted_envelope = put ''producer_seq'' (JInt 2) counted_event"

lemma hook_texts: "id_text ''s1''" "id_text ''t1''" "id_text ''i0''" "id_text ''i1''"
  by (simp_all add: id_text_def is_letter_or_digit_def)

lemma stop_envelopes_valid:
  "validate stopped_envelope = Inr stopped_envelope" "validate counted_envelope = Inr counted_envelope"
proof -
  have base: "crew_base ''s1'' ''t1'' = crew_base ''s1'' ''t1'' \<or> crew_base ''s1'' ''t1'' = watchtower_base ''s1'' ''t1''" by simp
  have range: "(1::int) \<le> 1" "1 \<le> MAX_INTEGER" "(1::int) \<le> 2" "2 \<le> MAX_INTEGER" "(0::int) \<le> 0" "0 \<le> MAX_INTEGER"
    by (simp_all add: MAX_INTEGER_def)
  show "validate stopped_envelope = Inr stopped_envelope"
    unfolding stopped_envelope_def stopped_event_def
    by (rule hook_envelope_valid[OF hook_conforms(5)[OF hook_texts(1,2,4) range(1,2) base] lifecycle_rows(6) _ base])
       (simp_all add: is_boolean_def LIFECYCLE_TYPES_def)
  show "validate counted_envelope = Inr counted_envelope"
    unfolding counted_envelope_def counted_event_def
    by (rule hook_envelope_valid[OF hook_conforms(4)[OF hook_texts(1,2,3) range(3,4) base range(5,6)] lifecycle_rows(5) _ base])
       (simp_all add: LIFECYCLE_TYPES_def)
qed

lemma stop_envelopes_encode:
  "encode stopped_envelope = Inr (dumps stopped_envelope @ [CHR 0x0A])"
  "encode counted_envelope = Inr (dumps counted_envelope @ [CHR 0x0A])"
proof -
  have one: "length (show_int 1) = 1" "length (show_int 2) = 1" "length (show_int 0) = 1"
    by (simp_all add: show_int_def show_nat.simps)
  have "length (dumps stopped_envelope) < MAX_FRAME_BYTES" "length (dumps counted_envelope) < MAX_FRAME_BYTES"
    using length_dumps[of stopped_envelope] length_dumps[of counted_envelope] one
    by (simp_all add: stopped_envelope_def stopped_event_def counted_envelope_def counted_event_def hook_event_def crew_base_def put_def
        MAX_FRAME_BYTES_def)
  then show "encode stopped_envelope = Inr (dumps stopped_envelope @ [CHR 0x0A])"
    "encode counted_envelope = Inr (dumps counted_envelope @ [CHR 0x0A])"
    by (simp_all add: encode_def stop_envelopes_valid Let_def)
qed

section \<open>Both events are reserved\<close>

lemma prepare_next:
  assumes ok: "home_ok loads h" and ev: "producer_event True ev = Inr ev" "is_object ev" "member ''producer_seq'' ev = None"
    and fresh: "map_of (hm_spool h) (event_file ev) = None" and no: "highest_no loads (session_of ev) h = n - 1"
    and env: "envelope (put ''producer_seq'' (JInt n) ev)" "encode (put ''producer_seq'' (JInt n) ev) = Inr data"
  shows "\<exists>h1. prepare_event loads ev h = Inr (put ''producer_seq'' (JInt n) ev, h1)
    \<and> hm_spool h1 = hm_spool h @ [(event_file ev, PrivateFile data)]"
proof -
  let ?m = "put ''producer_seq'' (JInt n) ev"
  have "reserve loads ev h = Inr ?m" using reserve_next[OF ok ev(2,3)] env(1) no by simp
  moreover have "event_file ?m = event_file ev" "seq_of ?m = n"
    using put_texts[OF ev(2)] by (simp_all add: event_file_def)
  ultimately show ?thesis
    using ev(1) fresh env(2) by (simp add: prepare_event_def lift_protocol_def reserve_published_def publish_def save_counter_def)
qed

definition stop_parser :: loader where
  "stop_parser = loads_two stopped_envelope counted_envelope"

lemma stop_events_read:
  "session_of stopped_event = ''s1''" "session_of counted_event = ''s1''" "event_file stopped_event = ''i1.json''"
  "event_file counted_event = ''i0.json''" "member ''producer_seq'' stopped_event = None" "member ''producer_seq'' counted_event = None"
  "is_object stopped_event" "is_object counted_event" "distinct (names stopped_event)" "distinct (names counted_event)"
  by (simp_all add: stopped_event_def counted_event_def hook_event_def crew_base_def str_member_def text_of_def text_or_null_def member_def
      event_file_def is_object_def names_def)

lemma stop_envelopes:
  "envelope stopped_envelope" "envelope counted_envelope" "is_object stopped_envelope" "is_object counted_envelope"
  "distinct (names stopped_envelope)" "distinct (names counted_envelope)"
proof -
  have "is_object (put k v m) = is_object m" for k v m by (cases m) (simp_all add: put_def is_object_def)
  with stop_events_read(7-10) show shape: "is_object stopped_envelope" "is_object counted_envelope"
    "distinct (names stopped_envelope)" "distinct (names counted_envelope)"
    by (simp_all add: stopped_envelope_def counted_envelope_def put_names)
  have "requires_producer_seq ''turn.stop''" "requires_producer_seq ''background.snapshot''"
    by (simp_all add: requires_producer_seq_def lifecycle_rows EVENT_FIELDS_def)
  moreover have "text_of ''type'' stopped_envelope = Some ''turn.stop''" "text_of ''type'' counted_envelope = Some ''background.snapshot''"
    by (simp_all add: stopped_envelope_def counted_envelope_def stopped_event_def counted_event_def hook_event_def crew_base_def put_def
        text_of_def text_or_null_def member_def)
  ultimately show "envelope stopped_envelope" "envelope counted_envelope"
    using stop_envelopes_valid shape(3,4) by (simp_all add: envelope_def producer_event_Inr)
qed

lemma stop_parser_reads: "reads_back stop_parser stopped_envelope" "reads_back stop_parser counted_envelope"
proof -
  have "CHR ''2'' \<notin> set (dumps stopped_envelope)" "CHR ''2'' \<in> set (dumps counted_envelope)"
  proof -
    have code: "digit_char d = c" if "of_char c = 48 + d" for d c
      unfolding digit_char_def that[symmetric] by (rule char_of_char)
    have digits: "digit_char 0 = CHR ''0''" "digit_char 1 = CHR ''1''" "digit_char (Suc 0) = CHR ''1''" "digit_char 2 = CHR ''2''"
      by (rule code; simp)+
    note eval = stopped_envelope_def counted_envelope_def stopped_event_def counted_event_def hook_event_def crew_base_def put_def
      quoted_def escape_char_def show_int_def show_nat.simps digits
    show "CHR ''2'' \<notin> set (dumps stopped_envelope)" by (simp add: eval)
    show "CHR ''2'' \<in> set (dumps counted_envelope)" by (simp add: eval)
  qed
  then have "dumps stopped_envelope \<noteq> dumps counted_envelope" by metis
  then have "encode stopped_envelope \<noteq> encode counted_envelope" by (simp add: stop_envelopes_encode)
  from loads_two_reads[OF this stop_envelopes(3-6)]
  show "reads_back stop_parser stopped_envelope" "reads_back stop_parser counted_envelope" by (simp_all add: stop_parser_def)
qed

lemma stop_events_valid:
  "producer_event True stopped_event = Inr stopped_event" "producer_event True counted_event = Inr counted_event"
proof -
  have base: "crew_base ''s1'' ''t1'' = crew_base ''s1'' ''t1'' \<or> crew_base ''s1'' ''t1'' = watchtower_base ''s1'' ''t1''" by simp
  note valid = hook_events_valid[OF hook_texts(1,2) _ base]
  show "producer_event True stopped_event = Inr stopped_event"
    using valid(6)[OF hook_texts(4)] by (simp add: stopped_event_def is_boolean_def)
  show "producer_event True counted_event = Inr counted_event"
    using valid(5)[OF hook_texts(3)] by (simp add: counted_event_def MAX_INTEGER_def)
qed

lemma stop_prepared:
  "\<exists>h'. prepare_all stop_parser [stopped_event, counted_event] empty_home = (Inr [stopped_envelope, counted_envelope], h')"
proof -
  have fresh: "map_of (hm_spool empty_home) (event_file stopped_event) = None" by (simp add: empty_home_def)
  from prepare_next[OF empty_home_ok(1) stop_events_valid(1) stop_events_read(7,5) fresh, of stop_parser 1]
    stop_envelopes(1) stop_envelopes_encode(1) empty_home_ok(2)
  obtain h1 where h1: "prepare_event stop_parser stopped_event empty_home = Inr (stopped_envelope, h1)"
    "hm_spool h1 = [(''i1.json'', PrivateFile (dumps stopped_envelope @ [CHR 0x0A]))]"
    by (auto simp: stopped_envelope_def stop_events_read empty_home_def)
  from client_step_ok[OF client_step.reserved[OF fresh h1(1) stop_events_read(9) stop_parser_reads(1)] empty_home_ok(1)]
  have ok: "home_ok stop_parser h1" "highest_no stop_parser ''s1'' h1 = 1"
    using stop_events_read(1) put_texts[OF stop_events_read(7)] by (simp_all add: stopped_envelope_def)
  have fresh2: "map_of (hm_spool h1) (event_file counted_event) = None" by (simp add: h1(2) stop_events_read)
  from prepare_next[OF ok(1) stop_events_valid(2) stop_events_read(8,6) fresh2, of 2] ok(2) stop_envelopes(2) stop_envelopes_encode(2)
  obtain h2 where "prepare_event stop_parser counted_event h1 = Inr (counted_envelope, h2)"
    by (auto simp: counted_envelope_def stop_events_read)
  with h1(1) show ?thesis by simp
qed

section \<open>Witnesses\<close>


lemma stop_payload_reads:
  "get ''hook_event_name'' (stop_payload extra) = JStr ''Stop''" "get ''background_tasks'' (stop_payload extra) = JArr []"
  "get ''session_id'' (stop_payload extra) = JStr ''s1''" "is_object (stop_payload extra)"
  by (simp_all add: stop_payload_def get_def member_def is_object_def)

lemma hook_never_guesses_clear_witness:
  "\<exists>t. reduce_all (envelopes 0 [stopped_event, counted_event]) init_lifecycle = Inr t \<and> background t = BgClear
    \<and> (get ''hook_event_name'' (stop_payload []) = JStr ''SessionEnd''
      \<or> get ''hook_event_name'' (stop_payload []) = JStr ''Stop'' \<and> get ''background_tasks'' (stop_payload []) = JArr [])"
proof -
  have evs: "[stopped_event, counted_event] = stop_events hook_ids (crew_base ''s1'' ''t1'') (get ''prompt_id'' (stop_payload [])) (Some 0)"
    using stop_run_events stop_run[of "[]"] by simp
  have init: "pending_events init_lifecycle = []" "\<not> session_ended init_lifecycle" "producer_seq init_lifecycle = 0"
    "background init_lifecycle \<noteq> BgClear" by (simp_all add: init_lifecycle_def)
  have "hook_base (crew_base ''s1'' ''t1'')" using identity_base[OF crew_identity] .
  from stop_reduced[OF this _ init(1,2), of hook_ids "get ''prompt_id'' (stop_payload [])" "Some 0"] init(3)
  obtain t where t: "reduce_all (envelopes (producer_seq init_lifecycle) [stopped_event, counted_event]) init_lifecycle = Inr t"
    "background t = BgClear" unfolding evs by auto
  from hook_never_guesses_clear[OF stop_run_events init_lifecycle_wf init(1,2) t(1) init(4) t(2)] t init(3) show ?thesis by auto
qed

lemma hook_publishes_only_identifiers_witness:
  "claude_main crew_env hook_ids stop_parser [] (Some (stop_payload [(''last_assistant_message'', JStr ''secret'')])) empty_home
    = claude_main crew_env hook_ids stop_parser [] (Some (stop_payload [])) empty_home
   \<and> claude_payload crew_env hook_ids (stop_payload []) = Inr [stopped_event, counted_event]"
proof -
  have "get ''prompt_id'' (stop_payload [(''last_assistant_message'', JStr ''secret'')]) = get ''prompt_id'' (stop_payload [])"
    "get ''agent_id'' (stop_payload [(''last_assistant_message'', JStr ''secret'')]) = get ''agent_id'' (stop_payload [])"
    by (simp_all add: stop_payload_def get_def member_def)
  then have "hook_view (stop_payload [(''last_assistant_message'', JStr ''secret'')]) = hook_view (stop_payload [])"
    by (simp only: hook_view_def stop_payload_reads)
  from hook_publishes_only_identifiers[OF stop_payload_reads(4) stop_payload_reads(4) this] stop_run_events show ?thesis by blast
qed

lemma hook_events_validate_witness:
  "claude_payload crew_env hook_ids (stop_payload []) = Inr [stopped_event, counted_event]
    \<and> list_all (\<lambda>ev. producer_event True ev = Inr ev) [stopped_event, counted_event]"
proof -
  have "id_text (hook_ids n)" for n using hook_texts by (simp add: hook_ids_def)
  moreover have "id_text (env_text (he_session crew_env))" "id_text (env_identity crew_env)"
    using hook_texts by (simp_all add: crew_env_def env_text_def env_identity_def)
  moreover have "get ''prompt_id'' (stop_payload []) = JNull" "get ''agent_id'' (stop_payload []) = JNull"
    by (simp_all add: stop_payload_def get_def member_def)
  ultimately show ?thesis
    using hook_events_validate[OF stop_run_events] stop_run_events by (simp add: stop_payload_reads MAX_INTEGER_def)
qed

lemma only_type_errors_leave_the_hook_witness:
  "claude_main crew_env hook_ids stop_parser [] (Some (JObj [(''hook_event_name'', JArr [])])) empty_home = (Inl TypeError, empty_home)"
proof -
  obtain e h where run: "claude_main crew_env hook_ids stop_parser [] (Some (JObj [(''hook_event_name'', JArr [])])) empty_home = (Inl e, h)"
    by (simp add: claude_main_def claude_payload_def is_object_def get_def member_def among_def no_key_def)
  from only_type_errors_leave_the_hook[OF run] run show ?thesis by simp
qed

lemma bad_prompt_loses_the_count_witness:
  "claude_main crew_env hook_ids stop_parser [] (Some (stop_payload [(''prompt_id'', JStr '' '')])) empty_home = (Inr (), empty_home)"
proof -
  have "get ''prompt_id'' (stop_payload [(''prompt_id'', JStr '' '')]) = JStr '' ''"
    by (simp add: stop_payload_def get_def member_def)
  moreover have "\<not> id_text '' ''" by (simp add: id_text_def is_letter_or_digit_def)
  ultimately show ?thesis using bad_prompt_loses_the_count[OF stop_run stop_payload_reads(1)] by simp
qed

end
