(* ===== verification/Handoff_Files.thy ===== *)
theory Handoff_Files
  imports Handoff Ledger_Item
begin

text \<open>
  The files around the handoff parser: \<open>cursor\<close> and \<open>parse\<close> of
  \<open>lib/rozoro_monitor/handoff.py\<close>, which open paths, and \<open>cursor_value\<close> of
  \<open>watchtower-progress-report/scripts/report.py\<close>, which works on bytes captured before.
  \<open>Path.read_text\<close> decodes UTF-8 (the locale of the program) and translates line ends.
\<close>

section \<open>Integers in text\<close>

definition decimal_digit :: "nat \<Rightarrow> nat option" where
  "decimal_digit c = map_option (\<lambda>s. c - s) (find (\<lambda>s. s \<le> c \<and> c < s + 10) DECIMAL_BLOCKS)"

text \<open>Digits of any script, with single underscores between them.\<close>

fun grouped_digits :: "ucs \<Rightarrow> nat list option" where
  "grouped_digits [] = None"
| "grouped_digits [c] = map_option (\<lambda>d. [d]) (decimal_digit c)"
| "grouped_digits (c # c' # cs) =
     (case decimal_digit c of
        None \<Rightarrow> None
      | Some d \<Rightarrow> map_option (Cons d)
          (if c' = 95 then grouped_digits cs else grouped_digits (c' # cs)))"

text \<open>\<open>int(t)\<close>; \<open>None\<close> is the \<open>ValueError\<close>, also of more than 4300 digits.\<close>

definition py_int :: "ucs \<Rightarrow> int option" where
  "py_int t =
     (let s = strip t;
          signed = (s \<noteq> [] \<and> (hd s = 43 \<or> hd s = 45));
          body = (if signed then tl s else s)
      in case grouped_digits body of
           None \<Rightarrow> None
         | Some ds \<Rightarrow>
             if length ds > 4300 then None
             else Some ((if signed \<and> hd s = 45 then -1 else 1) * int (foldl (\<lambda>n d. 10 * n + d) 0 ds)))"

definition cursor_in :: "ucs \<Rightarrow> ack_cursor" where
  "cursor_in t = (case py_int (strip t) of
     None \<Rightarrow> AckInvalid | Some n \<Rightarrow> if n < 0 then AckInvalid else AckAt n)"

section \<open>The parser's own files\<close>

text \<open>What a path leads to.\<close>

datatype path_file = NoPath | PathError | PathContent bytes

datatype read_failure = ReadOSError | ReadUnicodeError | ParserRaised py_error

text \<open>The newline translation of text files: \<open>\r\n\<close> and \<open>\r\<close> are read as \<open>\n\<close>.\<close>

fun universal_newlines :: "ucs \<Rightarrow> ucs" where
  "universal_newlines [] = []"
| "universal_newlines [c] = [if c = 13 then 10 else c]"
| "universal_newlines (c # d # cs) =
     (if c = 13 \<and> d = 10 then 10 # universal_newlines cs
      else (if c = 13 then 10 else c) # universal_newlines (d # cs))"

text \<open>\<open>cursor(path)\<close>.\<close>

definition cursor_of_path :: "path_file \<Rightarrow> ack_cursor option" where
  "cursor_of_path f = (case f of
     NoPath \<Rightarrow> None
   | PathError \<Rightarrow> Some AckInvalid
   | PathContent bs \<Rightarrow> Some (case utf8_decode bs of
       None \<Rightarrow> AckInvalid | Some t \<Rightarrow> cursor_in (universal_newlines t)))"

text \<open>\<open>parse(path, ack_v2, ack_legacy)\<close>.\<close>

definition parse_files :: "path_file \<Rightarrow> path_file \<Rightarrow> path_file \<Rightarrow> read_failure + handoff_report" where
  "parse_files f ack_v2 ack_legacy =
     and_then
       (case f of
          NoPath \<Rightarrow> Inr []
        | PathError \<Rightarrow> Inl ReadOSError
        | PathContent bs \<Rightarrow> (case utf8_decode bs of
            None \<Rightarrow> Inl ReadUnicodeError | Some t \<Rightarrow> Inr (universal_newlines t)))
       (\<lambda>t. case parse_text t (cursor_of_path ack_v2) (cursor_of_path ack_legacy) of
          Inl e \<Rightarrow> Inl (ParserRaised e) | Inr r \<Rightarrow> Inr r)"

section \<open>Captured files\<close>

text \<open>\<open>SafeDirectory.read_regular\<close>: the state it reports, with the bytes of a regular file.\<close>

datatype capture = Captured bytes | FileMissing | FileUnsafe | FileUnreadable

definition capture_word :: "capture \<Rightarrow> string" where
  "capture_word c = (case c of Captured bs \<Rightarrow> ''regular'' | FileMissing \<Rightarrow> ''missing''
     | FileUnsafe \<Rightarrow> ''unsafe'' | FileUnreadable \<Rightarrow> ''unreadable'')"

definition cursor_value :: "capture \<Rightarrow> ack_cursor option" where
  "cursor_value c = (case c of
     Captured bs \<Rightarrow> Some (case utf8_decode bs of None \<Rightarrow> AckInvalid | Some t \<Rightarrow> cursor_in t)
   | _ \<Rightarrow> None)"

section \<open>Both read the same\<close>

text \<open>Translating line ends does not move them.\<close>

lemma split_from_universal: "split_from cur (universal_newlines t) = split_from cur t"
proof (induction cur t rule: split_from.induct)
  case (3 cur c d cs)
  show ?case
  proof (cases "c = 13 \<and> d = 10")
    case True
    have "split_from cur (10 # s) = cur # split_from [] s" for s
      by (cases s) (simp_all add: is_break_def)
    with True 3 show ?thesis by simp
  next
    case False
    define e where "e = (if c = 13 then 10 else c)"
    have nonempty: "universal_newlines (d # cs) \<noteq> []" by (cases cs) auto
    then obtain d' cs' where s: "universal_newlines (d # cs) = d' # cs'" by (cases "universal_newlines (d # cs)") auto
    have e: "is_break e = is_break c" "e \<noteq> 13" by (auto simp: e_def is_break_def)
    have "split_from cur (universal_newlines (c # d # cs)) = split_from cur (e # d' # cs')"
      using False s by (simp add: e_def)
    also have "\<dots> = (if is_break c then cur # split_from [] (d' # cs') else split_from (cur @ [e]) (d' # cs'))"
      using e by simp
    also have "\<dots> = split_from cur (c # d # cs)"
    proof (cases "is_break c")
      case True
      with False 3 s show ?thesis by auto
    next
      case nb: False
      then have "e = c" by (auto simp: e_def is_break_def)
      with False nb 3 s show ?thesis by auto
    qed
    finally show ?thesis .
  qed
qed (auto simp: is_break_def)

lemma splitlines_universal: "splitlines (universal_newlines t) = splitlines t"
  by (simp add: splitlines_def split_from_universal)

lemma parse_text_universal: "parse_text (universal_newlines t) v2 old = parse_text t v2 old"
  by (simp add: parse_text_def splitlines_universal)

text \<open>Nor does it change what is left after stripping.\<close>

lemma universal_same: "13 \<notin> set t \<Longrightarrow> universal_newlines t = t"
  by (induction t rule: universal_newlines.induct) auto

lemma universal_marks: "13 \<in> set t \<Longrightarrow> 10 \<in> set (universal_newlines t)"
  by (induction t rule: universal_newlines.induct) auto

lemma universal_spaces: "list_all is_space t \<Longrightarrow> list_all is_space (universal_newlines t)"
  by (induction t rule: universal_newlines.induct) (auto simp: is_space_def)

lemma universal_append:
  "t = [] \<or> last t \<noteq> 13 \<Longrightarrow> universal_newlines (t @ s) = universal_newlines t @ universal_newlines s"
proof (induction t rule: universal_newlines.induct)
  case (2 c)
  then show ?case by (cases s) auto
next
  case (3 c d cs)
  then show ?case by (cases "cs = []") auto
qed simp

lemma universal_Nil_iff [simp]: "universal_newlines t = [] \<longleftrightarrow> t = []"
  by (induction t rule: universal_newlines.induct) auto

lemma last_universal: "t \<noteq> [] \<Longrightarrow> last t \<noteq> 13 \<Longrightarrow> last (universal_newlines t) = last t"
proof (induction t rule: universal_newlines.induct)
  case (3 c d cs)
  then show ?case by (cases "cs = []") auto
qed simp_all

lemma lstrip_universal: "lstrip (universal_newlines t) = universal_newlines (lstrip t)"
  by (induction t rule: universal_newlines.induct) (auto simp: lstrip_def is_space_def)

lemma trailing_stripped:
  assumes "m = [] \<or> \<not> is_space (last m)" and "list_all is_space b"
  shows "rev (lstrip (rev (m @ b))) = m"
proof -
  have "dropWhile is_space (rev b @ rev m) = dropWhile is_space (rev m)"
    using assms(2) by (intro dropWhile_append2) (auto simp: list_all_iff)
  also have "\<dots> = rev m" using assms(1) by (cases m rule: rev_cases) auto
  finally show ?thesis by (simp add: lstrip_def)
qed

lemma trailing_cases:
  obtains m b where "t = m @ b" "m = [] \<or> \<not> is_space (last m)" "list_all is_space b"
proof -
  have "t = rev (dropWhile is_space (rev t)) @ rev (takeWhile is_space (rev t))"
    by (metis rev_append rev_rev_ident takeWhile_dropWhile_id)
  moreover have "rev (dropWhile is_space (rev t)) = [] \<or> \<not> is_space (last (rev (dropWhile is_space (rev t))))"
    using hd_dropWhile[of is_space "rev t"] by (metis last_rev rev_is_Nil_conv)
  moreover have "list_all is_space (rev (takeWhile is_space (rev t)))"
    by (auto simp: list_all_iff dest: set_takeWhileD)
  ultimately show ?thesis by (rule that)
qed

lemma strip_universal: "strip (universal_newlines t) = universal_newlines (strip t)"
proof -
  obtain m b where t: "lstrip t = m @ b" "m = [] \<or> \<not> is_space (last m)" "list_all is_space b"
    by (rule trailing_cases)
  then have m: "m = [] \<or> last m \<noteq> 13" by (auto simp: is_space_def)
  have "universal_newlines m = [] \<or> \<not> is_space (last (universal_newlines m))"
    using m t(2) last_universal[of m] by (cases "m = []") auto
  then have "rev (lstrip (rev (universal_newlines m @ universal_newlines b))) = universal_newlines m"
    using universal_spaces[OF t(3)] by (rule trailing_stripped)
  then show ?thesis
    using trailing_stripped[OF t(2,3)] universal_append[OF m, of b] t(1)
    by (simp add: strip_def lstrip_universal)
qed

lemma grouped_digits_accepts:
  "grouped_digits t = Some ds \<Longrightarrow> c \<in> set t \<Longrightarrow> c = 95 \<or> decimal_digit c \<noteq> None"
  by (induction t arbitrary: ds rule: grouped_digits.induct) (auto split: option.splits if_splits)

lemma decimal_digit_break: "decimal_digit 10 = None" "decimal_digit 13 = None"
  by (simp_all add: decimal_digit_def find_None_iff DECIMAL_BLOCKS_def)

lemma py_int_inner:
  assumes "c \<in> set (strip t)" and "c = 10 \<or> c = 13"
  shows "py_int t = None"
proof -
  let ?s = "strip t"
  let ?body = "if ?s \<noteq> [] \<and> (hd ?s = 43 \<or> hd ?s = 45) then tl ?s else ?s"
  have "c \<in> set ?body" using assms by (cases ?s) auto
  moreover have "decimal_digit c = None"
    using assms(2) decimal_digit_break by auto
  ultimately have "grouped_digits ?body = None"
    using grouped_digits_accepts[of ?body _ c] assms(2) by fastforce
  then show ?thesis by (simp add: py_int_def Let_def)
qed

lemma strip_idem: "strip (strip t) = strip t"
proof -
  obtain m b where t: "lstrip t = m @ b" "m = [] \<or> \<not> is_space (last m)" "list_all is_space b"
    by (rule trailing_cases)
  then have s: "strip t = m" using trailing_stripped[OF t(2,3)] by (simp add: strip_def)
  have "m = [] \<or> \<not> is_space (hd m)"
    using t(1) hd_dropWhile[of is_space t] by (cases m) (auto simp: lstrip_def)
  then have "lstrip m = m" by (cases m) (auto simp: lstrip_def)
  then show ?thesis using trailing_stripped[OF t(2), of "[]"] s by (simp add: strip_def)
qed

lemma cursor_in_universal: "cursor_in (universal_newlines t) = cursor_in t"
proof (cases "13 \<in> set (strip t)")
  case True
  then have "py_int (strip t) = None"
    by (intro py_int_inner[of 13]) (simp_all add: strip_idem)
  moreover from True have "py_int (strip (universal_newlines t)) = None"
    using universal_marks[of "strip t"]
    by (intro py_int_inner[of 10]) (simp_all add: strip_universal[symmetric] strip_idem)
  ultimately show ?thesis by (simp add: cursor_in_def)
next
  case False
  then show ?thesis by (simp add: cursor_in_def strip_universal universal_same)
qed

text \<open>
  A capture and a path that show the same file: nothing there, or the same bytes.  Links and errors
  are left out, on which the two readers differ (a link is followed by the path).
\<close>

definition same_file :: "capture \<Rightarrow> path_file \<Rightarrow> bool" where
  "same_file c f \<longleftrightarrow> (case c of Captured bs \<Rightarrow> f = PathContent bs | FileMissing \<Rightarrow> f = NoPath | _ \<Rightarrow> False)"

lemma same_file_cursor: "same_file c f \<Longrightarrow> cursor_value c = cursor_of_path f"
  by (cases c) (auto simp: same_file_def cursor_value_def cursor_of_path_def cursor_in_universal
      split: option.splits)

end
