(* ===== verification/Progress.thy ===== *)
theory Progress
  imports Handoff_Files Protocol
begin

text \<open>
  \<open>watchtower-progress-report/scripts/report.py\<close>: the dated report of what the task folders say.
  Every task is classified from the bytes captured of its five files; the report lists the tasks
  under their classifications.  The JSON library's parser is the parameter \<open>loads\<close>, the digest of
  \<open>hashlib\<close> the parameter \<open>digest\<close>.  The directory checks, the writing of the three artifacts
  and argument parsing are not modelled.  \<open>lower\<close> of \<open>Text\<close> gives the printed form of a
  verdict exactly when it is ASCII, as every verdict of the vocabulary is.
\<close>

section \<open>One task\<close>

text \<open>How \<open>json.loads\<close> fails: with \<open>JSONDecodeError\<close>, or with another exception.\<close>

datatype load_failure = JSONDecodeError | OtherFailure py_error

record captured_files =
  cf_handoff :: capture
  cf_ack_v2 :: capture
  cf_ack_legacy :: capture
  cf_identity :: capture
  cf_session :: capture

datatype classification = UnknownOrMalformed | AcknowledgedNoOutcome | ReportedActive
  | BlockerOrFailure | HumanDecision | ReportedDone

record open_entry =
  oe_turn :: nat
  oe_verdict :: ucs
  oe_input_requested :: bool

record latest_entry =
  le_index :: nat
  le_turn :: nat
  le_verdict :: ucs
  le_valid :: bool
  le_acknowledged :: bool

record parsed_part =
  pp_canonical :: bool
  pp_blocks :: nat
  pp_acked_through :: int
  pp_acked_source :: ack_source
  pp_unresolved :: nat
  pp_error_count :: nat
  pp_open_items :: "open_entry list"
  pp_latest :: "latest_entry option"

text \<open>The part of the handoff record that parsing adds.\<close>

datatype parse_part = NotParsed | ParseUnreadable | ParsedAs parsed_part

record task_record =
  tr_task :: ucs
  tr_identity_json :: string
  tr_session_json :: string
  tr_ack_v2 :: string
  tr_ack_legacy :: string
  tr_file_state :: string
  tr_sha256 :: "string option"
  tr_bytes :: "nat option"
  tr_parse :: parse_part
  tr_classifications :: "classification list"

definition json_shape :: "(ucs \<Rightarrow> load_failure + json) \<Rightarrow> capture \<Rightarrow> py_error + string" where
  "json_shape loads c = (case c of
     Captured bs \<Rightarrow> (case utf8_decode bs of
         None \<Rightarrow> Inr ''malformed''
       | Some t \<Rightarrow> (case loads t of
             Inl JSONDecodeError \<Rightarrow> Inr ''malformed''
           | Inl (OtherFailure e) \<Rightarrow> Inl e
           | Inr (JObj _) \<Rightarrow> Inr ''valid''
           | Inr _ \<Rightarrow> Inr ''malformed''))
   | _ \<Rightarrow> Inr (capture_word c))"

definition BAD_AUXILIARY :: "string set" where
  "BAD_AUXILIARY = {''missing'', ''unsafe'', ''unreadable'', ''malformed''}"

definition open_entry_of :: "open_item \<Rightarrow> open_entry" where
  "open_entry_of i = \<lparr>oe_turn = oi_turn i, oe_verdict = lower (oi_verdict i),
     oe_input_requested = (lower (strip (oi_inputs_needed i)) \<notin> NONE_WORDS)\<rparr>"

definition latest_entry_of :: "int \<Rightarrow> block \<Rightarrow> latest_entry" where
  "latest_entry_of acked b = \<lparr>le_index = blk_index b, le_turn = blk_turn b,
     le_verdict = lower (get_field (blk_fields b) ''verdict''), le_valid = blk_valid b,
     le_acknowledged = (int (blk_index b) \<le> acked)\<rparr>"

definition parsed_part_of :: "handoff_report \<Rightarrow> parsed_part" where
  "parsed_part_of r = \<lparr>pp_canonical = (hr_protocol_errors r = []), pp_blocks = hr_blocks r,
     pp_acked_through = hr_acked_through r, pp_acked_source = hr_acked_source r,
     pp_unresolved = hr_unresolved r, pp_error_count = length (hr_protocol_errors r),
     pp_open_items = map open_entry_of (hr_open_items r),
     pp_latest = map_option (latest_entry_of (hr_acked_through r)) (hr_latest r)\<rparr>"

definition evidence_problem :: "handoff_report \<Rightarrow> string \<Rightarrow> string \<Rightarrow> string \<Rightarrow> string \<Rightarrow> bool" where
  "evidence_problem r identity_state session_state v2 old \<longleftrightarrow>
     hr_protocol_errors r \<noteq> [] \<or> hr_latest r = None
     \<or> identity_state \<in> BAD_AUXILIARY \<or> session_state \<in> BAD_AUXILIARY
     \<or> (\<exists>w \<in> {v2, old}. w \<in> {''unsafe'', ''unreadable''})"

text \<open>The category of a valid latest block that nobody acknowledged.\<close>

definition outcome_of :: "ucs \<Rightarrow> classification list" where
  "outcome_of v =
     (if v = u ''waiting'' then [ReportedActive]
      else if v = u ''blocked'' \<or> v = u ''failed'' then [BlockerOrFailure]
      else if v = u ''needs-action'' then [HumanDecision]
      else if v = u ''done'' then [ReportedDone]
      else [])"

definition add_missing :: "bool \<Rightarrow> classification \<Rightarrow> classification list \<Rightarrow> classification list" where
  "add_missing p c cs = (if p \<and> c \<notin> set cs then cs @ [c] else cs)"

definition classify :: "handoff_report \<Rightarrow> bool \<Rightarrow> classification list" where
  "classify r problem =
     (let items = map open_entry_of (hr_open_items r);
          unacked = (case hr_latest r of None \<Rightarrow> False | Some b \<Rightarrow> int (blk_index b) > hr_acked_through r);
          c0 = (if problem then [UnknownOrMalformed] else []);
          c1 = c0 @ (if hr_latest r \<noteq> None \<and> \<not> unacked \<and> \<not> problem then [AcknowledgedNoOutcome] else []);
          c2 = c1 @ (case hr_latest r of
                 None \<Rightarrow> []
               | Some b \<Rightarrow> if blk_valid b \<and> unacked \<and> \<not> problem
                   then outcome_of (lower (get_field (blk_fields b) ''verdict'')) else [])
      in if problem then c2
         else add_missing (list_ex (\<lambda>i. oe_verdict i = u ''blocked'' \<or> oe_verdict i = u ''failed'') items)
                BlockerOrFailure
              (add_missing (list_ex (\<lambda>i. oe_input_requested i \<or> oe_verdict i = u ''needs-action'') items)
                HumanDecision c2))"

text \<open>\<open>inspect_task\<close>.\<close>

definition inspect_task ::
  "(ucs \<Rightarrow> load_failure + json) \<Rightarrow> (bytes \<Rightarrow> string) \<Rightarrow> ucs \<Rightarrow> captured_files \<Rightarrow> py_error + task_record" where
  "inspect_task loads digest task_id f =
     and_then (json_shape loads (cf_identity f)) (\<lambda>identity_state.
     and_then (json_shape loads (cf_session f)) (\<lambda>session_state.
       let v2 = capture_word (cf_ack_v2 f); old = capture_word (cf_ack_legacy f);
           base = \<lparr>tr_task = task_id, tr_identity_json = identity_state,
             tr_session_json = session_state, tr_ack_v2 = v2, tr_ack_legacy = old,
             tr_file_state = capture_word (cf_handoff f), tr_sha256 = None, tr_bytes = None,
             tr_parse = NotParsed, tr_classifications = [UnknownOrMalformed]\<rparr>
       in Inr (case cf_handoff f of
           Captured bs \<Rightarrow>
             (let rec = base\<lparr>tr_sha256 := Some (digest bs), tr_bytes := Some (length bs)\<rparr> in
              case utf8_decode bs of
                None \<Rightarrow> rec\<lparr>tr_parse := ParseUnreadable\<rparr>
              | Some t \<Rightarrow>
                  (case parse_text t (cursor_value (cf_ack_v2 f)) (cursor_value (cf_ack_legacy f)) of
                     Inl e \<Rightarrow> rec\<lparr>tr_parse := ParseUnreadable\<rparr>
                   | Inr r \<Rightarrow> rec\<lparr>tr_parse := ParsedAs (parsed_part_of r),
                       tr_classifications :=
                         classify r (evidence_problem r identity_state session_state v2 old)\<rparr>))
         | _ \<Rightarrow> base)))"

section \<open>The scan\<close>

text \<open>
  The loop of \<open>main\<close> over the names of the tasks root: \<open>None\<close> is an entry that does not open
  as an owned directory.
\<close>

fun scan_names ::
  "(ucs \<Rightarrow> load_failure + json) \<Rightarrow> (bytes \<Rightarrow> string) \<Rightarrow> (ucs \<Rightarrow> captured_files option) \<Rightarrow> ucs list
     \<Rightarrow> task_record list \<times> nat \<Rightarrow> py_error + task_record list \<times> nat" where
  "scan_names loads digest root [] acc = Inr acc"
| "scan_names loads digest root (name # listed) (records, skipped) =
     (if \<not> safe_token name then scan_names loads digest root listed (records, skipped + 1)
      else case root name of
        None \<Rightarrow> scan_names loads digest root listed (records, skipped + 1)
      | Some f \<Rightarrow> and_then (inspect_task loads digest name f)
          (\<lambda>r. scan_names loads digest root listed (records @ [r], skipped)))"

definition scan_tasks ::
  "(ucs \<Rightarrow> load_failure + json) \<Rightarrow> (bytes \<Rightarrow> string) \<Rightarrow> (ucs \<Rightarrow> captured_files option) \<Rightarrow> ucs list
     \<Rightarrow> py_error + task_record list \<times> nat" where
  "scan_tasks loads digest root listed = scan_names loads digest root (sort listed) ([], 0)"

section \<open>The report\<close>

definition bullet_of :: "task_record \<Rightarrow> ucs" where
  "bullet_of r =
     (let latest = (case tr_parse r of ParsedAs p \<Rightarrow> pp_latest p | _ \<Rightarrow> None);
          unresolved = (case tr_parse r of ParsedAs p \<Rightarrow> pp_unresolved p | _ \<Rightarrow> 0);
          detail = (case latest of
              Some l \<Rightarrow> u ''latest turn '' @ u (show_nat (le_turn l)) @ u '', verdict `'' @ le_verdict l @ u ''`''
            | None \<Rightarrow> u (tr_file_state r));
          more_detail = (if unresolved \<noteq> 0
            then u '', '' @ u (show_nat unresolved) @ u '' unresolved open item(s)'' else [])
      in u ''- `'' @ tr_task r @ u ''` '' @ [8212, 32] @ detail @ more_detail @ u ''.'')"

definition bullet_tasks :: "task_record list \<Rightarrow> classification \<Rightarrow> ucs \<Rightarrow> ucs list" where
  "bullet_tasks records c placeholder =
     (let selected = filter (\<lambda>r. c \<in> set (tr_classifications r)) records in
      if selected = [] then [u ''- '' @ placeholder] else map bullet_of selected)"

text \<open>The lines of \<open>render_report\<close> under its six headings of tasks.\<close>

definition task_sections :: "task_record list \<Rightarrow> ucs list" where
  "task_sections records =
     [u ''## Reported active work (runtime unverified)'', [],
      u ''A valid `waiting` handoff is listed here only as a crew report. Durable task folders cannot certify current foreground/background activity.'', []]
     @ bullet_tasks records ReportedActive (u ''None reported.'')
     @ [[], u ''## Blockers and failures'', []]
     @ bullet_tasks records BlockerOrFailure (u ''None found in canonical unacknowledged evidence.'')
     @ [[], u ''## Human decisions or input needed'', [],
        u ''Question text remains in the source handoff and is not copied into this artifact.'', []]
     @ bullet_tasks records HumanDecision (u ''None found in canonical unacknowledged evidence.'')
     @ [[], u ''## Acknowledged reports (not current outcomes)'', [],
        u ''Task acknowledgement means the report/open item was handled; it does not establish correctness or operator acceptance.'', []]
     @ bullet_tasks records AcknowledgedNoOutcome (u ''None found.'')
     @ [[], u ''## Reported done (unverified and unaccepted)'', []]
     @ bullet_tasks records ReportedDone (u ''None reported.'')
     @ [[], u ''## Unknown or malformed task state'', []]
     @ bullet_tasks records UnknownOrMalformed (u ''None found.'')"

definition canonical_count :: "task_record list \<Rightarrow> nat" where
  "canonical_count records =
     length (filter (\<lambda>r. case tr_parse r of ParsedAs p \<Rightarrow> pp_canonical p | _ \<Rightarrow> False) records)"

definition summary_lines :: "ucs \<Rightarrow> task_record list \<Rightarrow> nat \<Rightarrow> ucs \<Rightarrow> ucs \<Rightarrow> ucs list" where
  "summary_lines created_at records skipped selection root_id =
     [u ''# Watchtower progress report'', [], u ''Generated: `'' @ created_at @ u ''`'', [],
      u ''This is a point-in-time reading of securely captured durable task files. It does not read live runtime state, repository/PR/CI state, prompts, transcripts, environment variables, or session contents. Free-form handoff text is deliberately excluded.'', [],
      u ''## Verified durable facts'', [],
      u ''- Source selection: `'' @ selection @ u ''`; root identifier: `'' @ root_id @ u ''`.'',
      u ''- Read '' @ u (show_nat (length records)) @ u '' safe task director''
        @ (if length records = 1 then u ''y'' else u ''ies'') @ u ''; skipped ''
        @ u (show_nat skipped) @ u '' unsafe or invalid task entries.'',
      u ''- '' @ u (show_nat (canonical_count records))
        @ u '' task handoff(s) passed the canonical parser without protocol errors.'',
      u ''- No task outcome is marked verified or operator-accepted by the evidence boundary used here. A `done` report is not acceptance.'', []]"

definition provenance_lines :: "ucs list" where
  "provenance_lines =
     [[], u ''## Provenance and safety'', [],
      u ''- Machine-readable classifications and per-handoff SHA-256 digests are in `evidence.json`.'',
      u ''- Files are opened without following symlinks and parsed from the captured bytes identified by those digests.'',
      u ''- Brief text, handoff prose, cwd values, session identifiers, credentials, environment, daemon databases, and live host state are excluded.'',
      u ''- Artifacts are owner-private and retained until an operator explicitly deletes the exact run directory.'', []]"

definition render_report :: "ucs \<Rightarrow> task_record list \<Rightarrow> nat \<Rightarrow> ucs \<Rightarrow> ucs \<Rightarrow> ucs" where
  "render_report created_at records skipped selection root_id =
     join_with [10] (summary_lines created_at records skipped selection root_id
       @ task_sections records @ provenance_lines)"

end
