(* ===== verification/Progress_Theorems.thy ===== *)
theory Progress_Theorems
  imports Progress Handoff_Facts
begin

text \<open>
  What the progress report promises, against the canonical parser as the monitor calls it: the
  categories say exactly what the log says, every task is listed, evidence with a problem supports
  no outcome.  And where it does not keep its word: the verdict of a malformed block is printed
  whatever it says, and one number too long in a \<open>session.json\<close> ends the report of all tasks.
\<close>

section \<open>The parsed log\<close>

lemma parse_text_parts:
  assumes "parse_text t v2 old = Inr r"
  shows "hr_latest r = (if hr_block_details r = [] then None else Some (last (hr_block_details r)))"
    and "hr_open_items r = map open_item_of (filter (is_open (hr_acked_through r)) (hr_block_details r))"
    and "hr_unresolved r = length (hr_open_items r)"
proof -
  obtain starts where starts: "starts_from 0 (splitlines t) = Inr starts"
    using assms by (auto simp: parse_text_def Let_def and_then_eq_Inr)
  obtain a s e where "acknowledged (blocks_from (splitlines t) (h2_indices 0 (splitlines t)) 0 0 starts)
      (length (h2_indices 0 (splitlines t))) v2 old = (a, s, e)"
    by (cases "acknowledged (blocks_from (splitlines t) (h2_indices 0 (splitlines t)) 0 0 starts)
      (length (h2_indices 0 (splitlines t))) v2 old")
  with assms starts have "r = \<lparr>hr_blocks = hr_blocks r, hr_legacy_headings = hr_legacy_headings r,
      hr_acked_through = hr_acked_through r, hr_acked_source = hr_acked_source r,
      hr_latest = (if hr_block_details r = [] then None else Some (last (hr_block_details r))),
      hr_block_details = hr_block_details r,
      hr_open_items = map open_item_of (filter (is_open (hr_acked_through r)) (hr_block_details r)),
      hr_unresolved = length (hr_open_items r), hr_protocol_errors = hr_protocol_errors r\<rparr>"
    unfolding parse_text_def Let_def by (auto simp del: length_blocks_from)
  note whole = this
  show "hr_latest r = (if hr_block_details r = [] then None else Some (last (hr_block_details r)))"
    using arg_cong[OF whole, of hr_latest] by (simp only: handoff_report.select_convs)
  show "hr_open_items r = map open_item_of (filter (is_open (hr_acked_through r)) (hr_block_details r))"
    using arg_cong[OF whole, of hr_open_items] by (simp only: handoff_report.select_convs)
  show "hr_unresolved r = length (hr_open_items r)"
    using arg_cong[OF whole, of hr_unresolved] by (simp only: handoff_report.select_convs)
qed

lemma parse_text_blocks:
  assumes "parse_text t v2 old = Inr r"
  shows "map blk_index (hr_block_details r) = [1 ..< length (hr_block_details r) + 1]"
    and "hr_protocol_errors r = [] \<Longrightarrow> b \<in> set (hr_block_details r) \<Longrightarrow> blk_valid b"
proof -
  obtain starts where d: "hr_block_details r = blocks_from (splitlines t) (h2_indices 0 (splitlines t)) 0 0 starts"
    and e: "hr_protocol_errors r = [] \<Longrightarrow> \<forall>b \<in> set (hr_block_details r). blk_errors b = []"
    using assms by (rule parse_text_cases) blast
  show "map blk_index (hr_block_details r) = [1 ..< length (hr_block_details r) + 1]"
    using blocks_from_indices[of _ _ 0 0 starts] d by simp
  have valid: "b \<in> set (blocks_from lines legacy number previous ss) \<Longrightarrow> blk_valid b \<longleftrightarrow> blk_errors b = []"
    for lines legacy number previous ss
    by (induction lines legacy number previous ss rule: blocks_from.induct)
      (auto simp: make_block_def Let_def split: prod.splits)
  show "hr_protocol_errors r = [] \<Longrightarrow> b \<in> set (hr_block_details r) \<Longrightarrow> blk_valid b"
    using e valid d by metis
qed

lemma latest_is_greatest:
  assumes "parse_text t v2 old = Inr r" and "b \<in> set (hr_block_details r)"
  shows "blk_index b \<le> blk_index (last (hr_block_details r))"
proof -
  let ?bs = "hr_block_details r"
  have ix: "map blk_index ?bs = [1 ..< length ?bs + 1]" using assms(1) by (rule parse_text_blocks)
  from assms(2) have ne: "?bs \<noteq> []" by auto
  have "blk_index b \<in> set [1 ..< length ?bs + 1]" using assms(2) ix by (metis image_eqI list.set_map)
  moreover have "blk_index (last ?bs) = last [1 ..< length ?bs + 1]" using ix ne by (metis last_map)
  ultimately show ?thesis using ne by (cases "length ?bs") auto
qed

section \<open>Classification\<close>

abbreviation block_verdict :: "block \<Rightarrow> ucs" where
  "block_verdict b \<equiv> lower (get_field (blk_fields b) ''verdict'')"

abbreviation wants_input :: "block \<Rightarrow> bool" where
  "wants_input b \<equiv> lower (strip (get_field (blk_fields b) ''inputs-needed'')) \<notin> NONE_WORDS"

abbreviation unacked :: "handoff_report \<Rightarrow> block \<Rightarrow> bool" where
  "unacked r b \<equiv> hr_acked_through r < int (blk_index b)"

lemma verdicts_differ:
  "u ''waiting'' \<noteq> u ''blocked''" "u ''waiting'' \<noteq> u ''failed''" "u ''waiting'' \<noteq> u ''needs-action''"
  "u ''waiting'' \<noteq> u ''done''" "u ''blocked'' \<noteq> u ''needs-action''" "u ''blocked'' \<noteq> u ''done''"
  "u ''failed'' \<noteq> u ''needs-action''" "u ''failed'' \<noteq> u ''done''" "u ''needs-action'' \<noteq> u ''done''"
  unfolding u_eq_iff by simp_all

lemma set_add_missing: "set (add_missing p c cs) = set cs \<union> (if p then {c} else {})"
  by (auto simp: add_missing_def)

lemma set_outcome_of:
  "set (outcome_of v) = (if v = u ''waiting'' then {ReportedActive} else {})
     \<union> (if v = u ''blocked'' \<or> v = u ''failed'' then {BlockerOrFailure} else {})
     \<union> (if v = u ''needs-action'' then {HumanDecision} else {})
     \<union> (if v = u ''done'' then {ReportedDone} else {})"
  using verdicts_differ by (auto simp: outcome_of_def simp del: u_simps)

lemma classify_problem [simp]: "classify r True = [UnknownOrMalformed]"
  by (simp add: classify_def Let_def split: option.split)

text \<open>The open items, as the report reads them, in terms of the blocks.\<close>

lemma open_entries:
  assumes "parse_text t v2 old = Inr r"
  shows "list_ex (\<lambda>i. oe_verdict i = u ''blocked'' \<or> oe_verdict i = u ''failed'') (map open_entry_of (hr_open_items r))
      \<longleftrightarrow> (\<exists>b \<in> set (hr_block_details r). unacked r b \<and> (block_verdict b = u ''blocked'' \<or> block_verdict b = u ''failed''))"
    and "list_ex (\<lambda>i. oe_input_requested i \<or> oe_verdict i = u ''needs-action'') (map open_entry_of (hr_open_items r))
      \<longleftrightarrow> (\<exists>b \<in> set (hr_block_details r). unacked r b \<and> (block_verdict b = u ''needs-action'' \<or> wants_input b))"
  using parse_text_parts(2)[OF assms]
  by (auto simp: list_ex_iff open_entry_of_def open_item_of_def is_open_def OPEN_VERDICTS_def simp del: u_simps)

lemma merge_outcomes:
  assumes "pb \<Longrightarrow> e1" and "pn \<Longrightarrow> e2"
  shows "(if pw then {ReportedActive} else {}) \<union> (if pb then {BlockerOrFailure} else {})
      \<union> (if pn then {HumanDecision} else {}) \<union> (if pd then {ReportedDone} else {})
      \<union> (if e2 then {HumanDecision} else {}) \<union> (if e1 then {BlockerOrFailure} else {})
    = (if pw then {ReportedActive} else {}) \<union> (if pd then {ReportedDone} else {})
      \<union> (if e1 then {BlockerOrFailure} else {}) \<union> (if e2 then {HumanDecision} else {})"
  using assms by auto

text \<open>The whole classification of a log without evidence problem.\<close>

lemma set_classify:
  assumes p: "parse_text t v2 old = Inr r" and clean: "hr_protocol_errors r = []"
    and blocks: "hr_block_details r \<noteq> []"
  defines "b \<equiv> last (hr_block_details r)"
  shows "set (classify r False) =
    (if unacked r b then {} else {AcknowledgedNoOutcome})
    \<union> (if unacked r b \<and> block_verdict b = u ''waiting'' then {ReportedActive} else {})
    \<union> (if unacked r b \<and> block_verdict b = u ''done'' then {ReportedDone} else {})
    \<union> (if \<exists>b \<in> set (hr_block_details r). unacked r b \<and> (block_verdict b = u ''blocked'' \<or> block_verdict b = u ''failed'')
        then {BlockerOrFailure} else {})
    \<union> (if \<exists>b \<in> set (hr_block_details r). unacked r b \<and> (block_verdict b = u ''needs-action'' \<or> wants_input b)
        then {HumanDecision} else {})"
proof -
  have latest: "hr_latest r = Some b" using parse_text_parts(1)[OF p] blocks b_def by simp
  have b: "b \<in> set (hr_block_details r)" using blocks b_def by simp
  have valid: "blk_valid b" using parse_text_blocks(2)[OF p clean b] .
  define e1 where "e1 = (\<exists>b \<in> set (hr_block_details r). unacked r b \<and> (block_verdict b = u ''blocked'' \<or> block_verdict b = u ''failed''))"
  define e2 where "e2 = (\<exists>b \<in> set (hr_block_details r). unacked r b \<and> (block_verdict b = u ''needs-action'' \<or> wants_input b))"
  have e: "unacked r b \<Longrightarrow> block_verdict b = u ''blocked'' \<or> block_verdict b = u ''failed'' \<Longrightarrow> e1"
    "unacked r b \<Longrightarrow> block_verdict b = u ''needs-action'' \<Longrightarrow> e2" using b by (auto simp only: e1_def e2_def)
  have c: "set (classify r False) =
    set (if \<not> unacked r b then [AcknowledgedNoOutcome] else [])
    \<union> set (if unacked r b then outcome_of (block_verdict b) else [])
    \<union> (if e2 then {HumanDecision} else {}) \<union> (if e1 then {BlockerOrFailure} else {})"
    using latest valid unfolding classify_def Let_def
    by (simp add: set_add_missing open_entries[OF p, folded e1_def e2_def] del: u_simps)
  show ?thesis
  proof (cases "unacked r b")
    case True
    from e True have e': "block_verdict b = u ''blocked'' \<or> block_verdict b = u ''failed'' \<Longrightarrow> e1"
      "block_verdict b = u ''needs-action'' \<Longrightarrow> e2" by blast+
    have "set (classify r False) = set (outcome_of (block_verdict b))
        \<union> (if e2 then {HumanDecision} else {}) \<union> (if e1 then {BlockerOrFailure} else {})"
      using c True by (simp del: u_simps)
    also have "\<dots> = (if block_verdict b = u ''waiting'' then {ReportedActive} else {})
        \<union> (if block_verdict b = u ''done'' then {ReportedDone} else {})
        \<union> (if e1 then {BlockerOrFailure} else {}) \<union> (if e2 then {HumanDecision} else {})"
      unfolding set_outcome_of using e' by (rule merge_outcomes)
    finally show ?thesis using True unfolding e1_def[symmetric] e2_def[symmetric] by (simp del: u_simps)
  next
    case False
    with c show ?thesis unfolding e1_def[symmetric] e2_def[symmetric] by (simp del: u_simps)
  qed
qed

section \<open>One task in the report\<close>

lemma json_shape_words: "json_shape loads c = Inr w \<Longrightarrow> w = ''valid'' \<or> w \<in> BAD_AUXILIARY"
  by (cases c) (auto simp: json_shape_def BAD_AUXILIARY_def capture_word_def split: option.splits sum.splits
      load_failure.splits json.splits)

lemma valid_is_good: "''valid'' \<notin> BAD_AUXILIARY"
  by (simp add: BAD_AUXILIARY_def)

lemma inspect_cases:
  assumes "inspect_task loads digest name f = Inr rec"
  shows "tr_task rec = name" "tr_ack_v2 rec = capture_word (cf_ack_v2 f)"
    "tr_ack_legacy rec = capture_word (cf_ack_legacy f)"
    "tr_identity_json rec = ''valid'' \<or> tr_identity_json rec \<in> BAD_AUXILIARY"
    "tr_session_json rec = ''valid'' \<or> tr_session_json rec \<in> BAD_AUXILIARY"
proof -
  obtain i s where words: "json_shape loads (cf_identity f) = Inr i" "json_shape loads (cf_session f) = Inr s"
    using assms by (auto simp: inspect_task_def and_then_eq_Inr)
  have "tr_task rec = name \<and> tr_ack_v2 rec = capture_word (cf_ack_v2 f)
      \<and> tr_ack_legacy rec = capture_word (cf_ack_legacy f) \<and> tr_identity_json rec = i \<and> tr_session_json rec = s"
  proof (cases "cf_handoff f")
    case (Captured bs)
    then show ?thesis
    proof (cases "utf8_decode bs")
      case (Some t)
      with Captured show ?thesis using assms words
        by (cases "parse_text t (cursor_value (cf_ack_v2 f)) (cursor_value (cf_ack_legacy f))")
          (auto simp: inspect_task_def Let_def)
    qed (use Captured assms words in \<open>auto simp: inspect_task_def Let_def\<close>)
  qed (use assms words in \<open>auto simp: inspect_task_def Let_def\<close>)
  with words json_shape_words show "tr_task rec = name" "tr_ack_v2 rec = capture_word (cf_ack_v2 f)"
    "tr_ack_legacy rec = capture_word (cf_ack_legacy f)"
    "tr_identity_json rec = ''valid'' \<or> tr_identity_json rec \<in> BAD_AUXILIARY"
    "tr_session_json rec = ''valid'' \<or> tr_session_json rec \<in> BAD_AUXILIARY" by auto
qed

lemma inspect_parsed:
  assumes "inspect_task loads digest name f = Inr rec" and "cf_handoff f = Captured bs"
    and "utf8_decode bs = Some t"
    and "parse_text t (cursor_value (cf_ack_v2 f)) (cursor_value (cf_ack_legacy f)) = Inr r"
  shows "tr_parse rec = ParsedAs (parsed_part_of r)"
    and "tr_classifications rec = classify r (evidence_problem r (tr_identity_json rec)
      (tr_session_json rec) (tr_ack_v2 rec) (tr_ack_legacy rec))"
  using assms by (auto simp: inspect_task_def Let_def and_then_eq_Inr)

text \<open>A record has a parsed log behind it, or no outcome.\<close>

lemma inspect_parsed_cases:
  assumes "inspect_task loads digest name f = Inr rec"
  obtains (parsed) bs t r where "cf_handoff f = Captured bs" "utf8_decode bs = Some t"
      "parse_text t (cursor_value (cf_ack_v2 f)) (cursor_value (cf_ack_legacy f)) = Inr r"
    | (unparsed) "tr_classifications rec = [UnknownOrMalformed]" "\<forall>p. tr_parse rec \<noteq> ParsedAs p"
proof (cases "cf_handoff f")
  case (Captured bs)
  show thesis
  proof (cases "utf8_decode bs")
    case None
    with Captured assms show thesis by (intro unparsed) (auto simp: inspect_task_def Let_def and_then_eq_Inr)
  next
    case (Some t)
    show thesis
    proof (cases "parse_text t (cursor_value (cf_ack_v2 f)) (cursor_value (cf_ack_legacy f))")
      case (Inl e)
      with Captured Some assms show thesis
        by (intro unparsed) (auto simp: inspect_task_def Let_def and_then_eq_Inr)
    next
      case (Inr r)
      with Captured Some show thesis by (rule parsed)
    qed
  qed
qed (use assms unparsed in \<open>auto simp: inspect_task_def Let_def and_then_eq_Inr\<close>)

lemma no_problem_clean:
  assumes "parse_text t v2 old = Inr r" and "\<not> evidence_problem r i s w1 w2"
  shows "hr_protocol_errors r = []" "hr_block_details r \<noteq> []"
  using assms parse_text_parts(1)[OF assms(1)] by (auto simp: evidence_problem_def split: if_splits)

lemma classify_nonempty:
  assumes "parse_text t v2 old = Inr r" and "hr_protocol_errors r = []" and "hr_block_details r \<noteq> []"
  shows "classify r False \<noteq> []" "UnknownOrMalformed \<notin> set (classify r False)"
proof -
  let ?b = "last (hr_block_details r)"
  have b: "?b \<in> set (hr_block_details r)" using assms(3) by simp
  have "block_verdict ?b \<in> VERDICTS"
    using clean_blocks_complete[OF assms(1,2) b] by (simp add: block_complete_def)
  then have "block_verdict ?b = u ''done'' \<or> block_verdict ?b = u ''waiting'' \<or> block_verdict ?b = u ''needs-action''
      \<or> block_verdict ?b = u ''failed'' \<or> block_verdict ?b = u ''blocked''"
    by (simp only: VERDICTS_def insert_iff empty_iff simp_thms)
  then have "set (classify r False) \<noteq> {}"
    unfolding set_classify[OF assms] using b by (auto simp del: u_simps)
  then show "classify r False \<noteq> []" by auto
  show "UnknownOrMalformed \<notin> set (classify r False)"
    unfolding set_classify[OF assms] by (simp del: u_simps)
qed

lemma inspect_listed:
  assumes "inspect_task loads digest name f = Inr rec"
  shows "tr_classifications rec \<noteq> []"
    and "UnknownOrMalformed \<in> set (tr_classifications rec) \<Longrightarrow> tr_classifications rec = [UnknownOrMalformed]"
proof -
  have "tr_classifications rec \<noteq> [] \<and> (UnknownOrMalformed \<in> set (tr_classifications rec)
      \<longrightarrow> tr_classifications rec = [UnknownOrMalformed])"
    using assms
  proof (cases rule: inspect_parsed_cases)
    case (parsed bs t r)
    show ?thesis
    proof (cases "evidence_problem r (tr_identity_json rec) (tr_session_json rec) (tr_ack_v2 rec) (tr_ack_legacy rec)")
      case True
      with inspect_parsed(2)[OF assms parsed] show ?thesis by simp
    next
      case False
      with inspect_parsed(2)[OF assms parsed] classify_nonempty[OF parsed(3) no_problem_clean[OF parsed(3) False]]
      show ?thesis by simp
    qed
  qed simp
  then show "tr_classifications rec \<noteq> []"
    "UnknownOrMalformed \<in> set (tr_classifications rec) \<Longrightarrow> tr_classifications rec = [UnknownOrMalformed]" by auto
qed


text \<open>A task with the one-turn log of \<open>Handoff_Facts\<close> and a parser that reads \<open>{}\<close> only.\<close>

definition loads_empty_object :: "ucs \<Rightarrow> load_failure + json" where
  "loads_empty_object t = (if t = u ''{}'' then Inr (JObj []) else Inl JSONDecodeError)"

definition sample_files :: captured_files where
  "sample_files = \<lparr>cf_handoff = Captured sample_log, cf_ack_v2 = FileMissing, cf_ack_legacy = FileMissing,
     cf_identity = Captured (u ''{}''), cf_session = Captured (u ''{}'')\<rparr>"

lemma utf8_ascii: "list_all (\<lambda>c. c < 128) t \<Longrightarrow> utf8_decode t = Some t"
  by (induction t) (simp_all add: utf8_decode.simps(2))

lemma sample_decoded: "utf8_decode sample_log = Some sample_log"
  by (rule utf8_ascii) (simp add: sample_log_def)

lemma sample_shape: "json_shape loads_empty_object (Captured (u ''{}'')) = Inr ''valid''"
  by (simp add: json_shape_def loads_empty_object_def utf8_ascii)

lemma sample_parsed:
  obtains r b where "parse_text sample_log None None = Inr r" "hr_protocol_errors r = []"
    "hr_block_details r = [b]" "hr_acked_through r = 0" "blk_index b = 1" "blk_fields b = sample_fields"
proof -
  have body: "drop 1 (take 7 sample_all) = sample_body" "sample_all ! 0 = u ''## turn 1''"
    by (simp_all add: sample_all_def sample_body_def del: u_simps)
  define b where "b = make_block sample_all [0] 0 0 0 1 7"
  have b: "blk_index b = 1" "blk_fields b = sample_fields" "blk_errors b = []"
    using body sample_block_fields sample_no_errors by (simp_all add: b_def make_block_def Let_def)
  have blocks: "blocks_from sample_all [0] 0 0 [(0, 1)] = [b]"
    using sample_starts(4) by (simp add: b_def)
  obtain r where r: "parse_text sample_log None None = Inr r" "hr_protocol_errors r = []"
    using sample_log_parse by auto
  have "hr_block_details r = [b]" "hr_acked_through r = 0"
    using r(1) blocks sample_starts sample_lines
    by (auto simp: parse_text_def Let_def acknowledged_def)
  with r b that show thesis by blast
qed

lemma sample_verdict:
  "lower (get_field sample_fields ''verdict'') = u ''waiting''"
  "lower (strip (get_field sample_fields ''inputs-needed'')) \<in> NONE_WORDS"
  by (simp_all add: text_eval get_field_def sample_fields_def NONE_WORDS_def)

lemma sample_inspected:
  "\<exists>rec. inspect_task loads_empty_object digest (u ''t1'') sample_files = Inr rec
     \<and> tr_identity_json rec = ''valid'' \<and> tr_session_json rec = ''valid''"
proof -
  obtain r where "parse_text sample_log None None = Inr r" using sample_log_parse by auto
  then show ?thesis
    by (simp add: inspect_task_def sample_files_def sample_shape sample_decoded cursor_value_def Let_def del: u_simps)
qed


section \<open>The whole report\<close>

lemma scan_names_result:
  assumes "scan_names loads digest root ns (records, skipped) = Inr (records', skipped')"
  shows "\<exists>new_records. records' = records @ new_records
    \<and> map tr_task new_records = filter (\<lambda>n. safe_token n \<and> root n \<noteq> None) ns
    \<and> skipped' + length new_records = skipped + length ns
    \<and> (\<forall>r \<in> set new_records. \<exists>n f. root n = Some f \<and> inspect_task loads digest n f = Inr r)"
  using assms
proof (induction ns arbitrary: records skipped)
  case (Cons n ns)
  show ?case
  proof (cases "safe_token n \<and> root n \<noteq> None")
    case True
    then obtain f where f: "root n = Some f" by auto
    with True Cons.prems obtain r where r: "inspect_task loads digest n f = Inr r"
      and rest: "scan_names loads digest root ns (records @ [r], skipped) = Inr (records', skipped')"
      by (auto simp: and_then_eq_Inr)
    from Cons.IH[OF rest] obtain more_records where
      "records' = (records @ [r]) @ more_records"
      "map tr_task more_records = filter (\<lambda>n. safe_token n \<and> root n \<noteq> None) ns"
      "skipped' + length more_records = skipped + length ns"
      "\<forall>r \<in> set more_records. \<exists>n f. root n = Some f \<and> inspect_task loads digest n f = Inr r" by blast
    with True r f inspect_cases(1)[OF r] show ?thesis by (intro exI[of _ "r # more_records"]) auto
  next
    case False
    with Cons.prems have "scan_names loads digest root ns (records, skipped + 1) = Inr (records', skipped')"
      by (auto split: if_splits)
    with False Cons.IH[of records "skipped + 1"] show ?thesis by auto
  qed
qed simp

lemma listed_bullet:
  "r \<in> set records \<Longrightarrow> c \<in> set (tr_classifications r) \<Longrightarrow> bullet_of r \<in> set (bullet_tasks records c empty_text)"
  by (auto simp: bullet_tasks_def Let_def filter_empty_conv)

lemma section_of: "\<exists>empty_text. set (bullet_tasks records c empty_text) \<subseteq> set (task_sections records)"
  unfolding task_sections_def set_append by (cases c) blast+

text \<open>
  C40: the report leaves no task out.  Its records are those of the entries with a safe name that open
  as directories, in the order of their names; the other entries are counted; and every record
  has its line under at least one heading, under the heading of unknown state only when under no other.
\<close>

theorem report_omits_no_task:
  assumes "scan_tasks loads digest root listed = Inr (records, skipped)"
  shows "map tr_task records = filter (\<lambda>n. safe_token n \<and> root n \<noteq> None) (sort listed)
    \<and> length records + skipped = length listed
    \<and> (\<forall>r \<in> set records. bullet_of r \<in> set (task_sections records)
        \<and> (UnknownOrMalformed \<in> set (tr_classifications r) \<longrightarrow> tr_classifications r = [UnknownOrMalformed]))"
proof -
  have scan: "map tr_task records = filter (\<lambda>n. safe_token n \<and> root n \<noteq> None) (sort listed)"
    "skipped + length records = length listed"
    "\<forall>r \<in> set records. \<exists>n f. root n = Some f \<and> inspect_task loads digest n f = Inr r"
    using scan_names_result[OF assms[unfolded scan_tasks_def]] by auto
  have "bullet_of r \<in> set (task_sections records)
      \<and> (UnknownOrMalformed \<in> set (tr_classifications r) \<longrightarrow> tr_classifications r = [UnknownOrMalformed])"
    if r: "r \<in> set records" for r
  proof -
    obtain n f where i: "inspect_task loads digest n f = Inr r" using scan(3) r by blast
    then obtain c where "c \<in> set (tr_classifications r)" using inspect_listed(1) by fastforce
    then have "bullet_of r \<in> set (task_sections records)"
      using listed_bullet[OF r] section_of[of records c] by blast
    with inspect_listed(2)[OF i] show ?thesis by blast
  qed
  with scan(1,2) show ?thesis by simp
qed

theorem report_omits_no_task_witness:
  "\<exists>records. scan_tasks loads_empty_object (\<lambda>_. ''00'') (\<lambda>n. if n = u ''t1'' then Some sample_files else None)
       [u ''t1'', u ''../x''] = Inr (records, 1)
     \<and> map tr_task records = [u ''t1'']"
proof -
  let ?root = "\<lambda>n. if n = u ''t1'' then Some sample_files else None"
  obtain rec where rec: "inspect_task loads_empty_object (\<lambda>_. ''00'') (u ''t1'') sample_files = Inr rec"
    using sample_inspected by blast
  have tokens: "safe_token (u ''t1'')" "\<not> safe_token (u ''../x'')"
    by (simp_all add: safe_token_def safe_char_def is_letter_def is_digit_def)
  have order: "sort [u ''t1'', u ''../x''] = [u ''../x'', u ''t1'']" by simp
  have scan: "scan_tasks loads_empty_object (\<lambda>_. ''00'') ?root [u ''t1'', u ''../x''] = Inr ([rec], 1)"
    unfolding scan_tasks_def order using tokens rec by (simp del: u_simps)
  have "map tr_task [rec] = filter (\<lambda>n. safe_token n \<and> ?root n \<noteq> None) (sort [u ''t1'', u ''../x''])"
    using report_omits_no_task[OF scan] by blast
  also have "\<dots> = [u ''t1'']" unfolding order using tokens by (simp del: u_simps)
  finally have "map tr_task [rec] = [u ''t1'']" .
  with scan show ?thesis by (intro exI[of _ "[rec]"] conjI)
qed

text \<open>
  One file that the JSON library rejects with an exception other than \<open>JSONDecodeError\<close> (a number of
  more than 4300 digits raises \<open>ValueError\<close>, deep nesting \<open>RecursionError\<close>) ends the
  report of every task, whatever the others say: \<open>json_shape\<close> runs outside the \<open>try\<close>.
\<close>

theorem rejected_session_ends_the_report:
  assumes "name \<in> set listed" and "safe_token name" and "root name = Some f"
    and "cf_session f = Captured bs" and "utf8_decode bs = Some t" and "loads t = Inl (OtherFailure e)"
  shows "\<exists>e'. scan_tasks loads digest root listed = Inl e'"
proof (cases "scan_tasks loads digest root listed")
  case (Inr res)
  obtain records skipped where "res = (records, skipped)" by (cases res)
  with Inr scan_names_result[of loads digest root "sort listed" "[]" 0 records skipped]
  have tasks: "map tr_task records = filter (\<lambda>n. safe_token n \<and> root n \<noteq> None) (sort listed)"
    and from_files: "\<forall>r \<in> set records. \<exists>n f. root n = Some f \<and> inspect_task loads digest n f = Inr r"
    by (auto simp: scan_tasks_def)
  have "name \<in> set (map tr_task records)" using assms(1-3) by (simp add: tasks)
  then obtain r where "r \<in> set records" "tr_task r = name" by auto
  with from_files inspect_cases(1) have "inspect_task loads digest name f = Inr r" using assms(3) by (metis option.inject)
  with assms(4-6) show ?thesis by (auto simp: inspect_task_def and_then_eq_Inr json_shape_def)
qed auto

definition loads_overlong :: "ucs \<Rightarrow> load_failure + json" where
  "loads_overlong t = (if t = u ''{}'' then Inr (JObj [])
     else if list_all is_digit t then Inl (OtherFailure (ValueError ''Exceeds the limit for integer string conversion''))
     else Inl JSONDecodeError)"

lemma overlong_digits:
  "utf8_decode (replicate n 57) = Some (replicate n 57)"
  "loads_overlong (replicate n 57) = Inl (OtherFailure (ValueError ''Exceeds the limit for integer string conversion''))"
proof -
  show "utf8_decode (replicate n 57) = Some (replicate n 57)"
    by (intro utf8_ascii) (simp add: list_all_iff)
  have "replicate n (57 :: nat) \<noteq> u ''{}''" by (cases n) auto
  moreover have "list_all is_digit (replicate n 57)" by (simp add: list_all_iff is_digit_def)
  ultimately show "loads_overlong (replicate n 57) =
      Inl (OtherFailure (ValueError ''Exceeds the limit for integer string conversion''))"
    by (simp add: loads_overlong_def del: u_simps)
qed

lemma replaced_session: "cf_session (sample_files\<lparr>cf_session := c\<rparr>) = c"
  by simp

theorem rejected_session_ends_the_report_witness:
  "\<exists>e'. scan_tasks loads_overlong (\<lambda>_. ''00'')
     (\<lambda>n. Some (if n = u ''t2'' then sample_files\<lparr>cf_session := Captured (replicate 4301 57)\<rparr> else sample_files))
     [u ''t1'', u ''t2''] = Inl e'"
proof (rule rejected_session_ends_the_report)
  show "u ''t2'' \<in> set [u ''t1'', u ''t2'']" by simp
  show "safe_token (u ''t2'')" by (simp add: safe_token_def safe_char_def is_letter_def is_digit_def)
  show "utf8_decode (replicate 4301 57) = Some (replicate 4301 57)"
    by (rule overlong_digits(1))
  show "loads_overlong (replicate 4301 57) = Inl (OtherFailure (ValueError ''Exceeds the limit for integer string conversion''))"
    by (rule overlong_digits(2))
  show "cf_session (sample_files\<lparr>cf_session := Captured (replicate 4301 57)\<rparr>) = Captured (replicate 4301 57)"
    by (rule replaced_session)
qed simp

section \<open>Privacy\<close>

text \<open>
  A task with an outcome adds no free text to the report: its log was parsed, the verdicts of its
  latest turn and of its open items are words of the vocabulary, and its line consists of its name,
  a turn number, such a word and a count.
\<close>

theorem outcome_copies_no_prose:
  assumes "inspect_task loads digest name f = Inr rec" and "UnknownOrMalformed \<notin> set (tr_classifications rec)"
  shows "\<exists>p l. tr_parse rec = ParsedAs p \<and> pp_latest p = Some l \<and> le_verdict l \<in> VERDICTS
    \<and> (\<forall>i \<in> set (pp_open_items p). oe_verdict i \<in> VERDICTS)
    \<and> bullet_of rec = u ''- `'' @ name @ u ''` '' @ [8212, 32] @ u ''latest turn '' @ u (show_nat (le_turn l))
        @ u '', verdict `'' @ le_verdict l @ u ''`''
        @ (if pp_unresolved p = 0 then [] else u '', '' @ u (show_nat (pp_unresolved p)) @ u '' unresolved open item(s)'')
        @ u ''.''"
  using assms(1)
proof (cases rule: inspect_parsed_cases)
  case (parsed bs t r)
  note rec = inspect_parsed[OF assms(1) parsed]
  have ok: "\<not> evidence_problem r (tr_identity_json rec) (tr_session_json rec) (tr_ack_v2 rec) (tr_ack_legacy rec)"
    using rec(2) assms(2) by auto
  note clean = no_problem_clean[OF parsed(3) ok]
  have words: "block_verdict b \<in> VERDICTS" if "b \<in> set (hr_block_details r)" for b
    using clean_blocks_complete[OF parsed(3) clean(1) that] by (simp add: block_complete_def)
  let ?p = "parsed_part_of r" and ?l = "latest_entry_of (hr_acked_through r) (last (hr_block_details r))"
  have latest: "pp_latest ?p = Some ?l"
    using parse_text_parts(1)[OF parsed(3)] clean(2) by (simp add: parsed_part_of_def)
  have "le_verdict ?l \<in> VERDICTS" using words clean(2) by (simp add: latest_entry_of_def)
  moreover have "\<forall>i \<in> set (pp_open_items ?p). oe_verdict i \<in> VERDICTS"
    using parse_text_parts(2)[OF parsed(3)] words
    by (auto simp: parsed_part_of_def open_entry_of_def open_item_of_def)
  ultimately show ?thesis
    using rec(1) latest inspect_cases(1)[OF assms(1)]
    by (intro exI[of _ ?p] exI[of _ ?l] conjI) (simp_all add: bullet_of_def Let_def del: u_simps)
qed (use assms(2) in simp)

theorem outcome_copies_no_prose_witness:
  "\<exists>rec p l. inspect_task loads_empty_object (\<lambda>_. ''00'') (u ''t1'') sample_files = Inr rec
     \<and> tr_parse rec = ParsedAs p \<and> pp_latest p = Some l \<and> le_verdict l \<in> VERDICTS"
proof -
  obtain rec where rec: "inspect_task loads_empty_object (\<lambda>_. ''00'') (u ''t1'') sample_files = Inr rec"
    "tr_identity_json rec = ''valid''" "tr_session_json rec = ''valid''"
    using sample_inspected by blast
  obtain r b where p: "parse_text sample_log None None = Inr r" "hr_protocol_errors r = []"
    "hr_block_details r = [b]" "hr_acked_through r = 0" "blk_index b = 1" "blk_fields b = sample_fields"
    by (rule sample_parsed)
  have files: "cf_handoff sample_files = Captured sample_log"
    "cursor_value (cf_ack_v2 sample_files) = None" "cursor_value (cf_ack_legacy sample_files) = None"
    by (simp_all add: sample_files_def cursor_value_def)
  have "\<not> evidence_problem r (tr_identity_json rec) (tr_session_json rec) (tr_ack_v2 rec) (tr_ack_legacy rec)"
    using p(2,3) rec inspect_cases(2,3)[OF rec(1)] parse_text_parts(1)[OF p(1)]
    by (simp add: evidence_problem_def BAD_AUXILIARY_def sample_files_def capture_word_def)
  with inspect_parsed(2)[OF rec(1) files(1) sample_decoded, unfolded files, OF p(1)]
    classify_nonempty(2)[OF p(1,2)] p(3)
  have "UnknownOrMalformed \<notin> set (tr_classifications rec)" by simp
  from outcome_copies_no_prose[OF rec(1) this] rec(1) show ?thesis by blast
qed

text \<open>
  A log of one turn with one line.  The verdict of a malformed block is not checked before it is
  copied, so whatever follows \<open>verdict:\<close> is printed in the report that promises to exclude it.
\<close>

definition one_verdict :: "ucs \<Rightarrow> ucs" where
  "one_verdict v = u ''## turn 1'' @ 10 # u ''verdict: '' @ v"

text \<open>Lower-case printable ASCII that neither begins nor ends with a blank.\<close>

definition printable :: "ucs \<Rightarrow> bool" where
  "printable v \<longleftrightarrow> v \<noteq> [] \<and> list_all (\<lambda>c. 32 \<le> c \<and> c < 127 \<and> \<not> (65 \<le> c \<and> c \<le> 90)) v \<and> hd v \<noteq> 32 \<and> last v \<noteq> 32"

lemma split_from_plain:
  "list_all (\<lambda>c. \<not> is_break c) t \<Longrightarrow> split_from cur t = (if cur @ t = [] then [] else [cur @ t])"
proof (induction cur t rule: split_from.induct)
  case (3 cur c d cs)
  then have "c \<noteq> 13" by (auto simp: is_break_def)
  with 3 show ?case by auto
qed auto

lemma split_from_line:
  "list_all (\<lambda>c. \<not> is_break c) t \<Longrightarrow> split_from cur (t @ [10]) = [cur @ t]"
proof (induction t arbitrary: cur)
  case Nil
  show ?case by (simp add: is_break_def)
next
  case (Cons c t)
  then have c: "c \<noteq> 13" "\<not> is_break c" by (auto simp: is_break_def)
  show ?case
  proof (cases t)
    case Nil
    with c show ?thesis by (simp add: is_break_def)
  next
    case (Cons d t')
    with c Cons.IH[of "cur @ [c]"] Cons.prems show ?thesis by simp
  qed
qed

lemma printable_facts:
  assumes "printable v"
  shows "list_all (\<lambda>c. c < 128) v" "list_all (\<lambda>c. \<not> is_break c) v" "lower v = v" "strip v = v"
    "dropWhile is_space v = v"
proof -
  have inside: "32 \<le> c \<and> c < 127 \<and> \<not> (65 \<le> c \<and> c \<le> 90)" if "c \<in> set v" for c
    using assms that by (auto simp: printable_def list_all_iff)
  show "list_all (\<lambda>c. c < 128) v" using inside by (fastforce simp: list_all_iff)
  show "list_all (\<lambda>c. \<not> is_break c) v" using inside by (fastforce simp: list_all_iff is_break_def)
  have "lower1 c = [c]" if "c \<in> set v" for c using inside[OF that] by (auto simp: lower1_def)
  then show "lower v = v" unfolding lower_def by (induction v) auto
  have ends: "v \<noteq> []" "\<not> is_space (hd v)" "\<not> is_space (last v)"
    using assms inside[of "hd v"] inside[of "last v"] by (auto simp: printable_def is_space_def)
  from ends show d: "dropWhile is_space v = v" by (cases v) auto
  then show "strip v = v" using trailing_stripped[of v "[]"] ends by (simp add: strip_def lstrip_def)
qed

lemma one_verdict_lines:
  assumes "printable v"
  shows "splitlines (one_verdict v) = [u ''## turn 1'', u ''verdict: '' @ v]"
proof -
  have plain: "list_all (\<lambda>c. \<not> is_break c) (u ''## turn 1'')" "list_all (\<lambda>c. \<not> is_break c) (u ''verdict: '' @ v)"
    using printable_facts(2)[OF assms] by (simp_all add: is_break_def)
  have "splitlines (one_verdict v) = splitlines (u ''## turn 1'' @ [10]) @ splitlines (u ''verdict: '' @ v)"
    unfolding one_verdict_def by (rule splitlines_newline)
  then show ?thesis
    using split_from_line[OF plain(1), of "[]"] split_from_plain[OF plain(2), of "[]"] by (simp add: splitlines_def)
qed

lemma one_verdict_fields:
  assumes "printable v"
  shows "block_fields [u ''verdict: '' @ v] = ([(u ''verdict'', v)], [])"
proof -
  have "match_field (u ''verdict: '' @ v) = Some (u ''verdict'', v)"
    using printable_facts(5)[OF assms] by (simp add: match_field_def name_char_def is_letter_def is_space_def)
  moreover have "lower (u ''verdict'') = u ''verdict''" by (simp add: lower_def lower1_def)
  moreover have "u ''verdict'' \<in> KNOWN" by (simp add: KNOWN_def)
  ultimately show ?thesis
    using printable_facts(4)[OF assms] by (simp add: block_fields_def add_line_def del: u_simps)
qed

lemma one_verdict_parsed:
  assumes "printable v" and "v \<notin> VERDICTS"
  obtains r b where "parse_text (one_verdict v) None None = Inr r" "hr_protocol_errors r \<noteq> []"
    "hr_block_details r = [b]" "hr_open_items r = []" "blk_turn b = 1" "blk_fields b = [(u ''verdict'', v)]"
proof -
  let ?ls = "[u ''## turn 1'', u ''verdict: '' @ v]"
  have starts: "starts_from 0 ?ls = Inr [(0, 1)]" "h2_indices 0 ?ls = [0]"
    by (simp_all add: match_turn_def is_digit_def int_of_digits_def digits_value_def is_h2_def)
  define b where "b = make_block ?ls [0] 0 0 0 1 2"
  have body: "drop (0 + 1) (take 2 ?ls) = [u ''verdict: '' @ v]" by simp
  have b: "blk_turn b = 1" "blk_index b = 1" "blk_fields b = [(u ''verdict'', v)]" "blk_errors b = block_errors_of 0 1 [(u ''verdict'', v)] []"
    using one_verdict_fields[OF assms(1)] unfolding b_def make_block_def body by (simp_all add: Let_def del: u_simps)
  have verdict: "lower (get_field [(u ''verdict'', v)] ''verdict'') = v"
    using printable_facts(3)[OF assms(1)] by (simp add: get_field_def)
  have input: "lower (strip (get_field [(u ''verdict'', v)] ''inputs-needed'')) \<in> NONE_WORDS"
    by (simp add: get_field_def strip_def lstrip_def lower_def NONE_WORDS_def)
  have shut: "\<not> is_open 0 b"
    using assms(2) verdict input b(3) by (auto simp: is_open_def OPEN_VERDICTS_def VERDICTS_def simp del: u_simps)
  have err: "blk_errors b \<noteq> []"
    using assms(2) verdict b(4) by (simp add: block_errors_of_def Let_def del: u_simps)
  have blocks: "blocks_from ?ls [0] 0 0 [(0, 1)] = [b]" by (simp add: b_def numeral_2_eq_2 del: u_simps)
  obtain r where r: "parse_text (one_verdict v) None None = Inr r"
    using parse_text_total[of "one_verdict v"] starts(1) one_verdict_lines[OF assms(1)] by fastforce
  then have "hr_block_details r = [b]" "hr_open_items r = []" "hr_protocol_errors r \<noteq> []"
    using blocks shut err starts unfolding parse_text_def one_verdict_lines[OF assms(1)]
    by (auto simp: Let_def acknowledged_def simp del: u_simps)
  with r b that show thesis by blast
qed

theorem malformed_verdict_is_published:
  assumes "printable v" and "v \<notin> VERDICTS"
    and "inspect_task loads digest name (f\<lparr>cf_handoff := Captured (one_verdict v),
      cf_ack_v2 := FileMissing, cf_ack_legacy := FileMissing\<rparr>) = Inr rec"
  shows "bullet_of rec = u ''- `'' @ name @ u ''` '' @ [8212, 32] @ u ''latest turn '' @ u (show_nat 1)
    @ u '', verdict `'' @ v @ u ''`'' @ u ''.''"
proof -
  obtain r b where p: "parse_text (one_verdict v) None None = Inr r" "hr_protocol_errors r \<noteq> []"
    "hr_block_details r = [b]" "hr_open_items r = []" "blk_turn b = 1" "blk_fields b = [(u ''verdict'', v)]"
    using assms(1,2) by (rule one_verdict_parsed)
  have "utf8_decode (one_verdict v) = Some (one_verdict v)"
    using printable_facts(1)[OF assms(1)] by (intro utf8_ascii) (simp add: one_verdict_def)
  with assms(3) p(1) have "tr_parse rec = ParsedAs (parsed_part_of r)" "tr_task rec = name"
    using inspect_parsed(1)[OF assms(3)] inspect_cases(1)[OF assms(3)] by (simp_all add: cursor_value_def)
  moreover have "pp_latest (parsed_part_of r) = Some (latest_entry_of (hr_acked_through r) b)"
    "pp_unresolved (parsed_part_of r) = 0"
    using parse_text_parts(1,3)[OF p(1)] p(3,4) by (simp_all add: parsed_part_of_def)
  moreover have "le_verdict (latest_entry_of a b) = v" "le_turn (latest_entry_of a b) = 1" for a
    using p(5,6) printable_facts(3)[OF assms(1)] by (simp_all add: latest_entry_of_def get_field_def)
  ultimately show ?thesis by (simp add: bullet_of_def del: u_simps)
qed

theorem malformed_verdict_is_published_witness:
  "\<exists>rec. inspect_task loads_empty_object (\<lambda>_. ''00'') (u ''t1'')
       (sample_files\<lparr>cf_handoff := Captured (one_verdict (u ''done, token hunter2'')),
         cf_ack_v2 := FileMissing, cf_ack_legacy := FileMissing\<rparr>) = Inr rec
     \<and> bullet_of rec = u ''- `t1` '' @ [8212, 32] @ u ''latest turn 1, verdict `done, token hunter2`.''"
proof -
  let ?v = "u ''done, token hunter2''"
  have v: "printable ?v" "?v \<notin> VERDICTS" by (simp_all add: printable_def VERDICTS_def)
  obtain rec where rec: "inspect_task loads_empty_object (\<lambda>_. ''00'') (u ''t1'')
       (sample_files\<lparr>cf_handoff := Captured (one_verdict ?v),
         cf_ack_v2 := FileMissing, cf_ack_legacy := FileMissing\<rparr>) = Inr rec"
    using sample_shape by (simp add: inspect_task_def Let_def sample_files_def del: u_simps)
  from malformed_verdict_is_published[OF v rec] rec show ?thesis
    by (intro exI[of _ rec] conjI) (simp_all add: show_nat.simps digit_char_def)
qed

end
