(* ===== verification/Spec2Isabelle.thy ===== *)
theory Spec2Isabelle
  imports Reducer_Facts Handoff_Facts Delivery_Theorems Coalescer Mailbox Server_Theorems Ledger_Paging Client_Promises Herdr_Runs
    Reducer_Legacy Bridge_Runs Hooks_Runs Progress_Theorems
begin

text \<open>
  A verification development for the Rozoro event bus: the daemon under \<open>lib/rozoro_monitor\<close>, the
  client and the hooks that its producers use, the bridge that the shell commands use, and the attention
  ledger and the progress report of the watchtower.

  \<^bold>\<open>The program.\<close>  Crews (coding agents in terminal panes) emit lifecycle events through
  \<open>client.py\<close>, which reserves a sequence number by publishing the event in a spool directory and then
  sends it over a socket.  The daemon (\<open>server.py\<close>) checks every frame (\<open>protocol.py\<close>), stores the
  event in a log (\<open>store.py\<close>), folds it into the state of its session (\<open>reducer.py\<close>), joins that with
  the crew's handoff log (\<open>handoff.py\<close>) into the projection of its task, and when the projection asks
  for attention puts a new generation on the ledger of every driver (watchtower).  \<open>notify.py\<close>
  collects generations for a short window and wakes the driver; the driver reconciles, which reads the
  projections frozen at that generation, and acknowledges.  \<open>herdr.py\<close> watches which panes exist.
  Drivers keep their own notes with \<open>ledger.py\<close>.

  \<^bold>\<open>Conventions.\<close>  A raise is the \<open>Inl\<close> of a sum, with the exception and its text where the code
  reads the text.  Rows and objects are records, tables and dicts are association lists in the order the
  code has them.  Python's integers are \<open>int\<close> or \<open>nat\<close>; text whose content is inspected is a
  list of code points (\<open>Text\<close>), bytes are numbers below 256 (\<open>Codec\<close>), identifiers are strings.
  The clock, random identifiers, the directory of the tasks, the answers of sockets and the delivery
  of a wake are arguments of the operations that use them.  The parser of the JSON library is the
  parameter \<open>loads\<close> where raw bytes are read; \<open>Protocol\<close> models its values and its printer.

  \<^bold>\<open>Theories and code.\<close>

  \<^item> \<open>Prelude\<close>: results, updates of rows, and the locales \<open>preserved\<close> (an invariant of a step
    relation) and \<open>monotone_run\<close> (a view of the state that only moves up); every state machine below is
    an interpretation of them.  \<open>Text\<close>, \<open>Codec\<close>: white space, line breaks, case, digits;
    UTF-8 and base64.
  \<^item> \<open>Reducer\<close> (\<open>reducer.py\<close>): \<open>LifecycleState\<close>, \<open>reduce_event\<close> with its queue of early
    events, \<open>observe_gone\<close>, \<open>set_adapter_connected\<close>.  \<open>Reducer_Facts\<close>: well-formedness, arrival
    order, what \<open>quiescent\<close> certifies, finality of a session's end.  \<open>Reducer_Legacy\<close>:
    \<open>map_v2_projection\<close>, the record of the previous release, read conservatively.
  \<^item> \<open>Handoff\<close> (\<open>handoff.py\<close>): \<open>parse_text\<close>.  \<open>Handoff_Facts\<close>: what a report without
    errors promises, and what an acknowledgement closes.  \<open>Handoff_Files\<close>: \<open>cursor\<close> and \<open>parse\<close>,
    line ends and integers as the files have them.
  \<^item> \<open>Store_State\<close>: the tables of \<open>store.py\<close> as one record.  \<open>Store_Delivery\<close>: drivers,
    connection epochs, offers, confirmation, reconciliation, acknowledgement.
    \<open>Store_Delivery_Facts\<close>: the contract of one driver's cursors and offers, and the invariant of the
    ledger.  \<open>Delivery_Theorems\<close>: wakes complete, reconciliations are exact, cursors only advance, a
    disabled driver stays disabled, history is frozen.
  \<^item> \<open>Store_Events\<close>: \<open>accept_event\<close>, projections, host liveness, the replay of the log.
    \<open>Store_Events_Facts\<close>, \<open>Event_Theorems\<close>: the invariant of the store, idempotence, the
    log, and that everything asking for attention was announced.
  \<^item> \<open>Pending_Sends\<close>: the follow-up queue and its life cycle.  \<open>Mailbox\<close>: its specification, one
    mailbox per task, and the refinement.
  \<^item> \<open>Coalescer\<close> (\<open>notify.py\<close>): offers and polls with the points where other threads run; the
    collection window and retries.
  \<^item> \<open>Protocol\<close>, \<open>Protocol_Facts\<close> (\<open>protocol.py\<close>): the checks of every message, framing,
    what an accepted message is guaranteed to be.
  \<^item> \<open>Replies\<close>, \<open>Server\<close> (\<open>server.py\<close>): every request handler, error replies, a connection,
    the spool import, the follow-up loop.  \<open>Server_Facts\<close>, \<open>Server_Theorems\<close>: over all reachable
    servers, refused frames are answered, acknowledged events are durable, the spool loses only what
    the log holds, replies validate.
  \<^item> \<open>Client\<close> (\<open>client.py\<close>): reserving, publishing, recovery, exchange, removal.
    \<open>Client_Facts\<close>, \<open>Client_Theorems\<close>, \<open>Client_Promises\<close>: numbers are consecutive, nothing
    published is replaced, only an acknowledgement removes, client and daemon agree on a file; and two
    runs with an import in between that lose an event.
  \<^item> \<open>Herdr\<close>, \<open>Herdr_Monitor\<close> (\<open>herdr.py\<close>): the inventory, the socket's answers, and
    \<open>MembershipMonitor\<close> as interleaved coroutines.  \<open>Herdr_Facts\<close>, \<open>Herdr_Theorems\<close>,
    \<open>Herdr_Runs\<close>: ordering of levels and events, routes, health, torn metadata, lost streams.
  \<^item> \<open>Bridge\<close> (\<open>bin/rzr-event-bus-client.py\<close>): the ledgers of the previous release, the
    exchange with the daemon, every command, and the JSON layout of a projection.  \<open>Bridge_Facts\<close>,
    \<open>Bridge_Theorems\<close>, \<open>Bridge_Runs\<close>: against the server above, the bridge reads every
    report, prints before it acknowledges and comes to its end; two interrupted commands that
    nothing repairs.
  \<^item> \<open>Hooks\<close> (\<open>hooks/*-rozoro-event.py\<close>): what the harnesses report of a session, and its
    reservation.  \<open>Hooks_Theorems\<close>, \<open>Hooks_Runs\<close>: composed with client and reducer, a stop
    certifies exactly what its payload certifies; nothing but identifiers is published.
  \<^item> \<open>Ledger_Item\<close>, \<open>Ledger\<close> (\<open>watchtower-attention-ledger/scripts/ledger.py\<close>): the file of
    an item to the byte, and the commands.  \<open>Ledger_Item_Facts\<close>, \<open>Ledger_Theorems\<close>,
    \<open>Ledger_Paging\<close>: the round trip, items only grow, one open item per task and reason, paging.
  \<^item> \<open>Progress\<close> (\<open>watchtower-progress-report/scripts/report.py\<close>): the classification of a
    task from its captured files, the scan and the text of the report.  \<open>Progress_Theorems\<close>: the
    categories say what the monitor's parser reads from the same files, no task is left out, a task
    with an outcome adds no free text; and a malformed verdict that is printed, a file that ends the report.

  \<^bold>\<open>Bounds and fuel.\<close>  Every operation is a total function; the only recursion that is not
  structural is the drain of early events, which ends because every round consumes one.  The walk over
  the pages of a listing takes the number of pages as fuel; \<open>pages_meet_every_item\<close> proves that
  \<open>length div limit + 1\<close> pages end it.  The limits of the code (frame size, \<open>MAX_INTEGER\<close>,
  the year 9999) are those of the code.

  \<^bold>\<open>Not modelled.\<close>  Sockets, file locks, ownership checks of directories and the order of
  \<open>fsync\<close> calls (\<open>safe_fs.py\<close>, the opening of the home directory): a file operation either
  happens or fails whole.  Start-up and shutdown of the daemon, the migrations of older
  databases (SQL text), argument parsing, and the scripts that only print or forward: the other
  \<open>rzr-*.py\<close>, the shell commands, \<open>snapshot.py\<close>, \<open>rozorod.py\<close>.
\<close>

end
